(* ===== verification/Prelude.thy ===== *)
theory Prelude
  imports Main "HOL-Library.Monad_Syntax" "HOL-Library.Code_Target_Nat"
begin

text \<open>
  What the component theories share: the Python string operations the backend uses
  (\<open>strip\<close>, \<open>lower\<close>, \<open>split\<close>, \<open>startswith\<close>, \<open>int(...)\<close>, decimal rendering), the truncating
  and half-even divisions of its time arithmetic, dictionary reads with a default, and the
  collections of facts that the proofs are written over.

  Strings are Python \<open>str\<close> values over ASCII: one \<open>char\<close> is one code point below 128.
  Clock readings of \<open>datetime\<close> are exact integers, in microseconds.
\<close>

named_theorems py_str \<comment> \<open>definitions of the string operations, for evaluation\<close>
named_theorems py_def \<comment> \<open>definitions of component operations, unfolded in their proofs\<close>

subsection \<open>Characters\<close>

type_synonym usec = int

definition char_nat :: "char \<Rightarrow> nat" where
  [py_str]: "char_nat c = of_char c"

definition is_ws :: "char \<Rightarrow> bool" where
  [py_str]: "is_ws c = (let n = char_nat c in n = 32 \<or> (9 \<le> n \<and> n \<le> 13) \<or> (28 \<le> n \<and> n \<le> 31))"

definition is_digit :: "char \<Rightarrow> bool" where
  [py_str]: "is_digit c = (let n = char_nat c in 48 \<le> n \<and> n \<le> 57)"

definition is_upper :: "char \<Rightarrow> bool" where
  [py_str]: "is_upper c = (let n = char_nat c in 65 \<le> n \<and> n \<le> 90)"

definition is_lower :: "char \<Rightarrow> bool" where
  [py_str]: "is_lower c = (let n = char_nat c in 97 \<le> n \<and> n \<le> 122)"

definition is_alnum :: "char \<Rightarrow> bool" where
  [py_str]: "is_alnum c = (is_digit c \<or> is_upper c \<or> is_lower c)"

text \<open>The regular expression class \<open>\w\<close>.\<close>

definition is_word :: "char \<Rightarrow> bool" where
  [py_str]: "is_word c = (is_alnum c \<or> c = CHR ''_'')"

definition lower_char :: "char \<Rightarrow> char" where
  [py_str]: "lower_char c = (if is_upper c then char_of (char_nat c + 32) else c)"

definition upper_char :: "char \<Rightarrow> char" where
  [py_str]: "upper_char c = (if is_lower c then char_of (char_nat c - 32) else c)"

lemma char_nat_less: "char_nat c < 256"
  by (simp add: char_nat_def)

lemma char_nat_inject: "char_nat c = char_nat d \<longleftrightarrow> c = d"
  by (simp add: char_nat_def)

lemma char_of_nat_eq [py_str]: "char_of n = c \<longleftrightarrow> n mod 256 = (of_char c :: nat)"
  by (simp add: char_of_eq_iff take_bit_eq_mod)

lemma lower_char_idem: "lower_char (lower_char c) = lower_char c"
  using char_nat_less [of c]
  by (auto simp: lower_char_def is_upper_def Let_def char_nat_def take_bit_eq_mod)

subsection \<open>Strings\<close>

definition py_lower :: "string \<Rightarrow> string" where
  [py_str]: "py_lower s = map lower_char s"

definition py_upper :: "string \<Rightarrow> string" where
  [py_str]: "py_upper s = map upper_char s"

definition lstrip_by :: "(char \<Rightarrow> bool) \<Rightarrow> string \<Rightarrow> string" where
  [py_str]: "lstrip_by p s = dropWhile p s"

definition rstrip_by :: "(char \<Rightarrow> bool) \<Rightarrow> string \<Rightarrow> string" where
  [py_str]: "rstrip_by p s = rev (dropWhile p (rev s))"

definition strip_by :: "(char \<Rightarrow> bool) \<Rightarrow> string \<Rightarrow> string" where
  [py_str]: "strip_by p s = rstrip_by p (lstrip_by p s)"

definition py_strip :: "string \<Rightarrow> string" where
  [py_str]: "py_strip s = strip_by is_ws s"

fun starts_with :: "string \<Rightarrow> string \<Rightarrow> bool" where
  "starts_with s [] = True"
| "starts_with [] (p # ps) = False"
| "starts_with (c # cs) (p # ps) = (c = p \<and> starts_with cs ps)"

definition ends_with :: "string \<Rightarrow> string \<Rightarrow> bool" where
  [py_str]: "ends_with s suf = starts_with (rev s) (rev suf)"

text \<open>\<open>sub in s\<close>.\<close>

fun contains_sub :: "string \<Rightarrow> string \<Rightarrow> bool" where
  "contains_sub [] sub = (sub = [])"
| "contains_sub (c # cs) sub = (starts_with (c # cs) sub \<or> contains_sub cs sub)"

text \<open>\<open>s.split(sep)\<close> for a one-character separator: never the empty list.\<close>

fun split_on :: "char \<Rightarrow> string \<Rightarrow> string list" where
  "split_on d [] = [[]]"
| "split_on d (c # cs) =
     (if c = d then [] # split_on d cs
      else (case split_on d cs of [] \<Rightarrow> [[c]] | p # ps \<Rightarrow> (c # p) # ps))"

text \<open>\<open>s.split(sep, 1)\<close> and \<open>s.rsplit(sep, 1)\<close> where the separator occurs.\<close>

definition split_first :: "char \<Rightarrow> string \<Rightarrow> string \<times> string" where
  [py_str]: "split_first d s = (takeWhile (\<lambda>c. c \<noteq> d) s, tl (dropWhile (\<lambda>c. c \<noteq> d) s))"

definition split_last :: "char \<Rightarrow> string \<Rightarrow> string \<times> string" where
  [py_str]: "split_last d s =
     (rev (tl (dropWhile (\<lambda>c. c \<noteq> d) (rev s))), rev (takeWhile (\<lambda>c. c \<noteq> d) (rev s)))"

fun join_with :: "string \<Rightarrow> string list \<Rightarrow> string" where
  "join_with sep [] = []"
| "join_with sep [x] = x"
| "join_with sep (x # y # ys) = x @ sep @ join_with sep (y # ys)"

definition quoted :: "string \<Rightarrow> string" where
  [py_str]: "quoted s = char_of (39::nat) # s @ [char_of (39::nat)]"

text \<open>\<open>s.isdigit()\<close>: false on the empty string.\<close>

definition py_isdigit :: "string \<Rightarrow> bool" where
  [py_str]: "py_isdigit s = (s \<noteq> [] \<and> list_all is_digit s)"

lemma starts_with_append [simp]: "starts_with (p @ s) p"
  by (induction p) auto

lemma starts_with_iff: "starts_with s p \<longleftrightarrow> (\<exists>t. s = p @ t)"
  by (induction s p rule: starts_with.induct) auto

lemma ends_with_iff: "ends_with s p \<longleftrightarrow> (\<exists>t. s = t @ p)"
  by (simp add: ends_with_def starts_with_iff) (metis rev_append rev_rev_ident)

lemma ends_with_append [simp]: "ends_with (t @ p) p"
  by (auto simp: ends_with_iff)

lemma contains_sub_iff: "contains_sub s p \<longleftrightarrow> (\<exists>u v. s = u @ p @ v)"
proof (induction s)
  case Nil
  then show ?case by auto
next
  case (Cons c cs)
  show ?case
  proof
    assume "contains_sub (c # cs) p"
    then consider "starts_with (c # cs) p" | "contains_sub cs p" by auto
    then show "\<exists>u v. c # cs = u @ p @ v"
    proof cases
      case 1
      then obtain t where "c # cs = [] @ p @ t" by (auto simp: starts_with_iff)
      then show ?thesis by blast
    next
      case 2
      then obtain u v where "c # cs = (c # u) @ p @ v" using Cons.IH by auto
      then show ?thesis by blast
    qed
  next
    assume "\<exists>u v. c # cs = u @ p @ v"
    then obtain u v where uv: "c # cs = u @ p @ v" by blast
    show "contains_sub (c # cs) p"
    proof (cases u)
      case Nil
      with uv have "starts_with (c # cs) p" by (auto simp: starts_with_iff)
      then show ?thesis by simp
    next
      case (Cons d u')
      with uv have "cs = u' @ p @ v" by simp
      with Cons.IH show ?thesis by auto
    qed
  qed
qed

lemma split_on_not_Nil [simp]: "split_on d s \<noteq> []"
  by (cases s) (auto split: list.splits)

lemma set_join_with: "p \<in> set ps \<Longrightarrow> set p \<subseteq> set (join_with sep ps)"
  by (induction sep ps rule: join_with.induct) auto

lemma join_split_on: "join_with [d] (split_on d s) = s"
proof (induction s)
  case (Cons c cs)
  then show ?case by (cases "split_on d cs"; cases "tl (split_on d cs)") auto
qed simp

lemma in_split_on: "p \<in> set (split_on d s) \<Longrightarrow> set p \<subseteq> set s"
  using set_join_with [of p "split_on d s" "[d]"] by (simp add: join_split_on)

lemma split_on_no_sep: "p \<in> set (split_on d s) \<Longrightarrow> d \<notin> set p"
  by (induction s arbitrary: p) (auto split: if_splits list.splits)

lemma split_on_single: "d \<notin> set s \<Longrightarrow> split_on d s = [s]"
  by (induction s) auto

lemma in_join_with: "c \<in> set (join_with sep ps) \<Longrightarrow> c \<in> set sep \<or> (\<exists>p \<in> set ps. c \<in> set p)"
  by (induction sep ps rule: join_with.induct) auto

lemma split_on_append: "d \<notin> set p \<Longrightarrow> split_on d (p @ d # s) = p # split_on d s"
  by (induction p) auto

lemma split_on_join:
  "ps \<noteq> [] \<Longrightarrow> \<forall>p \<in> set ps. d \<notin> set p \<Longrightarrow> split_on d (join_with [d] ps) = ps"
proof (induction ps rule: induct_list012)
  case (3 x y zs)
  then show ?case by (simp add: split_on_append)
qed (auto simp: split_on_single)

lemma strip_by_hd: "strip_by p s \<noteq> [] \<Longrightarrow> \<not> p (hd (strip_by p s))"
proof -
  assume ne: "strip_by p s \<noteq> []"
  define t where "t = dropWhile p s"
  have eq: "strip_by p s = rev (dropWhile p (rev t))"
    by (simp add: strip_by_def rstrip_by_def lstrip_by_def t_def)
  obtain u where u: "t = strip_by p s @ u"
    unfolding eq by (metis rev_append rev_rev_ident takeWhile_dropWhile_id)
  with ne have "t \<noteq> []" and "hd t = hd (strip_by p s)" by auto
  then show ?thesis using hd_dropWhile [of p s] by (simp add: t_def)
qed

lemma strip_by_last: "strip_by p s \<noteq> [] \<Longrightarrow> \<not> p (last (strip_by p s))"
  by (simp add: strip_by_def rstrip_by_def last_rev hd_dropWhile)

lemma set_strip_by: "set (strip_by p s) \<subseteq> set s"
  by (auto simp: strip_by_def rstrip_by_def lstrip_by_def dest!: set_dropWhileD)

lemma dropWhile_id: "s = [] \<or> \<not> p (hd s) \<Longrightarrow> dropWhile p s = s"
  by (cases s) auto

lemma strip_by_id: "s = [] \<or> (\<not> p (hd s) \<and> \<not> p (last s)) \<Longrightarrow> strip_by p s = s"
  by (auto simp: strip_by_def rstrip_by_def lstrip_by_def dropWhile_id hd_rev)

lemma py_lower_idem [simp]: "py_lower (py_lower s) = py_lower s"
  by (simp add: py_lower_def lower_char_idem comp_def)

subsection \<open>Decimal numbers\<close>

definition digit_char :: "nat \<Rightarrow> char" where
  [py_str]: "digit_char d = char_of (48 + d)"

definition digit_val :: "char \<Rightarrow> nat" where
  [py_str]: "digit_val c = char_nat c - 48"

fun nat_str :: "nat \<Rightarrow> string" where
  "nat_str n = (if n < 10 then [digit_char n] else nat_str (n div 10) @ [digit_char (n mod 10)])"

declare nat_str.simps [simp del]

definition int_str :: "int \<Rightarrow> string" where
  [py_str]: "int_str i = (if i < 0 then ''-'' @ nat_str (nat (- i)) else nat_str (nat i))"

definition digits_val :: "string \<Rightarrow> nat" where
  [py_str]: "digits_val s = foldl (\<lambda>n c. 10 * n + digit_val c) 0 s"

text \<open>
  Python's \<open>int(s)\<close>: surrounding white space is dropped, then an optional sign and a non-empty
  run of digits with single underscores between digits; more than 4300 digits are refused.
  \<open>None\<close> is the \<open>ValueError\<close>.
\<close>

fun underscores_ok :: "bool \<Rightarrow> string \<Rightarrow> bool" where
  "underscores_ok after_digit [] = after_digit"
| "underscores_ok after_digit (c # cs) =
     (if is_digit c then underscores_ok True cs
      else if c = CHR ''_'' then after_digit \<and> underscores_ok False cs
      else False)"

definition py_nat :: "string \<Rightarrow> nat option" where
  [py_str]: "py_nat s =
     (let ds = filter (\<lambda>c. c \<noteq> CHR ''_'') s in
      if underscores_ok False s \<and> length ds \<le> 4300 then Some (digits_val ds) else None)"

definition py_int :: "string \<Rightarrow> int option" where
  [py_str]: "py_int s =
     (case py_strip s of
        [] \<Rightarrow> None
      | c # cs \<Rightarrow>
          if c = CHR ''-'' then map_option (\<lambda>n. - int n) (py_nat cs)
          else if c = CHR ''+'' then map_option int (py_nat cs)
          else map_option int (py_nat (c # cs)))"

lemma char_nat_digit_char: "d < 10 \<Longrightarrow> char_nat (digit_char d) = 48 + d"
  by (simp add: char_nat_def digit_char_def take_bit_eq_mod)

lemma is_digit_digit_char: "d < 10 \<Longrightarrow> is_digit (digit_char d)"
  by (simp add: is_digit_def char_nat_digit_char Let_def)

lemma digit_val_digit_char: "d < 10 \<Longrightarrow> digit_val (digit_char d) = d"
  by (simp add: digit_val_def char_nat_digit_char)

lemma nat_str_not_Nil [simp]: "nat_str n \<noteq> []"
  by (subst nat_str.simps) simp

lemma nat_str_0: "nat_str 0 = ''0''"
  by (subst nat_str.simps) (simp add: digit_char_def char_of_eq_iff take_bit_eq_mod)

lemma length_nat_str_1000: "n < 1000 \<Longrightarrow> length (nat_str n) \<le> 3"
proof -
  assume n: "n < 1000"
  have "n div 10 div 10 < 10" using n by simp
  then have "length (nat_str (n div 10 div 10)) \<le> 1" by (subst nat_str.simps) simp
  then have "length (nat_str (n div 10)) \<le> 2" by (subst nat_str.simps) simp
  then show ?thesis by (subst nat_str.simps) simp
qed

lemma hd_nat_str: "0 < n \<Longrightarrow> hd (nat_str n) \<noteq> CHR ''0''"
proof (induction n rule: nat_str.induct)
  case (1 n)
  have zero: "char_nat (CHR ''0'') = 48" by (simp add: char_nat_def)
  have "char_nat (digit_char n) \<noteq> char_nat (CHR ''0'')" if "n < 10"
    using 1(2) that by (simp add: char_nat_digit_char zero)
  then have "digit_char n \<noteq> CHR ''0''" if "n < 10" using that by fastforce
  then show ?case using 1 by (subst nat_str.simps) auto
qed

lemma nat_str_digits: "list_all is_digit (nat_str n)"
proof (induction n rule: nat_str.induct)
  case (1 n)
  then show ?case
    by (subst nat_str.simps) (auto simp: is_digit_digit_char)
qed

lemma digits_val_nat_str: "digits_val (nat_str n) = n"
proof (induction n rule: nat_str.induct)
  case (1 n)
  then show ?case
    by (subst nat_str.simps) (auto simp: digits_val_def digit_val_digit_char)
qed

lemma nat_str_inject [simp]: "nat_str m = nat_str n \<longleftrightarrow> m = n"
  by (metis digits_val_nat_str)

lemma underscores_ok_digits: "list_all is_digit s \<Longrightarrow> s \<noteq> [] \<or> b \<Longrightarrow> underscores_ok b s"
  by (induction s arbitrary: b) auto

lemma is_digit_props:
  "is_digit c \<Longrightarrow> c \<noteq> CHR ''_'' \<and> c \<noteq> CHR ''-'' \<and> c \<noteq> CHR ''+'' \<and> \<not> is_ws c"
  by (auto simp: is_digit_def is_ws_def char_nat_def Let_def)

lemma py_nat_digits:
  assumes "list_all is_digit s" and "s \<noteq> []" and "length s \<le> 4300"
  shows "py_nat s = Some (digits_val s)"
proof -
  have "filter (\<lambda>c. c \<noteq> CHR ''_'') s = s"
    using assms(1) by (auto simp: filter_id_conv list_all_iff dest: is_digit_props)
  then show ?thesis
    using assms underscores_ok_digits [of s False] by (simp add: py_nat_def Let_def)
qed

lemma py_int_digits:
  assumes "list_all is_digit s" and "s \<noteq> []" and "length s \<le> 4300"
  shows "py_int s = Some (int (digits_val s))"
proof -
  from assms(1,2) have "is_digit (hd s)" and "is_digit (last s)"
    by (auto simp: list_all_iff)
  then have "py_strip s = s"
    by (simp add: py_strip_def strip_by_id is_digit_props)
  moreover have "\<exists>c cs. s = c # cs \<and> is_digit c"
    using assms(1,2) by (cases s) auto
  ultimately show ?thesis
    using py_nat_digits [OF assms] by (auto simp: py_int_def dest: is_digit_props)
qed

subsection \<open>Integer division of clock arithmetic\<close>

text \<open>\<open>int(x)\<close> of a quotient truncates towards zero.\<close>

definition trunc_div :: "int \<Rightarrow> int \<Rightarrow> int" where
  [py_str]: "trunc_div a b = (if (a < 0) = (b < 0) then \<bar>a\<bar> div \<bar>b\<bar> else - (\<bar>a\<bar> div \<bar>b\<bar>))"

text \<open>Rounding \<open>a / b\<close> (\<open>b > 0\<close>) to the nearest integer, ties to the even one.\<close>

definition round_half_even :: "int \<Rightarrow> int \<Rightarrow> int" where
  [py_str]: "round_half_even a b =
     (let q = a div b; r = a mod b in
      if 2 * r < b then q else if 2 * r > b then q + 1
      else if even q then q else q + 1)"

lemma trunc_div_nonneg: "0 \<le> a \<Longrightarrow> 0 < b \<Longrightarrow> trunc_div a b = a div b"
  by (simp add: trunc_div_def)

subsection \<open>Dictionaries and lists\<close>

definition dget :: "('k \<rightharpoonup> 'v) \<Rightarrow> 'k \<Rightarrow> 'v \<Rightarrow> 'v" where
  "dget m k d = (case m k of None \<Rightarrow> d | Some v \<Rightarrow> v)"

lemma dget_simps [simp]:
  "dget (m(k \<mapsto> v)) k d = v"
  "k' \<noteq> k \<Longrightarrow> dget (m(k \<mapsto> v)) k' d = dget m k' d"
  "dget Map.empty k d = d"
  by (simp_all add: dget_def)

lemma dget_upd: "dget (m(k \<mapsto> v)) k' d = (if k' = k then v else dget m k' d)"
  by (simp add: dget_def)

text \<open>\<open>xs[-n:]\<close> for \<open>n > 0\<close> and the whole list for \<open>n = 0\<close>, as Python slices.\<close>

definition last_n :: "nat \<Rightarrow> 'a list \<Rightarrow> 'a list" where
  "last_n n xs = (if n = 0 then xs else drop (length xs - n) xs)"

lemma length_last_n: "0 < n \<Longrightarrow> length (last_n n xs) \<le> n"
  by (simp add: last_n_def)

text \<open>\<open>xs[-n:]\<close> for any integer \<open>n\<close>.\<close>

definition tail_slice :: "int \<Rightarrow> 'a list \<Rightarrow> 'a list" where
  "tail_slice n xs = (if 0 < n then drop (length xs - nat n) xs else drop (nat (- n)) xs)"

lemma length_tail_slice: "0 < n \<Longrightarrow> int (length (tail_slice n xs)) = min n (int (length xs))"
  by (auto simp: tail_slice_def)

lemma filter_filter_stronger:
  "(\<And>x. P x \<Longrightarrow> Q x) \<Longrightarrow> filter P (filter Q xs) = filter P xs"
  by (induction xs) auto

lemma length_filter_mono:
  "(\<And>x. P x \<Longrightarrow> Q x) \<Longrightarrow> length (filter P xs) \<le> length (filter Q xs)"
  by (induction xs) (auto simp: le_SucI)

subsection \<open>Insertion-ordered dictionaries\<close>

text \<open>
  Where the order of a dictionary matters (iteration, stable sorting) it is an association list:
  assigning an existing key keeps its place, a new key goes last.
\<close>

fun aput :: "'k \<Rightarrow> 'v \<Rightarrow> ('k \<times> 'v) list \<Rightarrow> ('k \<times> 'v) list" where
  "aput k v [] = [(k, v)]"
| "aput k v ((k', v') # xs) = (if k = k' then (k, v) # xs else (k', v') # aput k v xs)"

definition adel :: "'k \<Rightarrow> ('k \<times> 'v) list \<Rightarrow> ('k \<times> 'v) list" where
  "adel k xs = filter (\<lambda>p. fst p \<noteq> k) xs"

definition akeys :: "('k \<times> 'v) list \<Rightarrow> 'k list" where
  "akeys xs = map fst xs"

definition adels :: "'k list \<Rightarrow> ('k \<times> 'v) list \<Rightarrow> ('k \<times> 'v) list" where
  "adels ks xs = fold adel ks xs"

lemma map_of_aput [simp]: "map_of (aput k v xs) = (map_of xs)(k \<mapsto> v)"
  by (induction k v xs rule: aput.induct) (auto simp: fun_eq_iff)

lemma akeys_aput [simp]: "akeys (aput k v xs) = (if k \<in> set (akeys xs) then akeys xs else akeys xs @ [k])"
  by (induction k v xs rule: aput.induct) (auto simp: akeys_def)

lemma distinct_aput [simp]: "distinct (akeys (aput k v xs)) = distinct (akeys xs)"
  by simp

lemma adels_filter: "adels ks xs = filter (\<lambda>p. fst p \<notin> set ks) xs"
  by (induction ks arbitrary: xs) (auto simp: adels_def adel_def intro!: filter_cong)

lemma map_of_adel: "map_of (adel k xs) k' = (if k' = k then None else map_of xs k')"
  by (induction xs) (auto simp: adel_def)

lemma map_of_adels: "map_of (adels ks xs) k = (if k \<in> set ks then None else map_of xs k)"
  by (induction xs) (auto simp: adels_filter)

lemma akeys_adel [simp]: "akeys (adel k xs) = filter (\<lambda>x. x \<noteq> k) (akeys xs)"
  by (induction xs) (auto simp: adel_def akeys_def)

lemma akeys_adels [simp]: "akeys (adels ks xs) = filter (\<lambda>x. x \<notin> set ks) (akeys xs)"
  by (induction xs) (auto simp: adels_filter akeys_def)

lemma map_of_eq_None_akeys: "map_of xs k = None \<longleftrightarrow> k \<notin> set (akeys xs)"
  by (simp add: map_of_eq_None_iff akeys_def)

lemma length_akeys [simp]: "length (akeys xs) = length xs"
  by (simp add: akeys_def)

end
