(* ===== verification/Sliding_Window.thy ===== *)
theory Sliding_Window
  imports Prelude
begin

text \<open>
  The contract the per-client limiters of \<open>ratelimit.py\<close> share: a request names a bucket, the
  bucket stores the times of the requests it admitted, and a request is admitted exactly when
  fewer than \<open>quota\<close> of them lie in the window of \<open>width\<close> microseconds that ends now. The
  consequences that matter to an operator are proved here once: no window of that width, wherever
  it ends, holds more than \<open>quota\<close> admissions, and a bucket's decisions do not depend on the
  requests of other buckets.
\<close>

definition recent :: "usec \<Rightarrow> usec \<Rightarrow> usec list \<Rightarrow> usec list" where
  "recent width now ts = filter (\<lambda>t. now - width < t) ts"

lemma recent_recent: "now \<le> later \<Longrightarrow> recent w later (recent w now ts) = recent w later ts"
  unfolding recent_def by (rule filter_filter_stronger) simp

lemma recent_append: "recent w now (xs @ ys) = recent w now xs @ recent w now ys"
  by (simp add: recent_def)

lemma recent_eq_later:
  "recent w now xs = recent w now ys \<Longrightarrow> now \<le> later \<Longrightarrow> recent w later xs = recent w later ys"
  by (metis recent_recent)

text \<open>The calls a limiter admits, in order, and its state after them.\<close>

fun admitted_calls :: "('t \<Rightarrow> 'r \<Rightarrow> 's \<Rightarrow> bool \<times> 's) \<Rightarrow> ('t \<times> 'r) list \<Rightarrow> 's \<Rightarrow> ('t \<times> 'r) list" where
  "admitted_calls step [] s = []"
| "admitted_calls step ((now, r) # cs) s =
     (case step now r s of
        (b, s') \<Rightarrow> (if b then (now, r) # admitted_calls step cs s' else admitted_calls step cs s'))"

fun state_after :: "('t \<Rightarrow> 'r \<Rightarrow> 's \<Rightarrow> bool \<times> 's) \<Rightarrow> ('t \<times> 'r) list \<Rightarrow> 's \<Rightarrow> 's" where
  "state_after step [] s = s"
| "state_after step ((now, r) # cs) s = state_after step cs (snd (step now r s))"

definition in_window :: "usec \<Rightarrow> usec \<Rightarrow> usec \<Rightarrow> bool" where
  "in_window width hi t \<longleftrightarrow> hi - width < t \<and> t \<le> hi"

definition bucket_times :: "('r \<Rightarrow> 'k) \<Rightarrow> 'k \<Rightarrow> (usec \<times> 'r) list \<Rightarrow> usec list" where
  "bucket_times ident k calls = map fst (filter (\<lambda>c. ident (snd c) = k) calls)"

lemma bucket_times_simps [simp]:
  "bucket_times ident k [] = []"
  "bucket_times ident k (c # cs) =
     (if ident (snd c) = k then fst c # bucket_times ident k cs else bucket_times ident k cs)"
  by (simp_all add: bucket_times_def)

locale sliding_window =
  fixes ident :: "'r \<Rightarrow> 'k"
    and stored :: "'s \<Rightarrow> 'k \<Rightarrow> usec list"
    and step :: "usec \<Rightarrow> 'r \<Rightarrow> 's \<Rightarrow> bool \<times> 's"
    and width :: usec
    and quota :: int
  assumes admit_law:
      "step now r s = (True, s') \<Longrightarrow>
         int (length (recent width now (stored s (ident r)))) < quota \<and>
         stored s' (ident r) = recent width now (stored s (ident r)) @ [now]"
    and reject_law:
      "step now r s = (False, s') \<Longrightarrow>
         quota \<le> int (length (recent width now (stored s (ident r)))) \<and>
         recent width now (stored s' (ident r)) = recent width now (stored s (ident r))"
    and frame_law:
      "step now r s = (b, s') \<Longrightarrow> k \<noteq> ident r \<Longrightarrow>
         recent width now (stored s' k) = recent width now (stored s k)"
begin

lemma decision:
  "fst (step now r s) \<longleftrightarrow> int (length (recent width now (stored s (ident r)))) < quota"
proof -
  obtain b s' where "step now r s = (b, s')" by (cases "step now r s")
  then show ?thesis
    using admit_law [of now r s s'] reject_law [of now r s s'] by (cases b) auto
qed

text \<open>
  The induction carries the times \<open>past\<close> a bucket admitted before: from \<open>before\<close> on, the stored
  list and \<open>past\<close> agree in every window that ends no earlier, and every window of \<open>past\<close> is
  within the quota.
\<close>

lemma windows_bounded_from:
  assumes "sorted (map fst calls)" and "\<forall>c \<in> set calls. before \<le> fst c"
    and "\<forall>t \<in> set past. t \<le> before"
    and "\<And>t. before \<le> t \<Longrightarrow> recent width t (stored s k) = recent width t past"
    and "\<And>hi. length (filter (in_window width hi) past) \<le> nat quota"
  shows "length (filter (in_window width hi) (past @ bucket_times ident k (admitted_calls step calls s)))
           \<le> nat quota"
  using assms
proof (induction calls arbitrary: s past before)
  case Nil
  then show ?case by simp
next
  case (Cons c cs)
  obtain now r where c: "c = (now, r)" by (cases c)
  obtain b s' where st: "step now r s = (b, s')" by (cases "step now r s")
  from Cons.prems(1,2) have srt: "sorted (map fst cs)" and le: "\<forall>d \<in> set cs. now \<le> fst d"
    and now: "before \<le> now" by (auto simp: c)
  show ?case
  proof (cases "b \<and> ident r = k")
    case True
    let ?past = "past @ [now]"
    have law: "int (length (recent width now past)) < quota"
        "stored s' k = recent width now (stored s k) @ [now]"
      using admit_law [of now r s s'] st True Cons.prems(4) [OF now] by auto
    have agree: "recent width t (stored s' k) = recent width t ?past" if "now \<le> t" for t
      using that now Cons.prems(4) [of t] by (simp add: law(2) recent_append recent_recent)
    have bound: "length (filter (in_window width hi) ?past) \<le> nat quota" for hi
    proof (cases "in_window width hi now")
      case True
      then have "length (filter (in_window width hi) past) \<le> length (recent width now past)"
        unfolding recent_def by (intro length_filter_mono) (auto simp: in_window_def)
      with law(1) show ?thesis by auto
    next
      case False
      with Cons.prems(5) show ?thesis by simp
    qed
    have "\<forall>t \<in> set ?past. t \<le> now"
      using Cons.prems(3) now by auto
    from Cons.IH [OF srt le this agree bound] show ?thesis
      using st True by (simp add: c)
  next
    case False
    have "recent width now (stored s' k) = recent width now (stored s k)"
      using st False reject_law [of now r s s'] frame_law [of now r s b s' k] by (cases b) auto
    then have agree: "recent width t (stored s' k) = recent width t past" if "now \<le> t" for t
      using that now Cons.prems(4) [of t] by (metis dual_order.trans recent_eq_later)
    have "\<forall>t \<in> set past. t \<le> now"
      using Cons.prems(3) now by auto
    from Cons.IH [OF srt le this agree Cons.prems(5)] show ?thesis
      using st False by (auto simp: c)
  qed
qed

lemma windows_bounded:
  assumes srt: "sorted (map fst calls)" and empty: "stored s k = []"
  shows "length (filter (in_window width hi) (bucket_times ident k (admitted_calls step calls s)))
           \<le> nat quota"
proof (cases calls)
  case (Cons c cs)
  have "length (filter (in_window width hi) ([] @ bucket_times ident k (admitted_calls step calls s)))
          \<le> nat quota"
    by (rule windows_bounded_from [where before = "fst c"])
      (use srt empty in \<open>auto simp: Cons recent_def\<close>)
  then show ?thesis by simp
qed simp

text \<open>A bucket's decision is the same whatever other buckets asked for in between.\<close>

lemma isolated_state:
  assumes "\<forall>c \<in> set calls. fst c \<le> now \<and> ident (snd c) \<noteq> k"
  shows "recent width now (stored (state_after step calls s) k) = recent width now (stored s k)"
  using assms
proof (induction calls arbitrary: s)
  case (Cons c cs)
  obtain t r where c: "c = (t, r)" by (cases c)
  obtain b s' where st: "step t r s = (b, s')" by (cases "step t r s")
  have "recent width t (stored s' k) = recent width t (stored s k)"
    using frame_law [OF st, of k] Cons.prems by (auto simp: c)
  then have "recent width now (stored s' k) = recent width now (stored s k)"
    by (rule recent_eq_later) (use Cons.prems in \<open>simp add: c\<close>)
  with Cons.IH [of s'] Cons.prems show ?case by (simp add: c st)
qed simp

lemma isolated_decision:
  assumes "\<forall>c \<in> set calls. fst c \<le> now \<and> ident (snd c) \<noteq> ident r"
  shows "fst (step now r (state_after step calls s)) = fst (step now r s)"
  by (simp add: decision isolated_state [OF assms])

end

end
