(* ===== verification/Rate_Limits.thy ===== *)
theory Rate_Limits
  imports Sliding_Window "HOL-Library.Multiset"
begin

text \<open>
  The limiters of \<open>backend/secuscan/ratelimit.py\<close>: \<open>RateLimiter\<close> (hourly quota per client and
  plugin), \<open>ConcurrentTaskLimiter\<close> (execution slots), \<open>EndpointRateLimiter\<close> (per-identity sliding
  window with periodic cleanup), \<open>WorkflowRateLimiter\<close> (minimum interval between scheduler runs)
  and \<open>resolve_client_identity\<close>. Each \<open>async with self.lock\<close> body is one atomic operation; the
  clock reading it takes is its argument \<open>now\<close>.
\<close>

definition usec_per_second :: int where
  [py_def]: "usec_per_second = 1000000"

abbreviation hour_usec :: usec where
  "hour_usec \<equiv> 3600 * usec_per_second"

subsection \<open>RateLimiter\<close>

type_synonym history = "string \<rightharpoonup> usec list"

definition task_bucket :: "string \<Rightarrow> string \<Rightarrow> string" where
  "task_bucket client_id plugin_id = client_id @ '':'' @ plugin_id"

definition can_execute ::
  "usec \<Rightarrow> string \<Rightarrow> int \<Rightarrow> string \<Rightarrow> history \<Rightarrow> (bool \<times> string) \<times> history" where
  "can_execute now plugin_id max_per_hour client_id task_history =
     (let bucket = task_bucket client_id plugin_id;
          hour_ago = now - hour_usec;
          kept = filter (\<lambda>ts. ts > hour_ago) (dget task_history bucket []);
          cleaned = task_history(bucket \<mapsto> kept);
          recent_count = int (length kept)
      in if recent_count \<ge> max_per_hour
         then ((False, ''Rate limit exceeded: '' @ int_str recent_count @ ''/''
                        @ int_str max_per_hour @ '' per hour''), cleaned)
         else ((True, ''''), cleaned(bucket \<mapsto> kept @ [now])))"

definition reset_limiter :: "string option \<Rightarrow> history \<Rightarrow> history" where
  "reset_limiter plugin_id task_history =
     (case plugin_id of
        None \<Rightarrow> Map.empty
      | Some p \<Rightarrow>
          if p = '''' then Map.empty
          else (\<lambda>k. case task_history k of
                      None \<Rightarrow> None
                    | Some ts \<Rightarrow> if ends_with k ('':'' @ p) then Some [] else Some ts))"

text \<open>The limiter as a sliding window: a call names a client and a plugin.\<close>

definition execute_step ::
  "int \<Rightarrow> usec \<Rightarrow> string \<times> string \<Rightarrow> history \<Rightarrow> bool \<times> history" where
  "execute_step max_per_hour now r h =
     (case can_execute now (snd r) max_per_hour (fst r) h of ((ok, _), h') \<Rightarrow> (ok, h'))"

definition call_bucket :: "string \<times> string \<Rightarrow> string" where
  "call_bucket r = task_bucket (fst r) (snd r)"

definition stored_times :: "history \<Rightarrow> string \<Rightarrow> usec list" where
  "stored_times h k = dget h k []"

lemma stored_times_upd [simp]:
  "stored_times (h(k \<mapsto> ts)) k' = (if k' = k then ts else stored_times h k')"
  by (simp add: stored_times_def)

interpretation hourly: sliding_window call_bucket stored_times "execute_step m" hour_usec m for m
  by unfold_locales
    (auto simp: execute_step_def can_execute_def call_bucket_def recent_def Let_def stored_times_def
          split: if_splits)

subsection \<open>ConcurrentTaskLimiter\<close>

text \<open>
  What a caller of the slot limiter relies on: \<open>acquire\<close> succeeds exactly when fewer than
  \<open>capacity\<close> slots are held and then holds one more; \<open>release\<close> gives back one slot of that task,
  if it holds any.
\<close>

datatype 'i slot_op = Acquire 'i | Release 'i

fun run_slots :: "('i \<Rightarrow> 's \<Rightarrow> bool \<times> 's) \<Rightarrow> ('i \<Rightarrow> 's \<Rightarrow> 's) \<Rightarrow> 'i slot_op list \<Rightarrow> 's \<Rightarrow> 's" where
  "run_slots acq rel [] s = s"
| "run_slots acq rel (Acquire i # ops) s = run_slots acq rel ops (snd (acq i s))"
| "run_slots acq rel (Release i # ops) s = run_slots acq rel ops (rel i s)"

locale slot_pool =
  fixes acquire :: "'i \<Rightarrow> 's \<Rightarrow> bool \<times> 's"
    and release :: "'i \<Rightarrow> 's \<Rightarrow> 's"
    and held :: "'s \<Rightarrow> 'i multiset"
    and capacity :: "'s \<Rightarrow> int"
  assumes grant_law: "acquire i s = (True, s') \<Longrightarrow>
      int (size (held s)) < capacity s \<and> held s' = add_mset i (held s) \<and> capacity s' = capacity s"
    and refuse_law: "acquire i s = (False, s') \<Longrightarrow> capacity s \<le> int (size (held s)) \<and> s' = s"
    and release_law: "held (release i s) = held s - {#i#}" "capacity (release i s) = capacity s"
begin

lemma run_capacity: "capacity (run_slots acquire release ops s) = capacity s"
proof (induction ops arbitrary: s)
  case (Cons p ops)
  show ?case
  proof (cases p)
    case (Acquire i)
    then show ?thesis
      using Cons.IH grant_law [of i s] refuse_law [of i s]
      by (cases "acquire i s"; cases "fst (acquire i s)") auto
  next
    case (Release i)
    then show ?thesis using Cons.IH by (simp add: release_law)
  qed
qed simp

lemma never_over_capacity:
  "int (size (held s)) \<le> capacity s \<Longrightarrow>
     int (size (held (run_slots acquire release ops s))) \<le> capacity s"
proof (induction ops arbitrary: s)
  case (Cons p ops)
  show ?case
  proof (cases p)
    case (Acquire i)
    obtain b s' where a: "acquire i s = (b, s')" by (cases "acquire i s")
    then have "int (size (held s')) \<le> capacity s' \<and> capacity s' = capacity s"
      using grant_law [of i s s'] refuse_law [of i s s'] Cons.prems by (cases b) auto
    with Cons.IH [of s'] a Acquire show ?thesis by simp
  next
    case (Release i)
    have "size (held s - {#i#}) \<le> size (held s)"
      by (rule size_mset_mono) simp
    with Cons.IH [of "release i s"] Cons.prems Release show ?thesis
      by (simp add: release_law)
  qed
qed simp

lemma acquire_release:
  "acquire i s = (True, s') \<Longrightarrow> held (release i s') = held s"
  using grant_law [of i s s'] by (simp add: release_law)

lemma release_unheld: "i \<notin># held s \<Longrightarrow> held (release i s) = held s"
  by (simp add: release_law diff_single_trivial)

end

record task_limiter =
  max_concurrent :: int
  running_tasks :: "string list"

definition acquire_slot :: "string \<Rightarrow> task_limiter \<Rightarrow> (bool \<times> string) \<times> task_limiter" where
  "acquire_slot task_id l =
     (if int (length (running_tasks l)) \<ge> max_concurrent l
      then ((False, ''Maximum concurrent tasks ('' @ int_str (max_concurrent l) @ '') reached''), l)
      else ((True, ''''), l\<lparr>running_tasks := running_tasks l @ [task_id]\<rparr>))"

definition release_slot :: "string \<Rightarrow> task_limiter \<Rightarrow> task_limiter" where
  "release_slot task_id l =
     (if task_id \<in> set (running_tasks l)
      then l\<lparr>running_tasks := remove1 task_id (running_tasks l)\<rparr> else l)"

definition available_slots :: "task_limiter \<Rightarrow> int" where
  "available_slots l = max_concurrent l - int (length (running_tasks l))"

definition try_acquire :: "string \<Rightarrow> task_limiter \<Rightarrow> bool \<times> task_limiter" where
  "try_acquire i l = (fst (fst (acquire_slot i l)), snd (acquire_slot i l))"

definition held_slots :: "task_limiter \<Rightarrow> string multiset" where
  "held_slots l = mset (running_tasks l)"

interpretation slots: slot_pool try_acquire release_slot held_slots max_concurrent
proof
  fix i s s'
  show "try_acquire i s = (True, s') \<Longrightarrow>
      int (size (held_slots s)) < max_concurrent s \<and> held_slots s' = add_mset i (held_slots s) \<and>
      max_concurrent s' = max_concurrent s"
    by (auto simp: try_acquire_def acquire_slot_def held_slots_def split: if_splits)
  show "try_acquire i s = (False, s') \<Longrightarrow> max_concurrent s \<le> int (size (held_slots s)) \<and> s' = s"
    by (auto simp: try_acquire_def acquire_slot_def held_slots_def split: if_splits)
  show "held_slots (release_slot i s) = held_slots s - {#i#}"
    by (simp add: release_slot_def held_slots_def diff_single_trivial)
  show "max_concurrent (release_slot i s) = max_concurrent s"
    by (simp add: release_slot_def)
qed

subsection \<open>resolve_client_identity\<close>

text \<open>
  A request as the limiter reads it: its headers (names in lower case, as the header mapping looks
  them up), the address of the connection, and what earlier middleware left in \<open>request.state\<close>.
\<close>

datatype state_user =
    No_User
  | User_Dict "string option" \<comment> \<open>a dict, with its \<open>id\<close> entry if it has one\<close>
  | User_Object "string option" \<comment> \<open>an object, with its \<open>id\<close> attribute if it has one\<close>
  | User_Name string

record http_request =
  req_headers :: "string \<rightharpoonup> string"
  req_client :: "string option"
  req_user_id :: "string option"
  req_user :: state_user

definition truthy_header :: "http_request \<Rightarrow> string \<Rightarrow> string option" where
  "truthy_header r name = (case req_headers r name of
      None \<Rightarrow> None | Some v \<Rightarrow> if v = '''' then None else Some v)"

definition api_key_identity :: "http_request \<Rightarrow> string option" where
  "api_key_identity r =
     (case truthy_header r ''x-api-key'' of
        Some v \<Rightarrow> Some (''apikey:'' @ v)
      | None \<Rightarrow>
        (case truthy_header r ''x-key'' of
           Some v \<Rightarrow> Some (''apikey:'' @ v)
         | None \<Rightarrow>
           (case truthy_header r ''authorization'' of
              Some a \<Rightarrow>
                Some (''apikey:'' @ (if CHR '' '' \<in> set a then snd (split_first (CHR '' '') a) else a))
            | None \<Rightarrow> None)))"

definition user_identity :: "http_request \<Rightarrow> string option" where
  "user_identity r =
     (case truthy_header r ''x-user-id'' of
        Some u \<Rightarrow> Some (''user:'' @ u)
      | None \<Rightarrow>
        if req_user_id r \<noteq> None \<and> req_user_id r \<noteq> Some '''' then Some (''user:'' @ the (req_user_id r))
        else (case req_user r of
                No_User \<Rightarrow> None
              | User_Dict (Some i) \<Rightarrow> Some (''user:'' @ i)
              | User_Dict None \<Rightarrow> None
              | User_Object (Some i) \<Rightarrow> (if i = '''' then None else Some (''user:'' @ i))
              | User_Object None \<Rightarrow> None
              | User_Name n \<Rightarrow> (if n = '''' then None else Some (''user:'' @ n))))"

definition resolve_client_identity :: "string list \<Rightarrow> http_request \<Rightarrow> string" where
  "resolve_client_identity trusted_proxies r =
     (case api_key_identity r of
        Some i \<Rightarrow> i
      | None \<Rightarrow>
        (case user_identity r of
           Some i \<Rightarrow> i
         | None \<Rightarrow>
           (let client_ip = (case req_client r of Some h \<Rightarrow> h | None \<Rightarrow> ''127.0.0.1'') in
            ''ip:'' @
            (case req_headers r ''x-forwarded-for'' of
               None \<Rightarrow> client_ip
             | Some xff \<Rightarrow>
                 if client_ip \<in> set trusted_proxies
                 then (case filter (\<lambda>i. i \<noteq> '''') (map py_strip (split_on (CHR '','') xff)) of
                         [] \<Rightarrow> client_ip | ip # _ \<Rightarrow> ip)
                 else client_ip))))"

subsection \<open>EndpointRateLimiter\<close>

record endpoint_config =
  bucket_name :: string
  ep_limit :: int
  window_seconds :: int

record endpoint_state =
  ep_history :: history
  last_cleanup :: "usec option"

datatype endpoint_outcome =
    Endpoint_Admitted "(string \<times> string) list" \<comment> \<open>the response headers set\<close>
  | Endpoint_429 string "(string \<times> string) list" \<comment> \<open>detail and headers of the HTTPException\<close>
  | Endpoint_IndexError \<comment> \<open>\<open>self.history[identity][0]\<close> of an empty list\<close>

definition window_usec :: "endpoint_config \<Rightarrow> usec" where
  [py_def]: "window_usec c = window_seconds c * usec_per_second"

definition cleanup_expired_identities ::
  "endpoint_config \<Rightarrow> usec \<Rightarrow> usec \<Rightarrow> endpoint_state \<Rightarrow> endpoint_state" where
  "cleanup_expired_identities c cutoff now st =
     (let cleanup_interval = max 1 (window_seconds c) * usec_per_second in
      if (\<exists>l \<in> set_option (last_cleanup st). now - l < cleanup_interval) then st
      else st\<lparr>ep_history :=
                (\<lambda>k. case ep_history st k of
                       None \<Rightarrow> None
                     | Some timestamps \<Rightarrow>
                         (let active = filter (\<lambda>ts. ts > cutoff) timestamps in
                          if active \<noteq> [] then Some active else None)),
              last_cleanup := Some now\<rparr>)"

definition endpoint_call ::
  "endpoint_config \<Rightarrow> usec \<Rightarrow> string \<Rightarrow> endpoint_state \<Rightarrow> endpoint_outcome \<times> endpoint_state" where
  "endpoint_call c now identity st =
     (let window = window_usec c;
          cutoff = now - window;
          st1 = cleanup_expired_identities c cutoff now st;
          kept = filter (\<lambda>ts. ts > cutoff) (dget (ep_history st1) identity []);
          st2 = st1\<lparr>ep_history := (ep_history st1)(identity \<mapsto> kept)\<rparr>;
          recent_count = int (length kept);
          seconds_to = (\<lambda>ts. max 1 (trunc_div (ts + window - now) usec_per_second))
      in if recent_count \<ge> ep_limit c then
           (case kept of
              [] \<Rightarrow> (Endpoint_IndexError, st2)
            | oldest_ts # _ \<Rightarrow>
                (let retry_after = seconds_to oldest_ts in
                 (Endpoint_429
                    (''Rate limit exceeded for '' @ bucket_name c @ ''. Limit is '' @ int_str (ep_limit c)
                       @ '' requests per '' @ int_str (window_seconds c) @ '' seconds.'')
                    [(''Retry-After'', int_str retry_after),
                     (''X-RateLimit-Limit'', int_str (ep_limit c)),
                     (''X-RateLimit-Remaining'', ''0''),
                     (''X-RateLimit-Reset'', int_str retry_after)], st2)))
         else
           (let times = kept @ [now];
                remaining = ep_limit c - int (length times);
                reset_in = seconds_to (hd times)
            in (Endpoint_Admitted
                  [(''X-RateLimit-Limit'', int_str (ep_limit c)),
                   (''X-RateLimit-Remaining'', int_str remaining),
                   (''X-RateLimit-Reset'', int_str reset_in)],
                st2\<lparr>ep_history := (ep_history st2)(identity \<mapsto> times)\<rparr>)))"

definition endpoint_reset :: "endpoint_state \<Rightarrow> endpoint_state" where
  "endpoint_reset st = st\<lparr>ep_history := Map.empty, last_cleanup := None\<rparr>"

definition endpoint_init :: endpoint_state where
  "endpoint_init = \<lparr>ep_history = Map.empty, last_cleanup = None\<rparr>"

text \<open>The dependency as FastAPI calls it, with the request's identity resolved first.\<close>

definition endpoint_request ::
  "endpoint_config \<Rightarrow> string list \<Rightarrow> usec \<Rightarrow> http_request \<Rightarrow> endpoint_state
     \<Rightarrow> endpoint_outcome \<times> endpoint_state" where
  "endpoint_request c proxies now r st = endpoint_call c now (resolve_client_identity proxies r) st"

definition endpoint_step ::
  "endpoint_config \<Rightarrow> string list \<Rightarrow> usec \<Rightarrow> http_request \<Rightarrow> endpoint_state \<Rightarrow> bool \<times> endpoint_state" where
  "endpoint_step c proxies now r st =
     (case endpoint_request c proxies now r st of
        (Endpoint_Admitted _, st') \<Rightarrow> (True, st') | (_, st') \<Rightarrow> (False, st'))"

definition endpoint_times :: "endpoint_state \<Rightarrow> string \<Rightarrow> usec list" where
  "endpoint_times st k = stored_times (ep_history st) k"

lemma cleanup_recent:
  "recent w now (endpoint_times (cleanup_expired_identities c (now - w) now st) k)
     = recent w now (endpoint_times st k)"
  by (auto simp: cleanup_expired_identities_def endpoint_times_def stored_times_def dget_def
        recent_def Let_def filter_empty_conv split: option.splits)

lemma endpoint_call_cases:
  fixes c now i st
  defines "kept \<equiv> recent (window_usec c) now (endpoint_times st i)"
  obtains (admitted) hs st' where "endpoint_call c now i st = (Endpoint_Admitted hs, st')"
      "int (length kept) < ep_limit c" "endpoint_times st' i = kept @ [now]"
      "\<And>k. k \<noteq> i \<Longrightarrow> recent (window_usec c) now (endpoint_times st' k)
                       = recent (window_usec c) now (endpoint_times st k)"
  | (rejected) out st' where "endpoint_call c now i st = (out, st')" "\<And>hs. out \<noteq> Endpoint_Admitted hs"
      "ep_limit c \<le> int (length kept)"
      "\<And>k. recent (window_usec c) now (endpoint_times st' k)
            = recent (window_usec c) now (endpoint_times st k)"
      "kept = [] \<Longrightarrow> out = Endpoint_IndexError"
proof -
  define st1 where "st1 = cleanup_expired_identities c (now - window_usec c) now st"
  have kept: "filter (\<lambda>ts. now - window_usec c < ts) (dget (ep_history st1) i []) = kept"
    using cleanup_recent [of "window_usec c" now c st i]
    by (simp add: st1_def kept_def endpoint_times_def stored_times_def recent_def)
  define st2 where "st2 = st1\<lparr>ep_history := (ep_history st1)(i \<mapsto> kept)\<rparr>"
  have st2: "recent (window_usec c) now (endpoint_times st2 k)
               = recent (window_usec c) now (endpoint_times st k)" for k
  proof (cases "k = i")
    case True
    then show ?thesis
      by (simp add: st2_def endpoint_times_def) (simp add: kept_def recent_recent endpoint_times_def)
  next
    case False
    then show ?thesis
      using cleanup_recent [of "window_usec c" now c st k] by (simp add: st2_def st1_def endpoint_times_def)
  qed
  show thesis
  proof (cases "ep_limit c \<le> int (length kept)")
    case True
    then have "\<exists>out. endpoint_call c now i st = (out, st2) \<and> (\<forall>hs. out \<noteq> Endpoint_Admitted hs) \<and>
        (kept = [] \<longrightarrow> out = Endpoint_IndexError)"
      by (auto simp: endpoint_call_def Let_def st1_def [symmetric] kept st2_def split: list.splits)
    with True show ?thesis using rejected st2 by blast
  next
    case False
    define st3 where "st3 = st2\<lparr>ep_history := (ep_history st2)(i \<mapsto> kept @ [now])\<rparr>"
    from False have "\<exists>hs. endpoint_call c now i st = (Endpoint_Admitted hs, st3)"
      by (auto simp: endpoint_call_def Let_def st1_def [symmetric] kept st2_def st3_def)
    moreover have "endpoint_times st3 i = kept @ [now]"
      by (simp add: st3_def endpoint_times_def)
    moreover have "recent (window_usec c) now (endpoint_times st3 k)
        = recent (window_usec c) now (endpoint_times st k)" if "k \<noteq> i" for k
      using that st2 [of k] by (simp add: st3_def endpoint_times_def)
    ultimately show ?thesis using False admitted by fastforce
  qed
qed

interpretation endpoint: sliding_window "resolve_client_identity proxies" endpoint_times
  "endpoint_step c proxies" "window_usec c" "ep_limit c" for c proxies
proof
  fix now r s s' b k
  let ?i = "resolve_client_identity proxies r"
  show "endpoint_step c proxies now r s = (True, s') \<Longrightarrow>
      int (length (recent (window_usec c) now (endpoint_times s ?i))) < ep_limit c \<and>
      endpoint_times s' ?i = recent (window_usec c) now (endpoint_times s ?i) @ [now]"
    by (rule endpoint_call_cases [of c now ?i s])
      (auto simp: endpoint_step_def endpoint_request_def split: endpoint_outcome.splits)
  show "endpoint_step c proxies now r s = (False, s') \<Longrightarrow>
      ep_limit c \<le> int (length (recent (window_usec c) now (endpoint_times s ?i))) \<and>
      recent (window_usec c) now (endpoint_times s' ?i) = recent (window_usec c) now (endpoint_times s ?i)"
    by (rule endpoint_call_cases [of c now ?i s])
      (auto simp: endpoint_step_def endpoint_request_def split: endpoint_outcome.splits)
  show "endpoint_step c proxies now r s = (b, s') \<Longrightarrow> k \<noteq> ?i \<Longrightarrow>
      recent (window_usec c) now (endpoint_times s' k) = recent (window_usec c) now (endpoint_times s k)"
    by (rule endpoint_call_cases [of c now ?i s])
      (auto simp: endpoint_step_def endpoint_request_def split: endpoint_outcome.splits)
qed

subsection \<open>WorkflowRateLimiter\<close>

definition check_workflow_rate_limit ::
  "usec \<Rightarrow> string \<Rightarrow> int \<Rightarrow> (string \<rightharpoonup> usec) \<Rightarrow> (bool \<times> string) \<times> (string \<rightharpoonup> usec)" where
  "check_workflow_rate_limit now workflow_id min_interval_seconds last_run =
     (case last_run workflow_id of
        Some prev \<Rightarrow>
          if now - prev < min_interval_seconds * usec_per_second
          then ((False, ''Workflow rate limited: wait ''
                   @ int_str (round_half_even (min_interval_seconds * usec_per_second - (now - prev))
                                usec_per_second)
                   @ ''s between runs''), last_run)
          else ((True, ''''), last_run(workflow_id \<mapsto> now))
      | None \<Rightarrow> ((True, ''''), last_run(workflow_id \<mapsto> now)))"

end
