(* ===== verification/Rate_Limit_Properties.thy ===== *)
theory Rate_Limit_Properties
  imports Rate_Limits
begin

text \<open>
  What the limiters of \<open>ratelimit.py\<close> guarantee, read off the interpretations of
  \<open>sliding_window\<close> and \<open>slot_pool\<close> on their models, and two places where they do less than their
  documentation says.
\<close>

subsection \<open>Quotas\<close>

text \<open>C15: however a client's calls of a plugin are spread over time and mixed with other calls,
  no hour contains more than \<open>max_per_hour\<close> executions that \<open>RateLimiter.can_execute\<close> admitted
  for that client and plugin.\<close>

theorem hourly_quota_bounded:
  assumes "sorted (map fst calls)"
  shows "length (filter (in_window hour_usec hi)
           (bucket_times call_bucket (task_bucket client plugin)
              (admitted_calls (execute_step max_per_hour) calls Map.empty))) \<le> nat max_per_hour"
  by (rule hourly.windows_bounded) (simp_all add: assms stored_times_def)

definition sample_executions :: "(usec \<times> string \<times> string) list" where
  "sample_executions = [(0, ''c'', ''p''), (1, ''c'', ''p''), (2, ''c'', ''p'')]"

theorem hourly_quota_bounded_witness:
  "length (filter (in_window hour_usec 2)
     (bucket_times call_bucket (task_bucket ''c'' ''p'')
        (admitted_calls (execute_step 2) sample_executions Map.empty))) \<le> nat 2"
  by (rule hourly_quota_bounded) (simp add: sample_executions_def)

text \<open>the same for \<open>EndpointRateLimiter\<close>: between calls it drops expired identities, and still
  no window of \<open>window_seconds\<close> seconds holds more than \<open>limit\<close> admitted requests of one
  identity.\<close>

theorem endpoint_quota_bounded:
  assumes "sorted (map fst calls)"
  shows "length (filter (in_window (window_usec c) hi)
           (bucket_times (resolve_client_identity proxies) identity
              (admitted_calls (endpoint_step c proxies) calls endpoint_init))) \<le> nat (ep_limit c)"
  by (rule endpoint.windows_bounded)
    (simp_all add: assms endpoint_init_def endpoint_times_def stored_times_def)

definition sample_request :: "string \<Rightarrow> http_request" where
  "sample_request host = \<lparr>req_headers = Map.empty, req_client = Some host, req_user_id = None,
     req_user = No_User\<rparr>"

definition sample_endpoint :: endpoint_config where
  "sample_endpoint = \<lparr>bucket_name = ''vault'', ep_limit = 1, window_seconds = 60\<rparr>"

definition sample_requests :: "(usec \<times> http_request) list" where
  "sample_requests = [(0, sample_request ''h''), (30, sample_request ''h'')]"

theorem endpoint_quota_bounded_witness:
  "length (filter (in_window (window_usec sample_endpoint) 40)
     (bucket_times (resolve_client_identity []) ''ip:h''
        (admitted_calls (endpoint_step sample_endpoint []) sample_requests endpoint_init)))
     \<le> nat (ep_limit sample_endpoint)"
  by (rule endpoint_quota_bounded) (simp add: sample_requests_def)

text \<open>requests of other identities, however many, never change whether a request of this
  identity is admitted.\<close>

theorem endpoint_identities_isolated:
  assumes "\<forall>d \<in> set calls. fst d \<le> now \<and>
     resolve_client_identity proxies (snd d) \<noteq> resolve_client_identity proxies r"
  shows "fst (endpoint_step c proxies now r (state_after (endpoint_step c proxies) calls st))
           = fst (endpoint_step c proxies now r st)"
  by (rule endpoint.isolated_decision) (rule assms)

theorem endpoint_identities_isolated_witness:
  "fst (endpoint_step sample_endpoint [] 50 (sample_request ''g'')
          (state_after (endpoint_step sample_endpoint []) sample_requests endpoint_init))
     = fst (endpoint_step sample_endpoint [] 50 (sample_request ''g'') endpoint_init)"
  by (rule endpoint_identities_isolated)
    (simp add: sample_requests_def sample_request_def resolve_client_identity_def
      api_key_identity_def user_identity_def truthy_header_def)

subsection \<open>Retry-After\<close>

lemma endpoint_call_429:
  assumes call: "endpoint_call c now i st = (Endpoint_429 detail hs, st')"
  obtains ts t where "recent (window_usec c) now (endpoint_times st i) = t # ts"
    "endpoint_times st' i = t # ts"
    "ep_limit c \<le> int (length (t # ts))"
    "hs ! 0 = (''Retry-After'', int_str (max 1 (trunc_div (t + window_usec c - now) usec_per_second)))"
proof -
  define st1 where "st1 = cleanup_expired_identities c (now - window_usec c) now st"
  have kept: "filter (\<lambda>ts. now - window_usec c < ts) (dget (ep_history st1) i [])
                = recent (window_usec c) now (endpoint_times st i)"
    using cleanup_recent [of "window_usec c" now c st i]
    by (simp add: st1_def endpoint_times_def stored_times_def recent_def)
  show thesis
    using call that
    by (auto simp: endpoint_call_def Let_def st1_def [symmetric] kept endpoint_times_def
        split: if_splits list.splits)
qed

lemma seconds_left:
  assumes "0 < d"
  shows "trunc_div d usec_per_second * usec_per_second \<le> d"
    "d < (max 1 (trunc_div d usec_per_second) + 1) * usec_per_second"
  using assms by (simp_all add: trunc_div_nonneg usec_per_second_def)

text \<open>a request refused with 429 is told to wait between one second and the length of the
  window, and after that time and one more second a further request of the same identity is
  admitted, if nothing else was admitted for it and the bucket was not over its limit.\<close>

theorem retry_after_suffices:
  assumes refused: "endpoint_call c now i st = (Endpoint_429 detail hs, st')"
    and sane: "1 \<le> window_seconds c" "sorted (endpoint_times st i)" "\<forall>t \<in> set (endpoint_times st i). t \<le> now"
    and within: "int (length (recent (window_usec c) now (endpoint_times st i))) \<le> ep_limit c"
  shows "\<exists>n. hs ! 0 = (''Retry-After'', int_str n) \<and> 1 \<le> n \<and> n \<le> window_seconds c \<and>
     (\<forall>later \<ge> now + (n + 1) * usec_per_second.
        \<exists>hs' st''. endpoint_call c later i st' = (Endpoint_Admitted hs', st''))"
proof -
  obtain t ts where rec: "recent (window_usec c) now (endpoint_times st i) = t # ts"
    and st': "endpoint_times st' i = t # ts"
    and hd: "hs ! 0 = (''Retry-After'',
        int_str (max 1 (trunc_div (t + window_usec c - now) usec_per_second)))"
    using endpoint_call_429 [OF refused] by blast
  define d where "d = t + window_usec c - now"
  define n where "n = max 1 (trunc_div d usec_per_second)"
  have "t \<in> set (recent (window_usec c) now (endpoint_times st i))" by (simp add: rec)
  then have "0 < d" and "d \<le> window_usec c"
    using sane(3) by (auto simp: recent_def d_def)
  then have "n \<le> window_seconds c"
    using sane(1) by (auto simp: n_def trunc_div_nonneg window_usec_def usec_per_second_def)
  moreover have "\<exists>hs' st''. endpoint_call c later i st' = (Endpoint_Admitted hs', st'')"
    if later: "now + (n + 1) * usec_per_second \<le> later" for later
  proof -
    have "t \<le> later - window_usec c"
      using later seconds_left(2) [OF \<open>0 < d\<close>] unfolding n_def by (simp add: d_def)
    then have "length (recent (window_usec c) later (t # ts)) \<le> length ts"
      by (simp add: recent_def)
    then have "int (length (recent (window_usec c) later (endpoint_times st' i))) < ep_limit c"
      using within by (simp add: st' rec)
    then show ?thesis
      by (cases rule: endpoint_call_cases [of c later i st']) auto
  qed
  ultimately show ?thesis
    using hd by (auto simp: n_def d_def)
qed

definition full_endpoint :: endpoint_state where
  "full_endpoint = \<lparr>ep_history = [''ip:h'' \<mapsto> [0]], last_cleanup = Some 0\<rparr>"

lemma full_endpoint_refuses:
  "endpoint_call sample_endpoint 500000 ''ip:h'' full_endpoint =
     (Endpoint_429 ''Rate limit exceeded for vault. Limit is 1 requests per 60 seconds.''
        [(''Retry-After'', ''59''), (''X-RateLimit-Limit'', ''1''), (''X-RateLimit-Remaining'', ''0''),
         (''X-RateLimit-Reset'', ''59'')], full_endpoint)"
  by (simp add: endpoint_call_def cleanup_expired_identities_def full_endpoint_def sample_endpoint_def
      window_usec_def usec_per_second_def trunc_div_def py_str nat_str.simps fun_upd_idem)

theorem retry_after_suffices_witness:
  "\<exists>n. [(''Retry-After'', ''59''), (''X-RateLimit-Limit'', ''1''), (''X-RateLimit-Remaining'', ''0''),
         (''X-RateLimit-Reset'', ''59'')] ! 0 = (''Retry-After'', int_str n) \<and>
     1 \<le> n \<and> n \<le> window_seconds sample_endpoint \<and>
     (\<forall>later \<ge> 500000 + (n + 1) * usec_per_second.
        \<exists>hs' st''. endpoint_call sample_endpoint later ''ip:h'' full_endpoint = (Endpoint_Admitted hs', st''))"
  by (rule retry_after_suffices [OF full_endpoint_refuses])
    (simp_all add: sample_endpoint_def full_endpoint_def endpoint_times_def stored_times_def recent_def
      window_usec_def usec_per_second_def dget_def)

text \<open>The second added there is needed: \<open>int(...)\<close> rounds the remaining time down, so a client that
  waits exactly as long as \<open>Retry-After\<close> says can be refused again.\<close>

lemma retry_after_alone_refused:
  "\<exists>detail hs st'. endpoint_call sample_endpoint (500000 + 59 * usec_per_second) ''ip:h'' full_endpoint
     = (Endpoint_429 detail hs, st')"
  by (simp add: endpoint_call_def cleanup_expired_identities_def full_endpoint_def sample_endpoint_def
      window_usec_def usec_per_second_def trunc_div_def)

text \<open>With \<open>limit \<le> 0\<close> an identity with no stored request is not refused with 429: the handler
  indexes an empty list.\<close>

lemma zero_limit_raises:
  assumes "ep_limit c \<le> 0" and "endpoint_times st i = []"
  shows "fst (endpoint_call c now i st) = Endpoint_IndexError"
  by (rule endpoint_call_cases [of c now i st]) (use assms in \<open>auto simp: recent_def\<close>)

text \<open>The bucket name does not separate client and plugin: different pairs can share a quota.\<close>

lemma bucket_collision: "task_bucket ''a:b'' ''c'' = task_bucket ''a'' ''b:c''"
  by (simp add: task_bucket_def)

subsection \<open>Slots\<close>

text \<open>after any sequence of acquisitions and releases the number of held slots is at most
  \<open>max_concurrent\<close>, the free slots are never negative, and a task that acquires a slot and
  releases it leaves the held slots as they were.\<close>

theorem slots_never_exceeded:
  assumes "int (length (running_tasks l)) \<le> max_concurrent l"
  shows "int (length (running_tasks (run_slots try_acquire release_slot ops l))) \<le> max_concurrent l \<and>
     0 \<le> available_slots (run_slots try_acquire release_slot ops l) \<and>
     (\<forall>i l'. try_acquire i (run_slots try_acquire release_slot ops l) = (True, l') \<longrightarrow>
        mset (running_tasks (release_slot i l'))
          = mset (running_tasks (run_slots try_acquire release_slot ops l)))"
proof -
  let ?l = "run_slots try_acquire release_slot ops l"
  have "int (size (held_slots l)) \<le> max_concurrent l"
    using assms by (simp add: held_slots_def)
  then have "int (size (held_slots ?l)) \<le> max_concurrent l"
    by (rule slots.never_over_capacity)
  moreover have "max_concurrent ?l = max_concurrent l"
    by (rule slots.run_capacity)
  ultimately show ?thesis
    using slots.acquire_release [of _ ?l] by (auto simp: held_slots_def available_slots_def)
qed

definition one_slot :: task_limiter where
  "one_slot = \<lparr>max_concurrent = 1, running_tasks = []\<rparr>"

theorem slots_never_exceeded_witness:
  "int (length (running_tasks (run_slots try_acquire release_slot [Acquire ''t'', Acquire ''u''] one_slot)))
     \<le> max_concurrent one_slot"
proof -
  have h: "int (length (running_tasks one_slot)) \<le> max_concurrent one_slot"
    by (simp add: one_slot_def)
  show ?thesis using slots_never_exceeded [OF h] by blast
qed

subsection \<open>Workflow interval\<close>

fun workflow_starts :: "int \<Rightarrow> string \<Rightarrow> (usec \<times> string) list \<Rightarrow> (string \<rightharpoonup> usec) \<Rightarrow> usec list" where
  "workflow_starts m w [] last_run = []"
| "workflow_starts m w ((now, v) # cs) last_run =
     (case check_workflow_rate_limit now v m last_run of
        ((ok, _), last_run') \<Rightarrow>
          (if ok \<and> v = w then [now] else []) @ workflow_starts m w cs last_run')"

lemma workflow_starts_spaced:
  assumes "0 \<le> m"
  shows "sorted_wrt (\<lambda>a b. a + m * usec_per_second \<le> b)
           ((case last_run w of None \<Rightarrow> [] | Some p \<Rightarrow> [p]) @ workflow_starts m w cs last_run)"
proof (induction cs arbitrary: last_run)
  case Nil
  then show ?case by (simp split: option.splits)
next
  case (Cons c cs)
  obtain now v where c: "c = (now, v)" by (cases c)
  obtain ok msg last' where chk: "check_workflow_rate_limit now v m last_run = ((ok, msg), last')"
    by (cases "check_workflow_rate_limit now v m last_run") auto
  show ?case
  proof (cases "ok \<and> v = w")
    case True
    then have "last' w = Some now"
      and prev: "\<And>p. last_run w = Some p \<Longrightarrow> p + m * usec_per_second \<le> now"
      using chk by (auto simp: check_workflow_rate_limit_def split: option.splits if_splits)
    with Cons.IH [of last'] have "sorted_wrt (\<lambda>a b. a + m * usec_per_second \<le> b)
        (now # workflow_starts m w cs last')" by simp
    moreover have "p + m * usec_per_second \<le> b"
      if "last_run w = Some p" "now + m * usec_per_second \<le> b" for p b
      using prev [OF that(1)] that(2) assms by (auto simp: usec_per_second_def)
    moreover have "workflow_starts m w (c # cs) last_run = now # workflow_starts m w cs last'"
      using True chk by (auto simp: c)
    ultimately show ?thesis
      using prev by (auto simp del: workflow_starts.simps split: option.splits)
  next
    case False
    then have "last' w = last_run w"
      using chk by (auto simp: check_workflow_rate_limit_def split: option.splits if_splits)
    with Cons.IH [of last'] False show ?thesis by (auto simp: c chk)
  qed
qed

text \<open>any two runs of one workflow that \<open>WorkflowRateLimiter\<close> lets through are at least
  \<open>min_interval_seconds\<close> apart, in the order they were let through, whatever the clock and the
  other workflows do.\<close>

theorem workflow_runs_spaced:
  assumes "0 \<le> m" and "i < j" and "j < length (workflow_starts m w calls Map.empty)"
  shows "workflow_starts m w calls Map.empty ! i + m * usec_per_second
           \<le> workflow_starts m w calls Map.empty ! j"
  using workflow_starts_spaced [OF assms(1), of Map.empty w calls] assms(2,3)
  by (simp add: sorted_wrt_iff_nth_less)

theorem workflow_runs_spaced_witness:
  "workflow_starts 60 ''w'' [(0, ''w''), (5, ''w''), (60000000, ''w'')] Map.empty ! 0 + 60 * usec_per_second
     \<le> workflow_starts 60 ''w'' [(0, ''w''), (5, ''w''), (60000000, ''w'')] Map.empty ! 1"
  by (rule workflow_runs_spaced)
    (simp_all add: check_workflow_rate_limit_def usec_per_second_def)

subsection \<open>Client identity\<close>

text \<open>without an API key and without a user, a connection from an address that is not a
  trusted proxy is identified by that address, whatever its \<open>X-Forwarded-For\<close> header claims.\<close>

theorem forwarded_for_needs_trusted_proxy:
  assumes "api_key_identity r = None" and "user_identity r = None"
    and "req_client r = Some host" and "host \<notin> set proxies"
  shows "resolve_client_identity proxies r = ''ip:'' @ host"
  using assms by (simp add: resolve_client_identity_def split: option.splits)

theorem forwarded_for_needs_trusted_proxy_witness:
  "resolve_client_identity [''10.0.0.1'']
     \<lparr>req_headers = [''x-forwarded-for'' \<mapsto> ''1.2.3.4''], req_client = Some ''6.6.6.6'',
      req_user_id = None, req_user = No_User\<rparr> = ''ip:'' @ ''6.6.6.6''"
  by (rule forwarded_for_needs_trusted_proxy)
    (simp_all add: api_key_identity_def user_identity_def truthy_header_def)

end
