(* ===== verification/Scan_Limiter.thy ===== *)
theory Scan_Limiter
  imports Complex_Main Rate_Limits
begin

text \<open>
  \<open>ScanRateLimiter\<close> of \<open>backend/secuscan/rate_limiter.py\<close>: two fixed windows per client address
  (named minute and hour in its keys), counted in Redis or, when Redis is absent or failing, in an
  in-memory dictionary of request times. \<open>time.time()\<close> is a rational number of seconds. The Redis
  client is a parameter: a record of the two calls the code makes, over a remote state of any type.
\<close>

definition int_of_rat :: "rat \<Rightarrow> int" where
  "int_of_rat x = (if x < 0 then \<lceil>x\<rceil> else \<lfloor>x\<rfloor>)"

record scan_limits =
  rate_limit :: int
  rate_window :: int
  burst_limit :: int
  burst_window :: int

record scan_state =
  redis_failed :: bool
  fallback_history :: "string \<rightharpoonup> rat list"

datatype scan_outcome =
    Scan_Pass
  | Scan_429 string string int \<comment> \<open>the error and message of the detail, and \<open>retry_after\<close>\<close>
  | Scan_ZeroDivisionError

text \<open>
  What the limiter calls of \<open>redis.asyncio\<close>: a pipeline of \<open>INCR\<close> and \<open>EXPIRE\<close> on a key, whose
  first result is the new count, and \<open>PING\<close>. A call that raises yields \<open>None\<close>, or \<open>False\<close>.
\<close>

record 'rs redis_client =
  incr_expire :: "string \<Rightarrow> int \<Rightarrow> 'rs \<Rightarrow> int option \<times> 'rs"
  ping :: "'rs \<Rightarrow> bool \<times> 'rs"

definition reset_scan_limiter :: "scan_state \<Rightarrow> scan_state" where
  "reset_scan_limiter st = st\<lparr>fallback_history := Map.empty, redis_failed := False\<rparr>"

definition get_client_ip :: "http_request \<Rightarrow> string" where
  "get_client_ip r =
     (case truthy_header r ''x-forwarded-for'' of
        Some forwarded_for \<Rightarrow> py_strip (hd (split_on (CHR '','') forwarded_for))
      | None \<Rightarrow> (case req_client r of Some host \<Rightarrow> host | None \<Rightarrow> ''unknown''))"

definition make_key :: "string \<Rightarrow> string \<Rightarrow> int \<Rightarrow> string" where
  "make_key ip window_type window_value =
     ''rate_limit:scan:'' @ ip @ '':'' @ window_type @ '':'' @ int_str window_value"

definition window_bucket :: "string \<Rightarrow> string \<Rightarrow> int \<Rightarrow> string" where
  "window_bucket ip window_type window_value = ip @ '':'' @ window_type @ '':'' @ int_str window_value"

definition rate_message :: "scan_limits \<Rightarrow> string" where
  "rate_message l = ''Scan rate limit exceeded: maximum '' @ int_str (rate_limit l)
     @ '' requests per '' @ int_str (rate_window l) @ '' seconds.''"

definition burst_message :: "scan_limits \<Rightarrow> string" where
  "burst_message l = ''Hourly scan limit exceeded: maximum '' @ int_str (burst_limit l)
     @ '' requests per hour.''"

definition clean_stale :: "rat \<Rightarrow> (string \<rightharpoonup> rat list) \<Rightarrow> (string \<rightharpoonup> rat list)" where
  "clean_stale cutoff h =
     (\<lambda>k. case h k of
            None \<Rightarrow> None
          | Some ts \<Rightarrow> (let kept = filter (\<lambda>t. t > cutoff) ts in if kept = [] then None else Some kept))"

definition check_fallback ::
  "scan_limits \<Rightarrow> rat \<Rightarrow> http_request \<Rightarrow> scan_state \<Rightarrow> scan_outcome \<times> scan_state" where
  "check_fallback l now r st =
     (if rate_window l = 0 \<or> burst_window l = 0 then (Scan_ZeroDivisionError, st)
      else
        let ip = get_client_ip r;
            minute_window = \<lfloor>now / of_int (rate_window l)\<rfloor>;
            hour_window = \<lfloor>now / of_int (burst_window l)\<rfloor>;
            bucket_min = window_bucket ip ''minute'' minute_window;
            bucket_hr = window_bucket ip ''hour'' hour_window;
            cutoff = now - of_int (max (rate_window l) (burst_window l));
            h1 = clean_stale cutoff (fallback_history st);
            minute_times = dget h1 bucket_min [];
            h2 = h1(bucket_min \<mapsto> minute_times)
        in if int (length minute_times) + 1 > rate_limit l
           then (Scan_429 ''rate_limit_exceeded'' (rate_message l)
                   (rate_window l - int_of_rat now mod rate_window l), st\<lparr>fallback_history := h2\<rparr>)
           else
             let hour_times = dget h2 bucket_hr [];
                 h3 = h2(bucket_hr \<mapsto> hour_times)
             in if int (length hour_times) + 1 > burst_limit l
                then (Scan_429 ''burst_limit_exceeded'' (burst_message l)
                        (burst_window l - int_of_rat now mod burst_window l), st\<lparr>fallback_history := h3\<rparr>)
                else
                  let h4 = h3(bucket_min \<mapsto> dget h3 bucket_min [] @ [now]);
                      h5 = h4(bucket_hr \<mapsto> dget h4 bucket_hr [] @ [now])
                  in (Scan_Pass, st\<lparr>fallback_history := h5\<rparr>))"

text \<open>
  The two tiers against Redis. \<open>None\<close> is an exception other than the 429: a failing call, or the
  division by a zero window, which is raised inside the same \<open>try\<close>.
\<close>

definition redis_tiers ::
  "scan_limits \<Rightarrow> 'rs redis_client \<Rightarrow> string \<Rightarrow> int \<Rightarrow> 'rs \<Rightarrow> scan_outcome option \<times> 'rs" where
  "redis_tiers l redis ip now rs =
     (if rate_window l = 0 then (None, rs)
      else
        case incr_expire redis (make_key ip ''minute'' (now div rate_window l)) (rate_window l * 2) rs of
          (None, rs1) \<Rightarrow> (None, rs1)
        | (Some minute_count, rs1) \<Rightarrow>
            if minute_count > rate_limit l
            then (Some (Scan_429 ''rate_limit_exceeded'' (rate_message l)
                    (rate_window l - now mod rate_window l)), rs1)
            else if burst_window l = 0 then (None, rs1)
            else
              case incr_expire redis (make_key ip ''hour'' (now div burst_window l))
                     (burst_window l * 2) rs1 of
                (None, rs2) \<Rightarrow> (None, rs2)
              | (Some hour_count, rs2) \<Rightarrow>
                  if hour_count > burst_limit l
                  then (Some (Scan_429 ''burst_limit_exceeded'' (burst_message l)
                          (burst_window l - now mod burst_window l)), rs2)
                  else (Some Scan_Pass, rs2))"

text \<open>
  \<open>check\<close>: \<open>now\<close> is its own reading of the clock and \<open>now_fb\<close> the later one that \<open>_check_fallback\<close>
  takes; \<open>None\<close> for the client means that no Redis is configured.
\<close>

definition scan_check ::
  "scan_limits \<Rightarrow> 'rs redis_client option \<Rightarrow> rat \<Rightarrow> rat \<Rightarrow> http_request \<Rightarrow> scan_state \<times> 'rs
     \<Rightarrow> scan_outcome \<times> scan_state \<times> 'rs" where
  "scan_check l client now now_fb r s =
     (let (st, rs) = s;
          fallback = (\<lambda>st rs. case check_fallback l now_fb r st of (out, st') \<Rightarrow> (out, st', rs))
      in if rate_limit l = 0 then (Scan_Pass, st, rs)
         else case client of
             None \<Rightarrow> fallback st rs
           | Some redis \<Rightarrow>
               let ip = get_client_ip r;
                   tiers = (\<lambda>st rs.
                     case redis_tiers l redis ip (int_of_rat now) rs of
                       (Some out, rs') \<Rightarrow> (out, st, rs')
                     | (None, rs') \<Rightarrow> fallback (st\<lparr>redis_failed := True\<rparr>) rs')
               in if redis_failed st then
                    (case ping redis rs of
                       (True, rs1) \<Rightarrow> tiers (st\<lparr>redis_failed := False\<rparr>) rs1
                     | (False, rs1) \<Rightarrow> fallback st rs1)
                  else tiers st rs)"

definition scan_init :: scan_state where
  "scan_init = \<lparr>redis_failed = False, fallback_history = Map.empty\<rparr>"

subsection \<open>Keys\<close>

lemma colon_segment_inject:
  assumes "x @ '':'' @ a = y @ '':'' @ b" and "CHR '':'' \<notin> set a" and "CHR '':'' \<notin> set b"
  shows "x = y \<and> a = b"
proof -
  have seg: "takeWhile (\<lambda>c. c \<noteq> CHR '':'') (rev (z @ '':'' @ e)) = rev e"
    if "CHR '':'' \<notin> set e" for z e :: string
    using that by (auto simp: takeWhile_append)
  from seg [OF assms(2), of x] seg [OF assms(3), of y] assms(1) show ?thesis
    by (metis append_same_eq rev_is_rev_conv)
qed

lemma colon_notin_nat_str: "CHR '':'' \<notin> set (nat_str n)"
proof
  assume "CHR '':'' \<in> set (nat_str n)"
  then have "is_digit CHR '':''" using nat_str_digits [of n] by (simp add: list_all_iff)
  then show False by (simp add: py_str)
qed

lemma colon_notin_int_str: "CHR '':'' \<notin> set (int_str i)"
  using colon_notin_nat_str by (simp add: int_str_def)

lemma minus_notin_nat_str: "CHR ''-'' \<notin> set (nat_str n)"
proof
  assume "CHR ''-'' \<in> set (nat_str n)"
  then have "is_digit CHR ''-''" using nat_str_digits [of n] by (simp add: list_all_iff)
  then show False by (simp add: py_str)
qed

lemma int_str_inject: "int_str i = int_str j \<longleftrightarrow> i = j"
  using minus_notin_nat_str by (auto simp: int_str_def split: if_splits) (metis list.set_intros(1))+

lemma window_bucket_inject:
  assumes "window_bucket ip t w = window_bucket ip' t' w'" and "CHR '':'' \<notin> set t" and "CHR '':'' \<notin> set t'"
  shows "ip = ip' \<and> t = t' \<and> w = w'"
proof -
  have "(ip @ '':'' @ t) @ '':'' @ int_str w = (ip' @ '':'' @ t') @ '':'' @ int_str w'"
    using assms(1) by (simp add: window_bucket_def)
  then have "ip @ '':'' @ t = ip' @ '':'' @ t'" and "w = w'"
    using colon_segment_inject colon_notin_int_str int_str_inject by blast+
  then show ?thesis using colon_segment_inject [OF _ assms(2,3)] by blast
qed

subsection \<open>The in-memory tiers\<close>

text \<open>
  The two tiers differ in the word in their keys, their window and their limit; a tier is a \<open>bool\<close>,
  true for the burst tier.
\<close>

definition tier_name :: "bool \<Rightarrow> string" where
  "tier_name b = (if b then ''hour'' else ''minute'')"

definition tier_window :: "scan_limits \<Rightarrow> bool \<Rightarrow> int" where
  "tier_window l b = (if b then burst_window l else rate_window l)"

definition tier_limit :: "scan_limits \<Rightarrow> bool \<Rightarrow> int" where
  "tier_limit l b = (if b then burst_limit l else rate_limit l)"

definition tier_index :: "scan_limits \<Rightarrow> bool \<Rightarrow> rat \<Rightarrow> int" where
  "tier_index l b t = \<lfloor>t / of_int (tier_window l b)\<rfloor>"

definition tier_key :: "bool \<Rightarrow> string \<Rightarrow> int \<Rightarrow> string" where
  "tier_key b ip w = window_bucket ip (tier_name b) w"

definition fallback_times :: "scan_state \<Rightarrow> string \<Rightarrow> rat list" where
  "fallback_times st k = dget (fallback_history st) k []"

lemma tier_key_inject: "tier_key b ip w = tier_key b' ip' w' \<longleftrightarrow> b = b' \<and> ip = ip' \<and> w = w'"
  using window_bucket_inject [of ip "tier_name b" w ip' "tier_name b'" w']
  by (auto simp: tier_key_def tier_name_def split: if_splits)

lemma dget_clean_stale: "dget (clean_stale c h) k [] = filter (\<lambda>t. c < t) (dget h k [])"
  by (auto simp: clean_stale_def dget_def Let_def split: option.splits)

lemma check_fallback_effect:
  assumes "check_fallback l now r st = (out, st')" and "rate_window l > 0" and "burst_window l > 0"
  defines "old \<equiv> \<lambda>k. filter (\<lambda>t. now - of_int (max (rate_window l) (burst_window l)) < t) (fallback_times st k)"
    and "key \<equiv> \<lambda>b. tier_key b (get_client_ip r) (tier_index l b now)"
  shows "fallback_times st' k = old k @ (if out = Scan_Pass \<and> (\<exists>b. k = key b) then [now] else [])"
    and "out = Scan_Pass \<Longrightarrow> int (length (old (key b))) < tier_limit l b"
proof -
  have ne: "window_bucket (get_client_ip r) ''hour'' w \<noteq> window_bucket (get_client_ip r) ''minute'' w'" for w w'
    using tier_key_inject [of True _ w False _ w'] by (simp add: tier_key_def tier_name_def)
  have key: "(\<exists>b. k = key b) \<longleftrightarrow> k = key False \<or> k = key True"
    by (metis (full_types))
  show "fallback_times st' k = old k @ (if out = Scan_Pass \<and> (\<exists>b. k = key b) then [now] else [])"
    unfolding key using assms(1-3) ne
    by (auto simp: check_fallback_def Let_def fallback_times_def old_def key_def tier_key_def tier_name_def
        tier_index_def tier_window_def dget_clean_stale dget_upd split: if_splits)
  show "out = Scan_Pass \<Longrightarrow> int (length (old (key b))) < tier_limit l b"
    using assms(1-3) ne
    by (cases b) (auto simp: check_fallback_def Let_def fallback_times_def old_def key_def tier_key_def
        tier_name_def tier_index_def tier_window_def tier_limit_def dget_clean_stale dget_upd split: if_splits)
qed

text \<open>Every stored time lies in the window its key names.\<close>

definition aligned :: "scan_limits \<Rightarrow> scan_state \<Rightarrow> bool" where
  "aligned l st \<longleftrightarrow> (\<forall>b ip w. \<forall>t \<in> set (fallback_times st (tier_key b ip w)). tier_index l b t = w)"

lemma kept_in_window:
  assumes "tier_window l b > 0" and "tier_index l b now \<le> w" and "tier_index l b t = w"
    and "W \<ge> tier_window l b"
  shows "now - of_int W < t"
proof -
  let ?T = "of_int (tier_window l b) :: rat"
  have T: "0 < ?T" using assms(1) by simp
  have "of_int w \<le> t / ?T" using assms(3) unfolding tier_index_def by linarith
  moreover have "now / ?T < of_int w + 1" using assms(2) unfolding tier_index_def by linarith
  ultimately have "now / ?T < t / ?T + 1" by linarith
  then have "now < t + ?T" using T by (simp add: field_simps)
  moreover have "?T \<le> of_int W" using assms(4) by simp
  ultimately show ?thesis by linarith
qed

lemma check_fallback_tier:
  assumes call: "check_fallback l now r st = (out, st')" and pos: "rate_window l > 0" "burst_window l > 0"
    and al: "aligned l st"
  shows "aligned l st'"
    and "tier_index l b now \<le> w \<Longrightarrow>
      fallback_times st' (tier_key b ip w) = fallback_times st (tier_key b ip w)
        @ (if out = Scan_Pass \<and> ip = get_client_ip r \<and> w = tier_index l b now then [now] else [])"
    and "out = Scan_Pass \<Longrightarrow>
      int (length (fallback_times st (tier_key b (get_client_ip r) (tier_index l b now)))) < tier_limit l b"
proof -
  let ?c = "now - of_int (max (rate_window l) (burst_window l))"
  have T: "tier_window l b' > 0" "max (rate_window l) (burst_window l) \<ge> tier_window l b'" for b'
    using pos by (auto simp: tier_window_def)
  have kept: "filter (\<lambda>t. ?c < t) (fallback_times st (tier_key b' ip' w')) = fallback_times st (tier_key b' ip' w')"
    if "tier_index l b' now \<le> w'" for b' ip' w'
    using kept_in_window [OF T(1) that _ T(2)] al by (auto simp: filter_id_conv aligned_def)
  note eff = check_fallback_effect [OF call pos]
  show "aligned l st'"
    unfolding aligned_def eff(1) using al by (auto simp: aligned_def tier_key_inject split: if_splits)
  show "tier_index l b now \<le> w \<Longrightarrow>
      fallback_times st' (tier_key b ip w) = fallback_times st (tier_key b ip w)
        @ (if out = Scan_Pass \<and> ip = get_client_ip r \<and> w = tier_index l b now then [now] else [])"
    unfolding eff(1) by (auto simp: kept tier_key_inject)
  show "out = Scan_Pass \<Longrightarrow>
      int (length (fallback_times st (tier_key b (get_client_ip r) (tier_index l b now)))) < tier_limit l b"
    using eff(2) [of b] by (simp add: kept)
qed

definition fallback_step :: "scan_limits \<Rightarrow> rat \<Rightarrow> http_request \<Rightarrow> scan_state \<Rightarrow> bool \<times> scan_state" where
  "fallback_step l now r st = (case check_fallback l now r st of (out, st') \<Rightarrow> (out = Scan_Pass, st'))"

definition tier_times :: "scan_limits \<Rightarrow> bool \<Rightarrow> string \<Rightarrow> int \<Rightarrow> (rat \<times> http_request) list \<Rightarrow> rat list" where
  "tier_times l b ip w calls = map fst (filter (\<lambda>c. get_client_ip (snd c) = ip \<and> tier_index l b (fst c) = w) calls)"

lemma tier_index_mono: "tier_window l b > 0 \<Longrightarrow> t \<le> t' \<Longrightarrow> tier_index l b t \<le> tier_index l b t'"
  by (simp add: tier_index_def floor_mono divide_right_mono)

lemma tier_bounded_from:
  assumes pos: "rate_window l > 0" "burst_window l > 0"
    and "sorted (map fst calls)" and "\<forall>c \<in> set calls. before \<le> fst c" and "aligned l st"
    and "tier_index l b before \<le> w \<Longrightarrow> fallback_times st (tier_key b ip w) = past"
    and "length past \<le> nat (tier_limit l b)"
  shows "length (past @ tier_times l b ip w (admitted_calls (fallback_step l) calls st)) \<le> nat (tier_limit l b)"
  using assms(3-7)
proof (induction calls arbitrary: st past before)
  case Nil
  then show ?case by (simp add: tier_times_def)
next
  case (Cons c cs)
  obtain now r where c: "c = (now, r)" by (cases c)
  obtain out st' where call: "check_fallback l now r st = (out, st')" by (cases "check_fallback l now r st")
  note tier = check_fallback_tier [OF call pos Cons.prems(3)]
  from Cons.prems(1,2) have srt: "sorted (map fst cs)" "\<forall>d \<in> set cs. now \<le> fst d" and "before \<le> now"
    by (auto simp: c)
  then have le: "tier_index l b before \<le> tier_index l b now"
    by (intro tier_index_mono) (use pos in \<open>simp_all add: tier_window_def\<close>)
  let ?hit = "out = Scan_Pass \<and> get_client_ip r = ip \<and> tier_index l b now = w"
  let ?past = "past @ (if ?hit then [now] else [])"
  have "length ?past \<le> nat (tier_limit l b)"
    using tier(3) [of b] le Cons.prems(4,5) by auto
  moreover have "fallback_times st' (tier_key b ip w) = ?past" if "tier_index l b now \<le> w"
    using tier(2) [OF that, of ip] that le Cons.prems(4) by auto
  ultimately have "length (?past @ tier_times l b ip w (admitted_calls (fallback_step l) cs st'))
      \<le> nat (tier_limit l b)"
    by (intro Cons.IH [OF srt tier(1)])
  moreover have "fallback_step l now r st = (out = Scan_Pass, st')"
    by (simp add: fallback_step_def call)
  ultimately show ?case
    by (auto simp: c tier_times_def split: if_splits)
qed

text \<open>while the in-memory fallback serves, each fixed window of a tier holds at most that tier's
  limit of admitted requests of one client address, for any sequence of requests in time order.\<close>

theorem fallback_windows_bounded:
  assumes "rate_window l > 0" and "burst_window l > 0" and "sorted (map fst calls)"
  shows "length (tier_times l b ip w (admitted_calls (fallback_step l) calls scan_init)) \<le> nat (tier_limit l b)"
proof (cases calls)
  case (Cons c cs)
  have "length ([] @ tier_times l b ip w (admitted_calls (fallback_step l) calls scan_init)) \<le> nat (tier_limit l b)"
    by (rule tier_bounded_from [OF assms(1,2), where before = "fst c"])
      (use assms in \<open>auto simp: Cons scan_init_def aligned_def fallback_times_def\<close>)
  then show ?thesis by simp
qed (simp add: tier_times_def)

definition sample_limits :: scan_limits where
  "sample_limits = \<lparr>rate_limit = 1, rate_window = 60, burst_limit = 10, burst_window = 3600\<rparr>"

definition sample_scan :: "string \<Rightarrow> http_request" where
  "sample_scan host = \<lparr>req_headers = Map.empty, req_client = Some host, req_user_id = None,
     req_user = No_User\<rparr>"

definition sample_scans :: "(rat \<times> http_request) list" where
  "sample_scans = [(59, sample_scan ''h''), (61, sample_scan ''h''), (62, sample_scan ''h'')]"

theorem fallback_windows_bounded_witness:
  "length (tier_times sample_limits False ''h'' 1
     (admitted_calls (fallback_step sample_limits) sample_scans scan_init))
     \<le> nat (tier_limit sample_limits False)"
  by (rule fallback_windows_bounded) (simp_all add: sample_limits_def sample_scans_def)

subsection \<open>The Redis tiers\<close>

text \<open>
  \<open>INCR\<close> answers one more than the count it found and stores it. Only the keys of the current
  windows are used, and their TTL is twice the window, so no count is lost while its key is in use.
\<close>

definition counts_with :: "('rs \<Rightarrow> string \<Rightarrow> int) \<Rightarrow> 'rs redis_client \<Rightarrow> bool" where
  "counts_with cnt redis \<longleftrightarrow>
     (\<forall>k ttl rs. \<exists>rs'. incr_expire redis k ttl rs = (Some (cnt rs k + 1), rs') \<and>
        cnt rs' = (cnt rs)(k := cnt rs k + 1))"

definition redis_step ::
  "scan_limits \<Rightarrow> 'rs redis_client \<Rightarrow> rat \<Rightarrow> http_request \<Rightarrow> scan_state \<times> 'rs \<Rightarrow> bool \<times> scan_state \<times> 'rs" where
  "redis_step l redis now r s =
     (case scan_check l (Some redis) now now r s of (out, s') \<Rightarrow> (out = Scan_Pass, s'))"

definition tier_redis_key :: "scan_limits \<Rightarrow> bool \<Rightarrow> rat \<times> http_request \<Rightarrow> string" where
  "tier_redis_key l b c =
     make_key (get_client_ip (snd c)) (tier_name b) (int_of_rat (fst c) div tier_window l b)"

lemma make_key_tiers_differ: "make_key ip ''hour'' w \<noteq> make_key ip ''minute'' w'"
proof
  assume "make_key ip ''hour'' w = make_key ip ''minute'' w'"
  then have "window_bucket ip ''hour'' w = window_bucket ip ''minute'' w'"
    by (simp add: make_key_def window_bucket_def)
  then show False using window_bucket_inject [of ip "''hour''" w ip "''minute''" w'] by auto
qed

lemma redis_tiers_count:
  assumes "counts_with cnt redis" and "rate_window l \<noteq> 0" and "burst_window l \<noteq> 0"
    and "redis_tiers l redis (get_client_ip r) (int_of_rat now) rs = (res, rs')"
  shows "\<exists>out. res = Some out" and "cnt rs k \<le> cnt rs' k"
    and "res = Some Scan_Pass \<Longrightarrow> cnt rs (tier_redis_key l b (now, r)) < cnt rs' (tier_redis_key l b (now, r))
           \<and> cnt rs (tier_redis_key l b (now, r)) < tier_limit l b"
proof -
  let ?km = "make_key (get_client_ip r) ''minute'' (int_of_rat now div rate_window l)"
  let ?kh = "make_key (get_client_ip r) ''hour'' (int_of_rat now div burst_window l)"
  note ne = make_key_tiers_differ [symmetric] make_key_tiers_differ
  obtain rs1 where 1: "incr_expire redis ?km (rate_window l * 2) rs = (Some (cnt rs ?km + 1), rs1)"
      "cnt rs1 = (cnt rs)(?km := cnt rs ?km + 1)"
    using assms(1) unfolding counts_with_def by blast
  obtain rs2 where 2: "incr_expire redis ?kh (burst_window l * 2) rs1 = (Some (cnt rs1 ?kh + 1), rs2)"
      "cnt rs2 = (cnt rs1)(?kh := cnt rs1 ?kh + 1)"
    using assms(1) unfolding counts_with_def by blast
  show "\<exists>out. res = Some out" "cnt rs k \<le> cnt rs' k"
    using assms(2-4) 1 2 by (auto simp: redis_tiers_def ne split: if_splits)
  show "res = Some Scan_Pass \<Longrightarrow> cnt rs (tier_redis_key l b (now, r)) < cnt rs' (tier_redis_key l b (now, r))
          \<and> cnt rs (tier_redis_key l b (now, r)) < tier_limit l b"
    using assms(2-4) 1 2
    by (cases b) (auto simp: redis_tiers_def tier_redis_key_def tier_name_def tier_window_def
        tier_limit_def ne split: if_splits)
qed

lemma redis_bounded_from:
  assumes cnt: "counts_with cnt redis" and nz: "rate_limit l \<noteq> 0" "rate_window l \<noteq> 0" "burst_window l \<noteq> 0"
    and "\<not> redis_failed st" and "int n \<le> cnt rs k" and "n \<le> nat (tier_limit l b)"
  shows "n + length (filter (\<lambda>c. tier_redis_key l b c = k) (admitted_calls (redis_step l redis) calls (st, rs)))
           \<le> nat (tier_limit l b)"
  using assms(5-7)
proof (induction calls arbitrary: st rs n)
  case (Cons c cs)
  obtain now r where c: "c = (now, r)" by (cases c)
  obtain res rs' where tiers: "redis_tiers l redis (get_client_ip r) (int_of_rat now) rs = (res, rs')"
    by (cases "redis_tiers l redis (get_client_ip r) (int_of_rat now) rs")
  note count = redis_tiers_count [OF cnt nz(2,3) tiers]
  obtain out where out: "res = Some out" using count(1) by blast
  have step: "redis_step l redis now r (st, rs) = (out = Scan_Pass, st, rs')"
    using Cons.prems(1) nz(1) tiers out by (simp add: redis_step_def scan_check_def Let_def)
  let ?n = "n + (if out = Scan_Pass \<and> tier_redis_key l b c = k then 1 else 0)"
  have "int ?n \<le> cnt rs' k" "?n \<le> nat (tier_limit l b)"
    using Cons.prems(2,3) count(2) [of k] count(3) [of b] out by (auto simp: c)
  from Cons.IH [OF Cons.prems(1) this] show ?case
    by (auto simp: c step split: if_splits)
qed simp

text \<open>with a Redis that counts, however requests arrive and interleave, the requests that
  \<open>check\<close> lets through in one window of a tier for one client address are at most that tier's
  limit; rejected requests only make the count larger.\<close>

theorem redis_windows_bounded:
  assumes "counts_with cnt redis" and "rate_limit l \<noteq> 0" and "rate_window l \<noteq> 0" and "burst_window l \<noteq> 0"
    and "0 \<le> cnt rs k"
  shows "length (filter (\<lambda>c. tier_redis_key l b c = k)
           (admitted_calls (redis_step l redis) calls (scan_init, rs))) \<le> nat (tier_limit l b)"
  using redis_bounded_from [OF assms(1-4), of scan_init 0 rs k b calls] assms(5)
  by (simp add: scan_init_def)

definition counter_redis :: "(string \<Rightarrow> int) redis_client" where
  "counter_redis = \<lparr>incr_expire = (\<lambda>k ttl rs. (Some (rs k + 1), rs(k := rs k + 1))), ping = (\<lambda>rs. (True, rs))\<rparr>"

theorem redis_windows_bounded_witness:
  "length (filter (\<lambda>c. tier_redis_key sample_limits False c = make_key ''h'' ''minute'' 1)
     (admitted_calls (redis_step sample_limits counter_redis) sample_scans (scan_init, \<lambda>_. 0)))
     \<le> nat (tier_limit sample_limits False)"
  by (rule redis_windows_bounded [where cnt = "\<lambda>rs. rs"])
    (simp_all add: counts_with_def counter_redis_def sample_limits_def)

subsection \<open>Failing over\<close>

text \<open>when limiting is on, \<open>check\<close> lets a request through only if it counted it: either both
  Redis tiers counted it within their limits and the circuit is closed, or the in-memory fallback
  recorded it in both of its windows. No Redis failure opens a way past both.\<close>

theorem scan_pass_is_counted:
  assumes "scan_check l client now now_fb r (st, rs) = (Scan_Pass, st', rs')" and "rate_limit l \<noteq> 0"
  shows "(\<exists>redis rs0. client = Some redis \<and> \<not> redis_failed st' \<and>
            redis_tiers l redis (get_client_ip r) (int_of_rat now) rs0 = (Some Scan_Pass, rs')) \<or>
     (\<forall>b. now_fb \<in> set (fallback_times st' (tier_key b (get_client_ip r) (tier_index l b now_fb))))"
proof -
  have recorded: "now_fb \<in> set (fallback_times st'' (tier_key b (get_client_ip r) (tier_index l b now_fb)))"
    if "check_fallback l now_fb r st0 = (Scan_Pass, st'')" for st0 st'' b
    using that
    by (cases b) (auto simp: check_fallback_def Let_def fallback_times_def tier_key_def tier_name_def
        tier_index_def tier_window_def dget_upd split: if_splits)
  show ?thesis
    using assms recorded
    by (auto simp: scan_check_def Let_def split: option.splits prod.splits if_splits bool.splits)
qed

definition after_first_scan :: scan_state where
  "after_first_scan = snd (check_fallback sample_limits 59 (sample_scan ''h'') scan_init)"

lemma first_scan: "check_fallback sample_limits 59 (sample_scan ''h'') scan_init = (Scan_Pass, after_first_scan)"
proof -
  have "fst (check_fallback sample_limits 59 (sample_scan ''h'') scan_init) = Scan_Pass"
    by (simp add: check_fallback_def Let_def sample_limits_def scan_init_def dget_clean_stale dget_upd)
  then show ?thesis by (simp add: after_first_scan_def prod_eq_iff)
qed

theorem scan_pass_is_counted_witness:
  "(\<exists>redis rs0. None = Some (redis :: unit redis_client) \<and> \<not> redis_failed after_first_scan \<and>
      redis_tiers sample_limits redis (get_client_ip (sample_scan ''h'')) (int_of_rat 59) rs0
        = (Some Scan_Pass, ())) \<or>
   (\<forall>b. 59 \<in> set (fallback_times after_first_scan
        (tier_key b (get_client_ip (sample_scan ''h'')) (tier_index sample_limits b 59))))"
  by (rule scan_pass_is_counted [where st = scan_init and rs = "()"])
    (simp_all add: scan_check_def first_scan, simp_all add: sample_limits_def)

subsection \<open>Where it does less than it says\<close>

text \<open>The windows are fixed, not sliding: with one request per 60 seconds, requests at seconds 59
  and 61 both pass.\<close>

lemma fixed_windows_admit_twice:
  "map fst (admitted_calls (fallback_step sample_limits) sample_scans scan_init) = [59, 61]"
  by code_simp

text \<open>\<open>X-Forwarded-For\<close> is believed from any connection, unlike in \<open>resolve_client_identity\<close>: a client
  that changes it is counted as another address.\<close>

lemma spoofed_address:
  "get_client_ip \<lparr>req_headers = [''x-forwarded-for'' \<mapsto> x], req_client = Some host, req_user_id = u,
     req_user = v\<rparr> = (if x = '''' then host else py_strip (hd (split_on (CHR '','') x)))"
  by (simp add: get_client_ip_def truthy_header_def)

end
