(* ===== verification/Response_Cache.thy ===== *)
theory Response_Cache
  imports Complex_Main Prelude
begin

text \<open>
  \<open>CacheClient\<close> of \<open>backend/secuscan/cache.py\<close>: values with an expiry and a last access time per
  key, eviction of the least recently used quarter when a new key meets a full cache, and a sweep of
  expired entries on every fiftieth write. Each \<open>time.time()\<close> reading is an argument, in the order
  the code takes them. The default TTL of the settings is an argument as well.
\<close>

record 'v cache =
  data :: "(string \<times> 'v) list"
  expires :: "(string \<times> rat) list"
  access_order :: "(string \<times> rat) list"
  max_entries :: int
  eviction_count :: int
  sweep_count :: int
  write_count :: int

definition cache_init :: "int \<Rightarrow> 'v cache" where
  "cache_init n = \<lparr>data = [], expires = [], access_order = [], max_entries = n,
     eviction_count = 0, sweep_count = 0, write_count = 0\<rparr>"

definition disconnect :: "'v cache \<Rightarrow> 'v cache" where
  "disconnect c = c\<lparr>data := [], expires := [], access_order := []\<rparr>"

definition drop_keys :: "string list \<Rightarrow> 'v cache \<Rightarrow> 'v cache" where
  "drop_keys ks c = c\<lparr>data := adels ks (data c), expires := adels ks (expires c),
     access_order := adels ks (access_order c)\<rparr>"

definition sweep_expired :: "rat \<Rightarrow> 'v cache \<Rightarrow> 'v cache" where
  "sweep_expired now c =
     (let keys = map fst (filter (\<lambda>p. snd p \<le> now) (expires c));
          c1 = drop_keys keys c
      in if keys \<noteq> [] then c1\<lparr>sweep_count := sweep_count c1 + int (length keys)\<rparr> else c1)"

definition evict_keys :: "'v cache \<Rightarrow> string list" where
  "evict_keys c =
     (let sorted_keys = map fst (sort_key snd (access_order c));
          evict_count = max 1 (trunc_div (max_entries c) 4)
      in take (nat evict_count) sorted_keys)"

definition evict_lru :: "'v cache \<Rightarrow> 'v cache" where
  "evict_lru c =
     (if int (length (data c)) < max_entries c then c
      else (drop_keys (evict_keys c) c)
             \<lparr>eviction_count := eviction_count c + max 1 (trunc_div (max_entries c) 4)\<rparr>)"

definition get_json :: "rat \<Rightarrow> string \<Rightarrow> 'v cache \<Rightarrow> 'v option \<times> 'v cache" where
  "get_json now key c =
     (case map_of (expires c) key of
        Some expiry \<Rightarrow>
          if expiry \<noteq> 0 \<and> now > expiry then (None, drop_keys [key] c)
          else if key \<in> set (akeys (data c))
          then (map_of (data c) key, c\<lparr>access_order := aput key now (access_order c)\<rparr>)
          else (None, c)
      | None \<Rightarrow>
          if key \<in> set (akeys (data c))
          then (map_of (data c) key, c\<lparr>access_order := aput key now (access_order c)\<rparr>)
          else (None, c))"

definition store_entry :: "rat \<Rightarrow> rat \<Rightarrow> string \<Rightarrow> 'v \<Rightarrow> int \<Rightarrow> 'v cache \<Rightarrow> 'v cache" where
  "store_entry t_exp t_acc key value actual_ttl c =
     c\<lparr>data := aput key value (data c),
       expires := aput key (t_exp + of_int actual_ttl) (expires c),
       access_order := aput key t_acc (access_order c),
       write_count := write_count c + 1\<rparr>"

definition set_json ::
  "int \<Rightarrow> rat \<Rightarrow> rat \<Rightarrow> rat \<Rightarrow> string \<Rightarrow> 'v \<Rightarrow> int option \<Rightarrow> 'v cache \<Rightarrow> 'v cache" where
  "set_json default_ttl t_exp t_acc t_sweep key value ttl c =
     (let c1 = (if int (length (data c)) \<ge> max_entries c \<and> key \<notin> set (akeys (data c))
                then evict_lru c else c);
          actual_ttl = (case ttl of None \<Rightarrow> default_ttl | Some t \<Rightarrow> if t = 0 then default_ttl else t);
          c2 = store_entry t_exp t_acc key value actual_ttl c1
      in if write_count c2 mod 50 = 0 then sweep_expired t_sweep c2 else c2)"

definition delete_prefix :: "string \<Rightarrow> 'v cache \<Rightarrow> 'v cache" where
  "delete_prefix prefix c = drop_keys (filter (\<lambda>k. starts_with k prefix) (akeys (data c))) c"

definition cache_size :: "'v cache \<Rightarrow> int" where
  "cache_size c = int (length (data c))"

text \<open>The global instance: \<open>None\<close> until \<open>init_cache\<close>; the invalidations then do nothing.\<close>

definition invalidate_prefixes :: "string list \<Rightarrow> 'v cache option \<Rightarrow> 'v cache option" where
  "invalidate_prefixes ps c = map_option (fold delete_prefix ps) c"

definition invalidate_view_cache :: "'v cache option \<Rightarrow> 'v cache option" where
  "invalidate_view_cache c = invalidate_prefixes [''summary:'', ''findings:'', ''reports:'', ''tasks:''] c"

definition invalidate_plugin_caches :: "'v cache option \<Rightarrow> 'v cache option" where
  "invalidate_plugin_caches c = invalidate_prefixes [''summary:'', ''plugins:''] c"

subsection \<open>Invariant: the three dictionaries agree\<close>

definition cache_ok :: "'v cache \<Rightarrow> bool" where
  "cache_ok c \<longleftrightarrow> distinct (akeys (data c)) \<and>
     distinct (akeys (expires c)) \<and> set (akeys (expires c)) = set (akeys (data c)) \<and>
     distinct (akeys (access_order c)) \<and> set (akeys (access_order c)) = set (akeys (data c))"

lemma cache_ok_init: "cache_ok (cache_init n)"
  by (simp add: cache_ok_def cache_init_def akeys_def)

lemma cache_ok_drop_keys [intro]: "cache_ok c \<Longrightarrow> cache_ok (drop_keys ks c)"
  by (auto simp: cache_ok_def drop_keys_def)

lemma cache_ok_counts [simp]:
  "cache_ok (c\<lparr>eviction_count := n\<rparr>) = cache_ok c"
  "cache_ok (c\<lparr>sweep_count := n\<rparr>) = cache_ok c"
  by (simp_all add: cache_ok_def)

lemma cache_ok_sweep [intro]: "cache_ok c \<Longrightarrow> cache_ok (sweep_expired now c)"
  by (auto simp: sweep_expired_def Let_def)

lemma cache_ok_evict [intro]: "cache_ok c \<Longrightarrow> cache_ok (evict_lru c)"
  by (auto simp: evict_lru_def)

lemma cache_ok_store [intro]: "cache_ok c \<Longrightarrow> cache_ok (store_entry te ta k v n c)"
  by (auto simp: cache_ok_def store_entry_def)

lemma cache_ok_get [intro]: "cache_ok c \<Longrightarrow> cache_ok (snd (get_json now k c))"
  by (auto simp: get_json_def cache_ok_def drop_keys_def split: option.splits)

lemma cache_ok_set [intro]: "cache_ok c \<Longrightarrow> cache_ok (set_json d te ta ts k v ttl c)"
  by (auto simp: set_json_def Let_def)

lemma cache_ok_delete_prefix [intro]: "cache_ok c \<Longrightarrow> cache_ok (delete_prefix p c)"
  by (auto simp: delete_prefix_def)

subsection \<open>Size\<close>

lemma length_data_drop: "length (data (drop_keys ks c)) \<le> length (data c)"
  by (simp add: drop_keys_def adels_filter)

lemma max_entries_frame [simp]:
  "max_entries (drop_keys ks c) = max_entries c"
  "max_entries (sweep_expired now c) = max_entries c"
  "max_entries (evict_lru c) = max_entries c"
  "max_entries (store_entry te ta k v n c) = max_entries c"
  by (simp_all add: drop_keys_def sweep_expired_def evict_lru_def store_entry_def Let_def)

lemma length_data_sweep: "length (data (sweep_expired now c)) \<le> length (data c)"
  by (auto simp: sweep_expired_def Let_def length_data_drop)

lemma evict_keys_in: "set (evict_keys c) \<subseteq> set (akeys (access_order c))"
  by (auto simp: evict_keys_def Let_def akeys_def dest!: in_set_takeD)

lemma evict_keys_ne: "access_order c \<noteq> [] \<Longrightarrow> evict_keys c \<noteq> []"
  by (simp add: evict_keys_def Let_def) (metis length_0_conv length_sort)

lemma length_data_store: "length (data (store_entry te ta k v n c))
     = length (data c) + (if k \<in> set (akeys (data c)) then 0 else 1)"
proof -
  have "length (data (store_entry te ta k v n c)) = length (akeys (data (store_entry te ta k v n c)))"
    by simp
  also have "\<dots> = length (akeys (data c)) + (if k \<in> set (akeys (data c)) then 0 else 1)"
    by (simp add: store_entry_def)
  finally show ?thesis by simp
qed

lemma evict_makes_room:
  assumes "cache_ok c" and "data c \<noteq> []" and "max_entries c \<le> int (length (data c))"
  shows "length (data (evict_lru c)) < length (data c)"
proof -
  have "set (akeys (access_order c)) = set (akeys (data c))"
    using assms(1) by (simp add: cache_ok_def)
  moreover obtain k where k: "k \<in> set (evict_keys c)"
    using evict_keys_ne [of c] assms(2) calculation
    by (metis akeys_def empty_set length_0_conv length_akeys list.set_intros(1) neq_Nil_conv set_empty2)
  ultimately have "k \<in> set (akeys (data c))" using evict_keys_in by blast
  then have "length (filter (\<lambda>x. x \<notin> set (evict_keys c)) (akeys (data c))) < length (akeys (data c))"
    by (rule length_filter_less [of k]) (use k in auto)
  then show ?thesis
    using assms(3) by (simp add: evict_lru_def drop_keys_def) (metis akeys_adels length_akeys)
qed

lemma set_json_size:
  assumes "cache_ok c" and "1 \<le> max_entries c" and "cache_size c \<le> max_entries c"
  shows "cache_size (set_json d te ta ts k v ttl c) \<le> max_entries c"
proof -
  define c1 where "c1 = (if max_entries c \<le> int (length (data c)) \<and> k \<notin> set (akeys (data c))
                then evict_lru c else c)"
  have room: "k \<in> set (akeys (data c1)) \<or> int (length (data c1)) < max_entries c"
    using evict_makes_room [OF assms(1)] assms(2,3)
    by (cases "data c = []") (auto simp: c1_def cache_size_def)
  have "length (data c1) \<le> length (data c)"
    using length_data_drop by (auto simp: c1_def evict_lru_def)
  then have le: "int (length (data c1)) \<le> max_entries c"
    using assms(3) by (simp add: cache_size_def)
  have st: "int (length (data (store_entry te ta k v n c1))) \<le> max_entries c" for n
    using room le by (auto simp: length_data_store)
  have sw: "int (length (data (sweep_expired ts (store_entry te ta k v n c1)))) \<le> max_entries c" for n
    using st [of n] length_data_sweep [of ts "store_entry te ta k v n c1"] by linarith
  show ?thesis
    by (simp add: cache_size_def set_json_def Let_def c1_def [symmetric] st sw)
qed

subsection \<open>Runs of operations\<close>

datatype 'v cache_op =
    Get rat string
  | Set rat rat rat string 'v "int option"
  | Delete_Prefix string
  | Disconnect

fun apply_op :: "int \<Rightarrow> 'v cache_op \<Rightarrow> 'v cache \<Rightarrow> 'v cache" where
  "apply_op d (Get now k) c = snd (get_json now k c)"
| "apply_op d (Set te ta ts k v ttl) c = set_json d te ta ts k v ttl c"
| "apply_op d (Delete_Prefix p) c = delete_prefix p c"
| "apply_op d Disconnect c = disconnect c"

definition run_ops :: "int \<Rightarrow> 'v cache_op list \<Rightarrow> 'v cache \<Rightarrow> 'v cache" where
  "run_ops d ops c = fold (apply_op d) ops c"

lemma get_json_frame [simp]: "max_entries (snd (get_json now k c)) = max_entries c"
  by (auto simp: get_json_def split: option.splits)

lemma get_json_size: "cache_size (snd (get_json now k c)) \<le> cache_size c"
  by (auto simp: get_json_def cache_size_def length_data_drop split: option.splits)

lemma set_json_frame [simp]: "max_entries (set_json d te ta ts k v ttl c) = max_entries c"
  by (simp add: set_json_def Let_def)

lemma apply_op_keeps:
  assumes "cache_ok c" and "1 \<le> max_entries c" and "cache_size c \<le> max_entries c"
  shows "cache_ok (apply_op d x c) \<and> max_entries (apply_op d x c) = max_entries c
         \<and> cache_size (apply_op d x c) \<le> max_entries c"
proof (cases x)
  case (Get now k)
  then show ?thesis using assms get_json_size [of now k c] by auto
next
  case (Set te ta ts k v ttl)
  then show ?thesis using assms set_json_size [OF assms] by auto
next
  case (Delete_Prefix p)
  then show ?thesis using assms length_data_drop
    by (auto simp: delete_prefix_def cache_size_def intro: order_trans [OF of_nat_mono])
next
  case Disconnect
  then show ?thesis using assms
    by (simp add: disconnect_def cache_ok_def cache_size_def akeys_def)
qed

lemma run_ops_keeps:
  assumes "cache_ok c" and "1 \<le> max_entries c" and "cache_size c \<le> max_entries c"
  shows "cache_ok (run_ops d ops c) \<and> max_entries (run_ops d ops c) = max_entries c
         \<and> cache_size (run_ops d ops c) \<le> max_entries c"
  using assms
proof (induction ops arbitrary: c)
  case Nil
  then show ?case by (simp add: run_ops_def)
next
  case (Cons x ops)
  have "run_ops d (x # ops) c = run_ops d ops (apply_op d x c)" by (simp add: run_ops_def)
  then show ?case using Cons.IH [of "apply_op d x c"] apply_op_keeps [OF Cons.prems, of d x] Cons.prems
    by simp
qed

text \<open>C17: However reads, writes, prefix deletions and disconnects are mixed, a cache created with
  room for \<open>n \<ge> 1\<close> entries never holds more than \<open>n\<close>, and its three dictionaries hold the same
  keys, each once.\<close>

theorem cache_never_overfull:
  assumes "1 \<le> n"
  shows "cache_size (run_ops d ops (cache_init n)) \<le> n \<and> cache_ok (run_ops d ops (cache_init n))"
  using run_ops_keeps [OF cache_ok_init, of n d ops] assms by (simp add: cache_init_def cache_size_def)

theorem cache_never_overfull_witness:
  "cache_size (run_ops 60 [Set 0 0 0 ''a'' True None, Set 1 1 1 ''b'' False None,
      Get 2 ''a'', Set 3 3 3 ''c'' True (Some 5)] (cache_init 2)) \<le> 2"
  by (rule cache_never_overfull [THEN conjunct1]) simp

text \<open>The write at \<open>n = 2\<close> above evicts the entry read least recently.\<close>

lemma eviction_example:
  "akeys (data (run_ops 60 [Set 0 0 0 ''a'' True None, Set 1 1 1 ''b'' False None,
      Get 2 ''a'', Set 3 3 3 ''c'' True (Some 5)] (cache_init 2))) = [''a'', ''c'']"
  by code_simp

subsection \<open>Reading back what was written\<close>

lemma data_drop [simp]: "map_of (data (drop_keys ks c)) k = (if k \<in> set ks then None else map_of (data c) k)"
  by (simp add: drop_keys_def map_of_adels)

lemma expires_drop [simp]:
  "map_of (expires (drop_keys ks c)) k = (if k \<in> set ks then None else map_of (expires c) k)"
  by (simp add: drop_keys_def map_of_adels)

lemma map_of_none_key: "k \<notin> set (akeys xs) \<Longrightarrow> map_of xs k = None"
  by (simp add: map_of_eq_None_akeys)

lemma get_json_value:
  "fst (get_json now k c) =
     (case map_of (expires c) k of
        Some e \<Rightarrow> if e \<noteq> 0 \<and> e < now then None else map_of (data c) k
      | None \<Rightarrow> map_of (data c) k)"
  by (auto simp: get_json_def map_of_none_key split: option.splits)

lemma get_json_cong:
  "map_of (expires c) k = map_of (expires c') k \<Longrightarrow> map_of (data c) k = map_of (data c') k
     \<Longrightarrow> fst (get_json now k c) = fst (get_json now k c')"
  by (simp add: get_json_value split: option.splits)

lemma get_after_drop:
  "fst (get_json now k (drop_keys ks c)) = (if k \<in> set ks then None else fst (get_json now k c))"
  by (simp add: get_json_value split: option.splits)

lemma get_counts [simp]:
  "fst (get_json now k (c\<lparr>eviction_count := n\<rparr>)) = fst (get_json now k c)"
  "fst (get_json now k (c\<lparr>sweep_count := n\<rparr>)) = fst (get_json now k c)"
  by (simp_all add: get_json_value split: option.splits)

lemma get_after_sweep:
  "fst (get_json now k (sweep_expired ts c)) =
     (if \<exists>e. (k, e) \<in> set (expires c) \<and> e \<le> ts then None else fst (get_json now k c))"
proof -
  let ?ks = "map fst (filter (\<lambda>p. snd p \<le> ts) (expires c))"
  have "fst (get_json now k (sweep_expired ts c)) = fst (get_json now k (drop_keys ?ks c))"
    by (simp add: sweep_expired_def Let_def)
  moreover have "k \<in> set ?ks \<longleftrightarrow> (\<exists>e. (k, e) \<in> set (expires c) \<and> e \<le> ts)"
    by force
  ultimately show ?thesis by (simp only: get_after_drop)
qed

lemma get_after_evict:
  "fst (get_json now k (evict_lru c)) \<in> {None, fst (get_json now k c)}"
  by (auto simp: evict_lru_def get_after_drop)

lemma get_after_store:
  "fst (get_json now k' (store_entry te ta k v n c)) =
     (if k' = k then (if te + of_int n \<noteq> 0 \<and> te + of_int n < now then None else Some v)
      else fst (get_json now k' c))"
  by (simp add: store_entry_def get_json_value split: option.splits)

lemma in_expires_store:
  assumes "cache_ok c" and "(k, e) \<in> set (expires (store_entry te ta k v n c))"
  shows "e = te + of_int n"
proof -
  have "cache_ok (store_entry te ta k v n c)" using assms(1) by auto
  then have "distinct (map fst (expires (store_entry te ta k v n c)))"
    by (simp add: cache_ok_def akeys_def)
  then have "map_of (expires (store_entry te ta k v n c)) k = Some e"
    using assms(2) by simp
  then show ?thesis by (simp add: store_entry_def)
qed

text \<open>A written value is what every read returns until its time to live has passed, and nothing
  afterwards; a write never makes any other key return something it did not return before. This
  needs the sweep of the write itself to come before the expiry, and a nonzero TTL.\<close>

theorem read_after_write:
  assumes "cache_ok c" and "ttl \<noteq> 0" and "ts < te + of_int ttl" and "te + of_int ttl \<noteq> 0"
  shows "fst (get_json now k (set_json d te ta ts k v (Some ttl) c))
           = (if now \<le> te + of_int ttl then Some v else None)
         \<and> (k' \<noteq> k \<longrightarrow>
             fst (get_json now k' (set_json d te ta ts k v (Some ttl) c)) \<in> {None, fst (get_json now k' c)})"
proof -
  define c1 where "c1 = (if max_entries c \<le> int (length (data c)) \<and> k \<notin> set (akeys (data c))
                then evict_lru c else c)"
  have ok1: "cache_ok c1" using assms(1) by (auto simp: c1_def)
  have live: "\<not> (\<exists>e. (k, e) \<in> set (expires (store_entry te ta k v ttl c1)) \<and> e \<le> ts)"
    using in_expires_store [OF ok1] assms(3) by fastforce
  have other: "fst (get_json now k' c1) \<in> {None, fst (get_json now k' c)}"
    using get_after_evict by (auto simp: c1_def)
  have set: "set_json d te ta ts k v (Some ttl) c =
      (if write_count (store_entry te ta k v ttl c1) mod 50 = 0
       then sweep_expired ts (store_entry te ta k v ttl c1) else store_entry te ta k v ttl c1)"
    using assms(2) by (simp add: set_json_def Let_def c1_def)
  show ?thesis
    using live other assms(4) by (auto simp: set get_after_sweep get_after_store)
qed

theorem read_after_write_witness:
  "fst (get_json 70 ''k'' (set_json 60 10 10 10 ''k'' True (Some 60) (cache_init 5))) = Some True
   \<and> fst (get_json 71 ''k'' (set_json 60 10 10 10 ''k'' True (Some 60) (cache_init 5))) = None"
  using read_after_write [of "cache_init 5" 60 10 10 70 "''k''" 60 10 True]
    read_after_write [of "cache_init 5" 60 10 10 71 "''k''" 60 10 True]
  by (simp add: cache_ok_init)

subsection \<open>Eviction order\<close>

lemma sorted_take_drop:
  assumes "sorted xs" and "x \<in> set (take n xs)" and "y \<in> set (drop n xs)"
  shows "x \<le> y"
  using assms by (metis append_take_drop_id sorted_append)

lemma evict_keys_oldest:
  assumes d: "distinct (akeys (access_order c))" and k: "k \<in> set (evict_keys c)"
    and k': "k' \<in> set (akeys (access_order c))" "k' \<notin> set (evict_keys c)"
  shows "the (map_of (access_order c) k) \<le> the (map_of (access_order c) k')"
proof -
  define s where "s = sort_key snd (access_order c)"
  define n where "n = nat (max 1 (trunc_div (max_entries c) 4))"
  have ek: "evict_keys c = map fst (take n s)"
    by (simp add: evict_keys_def s_def n_def take_map Let_def)
  have sset: "set s = set (access_order c)" by (simp add: s_def)
  have mo: "map_of (access_order c) (fst p) = Some (snd p)" if "p \<in> set s" for p
    using d that by (simp add: sset akeys_def)
  obtain p where p: "p \<in> set (take n s)" "fst p = k" using k by (auto simp: ek)
  obtain q where q: "q \<in> set s" "fst q = k'"
    using k'(1) by (auto simp: akeys_def sset)
  have "q \<notin> set (take n s)" using k'(2) q(2) by (auto simp: ek)
  then have "q \<in> set (drop n s)" using q(1) by (metis Un_iff append_take_drop_id set_append)
  then have "snd p \<le> snd q"
    using sorted_take_drop [of "map snd s" "snd p" n "snd q"] p(1)
    by (auto simp: s_def take_map drop_map)
  then show ?thesis using mo [of p] mo [of q] p q by (auto dest: in_set_takeD)
qed

text \<open>When a full cache makes room it drops entries in least-recently-used order: no entry that
  stays was used before one that is dropped, and it drops a quarter of the capacity, at least one
  (all entries, if it holds fewer).\<close>

theorem eviction_is_lru:
  assumes "cache_ok c" and "max_entries c \<le> cache_size c"
  shows "(\<forall>k \<in> set (akeys (data c)) - set (akeys (data (evict_lru c))).
           \<forall>k' \<in> set (akeys (data (evict_lru c))).
             the (map_of (access_order c) k) \<le> the (map_of (access_order c) k'))
         \<and> int (card (set (akeys (data c)) - set (akeys (data (evict_lru c)))))
             = min (cache_size c) (max 1 (trunc_div (max_entries c) 4))"
proof -
  have same: "set (akeys (access_order c)) = set (akeys (data c))"
    and dist: "distinct (akeys (access_order c))" "distinct (akeys (data c))"
    using assms(1) by (simp_all add: cache_ok_def)
  have after: "set (akeys (data (evict_lru c))) = set (akeys (data c)) - set (evict_keys c)"
    using assms(2) by (auto simp: evict_lru_def drop_keys_def cache_size_def)
  have gone: "set (akeys (data c)) - set (akeys (data (evict_lru c))) = set (evict_keys c)"
    using evict_keys_in [of c] by (auto simp: after same)
  have "distinct (map fst (sort_key snd (access_order c)))"
    using dist(1) by (simp add: akeys_def distinct_map)
  then have "distinct (evict_keys c)" by (simp add: evict_keys_def Let_def)
  then have "card (set (evict_keys c)) = length (evict_keys c)" by (rule distinct_card)
  moreover have "length (access_order c) = length (data c)"
    using same dist by (metis distinct_card length_akeys)
  ultimately have "int (card (set (evict_keys c))) = min (cache_size c) (max 1 (trunc_div (max_entries c) 4))"
    by (auto simp: evict_keys_def Let_def cache_size_def of_nat_min)
  then show ?thesis
    using evict_keys_oldest [OF dist(1)] unfolding gone by (auto simp: after same)
qed

theorem eviction_is_lru_witness:
  "int (card (set (akeys (data (run_ops 60 [Set 0 0 0 ''a'' True None, Set 1 1 1 ''b'' False None]
       (cache_init 2)))) - set (akeys (data (evict_lru (run_ops 60
         [Set 0 0 0 ''a'' True None, Set 1 1 1 ''b'' False None] (cache_init 2))))))) = 1"
proof -
  let ?ops = "[Set 0 0 0 ''a'' True None, Set 1 1 1 ''b'' False None]"
  let ?c = "run_ops 60 ?ops (cache_init 2)"
  have "cache_ok ?c" "max_entries ?c = 2"
    using run_ops_keeps [OF cache_ok_init, of 2 60 ?ops] by (simp_all add: cache_init_def cache_size_def)
  moreover have "cache_size ?c = 2" by code_simp
  ultimately show ?thesis
    using eviction_is_lru [of ?c, THEN conjunct2] by (simp add: trunc_div_def)
qed

subsection \<open>The contract the view invalidation relies on\<close>

locale prefix_store =
  fixes lookup :: "'s \<Rightarrow> string \<Rightarrow> 'v option"
    and clear :: "string \<Rightarrow> 's \<Rightarrow> 's"
  assumes lookup_clear: "lookup (clear p s) k = (if starts_with k p then None else lookup s k)"
begin

lemma lookup_clear_all:
  "lookup (fold clear ps s) k = (if \<exists>p \<in> set ps. starts_with k p then None else lookup s k)"
  by (induction ps arbitrary: s) (auto simp: lookup_clear)

lemma clear_all_order:
  "set ps = set qs \<Longrightarrow> lookup (fold clear ps s) k = lookup (fold clear qs s) k"
  by (simp add: lookup_clear_all)

lemma clear_all_idem:
  "lookup (fold clear ps (fold clear ps s)) k = lookup (fold clear ps s) k"
  by (simp add: lookup_clear_all)

end

interpretation view: prefix_store "\<lambda>c k. fst (get_json now k c)" delete_prefix for now
proof
  fix p :: string and c :: "'v cache" and k :: string
  show "fst (get_json now k (delete_prefix p c)) = (if starts_with k p then None else fst (get_json now k c))"
    by (auto simp: delete_prefix_def get_after_drop get_json_value map_of_none_key split: option.splits)
qed

text \<open>After \<open>invalidate_view_cache\<close> no dashboard summary, findings, reports or tasks entry can
  be read, at any later time, and every other entry reads as before; without a cache it does nothing.\<close>

theorem view_invalidation_exact:
  "(\<forall>now k. fst (get_json now k (the (invalidate_view_cache (Some c)))) =
     (if \<exists>p \<in> {''summary:'', ''findings:'', ''reports:'', ''tasks:''}. starts_with k p
      then None else fst (get_json now k c)))
   \<and> invalidate_view_cache None = (None :: 'v cache option)"
  by (simp add: invalidate_view_cache_def invalidate_prefixes_def view.lookup_clear)

end
