(* ===== verification/Ip_Address.thy ===== *)
theory Ip_Address
  imports Complex_Main Prelude
begin

text \<open>
  The part of Python's \<open>ipaddress\<close> and \<open>urllib.parse\<close> modules (3.11, the version the project's CI
  pins) that the network policy and the validators decide by: parsing of IPv4 and IPv6 addresses and
  networks (\<open>strict=False\<close>), their text form, containment, overlap and subnet tests, and the scheme,
  host name and port of a URL. \<open>None\<close> is a \<open>ValueError\<close>.
\<close>

subsection \<open>Addresses\<close>

datatype ip_addr = IPv4 int | IPv6 int "string option"

fun ip_value :: "ip_addr \<Rightarrow> int" where
  "ip_value (IPv4 n) = n"
| "ip_value (IPv6 n s) = n"

fun ip_bits :: "ip_addr \<Rightarrow> nat" where
  "ip_bits (IPv4 n) = 32"
| "ip_bits (IPv6 n s) = 128"

definition parse_octet :: "string \<Rightarrow> int option" where
  [py_str]: "parse_octet s =
     (if \<not> py_isdigit s \<or> length s > 3 \<or> (s \<noteq> ''0'' \<and> hd s = CHR ''0'') then None
      else let n = int (digits_val s) in if n > 255 then None else Some n)"

definition parse_ipv4 :: "string \<Rightarrow> int option" where
  [py_str]: "parse_ipv4 s =
     (case map parse_octet (split_on (CHR ''.'') s) of
        [Some a, Some b, Some c, Some d] \<Rightarrow> Some (((a * 256 + b) * 256 + c) * 256 + d)
      | _ \<Rightarrow> None)"

definition hex_val :: "char \<Rightarrow> nat option" where
  [py_str]: "hex_val c =
     (let n = char_nat c in
      if is_digit c then Some (n - 48)
      else if 97 \<le> n \<and> n \<le> 102 then Some (n - 87)
      else if 65 \<le> n \<and> n \<le> 70 then Some (n - 55) else None)"

fun hex_digits :: "int \<Rightarrow> string \<Rightarrow> int option" where
  "hex_digits acc [] = Some acc"
| "hex_digits acc (c # cs) =
     (case hex_val c of None \<Rightarrow> None | Some d \<Rightarrow> hex_digits (16 * acc + int d) cs)"

definition parse_hextet :: "string \<Rightarrow> int option" where
  [py_str]: "parse_hextet s = (if s = [] \<or> length s > 4 then None else hex_digits 0 s)"

text \<open>A group between colons: text still to parse, or half of a dotted IPv4 suffix.\<close>

datatype hextet = Txt string | Half int

definition hextet_val :: "hextet \<Rightarrow> int option" where
  [py_str]: "hextet_val h = (case h of Txt s \<Rightarrow> parse_hextet s | Half n \<Rightarrow> Some n)"

definition hextets_val :: "hextet list \<Rightarrow> int option" where
  [py_str]: "hextets_val hs =
     foldl (\<lambda>acc h. case (acc, hextet_val h) of (Some n, Some v) \<Rightarrow> Some (n * 65536 + v) | _ \<Rightarrow> None)
       (Some 0) hs"

definition ipv6_groups :: "string \<Rightarrow> hextet list option" where
  [py_str]: "ipv6_groups s =
     (let parts = split_on (CHR '':'') s in
      if length parts < 3 then None
      else if CHR ''.'' \<in> set (last parts)
      then (case parse_ipv4 (last parts) of
              None \<Rightarrow> None
            | Some n \<Rightarrow> Some (map Txt (butlast parts) @ [Half (n div 65536), Half (n mod 65536)]))
      else Some (map Txt parts))"

definition hextets_around :: "nat \<Rightarrow> hextet list \<Rightarrow> int option" where
  [py_str]: "hextets_around k gs =
     (let n = length gs;
          hi = (if hd gs = Txt [] then k - 1 else k);
          lo = (if last gs = Txt [] then n - k - 2 else n - k - 1) in
      if (hd gs = Txt [] \<and> hi \<noteq> 0) \<or> (last gs = Txt [] \<and> lo \<noteq> 0) \<or> hi + lo > 7 then None
      else (case (hextets_val (take hi gs), hextets_val (drop (n - lo) gs)) of
              (Some a, Some b) \<Rightarrow> Some (a * 65536 ^ (8 - hi) + b)
            | _ \<Rightarrow> None))"

definition parse_ipv6_int :: "string \<Rightarrow> int option" where
  [py_str]: "parse_ipv6_int s =
     (case ipv6_groups s of None \<Rightarrow> None
      | Some gs \<Rightarrow>
         let n = length gs; skips = filter (\<lambda>i. gs ! i = Txt []) [1..<n - 1] in
         if n > 9 then None
         else (case skips of
            [] \<Rightarrow> if n \<noteq> 8 \<or> hd gs = Txt [] \<or> last gs = Txt [] then None else hextets_val gs
          | [k] \<Rightarrow> hextets_around k gs
          | _ \<Rightarrow> None))"

definition parse_ipv6 :: "string \<Rightarrow> ip_addr option" where
  [py_str]: "parse_ipv6 s =
     (if CHR ''%'' \<in> set s
      then let (a, scope) = split_first (CHR ''%'') s in
           if scope = [] \<or> CHR ''%'' \<in> set scope then None
           else map_option (\<lambda>n. IPv6 n (Some scope)) (parse_ipv6_int a)
      else map_option (\<lambda>n. IPv6 n None) (parse_ipv6_int s))"

definition ip_address :: "string \<Rightarrow> ip_addr option" where
  [py_str]: "ip_address s =
     (if CHR ''/'' \<in> set s then None
      else case parse_ipv4 s of Some n \<Rightarrow> Some (IPv4 n) | None \<Rightarrow> parse_ipv6 s)"

subsection \<open>Text form\<close>

definition ipv4_str :: "int \<Rightarrow> string" where
  [py_str]: "ipv4_str n = join_with ''.'' (map (\<lambda>k. nat_str (nat (n div 256 ^ k mod 256))) [3, 2, 1, 0])"

definition hex_char :: "nat \<Rightarrow> char" where
  [py_str]: "hex_char d = (if d < 10 then char_of (48 + d) else char_of (87 + d))"

definition hextet_str :: "int \<Rightarrow> string" where
  [py_str]: "hextet_str n =
     (let ds = dropWhile (\<lambda>d. d = 0) [n div 4096 mod 16, n div 256 mod 16, n div 16 mod 16]
      in map (hex_char o nat) (ds @ [n mod 16]))"

text \<open>Start and length of the leftmost longest run of zero groups.\<close>

fun zero_run :: "nat \<Rightarrow> nat \<Rightarrow> nat \<times> nat \<Rightarrow> string list \<Rightarrow> nat \<times> nat" where
  "zero_run i len best [] = best"
| "zero_run i len best (h # hs) =
     (if h = ''0'' then zero_run (i + 1) (len + 1) (if snd best < len + 1 then (i - len, len + 1) else best) hs
      else zero_run (i + 1) 0 best hs)"

definition compress_hextets :: "string list \<Rightarrow> string list" where
  [py_str]: "compress_hextets hs =
     (let (s, l) = zero_run 0 0 (0, 0) hs in
      if l > 1
      then (if s = 0 then [[]] else []) @ take s hs @ [[]] @ drop (s + l) hs
           @ (if s + l = length hs then [[]] else [])
      else hs)"

definition ipv6_str :: "int \<Rightarrow> string" where
  [py_str]: "ipv6_str n = join_with '':''
     (compress_hextets (map (\<lambda>k. hextet_str (n div 65536 ^ k mod 65536)) [7, 6, 5, 4, 3, 2, 1, 0]))"

fun ip_str :: "ip_addr \<Rightarrow> string" where
  "ip_str (IPv4 n) = ipv4_str n"
| "ip_str (IPv6 n None) = ipv6_str n"
| "ip_str (IPv6 n (Some s)) = ipv6_str n @ ''%'' @ s"

subsection \<open>Networks\<close>

text \<open>Network address and prefix length.\<close>

datatype ip_net = Net ip_addr nat

fun net_addr :: "ip_net \<Rightarrow> ip_addr" where "net_addr (Net a p) = a"

fun net_prefix :: "ip_net \<Rightarrow> nat" where "net_prefix (Net a p) = p"

definition net_size :: "ip_net \<Rightarrow> int" where
  "net_size n = 2 ^ (ip_bits (net_addr n) - net_prefix n)"

definition net_first :: "ip_net \<Rightarrow> int" where
  "net_first n = ip_value (net_addr n)"

definition net_last :: "ip_net \<Rightarrow> int" where
  "net_last n = net_first n + net_size n - 1"

text \<open>\<open>ip & netmask\<close> clears the low bits.\<close>

definition mask_int :: "nat \<Rightarrow> nat \<Rightarrow> int \<Rightarrow> int" where
  "mask_int w p n = n div 2 ^ (w - p) * 2 ^ (w - p)"

definition mask_addr :: "nat \<Rightarrow> ip_addr \<Rightarrow> ip_addr" where
  "mask_addr p a =
     (let m = mask_int (ip_bits a) p (ip_value a) in
      if m = ip_value a then a
      else case a of IPv4 n \<Rightarrow> IPv4 m | IPv6 n s \<Rightarrow> IPv6 m None)"

definition mask_prefix :: "int \<Rightarrow> nat option" where
  "mask_prefix n = find (\<lambda>p. n = 2 ^ 32 - 2 ^ (32 - p)) [0..<33]"

definition prefix_digits :: "nat \<Rightarrow> string \<Rightarrow> nat option" where
  "prefix_digits w s =
     (if py_isdigit s \<and> length s \<le> 4300 \<and> digits_val s \<le> w then Some (digits_val s) else None)"

definition ipv4_prefix :: "string \<Rightarrow> nat option" where
  "ipv4_prefix s =
     (case prefix_digits 32 s of Some p \<Rightarrow> Some p
      | None \<Rightarrow> (case parse_ipv4 s of None \<Rightarrow> None
          | Some n \<Rightarrow> (case mask_prefix n of Some p \<Rightarrow> Some p | None \<Rightarrow> mask_prefix (2 ^ 32 - 1 - n))))"

definition ip_network :: "string \<Rightarrow> ip_net option" where
  "ip_network s =
     (case split_on (CHR ''/'') s of
        [a] \<Rightarrow> map_option (\<lambda>x. Net x (ip_bits x)) (ip_address a)
      | [a, m] \<Rightarrow>
          (case (parse_ipv4 a, ipv4_prefix m) of
             (Some n, Some p) \<Rightarrow> Some (Net (mask_addr p (IPv4 n)) p)
           | _ \<Rightarrow> (case (parse_ipv6 a, prefix_digits 128 m) of
                    (Some x, Some p) \<Rightarrow> Some (Net (mask_addr p x) p)
                  | _ \<Rightarrow> None))
      | _ \<Rightarrow> None)"

definition net_str :: "ip_net \<Rightarrow> string" where
  "net_str n = ip_str (net_addr n) @ ''/'' @ nat_str (net_prefix n)"

definition same_version :: "ip_addr \<Rightarrow> ip_addr \<Rightarrow> bool" where
  "same_version a b \<longleftrightarrow> ip_bits a = ip_bits b"

text \<open>\<open>ip in net\<close>: false for addresses of the other version.\<close>

definition net_contains :: "ip_net \<Rightarrow> ip_addr \<Rightarrow> bool" where
  "net_contains n x \<longleftrightarrow> same_version x (net_addr n)
     \<and> mask_int (ip_bits x) (net_prefix n) (ip_value x) = net_first n"

definition last_addr :: "ip_net \<Rightarrow> ip_addr" where
  "last_addr n = (case net_addr n of IPv4 a \<Rightarrow> IPv4 (net_last n) | IPv6 a s \<Rightarrow> IPv6 (net_last n) None)"

definition overlaps :: "ip_net \<Rightarrow> ip_net \<Rightarrow> bool" where
  "overlaps a b \<longleftrightarrow> net_contains b (net_addr a) \<or> net_contains b (last_addr a)
     \<or> net_contains a (net_addr b) \<or> net_contains a (last_addr b)"

text \<open>Only asked of networks of one version (the code tests the versions first).\<close>

definition subnet_of :: "ip_net \<Rightarrow> ip_net \<Rightarrow> bool" where
  "subnet_of a b \<longleftrightarrow> net_first b \<le> net_first a \<and> net_last a \<le> net_last b"

definition addr_is_loopback :: "ip_addr \<Rightarrow> bool" where
  "addr_is_loopback a = (case a of IPv4 n \<Rightarrow> n div 2 ^ 24 = 127 | IPv6 n s \<Rightarrow> n = 1)"

definition net_is_loopback :: "ip_net \<Rightarrow> bool" where
  "net_is_loopback n = (addr_is_loopback (net_addr n) \<and> addr_is_loopback (last_addr n))"

subsection \<open>Networks as intervals\<close>

definition addr_ok :: "ip_addr \<Rightarrow> bool" where
  "addr_ok a \<longleftrightarrow> 0 \<le> ip_value a \<and> ip_value a < 2 ^ ip_bits a"

definition net_ok :: "ip_net \<Rightarrow> bool" where
  "net_ok n \<longleftrightarrow> addr_ok (net_addr n) \<and> net_prefix n \<le> ip_bits (net_addr n) \<and> net_size n dvd net_first n"

lemma div_mult_eq_iff:
  fixes b m x :: int
  assumes "0 < m" and "m dvd b"
  shows "x div m * m = b \<longleftrightarrow> b \<le> x \<and> x \<le> b + m - 1"
proof -
  obtain q where q: "b = m * q" using assms(2) by (auto elim: dvdE)
  show ?thesis
  proof
    assume "x div m * m = b"
    then have "b = x - x mod m" by (simp add: minus_mod_eq_div_mult)
    then show "b \<le> x \<and> x \<le> b + m - 1"
      using pos_mod_bound [OF assms(1), of x] pos_mod_sign [OF assms(1), of x] by linarith
  next
    assume "b \<le> x \<and> x \<le> b + m - 1"
    then have "x div m = q" using q by (intro int_div_pos_eq [of x m q "x - b"]) auto
    then show "x div m * m = b" using q by (simp add: mult.commute)
  qed
qed

lemma net_size_pos [simp]: "0 < net_size n"
  by (simp add: net_size_def)

lemma net_contains_iff:
  assumes "net_ok n"
  shows "net_contains n x \<longleftrightarrow> same_version x (net_addr n) \<and> net_first n \<le> ip_value x \<and> ip_value x \<le> net_last n"
  using assms div_mult_eq_iff [of "net_size n" "net_first n" "ip_value x"]
  by (auto simp: net_contains_def same_version_def mask_int_def net_size_def net_last_def net_ok_def)

lemma subnet_contains:
  assumes "net_ok a" and "net_ok b" and "same_version (net_addr a) (net_addr b)" and "subnet_of a b"
    and "net_contains a x"
  shows "net_contains b x"
  using assms by (auto simp: net_contains_iff subnet_of_def same_version_def)

lemma same_version_sym: "same_version a b = same_version b a"
  by (auto simp: same_version_def)

lemma last_addr_simps [simp]:
  "ip_value (last_addr n) = net_last n" "ip_bits (last_addr n) = ip_bits (net_addr n)"
  by (auto simp: last_addr_def split: ip_addr.splits)

text \<open>Two networks overlap exactly when they are of one version and some address is in both.\<close>

lemma overlaps_iff:
  assumes "net_ok a" and "net_ok b"
  shows "overlaps a b \<longleftrightarrow> same_version (net_addr a) (net_addr b)
           \<and> net_first a \<le> net_last b \<and> net_first b \<le> net_last a"
proof -
  have "net_first a \<le> net_last a" "net_first b \<le> net_last b"
    using net_size_pos [of a] net_size_pos [of b] by (simp_all add: net_last_def)
  then show ?thesis
    by (auto simp: overlaps_def net_contains_iff [OF assms(1)] net_contains_iff [OF assms(2)]
        same_version_def net_first_def [symmetric])
qed

lemma overlaps_witness:
  assumes "net_ok a" and "net_ok b" and "net_contains a x" and "net_contains b x"
  shows "overlaps a b"
  using assms by (auto simp: overlaps_iff net_contains_iff same_version_def)

lemma host_net_contains:
  "addr_ok a \<Longrightarrow> net_contains (Net a (ip_bits a)) x \<longleftrightarrow> same_version x a \<and> ip_value x = ip_value a"
  by (auto simp: net_contains_def same_version_def mask_int_def net_first_def)

subsection \<open>What parsing returns\<close>

lemma parse_octet_range: "parse_octet s = Some n \<Longrightarrow> 0 \<le> n \<and> n < 256"
  by (auto simp: parse_octet_def Let_def split: if_splits)

lemma parse_ipv4_range:
  assumes "parse_ipv4 s = Some n"
  shows "0 \<le> n \<and> n < 2 ^ 32"
proof -
  obtain a b c d where os: "map parse_octet (split_on (CHR ''.'') s) = [Some a, Some b, Some c, Some d]"
    and n: "n = ((a * 256 + b) * 256 + c) * 256 + d"
    using assms by (auto simp: parse_ipv4_def split: list.splits option.splits)
  have "\<forall>x \<in> set (map parse_octet (split_on (CHR ''.'') s)). \<forall>v. x = Some v \<longrightarrow> 0 \<le> v \<and> v < 256"
    using parse_octet_range by (fastforce simp del: split_on.simps)
  then have "0 \<le> a \<and> a < 256" "0 \<le> b \<and> b < 256" "0 \<le> c \<and> c < 256" "0 \<le> d \<and> d < 256"
    unfolding os by auto
  then show ?thesis unfolding n by simp
qed

lemma hex_val_range: "hex_val c = Some d \<Longrightarrow> d < 16"
  by (auto simp: hex_val_def Let_def is_digit_def split: if_splits)

lemma hex_digits_range:
  "hex_digits acc s = Some n \<Longrightarrow> 0 \<le> acc \<Longrightarrow> acc < 16 ^ k \<Longrightarrow> 0 \<le> n \<and> n < 16 ^ (k + length s)"
proof (induction s arbitrary: acc k)
  case (Cons c cs)
  obtain d where d: "hex_val c = Some d" "hex_digits (16 * acc + int d) cs = Some n"
    using Cons.prems(1) by (auto split: option.splits)
  have "16 * acc + int d < 16 ^ Suc k" using hex_val_range [OF d(1)] Cons.prems(3) by simp
  then show ?case using Cons.IH [OF d(2), of "Suc k"] Cons.prems(2) by simp
qed simp

lemma parse_hextet_range: "parse_hextet s = Some n \<Longrightarrow> 0 \<le> n \<and> n < 65536"
proof -
  assume "parse_hextet s = Some n"
  then have s: "length s \<le> 4" "hex_digits 0 s = Some n" by (auto simp: parse_hextet_def split: if_splits)
  have "0 \<le> n \<and> n < 16 ^ (0 + length s)" by (rule hex_digits_range [OF s(2)]) simp_all
  moreover have "(16::int) ^ length s \<le> 16 ^ 4" by (rule power_increasing [OF s(1)]) simp
  ultimately show ?thesis by simp
qed

definition hextet_ok :: "hextet \<Rightarrow> bool" where
  "hextet_ok h = (case h of Txt s \<Rightarrow> True | Half n \<Rightarrow> 0 \<le> n \<and> n < 65536)"

lemma hextet_val_range: "hextet_val h = Some n \<Longrightarrow> hextet_ok h \<Longrightarrow> 0 \<le> n \<and> n < 65536"
  by (auto simp: hextet_val_def hextet_ok_def parse_hextet_range split: hextet.splits)

lemma hextets_val_Nil: "hextets_val [] = Some 0"
  by (simp add: hextets_val_def)

lemma hextets_val_snoc:
  "hextets_val (hs @ [h]) =
     (case (hextets_val hs, hextet_val h) of (Some n, Some v) \<Rightarrow> Some (n * 65536 + v) | _ \<Rightarrow> None)"
  by (simp add: hextets_val_def)

lemma hextets_val_range:
  "hextets_val hs = Some n \<Longrightarrow> \<forall>h \<in> set hs. hextet_ok h \<Longrightarrow> 0 \<le> n \<and> n < 65536 ^ length hs"
proof (induction hs arbitrary: n rule: rev_induct)
  case Nil
  then show ?case by (simp add: hextets_val_Nil)
next
  case (snoc h hs)
  obtain m v where mv: "hextets_val hs = Some m" "hextet_val h = Some v" "n = m * 65536 + v"
    using snoc.prems(1) by (auto simp: hextets_val_snoc split: option.splits)
  have "0 \<le> m \<and> m < 65536 ^ length hs" using snoc.IH [OF mv(1)] snoc.prems(2) by simp
  moreover have "0 \<le> v \<and> v < 65536" using hextet_val_range [OF mv(2)] snoc.prems(2) by simp
  ultimately show ?case unfolding mv(3) by simp
qed

lemma half_range: "0 \<le> (x :: int) \<Longrightarrow> x < 4294967296 \<Longrightarrow> 0 \<le> x div 65536 \<and> x div 65536 < 65536"
  using pos_mod_sign [of 65536 x] div_mult_mod_eq [of x 65536]
  by (simp add: pos_imp_zdiv_nonneg_iff)

lemma ipv6_groups_ok:
  assumes "ipv6_groups s = Some gs"
  shows "\<forall>h \<in> set gs. hextet_ok h"
  using assms parse_ipv4_range [of "last (split_on (CHR '':'') s)"]
  by (auto simp: ipv6_groups_def hextet_ok_def Let_def half_range split: if_splits option.splits)

lemma parse_ipv6_int_range:
  assumes "parse_ipv6_int s = Some n"
  shows "0 \<le> n \<and> n < 2 ^ 128"
proof -
  obtain gs where gs: "ipv6_groups s = Some gs"
    using assms by (auto simp: parse_ipv6_int_def split: option.splits)
  note ok = ipv6_groups_ok [OF gs]
  have cap: "(65536 :: int) ^ 8 = 2 ^ 128" by simp
  have around: "\<exists>hi lo a b. hi + lo \<le> 7 \<and> hextets_val (take hi gs) = Some a \<and>
        hextets_val (drop (length gs - lo) gs) = Some b \<and> n = a * 65536 ^ (8 - hi) + b"
    if h: "hextets_around k gs = Some n" for k
  proof -
    define hi where "hi = (if hd gs = Txt [] then k - 1 else k)"
    define lo where "lo = (if last gs = Txt [] then length gs - k - 2 else length gs - k - 1)"
    have "hi + lo \<le> 7 \<and> (\<exists>a b. hextets_val (take hi gs) = Some a \<and>
        hextets_val (drop (length gs - lo) gs) = Some b \<and> n = a * 65536 ^ (8 - hi) + b)"
      using h unfolding hextets_around_def Let_def hi_def [symmetric] lo_def [symmetric]
      by (auto split: if_splits option.splits)
    then show ?thesis by blast
  qed
  have "(hextets_val gs = Some n \<and> length gs = 8) \<or> (\<exists>k. hextets_around k gs = Some n)"
    using assms gs by (auto simp: parse_ipv6_int_def Let_def split: if_splits list.splits)
  then consider "hextets_val gs = Some n" "length gs = 8"
    | hi lo a b where "hi + lo \<le> 7" "hextets_val (take hi gs) = Some a"
        "hextets_val (drop (length gs - lo) gs) = Some b" "n = a * 65536 ^ (8 - hi) + b"
    using around by blast
  then show ?thesis
  proof cases
    case 1
    then show ?thesis using hextets_val_range [OF 1(1) ok] by simp
  next
    case 2
    have a: "0 \<le> a \<and> a < 65536 ^ length (take hi gs)"
      using hextets_val_range [OF 2(2)] ok by (meson in_set_takeD)
    have b: "0 \<le> b \<and> b < 65536 ^ length (drop (length gs - lo) gs)"
      using hextets_val_range [OF 2(3)] ok by (meson in_set_dropD)
    have "(65536 :: int) ^ length (take hi gs) \<le> 65536 ^ hi" by (rule power_increasing) simp_all
    then have a': "a + 1 \<le> 65536 ^ hi" using a by linarith
    have "(65536 :: int) ^ length (drop (length gs - lo) gs) \<le> 65536 ^ (8 - hi)"
      using 2(1) by (intro power_increasing) simp_all
    then have b': "b < 65536 ^ (8 - hi)" using b by linarith
    have "(a + 1) * 65536 ^ (8 - hi) \<le> 65536 ^ hi * 65536 ^ (8 - hi)"
      using a' by (rule mult_right_mono) simp
    also have "\<dots> = 65536 ^ 8" using 2(1) by (simp flip: power_add)
    finally have "a * 65536 ^ (8 - hi) + b < 65536 ^ 8" using b' by (simp add: distrib_right)
    then show ?thesis using a b 2(4) cap by simp
  qed
qed

lemma parse_ipv6_ok: "parse_ipv6 s = Some a \<Longrightarrow> addr_ok a \<and> ip_bits a = 128"
  using parse_ipv6_int_range
  by (auto simp: parse_ipv6_def addr_ok_def split_first_def split: if_splits)

lemma ip_address_ok: "ip_address s = Some a \<Longrightarrow> addr_ok a"
  using parse_ipv4_range [of s]
  by (auto simp: ip_address_def addr_ok_def [of "IPv4 _"] split: if_splits option.splits
      dest: parse_ipv6_ok)

lemma mask_int_bounds:
  assumes "0 \<le> n"
  shows "0 \<le> mask_int w p n \<and> mask_int w p n \<le> n"
proof -
  have "n mod 2 ^ (w - p) \<ge> 0" "n div 2 ^ (w - p) * 2 ^ (w - p) = n - n mod 2 ^ (w - p)"
    by (simp_all add: minus_mod_eq_div_mult)
  then show ?thesis using assms zmod_le_nonneg_dividend [OF assms, of "2 ^ (w - p)"]
    by (simp add: mask_int_def pos_imp_zdiv_nonneg_iff)
qed

lemma mask_addr_bits [simp]: "ip_bits (mask_addr p a) = ip_bits a"
  by (auto simp: mask_addr_def Let_def split: ip_addr.splits)

lemma mask_addr_value: "ip_value (mask_addr p a) = mask_int (ip_bits a) p (ip_value a)"
  by (auto simp: mask_addr_def Let_def split: ip_addr.splits)

lemma net_ok_masked: "addr_ok a \<Longrightarrow> p \<le> ip_bits a \<Longrightarrow> net_ok (Net (mask_addr p a) p)"
  using mask_int_bounds [of "ip_value a" "ip_bits a" p]
  by (auto simp: net_ok_def addr_ok_def net_first_def net_size_def mask_addr_value) (simp add: mask_int_def)

lemma mask_prefix_le: "mask_prefix n = Some p \<Longrightarrow> p \<le> 32"
  by (auto simp: mask_prefix_def find_Some_iff)

lemma ipv4_prefix_le: "ipv4_prefix s = Some p \<Longrightarrow> p \<le> 32"
  by (auto simp: ipv4_prefix_def prefix_digits_def dest: mask_prefix_le split: if_splits option.splits)

lemma ip_network_ok:
  assumes "ip_network s = Some n"
  shows "net_ok n"
proof -
  consider x a where "ip_address a = Some x" "n = Net x (ip_bits x)"
    | a k p where "parse_ipv4 a = Some k" "p \<le> 32" "n = Net (mask_addr p (IPv4 k)) p"
    | a x p where "parse_ipv6 a = Some x" "p \<le> 128" "n = Net (mask_addr p x) p"
    using assms ipv4_prefix_le
    by (auto simp: ip_network_def prefix_digits_def split: list.splits option.splits if_splits)
  then show ?thesis
  proof cases
    case 1
    then show ?thesis using ip_address_ok by (auto simp: net_ok_def net_size_def)
  next
    case 2
    then show ?thesis using parse_ipv4_range by (auto intro!: net_ok_masked simp: addr_ok_def)
  next
    case 3
    then show ?thesis using parse_ipv6_ok by (auto intro!: net_ok_masked)
  qed
qed

subsection \<open>URLs\<close>

definition is_alpha :: "char \<Rightarrow> bool" where
  [py_str]: "is_alpha c = (is_upper c \<or> is_lower c)"

definition scheme_char :: "char \<Rightarrow> bool" where
  [py_str]: "scheme_char c = (is_alnum c \<or> c \<in> {CHR ''+'', CHR ''-'', CHR ''.''})"

definition is_hex :: "char \<Rightarrow> bool" where
  [py_str]: "is_hex c = (hex_val c \<noteq> None)"

text \<open>Scheme and network location of \<open>urlsplit(url)\<close>.\<close>

definition url_clean :: "string \<Rightarrow> string" where
  [py_str]: "url_clean s = filter (\<lambda>c. char_nat c \<notin> {9, 10, 13}) (lstrip_by (\<lambda>c. char_nat c \<le> 32) s)"

definition split_scheme :: "string \<Rightarrow> string \<times> string" where
  [py_str]: "split_scheme u =
     (let (s, rest) = split_first (CHR '':'') u in
      if CHR '':'' \<in> set u \<and> s \<noteq> [] \<and> is_alpha (hd s) \<and> list_all scheme_char s
      then (py_lower s, rest) else ([], u))"

definition bracketed_host_ok :: "string \<Rightarrow> bool" where
  [py_str]: "bracketed_host_ok h =
     (if starts_with h ''v''
      then (let r = dropWhile is_hex (tl h) in takeWhile is_hex (tl h) \<noteq> [] \<and> starts_with r ''.'' \<and> length r > 1)
      else (case ip_address h of Some (IPv6 n s) \<Rightarrow> True | _ \<Rightarrow> False))"

definition urlsplit :: "string \<Rightarrow> (string \<times> string) option" where
  [py_str]: "urlsplit url =
     (let (scheme, rest) = split_scheme (url_clean url);
          netloc = (if starts_with rest ''//''
                    then takeWhile (\<lambda>c. c \<notin> {CHR ''/'', CHR ''?'', CHR ''#''}) (drop 2 rest) else []);
          op = CHR ''['' \<in> set netloc; cl = CHR '']'' \<in> set netloc
      in if op \<noteq> cl then None
         else if op \<and> \<not> bracketed_host_ok (fst (split_first (CHR '']'') (snd (split_first (CHR ''['') netloc))))
         then None
         else Some (scheme, netloc))"

definition host_info :: "string \<Rightarrow> string \<times> string" where
  [py_str]: "host_info netloc =
     (let h = (if CHR ''@'' \<in> set netloc then snd (split_last (CHR ''@'') netloc) else netloc) in
      if CHR ''['' \<in> set h
      then (let (name, p) = split_first (CHR '']'') (snd (split_first (CHR ''['') h))
            in (name, snd (split_first (CHR '':'') p)))
      else split_first (CHR '':'') h)"

definition url_hostname :: "string \<Rightarrow> string option" where
  [py_str]: "url_hostname netloc =
     (let h = fst (host_info netloc) in
      if h = [] then None
      else if CHR ''%'' \<in> set h
      then (let (a, z) = split_first (CHR ''%'') h in Some (py_lower a @ ''%'' @ z))
      else Some (py_lower h))"

text \<open>\<open>Inl\<close> is the \<open>ValueError\<close> of a port that is no number or too large.\<close>

definition url_port :: "string \<Rightarrow> unit + int option" where
  [py_str]: "url_port netloc =
     (let p = snd (host_info netloc) in
      if p = [] then Inr None
      else if \<not> py_isdigit p \<or> length p > 4300 \<or> digits_val p > 65535 then Inl ()
      else Inr (Some (int (digits_val p))))"

subsection \<open>Round trip of dotted addresses\<close>

lemma nat_str_no: "\<not> is_digit c \<Longrightarrow> c \<notin> set (nat_str n)"
  using nat_str_digits [of n] by (auto simp: list_all_iff)

lemma parse_octet_nat_str: "n < 256 \<Longrightarrow> parse_octet (nat_str n) = Some (int n)"
  using length_nat_str_1000 [of n] hd_nat_str [of n]
  by (cases "n = 0") (auto simp: parse_octet_def py_isdigit_def nat_str_digits digits_val_nat_str nat_str_0 [symmetric])

lemma parse_ipv4_join:
  assumes "a < 256" "b < 256" "c < 256" "d < 256"
  shows "parse_ipv4 (join_with ''.'' (map nat_str [a, b, c, d]))
           = Some (((int a * 256 + int b) * 256 + int c) * 256 + int d)"
proof -
  have nodot: "CHR ''.'' \<notin> set (nat_str k)" for k
    using nat_str_no [of "CHR ''.''" k] by (simp add: is_digit_def char_nat_def)
  have "split_on (CHR ''.'') (join_with ''.'' (map nat_str [a, b, c, d])) = map nat_str [a, b, c, d]"
    by (rule split_on_join) (auto simp: nodot)
  then show ?thesis using assms by (simp add: parse_ipv4_def parse_octet_nat_str)
qed

lemma ipv4_octets:
  fixes n :: int
  assumes "0 \<le> n" and "n < 2 ^ 32"
  shows "((n div 256 ^ 3 mod 256 * 256 + n div 256 ^ 2 mod 256) * 256 + n div 256 ^ 1 mod 256) * 256
           + n div 256 ^ 0 mod 256 = n"
proof -
  define x where "x = n div 256"
  define y where "y = x div 256"
  define z where "z = y div 256"
  have e: "n div 256 ^ 1 = x" "n div 256 ^ 2 = y" "n div 256 ^ 3 = z"
    using zdiv_zmult2_eq [of 256 n 256] zdiv_zmult2_eq [of 256 n 65536] zdiv_zmult2_eq [of 256 x 256]
    by (simp_all add: x_def y_def z_def)
  have m: "x * 256 + n mod 256 = n" "y * 256 + x mod 256 = x" "z * 256 + y mod 256 = y"
    by (simp_all only: x_def y_def z_def div_mult_mod_eq)
  have "0 \<le> z" using assms(1) by (simp add: x_def y_def z_def pos_imp_zdiv_nonneg_iff)
  moreover have "z < 256"
    using m assms(2) pos_mod_sign [of 256 n] pos_mod_sign [of 256 x] pos_mod_sign [of 256 y] by simp
  ultimately have "z mod 256 = z" by (rule mod_pos_pos_trivial)
  then show ?thesis unfolding e using m by simp
qed

lemma parse_ipv4_str:
  assumes "0 \<le> n" and "n < 2 ^ 32"
  shows "parse_ipv4 (ipv4_str n) = Some n"
proof -
  define o4 where "o4 k = nat (n div 256 ^ k mod 256)" for k :: nat
  have o4: "o4 k < 256" "int (o4 k) = n div 256 ^ k mod 256" for k
    by (simp_all add: o4_def nat_less_iff)
  have "ipv4_str n = join_with ''.'' (map nat_str [o4 3, o4 2, o4 1, o4 0])"
    by (simp only: ipv4_str_def list.map o4_def)
  then show ?thesis
    using parse_ipv4_join [OF o4(1) o4(1) o4(1) o4(1), of 3 2 1 0] ipv4_octets [OF assms]
    by (simp only: o4(2))
qed

lemma ip_address_ipv4_str:
  assumes "0 \<le> n" and "n < 2 ^ 32"
  shows "ip_address (ip_str (IPv4 n)) = Some (IPv4 n)"
proof -
  have "CHR ''/'' \<notin> set (ipv4_str n)"
    using nat_str_no [of "CHR ''/''"] by (auto simp: ipv4_str_def is_digit_def char_nat_def)
  then show ?thesis using parse_ipv4_str [OF assms] by (simp add: ip_address_def)
qed

end
