(* ===== verification/Network_Policy.thy ===== *)
theory Network_Policy
  imports Ip_Address
begin

text \<open>
  The egress policy engine of \<open>backend/secuscan/network_policy.py\<close>: ordered deny and allow rules
  over IP networks, the access decision with its host normalisation and name resolution, pinning of
  a resolved target, the bounded audit trail, and the default rules that always include
  \<open>MANDATORY_DENYLIST\<close> of \<open>config.py\<close>. The resolver \<open>socket.gethostbyname\<close> is a parameter; the
  readings of \<open>datetime.now()\<close> within one call are one argument. The append to the audit file is
  not modelled (its failure is caught and changes nothing).
\<close>

datatype policy_action = ALLOW | DENY

record policy_rule =
  cidr :: string
  action :: policy_action
  reason :: string
  created_at :: usec
  expires_at :: "usec option"

record audit_entry =
  timestamp :: usec
  e_plugin_id :: string
  e_task_id :: string
  e_action :: policy_action
  dest_ip :: string
  dest_port :: int
  dest_hostname :: "string option"
  policy_matched :: string
  e_reason :: string

record engine =
  allowlist :: "(ip_net \<times> policy_rule) list"
  denylist :: "(ip_net \<times> policy_rule) list"
  audit_entries :: "audit_entry list"
  max_audit_entries :: int

definition new_engine :: "int \<Rightarrow> engine" where
  "new_engine n = \<lparr>allowlist = [], denylist = [], audit_entries = [], max_audit_entries = n\<rparr>"

text \<open>Answer of \<open>gethostbyname\<close>: an address, \<open>socket.gaierror\<close>, or another exception.\<close>

datatype dns_answer = Resolved string | Gai_error | Other_error

type_synonym resolver = "string \<Rightarrow> dns_answer"

subsection \<open>Rules\<close>

text \<open>\<open>None\<close>: the \<open>ValueError\<close> of a malformed network is logged and raised again.\<close>

definition add_allow_rule :: "usec \<Rightarrow> string \<Rightarrow> string \<Rightarrow> usec option \<Rightarrow> engine \<Rightarrow> engine option" where
  "add_allow_rule now c why until e =
     (case ip_network c of None \<Rightarrow> None
      | Some net \<Rightarrow> Some (e\<lparr>allowlist := allowlist e @
          [(net, \<lparr>cidr = c, action = ALLOW, reason = why, created_at = now, expires_at = until\<rparr>)]\<rparr>))"

definition add_deny_rule :: "usec \<Rightarrow> string \<Rightarrow> string \<Rightarrow> usec option \<Rightarrow> engine \<Rightarrow> engine option" where
  "add_deny_rule now c why until e =
     (case ip_network c of None \<Rightarrow> None
      | Some net \<Rightarrow> Some (e\<lparr>denylist := denylist e @
          [(net, \<lparr>cidr = c, action = DENY, reason = why, created_at = now, expires_at = until\<rparr>)]\<rparr>))"

definition is_expired :: "usec \<Rightarrow> policy_rule \<Rightarrow> bool" where
  "is_expired now r = (case expires_at r of None \<Rightarrow> False | Some t \<Rightarrow> now > t)"

definition matching_rule :: "usec \<Rightarrow> ip_addr \<Rightarrow> (ip_net \<times> policy_rule) list \<Rightarrow> policy_rule option" where
  "matching_rule now ip rs =
     map_option snd (find (\<lambda>(net, r). \<not> is_expired now r \<and> net_contains net ip) rs)"

definition log_audit_entry :: "audit_entry \<Rightarrow> engine \<Rightarrow> engine" where
  "log_audit_entry x e =
     (let es = audit_entries e @ [x] in
      e\<lparr>audit_entries := if int (length es) > max_audit_entries e
                         then tail_slice (max_audit_entries e) es else es\<rparr>)"

subsection \<open>Access decision\<close>

definition url_host :: "string list \<Rightarrow> string \<Rightarrow> string" where
  "url_host schemes s =
     (if contains_sub s ''://''
      then (case urlsplit s of None \<Rightarrow> s
            | Some (scheme, netloc) \<Rightarrow>
                if scheme \<in> set schemes
                then (case url_hostname netloc of None \<Rightarrow> s | Some h \<Rightarrow> h) else s)
      else s)"

definition strip_port :: "string \<Rightarrow> string" where
  "strip_port s =
     (if CHR '':'' \<in> set s
      then if starts_with s ''[''
           then if CHR '']'' \<in> set s
                then (let (h, p) = split_last (CHR '']'') s in
                      if starts_with p '':'' \<and> py_isdigit (tl p) then h @ '']'' else s)
                else s
           else if length (filter (\<lambda>c. c = CHR '':'') s) = 1
                then (let (h, p) = split_last (CHR '':'') s in if py_isdigit p then h else s)
                else s
      else s)"

definition strip_brackets :: "string \<Rightarrow> string" where
  "strip_brackets s = (if starts_with s ''['' \<and> ends_with s '']'' then butlast (tl s) else s)"

definition target_host :: "string \<Rightarrow> string" where
  "target_host d = strip_brackets (strip_port (url_host [''http'', ''https'', ''ws'', ''wss''] (py_strip d)))"

text \<open>The address, the text it is logged under, and the host name that is logged.\<close>

definition resolve_dest :: "resolver \<Rightarrow> string \<Rightarrow> string option \<Rightarrow> (ip_addr \<times> string \<times> string option) option" where
  "resolve_dest dns host hostname =
     (case ip_address host of
        Some ip \<Rightarrow> Some (ip, ip_str ip, hostname)
      | None \<Rightarrow>
          (case dns host of
             Resolved r \<Rightarrow>
               (case ip_address r of
                  Some ip \<Rightarrow> Some (ip, r, if hostname = None \<or> hostname = Some [] then Some host else hostname)
                | None \<Rightarrow> None)
           | _ \<Rightarrow> None))"

definition check_access ::
  "resolver \<Rightarrow> usec \<Rightarrow> string \<Rightarrow> int \<Rightarrow> string \<Rightarrow> string \<Rightarrow> string option \<Rightarrow> engine
     \<Rightarrow> (bool \<times> string \<times> policy_rule option) \<times> engine" where
  "check_access dns now d port plugin task hostname e =
     (let entry = (\<lambda>act ip host matched why.
            \<lparr>timestamp = now, e_plugin_id = plugin, e_task_id = task, e_action = act, dest_ip = ip,
             dest_port = port, dest_hostname = host, policy_matched = matched, e_reason = why\<rparr>)
      in case resolve_dest dns (target_host d) hostname of
           None \<Rightarrow>
             (let why = ''Invalid IP address format: '' @ d in
              ((False, why, None), log_audit_entry (entry DENY d hostname ''invalid_ip'' why) e))
         | Some (ip, text, host) \<Rightarrow>
             (case matching_rule now ip (denylist e) of
                Some r \<Rightarrow>
                  (let why = ''Blocked by denylist rule: '' @ reason r @ '' (matched: '' @ cidr r @ '')'' in
                   ((False, why, Some r), log_audit_entry (entry DENY text host (cidr r) why) e))
              | None \<Rightarrow>
                  (case matching_rule now ip (allowlist e) of
                     Some r \<Rightarrow>
                       (let why = ''Allowed by allowlist rule: '' @ reason r @ '' (matched: '' @ cidr r @ '')'' in
                        ((True, why, Some r), log_audit_entry (entry ALLOW text host (cidr r) why) e))
                   | None \<Rightarrow>
                       (let why = ''Denied by default (no matching allow rule)'' in
                        ((False, why, Some \<lparr>cidr = ''0.0.0.0/0'', action = DENY,
                            reason = ''Default deny policy'', created_at = now, expires_at = None\<rparr>),
                         log_audit_entry (entry DENY text host ''default'' why) e)))))"

text \<open>
  \<open>None\<close>: an exception other than \<open>socket.gaierror\<close> leaves the call (\<open>gethostbyname\<close> raises a
  \<open>UnicodeError\<close> for an empty or over-long label, \<open>ip_address\<close> a \<open>ValueError\<close>).
\<close>

definition resolve_and_pin ::
  "resolver \<Rightarrow> usec \<Rightarrow> string \<Rightarrow> string \<Rightarrow> string \<Rightarrow> engine
     \<Rightarrow> ((string option \<times> bool \<times> string) \<times> engine) option" where
  "resolve_and_pin dns now target plugin task e =
     (let check = (\<lambda>ip. let ((ok, why, r), e') = check_access dns now ip 0 plugin task (Some target) e
                        in Some ((Some ip, ok, why), e'))
      in case ip_address target of
           Some ip \<Rightarrow> check (ip_str ip)
         | None \<Rightarrow>
             (case dns target of
                Resolved r \<Rightarrow> if ip_address r = None then None else check r
              | Gai_error \<Rightarrow> Some ((None, False, ''Unresolvable hostname: '' @ target), e)
              | Other_error \<Rightarrow> None))"

definition validate_egress_target :: "resolver \<Rightarrow> usec \<Rightarrow> string \<Rightarrow> engine \<Rightarrow> bool \<times> string" where
  "validate_egress_target dns now host e =
     (let h = (if contains_sub host ''://''
               then (case urlsplit host of None \<Rightarrow> host
                     | Some (scheme, netloc) \<Rightarrow> (case url_hostname netloc of None \<Rightarrow> host | Some x \<Rightarrow> x))
               else host)
      in case resolve_dest dns h None of
           None \<Rightarrow> (False, ''Could not resolve host: '' @ h)
         | Some (ip, text, n) \<Rightarrow>
             (case matching_rule now ip (denylist e) of
                Some r \<Rightarrow> (False, ''Destination blocked by policy: '' @ reason r)
              | None \<Rightarrow> if matching_rule now ip (allowlist e) \<noteq> None then (True, [])
                        else (False, ''Destination denied by default policy'')))"

definition get_audit_entries :: "string option \<Rightarrow> policy_action option \<Rightarrow> int \<Rightarrow> engine \<Rightarrow> audit_entry list" where
  "get_audit_entries plugin act limit e =
     (let es = audit_entries e;
          es1 = (case plugin of None \<Rightarrow> es
                 | Some p \<Rightarrow> if p = [] then es else filter (\<lambda>x. e_plugin_id x = p) es);
          es2 = (case act of None \<Rightarrow> es1 | Some a \<Rightarrow> filter (\<lambda>x. e_action x = a) es1)
      in tail_slice limit es2)"

definition clear_audit_entries :: "engine \<Rightarrow> engine" where
  "clear_audit_entries e = e\<lparr>audit_entries := []\<rparr>"

subsection \<open>Default policies\<close>

definition MANDATORY_DENYLIST :: "string list" where
  "MANDATORY_DENYLIST =
     [''169.254.169.254/32'', ''169.254.0.0/16'', ''127.0.0.0/8'', ''10.0.0.0/8'', ''172.16.0.0/12'',
      ''192.168.0.0/16'', ''100.64.0.0/10'', ''fc00::/7'', ''fe80::/10'', ''::1/128'']"

text \<open>An invalid network is skipped with a warning.\<close>

definition try_rules :: "(string \<Rightarrow> engine \<Rightarrow> engine option) \<Rightarrow> string list \<Rightarrow> engine \<Rightarrow> engine" where
  "try_rules add cs e = fold (\<lambda>c e. case add c e of None \<Rightarrow> e | Some e' \<Rightarrow> e') cs e"

definition init_default_policies :: "usec \<Rightarrow> string list \<Rightarrow> string list \<Rightarrow> engine \<Rightarrow> engine" where
  "init_default_policies now network_denylist network_allowlist e =
     (let e1 = try_rules (\<lambda>c. add_deny_rule now c ''Mandatory denylist (not operator-configurable)'' None)
                 MANDATORY_DENYLIST e;
          e2 = try_rules (\<lambda>c. add_deny_rule now c ''Operator configured denylist'' None) network_denylist e1;
          e3 = try_rules (\<lambda>c. add_allow_rule now c ''Operator configured allowlist'' None) network_allowlist e2;
          public = ''Default public egress (no explicit allowlist configured)''
      in if network_allowlist = []
         then the (add_allow_rule now ''::/0'' public None (the (add_allow_rule now ''0.0.0.0/0'' public None e3)))
         else e3)"

definition get_policy_engine :: "usec \<Rightarrow> int \<Rightarrow> string list \<Rightarrow> string list \<Rightarrow> engine option \<Rightarrow> engine" where
  "get_policy_engine now cap network_denylist network_allowlist current =
     (case current of Some e \<Rightarrow> e
      | None \<Rightarrow> init_default_policies now network_denylist network_allowlist (new_engine cap))"

subsection \<open>The decision as a contract\<close>

lemma log_audit_frame [simp]:
  "allowlist (log_audit_entry x e) = allowlist e" "denylist (log_audit_entry x e) = denylist e"
  "max_audit_entries (log_audit_entry x e) = max_audit_entries e"
  by (simp_all add: log_audit_entry_def Let_def)

lemma matching_rule_None:
  "matching_rule now ip rs = None \<longleftrightarrow> (\<forall>(net, r) \<in> set rs. is_expired now r \<or> \<not> net_contains net ip)"
  by (auto simp: matching_rule_def find_None_iff)

lemma matching_rule_None_mono:
  "matching_rule now ip rs = None \<Longrightarrow> set qs \<subseteq> set rs \<Longrightarrow> matching_rule now ip qs = None"
  unfolding matching_rule_None by blast

lemma matching_rule_append:
  "matching_rule now ip (rs @ qs) =
     (case matching_rule now ip rs of None \<Rightarrow> matching_rule now ip qs | Some r \<Rightarrow> Some r)"
  by (induction rs) (auto simp: matching_rule_def)

text \<open>
  What a caller of an egress check relies on: a destination is let through exactly when it names an
  address that no live deny rule and some live allow rule covers.
\<close>

locale egress_gate =
  fixes now :: usec
    and address :: "'h \<Rightarrow> ip_addr option"
    and permits :: "engine \<Rightarrow> 'h \<Rightarrow> bool"
  assumes permits_iff: "permits e h \<longleftrightarrow> (\<exists>ip. address h = Some ip
     \<and> matching_rule now ip (denylist e) = None \<and> matching_rule now ip (allowlist e) \<noteq> None)"
begin

lemma denied_address:
  "address h = Some ip \<Longrightarrow> (net, r) \<in> set (denylist e) \<Longrightarrow> net_contains net ip \<Longrightarrow> \<not> is_expired now r
     \<Longrightarrow> \<not> permits e h"
  by (auto simp: permits_iff matching_rule_None)

lemma unresolved_denied: "address h = None \<Longrightarrow> \<not> permits e h"
  by (simp add: permits_iff)

lemma more_denies_shrink:
  assumes "permits e h" and "set (denylist e') \<subseteq> set (denylist e)" and "allowlist e' = allowlist e"
  shows "permits e' h"
  using assms matching_rule_None_mono unfolding permits_iff by fastforce

lemma more_allows_grow:
  assumes "permits e h" and "denylist e' = denylist e" and "set (allowlist e) \<subseteq> set (allowlist e')"
  shows "permits e' h"
  using assms matching_rule_None_mono unfolding permits_iff by fastforce

lemma audit_irrelevant: "permits (e\<lparr>audit_entries := xs\<rparr>) h = permits e h"
  by (simp add: permits_iff)

lemma closed_by_default: "allowlist e = [] \<Longrightarrow> \<not> permits e h"
  by (auto simp: permits_iff matching_rule_def)

end

definition permits_access :: "resolver \<Rightarrow> usec \<Rightarrow> string option \<Rightarrow> engine \<Rightarrow> string \<Rightarrow> bool" where
  "permits_access dns now hostname e d = fst (fst (check_access dns now d 0 [] [] hostname e))"

definition dest_address :: "resolver \<Rightarrow> string option \<Rightarrow> string \<Rightarrow> ip_addr option" where
  "dest_address dns hostname d = map_option fst (resolve_dest dns (target_host d) hostname)"

lemma check_access_decision:
  "fst (fst (check_access dns now d port plugin task hostname e)) \<longleftrightarrow>
     (\<exists>ip. dest_address dns hostname d = Some ip
       \<and> matching_rule now ip (denylist e) = None \<and> matching_rule now ip (allowlist e) \<noteq> None)"
  by (auto simp: check_access_def dest_address_def Let_def split: option.splits)

interpretation access: egress_gate now "dest_address dns hostname" "permits_access dns now hostname"
  for now dns hostname
  by unfold_locales (simp add: permits_access_def check_access_decision)

definition egress_address :: "resolver \<Rightarrow> string \<Rightarrow> ip_addr option" where
  "egress_address dns host =
     (let h = (if contains_sub host ''://''
               then (case urlsplit host of None \<Rightarrow> host
                     | Some (scheme, netloc) \<Rightarrow> (case url_hostname netloc of None \<Rightarrow> host | Some x \<Rightarrow> x))
               else host)
      in map_option fst (resolve_dest dns h None))"

interpretation webhook_gate: egress_gate now "egress_address dns"
    "\<lambda>e h. fst (validate_egress_target dns now h e)" for now dns
  by unfold_locales (auto simp: validate_egress_target_def egress_address_def Let_def split: option.splits)

lemma check_access_frame [simp]:
  "allowlist (snd (check_access dns now d port plugin task hostname e)) = allowlist e"
  "denylist (snd (check_access dns now d port plugin task hostname e)) = denylist e"
  "max_audit_entries (snd (check_access dns now d port plugin task hostname e)) = max_audit_entries e"
  by (simp_all add: check_access_def Let_def split: option.split)

text \<open>The one entry a check appends.\<close>

definition audit_of ::
  "resolver \<Rightarrow> usec \<Rightarrow> string \<Rightarrow> int \<Rightarrow> string \<Rightarrow> string \<Rightarrow> string option \<Rightarrow> engine \<Rightarrow> audit_entry" where
  "audit_of dns now d port plugin task hostname e =
     last (audit_entries (snd (check_access dns now d port plugin task hostname (e\<lparr>audit_entries := [], max_audit_entries := 1\<rparr>))))"

lemma check_access_logs:
  "snd (check_access dns now d port plugin task hostname e)
     = log_audit_entry (audit_of dns now d port plugin task hostname e) e
   \<and> (e_action (audit_of dns now d port plugin task hostname e) = ALLOW
        \<longleftrightarrow> fst (fst (check_access dns now d port plugin task hostname e)))
   \<and> e_reason (audit_of dns now d port plugin task hostname e)
        = fst (snd (fst (check_access dns now d port plugin task hostname e)))
   \<and> e_plugin_id (audit_of dns now d port plugin task hostname e) = plugin
   \<and> e_task_id (audit_of dns now d port plugin task hostname e) = task"
  by (simp add: check_access_def audit_of_def log_audit_entry_def Let_def split: option.split)

subsection \<open>Reachable engines keep the mandatory rules\<close>

inductive reachable_engine :: "engine \<Rightarrow> bool" where
  start: "reachable_engine (init_default_policies now denied allowed (new_engine cap))"
| allow: "reachable_engine e \<Longrightarrow> add_allow_rule now c why until e = Some e' \<Longrightarrow> reachable_engine e'"
| deny: "reachable_engine e \<Longrightarrow> add_deny_rule now c why until e = Some e' \<Longrightarrow> reachable_engine e'"
| check: "reachable_engine e
    \<Longrightarrow> reachable_engine (snd (check_access dns now d port plugin task hostname e))"
| clear: "reachable_engine e \<Longrightarrow> reachable_engine (clear_audit_entries e)"

definition mandatory_nets :: "ip_net list" where
  "mandatory_nets = List.map_filter ip_network MANDATORY_DENYLIST"

definition has_mandatory :: "engine \<Rightarrow> bool" where
  "has_mandatory e \<longleftrightarrow>
     (\<forall>net \<in> set mandatory_nets. \<exists>r. (net, r) \<in> set (denylist e) \<and> expires_at r = None)"

lemma add_deny_extends:
  "add_deny_rule now c why until e = Some e' \<Longrightarrow> set (denylist e) \<subseteq> set (denylist e')"
  by (auto simp: add_deny_rule_def split: option.splits)

lemma add_allow_keeps: "add_allow_rule now c why until e = Some e' \<Longrightarrow> denylist e' = denylist e"
  by (auto simp: add_allow_rule_def split: option.splits)

lemma try_rules_simps [simp]:
  "try_rules add [] e = e"
  "try_rules add (c # cs) e = try_rules add cs (case add c e of None \<Rightarrow> e | Some e' \<Rightarrow> e')"
  by (simp_all add: try_rules_def)

lemma try_deny_extends:
  "set (denylist e) \<subseteq> set (denylist (try_rules (\<lambda>c. add_deny_rule now c why until) cs e))"
proof (induction cs arbitrary: e)
  case (Cons c cs)
  show ?case
  proof (cases "add_deny_rule now c why until e")
    case (Some e')
    then show ?thesis using Cons.IH [of e'] add_deny_extends [OF Some] by auto
  qed (simp add: Cons.IH)
qed simp

lemma try_allow_keeps:
  "denylist (try_rules (\<lambda>c. add_allow_rule now c why until) cs e) = denylist e"
  by (induction cs arbitrary: e) (auto split: option.split dest: add_allow_keeps)

lemma try_deny_adds:
  assumes "c \<in> set cs" and "ip_network c = Some net"
  shows "\<exists>r. (net, r) \<in> set (denylist (try_rules (\<lambda>c. add_deny_rule now c why until) cs e)) \<and> expires_at r = until"
  using assms(1)
proof (induction cs arbitrary: e)
  case (Cons b cs)
  show ?case
  proof (cases "b = c")
    case True
    let ?r = "\<lparr>cidr = c, action = DENY, reason = why, created_at = now, expires_at = until\<rparr>"
    let ?e = "e\<lparr>denylist := denylist e @ [(net, ?r)]\<rparr>"
    have "(net, ?r) \<in> set (denylist ?e)" by simp
    then have "(net, ?r) \<in> set (denylist (try_rules (\<lambda>c. add_deny_rule now c why until) cs ?e))"
      using try_deny_extends [of ?e now why until cs] by blast
    moreover have "try_rules (\<lambda>c. add_deny_rule now c why until) (b # cs) e
        = try_rules (\<lambda>c. add_deny_rule now c why until) cs ?e"
      using True assms(2) by (simp add: add_deny_rule_def)
    ultimately have "(net, ?r) \<in> set (denylist (try_rules (\<lambda>c. add_deny_rule now c why until) (b # cs) e))"
      by simp
    then show ?thesis by (intro exI [of _ ?r]) simp
  next
    case False
    then show ?thesis using Cons.IH Cons.prems by auto
  qed
qed simp

lemma public_nets:
  "ip_network ''0.0.0.0/0'' = Some (Net (IPv4 0) 0)" "ip_network ''::/0'' = Some (Net (IPv6 0 None) 0)"
  by code_simp+

lemma init_denylist:
  "denylist (init_default_policies now denied allowed e) =
     denylist (try_rules (\<lambda>c. add_deny_rule now c ''Operator configured denylist'' None) denied
       (try_rules (\<lambda>c. add_deny_rule now c ''Mandatory denylist (not operator-configurable)'' None)
          MANDATORY_DENYLIST e))"
  by (simp add: init_default_policies_def Let_def try_allow_keeps add_allow_rule_def public_nets)

lemma has_mandatory_init: "has_mandatory (init_default_policies now denied allowed e)"
  unfolding has_mandatory_def
proof
  fix net assume "net \<in> set mandatory_nets"
  then obtain c where "c \<in> set MANDATORY_DENYLIST" "ip_network c = Some net"
    by (auto simp: mandatory_nets_def map_filter_def)
  then show "\<exists>r. (net, r) \<in> set (denylist (init_default_policies now denied allowed e)) \<and> expires_at r = None"
    using try_deny_adds [of c MANDATORY_DENYLIST net now _ None e] try_deny_extends
    unfolding init_denylist by (meson subsetD)
qed

lemma has_mandatory_mono: "has_mandatory e \<Longrightarrow> set (denylist e) \<subseteq> set (denylist e') \<Longrightarrow> has_mandatory e'"
  by (fastforce simp: has_mandatory_def)

lemma reachable_has_mandatory: "reachable_engine e \<Longrightarrow> has_mandatory e"
proof (induction rule: reachable_engine.induct)
  case start
  then show ?case by (rule has_mandatory_init)
next
  case (allow e now c why until e')
  show ?case by (rule has_mandatory_mono [OF allow.IH]) (simp add: add_allow_keeps [OF allow.hyps(2)])
next
  case (deny e now c why until e')
  show ?case by (rule has_mandatory_mono [OF deny.IH]) (rule add_deny_extends [OF deny.hyps(2)])
next
  case (check e)
  show ?case by (rule has_mandatory_mono [OF check.IH]) simp
next
  case (clear e)
  show ?case by (rule has_mandatory_mono [OF clear.IH]) (simp add: clear_audit_entries_def)
qed

text \<open>The address ranges of the mandatory list, as numbers.\<close>

fun mandatory_address :: "ip_addr \<Rightarrow> bool" where
  "mandatory_address (IPv4 n) \<longleftrightarrow>
     n div 2 ^ 24 \<in> {10, 127} \<or> n div 2 ^ 16 \<in> {169 * 256 + 254, 192 * 256 + 168}
     \<or> n div 2 ^ 20 = 172 * 16 + 1 \<or> n div 2 ^ 22 = 100 * 4 + 1"
| "mandatory_address (IPv6 n s) \<longleftrightarrow> n div 2 ^ 121 = 126 \<or> n div 2 ^ 118 = 1018 \<or> n = 1"

lemma mandatory_parsed:
  "ip_network ''169.254.0.0/16'' = Some (Net (IPv4 2851995648) 16)"
  "ip_network ''127.0.0.0/8'' = Some (Net (IPv4 2130706432) 8)"
  "ip_network ''10.0.0.0/8'' = Some (Net (IPv4 167772160) 8)"
  "ip_network ''172.16.0.0/12'' = Some (Net (IPv4 2886729728) 12)"
  "ip_network ''192.168.0.0/16'' = Some (Net (IPv4 3232235520) 16)"
  "ip_network ''100.64.0.0/10'' = Some (Net (IPv4 1681915904) 10)"
  "ip_network ''fc00::/7'' = Some (Net (IPv6 334965454937798799971759379190646833152 None) 7)"
  "ip_network ''fe80::/10'' = Some (Net (IPv6 338288524927261089654018896841347694592 None) 10)"
  "ip_network ''::1/128'' = Some (Net (IPv6 1 None) 128)"
  by code_simp+

lemma mandatory_netsI: "c \<in> set MANDATORY_DENYLIST \<Longrightarrow> ip_network c = Some net \<Longrightarrow> net \<in> set mandatory_nets"
  by (force simp: mandatory_nets_def map_filter_def)

lemma mandatory_nets_in:
  "{Net (IPv4 2851995648) 16, Net (IPv4 2130706432) 8, Net (IPv4 167772160) 8, Net (IPv4 2886729728) 12,
    Net (IPv4 3232235520) 16, Net (IPv4 1681915904) 10,
    Net (IPv6 334965454937798799971759379190646833152 None) 7,
    Net (IPv6 338288524927261089654018896841347694592 None) 10, Net (IPv6 1 None) 128} \<subseteq> set mandatory_nets"
  using mandatory_parsed [THEN mandatory_netsI [rotated]] by (simp add: MANDATORY_DENYLIST_def)

lemma mandatory_address_net:
  assumes "mandatory_address ip"
  shows "\<exists>net \<in> set mandatory_nets. net_contains net ip"
proof -
  have "\<exists>net \<in> {Net (IPv4 2851995648) 16, Net (IPv4 2130706432) 8, Net (IPv4 167772160) 8,
      Net (IPv4 2886729728) 12, Net (IPv4 3232235520) 16, Net (IPv4 1681915904) 10,
      Net (IPv6 334965454937798799971759379190646833152 None) 7,
      Net (IPv6 338288524927261089654018896841347694592 None) 10, Net (IPv6 1 None) 128}. net_contains net ip"
    using assms
    by (cases ip) (auto simp: net_contains_def same_version_def mask_int_def net_first_def)
  then show ?thesis using mandatory_nets_in by blast
qed

lemma mandatory_rule:
  assumes "reachable_engine e" and "mandatory_address ip"
  shows "\<exists>net r. (net, r) \<in> set (denylist e) \<and> net_contains net ip \<and> \<not> is_expired now r"
  using mandatory_address_net [OF assms(2)] reachable_has_mandatory [OF assms(1)]
  by (fastforce simp: has_mandatory_def is_expired_def)

lemma mandatory_denied:
  assumes "reachable_engine e" and "mandatory_address ip" and "dest_address dns hostname d = Some ip"
  shows "\<not> fst (fst (check_access dns now d port plugin task hostname e))"
proof -
  obtain net r where "(net, r) \<in> set (denylist e)" "net_contains net ip" "\<not> is_expired now r"
    using mandatory_rule [OF assms(1,2)] by blast
  then show ?thesis
    using access.denied_address [OF assms(3), of net r e now] by (simp add: access.permits_iff check_access_decision)
qed

subsection \<open>Pinned addresses\<close>

lemma parse_ipv4_chars:
  assumes "parse_ipv4 s = Some n" and "c \<in> set s"
  shows "is_digit c \<or> c = CHR ''.''"
proof -
  obtain a b c' d where os: "map parse_octet (split_on (CHR ''.'') s) = [Some a, Some b, Some c', Some d]"
    using assms(1) by (auto simp: parse_ipv4_def split: list.splits option.splits)
  have digits: "list_all is_digit p" if "p \<in> set (split_on (CHR ''.'') s)" for p
  proof -
    have "parse_octet p \<in> set (map parse_octet (split_on (CHR ''.'') s))" using that by simp
    then have "parse_octet p \<noteq> None" unfolding os by auto
    then show ?thesis by (auto simp: parse_octet_def py_isdigit_def split: if_splits)
  qed
  have "c \<in> set (join_with ''.'' (split_on (CHR ''.'') s))" using assms(2) by (simp add: join_split_on)
  then have "c = CHR ''.'' \<or> (\<exists>p \<in> set (split_on (CHR ''.'') s). c \<in> set p)"
    using in_join_with by fastforce
  then show ?thesis using digits by (auto simp: list_all_iff)
qed

lemma digit_or_dot:
  assumes "is_digit c \<or> c = CHR ''.''"
  shows "\<not> is_ws c \<and> c \<noteq> CHR '':'' \<and> c \<noteq> CHR ''['' \<and> c \<noteq> CHR ''/''"
  using assms by (auto simp: is_digit_def is_ws_def char_nat_def Let_def)

lemma target_host_ipv4:
  assumes "parse_ipv4 s = Some n"
  shows "target_host s = s"
proof -
  have chars: "\<not> is_ws c \<and> c \<noteq> CHR '':'' \<and> c \<noteq> CHR ''[''" if "c \<in> set s" for c
    using parse_ipv4_chars [OF assms that] digit_or_dot by blast
  have strip: "py_strip s = s"
    unfolding py_strip_def by (rule strip_by_id) (cases "s = []", use chars in auto)
  have nc: "CHR '':'' \<notin> set s" using chars by blast
  then have "\<not> contains_sub s ''://''" by (auto simp: contains_sub_iff)
  moreover have "\<not> starts_with s ''[''" using chars [of "CHR ''[''"] by (auto simp: starts_with_iff)
  ultimately show ?thesis
    using nc by (simp add: target_host_def strip url_host_def strip_port_def strip_brackets_def)
qed

lemma ip_address_parse: "parse_ipv4 s = Some n \<Longrightarrow> ip_address s = Some (IPv4 n)"
  using parse_ipv4_chars [of s n "CHR ''/''"] digit_or_dot [of "CHR ''/''"]
  by (auto simp: ip_address_def)

lemma dest_address_ipv4: "parse_ipv4 s = Some n \<Longrightarrow> dest_address dns hostname s = Some (IPv4 n)"
  by (simp add: dest_address_def target_host_ipv4 resolve_dest_def ip_address_parse)

subsection \<open>Properties\<close>

text \<open>An access check lets a destination through exactly when it names (itself or through DNS)
  an address that no unexpired deny rule covers and some unexpired allow rule covers; it changes no
  rule, and with a positive cap the newest audit entry records that decision and its reason for that
  plugin and task.\<close>

theorem access_decision_audited:
  assumes "check_access dns now d port plugin task hostname e = ((ok, why, r), e')"
    and "0 < max_audit_entries e"
  shows "(ok \<longleftrightarrow> (\<exists>ip. dest_address dns hostname d = Some ip
            \<and> \<not> (\<exists>(net, q) \<in> set (denylist e). \<not> is_expired now q \<and> net_contains net ip)
            \<and> (\<exists>(net, q) \<in> set (allowlist e). \<not> is_expired now q \<and> net_contains net ip)))
       \<and> denylist e' = denylist e \<and> allowlist e' = allowlist e
       \<and> audit_entries e' \<noteq> []
       \<and> (let x = last (audit_entries e') in e_action x = (if ok then ALLOW else DENY) \<and> e_reason x = why
            \<and> e_plugin_id x = plugin \<and> e_task_id x = task)"
proof -
  define x where "x = audit_of dns now d port plugin task hostname e"
  have e': "e' = log_audit_entry x e" and rules: "denylist e' = denylist e" "allowlist e' = allowlist e"
    and act: "e_action x = ALLOW \<longleftrightarrow> ok" and rest: "e_reason x = why" "e_plugin_id x = plugin" "e_task_id x = task"
    using check_access_logs [of dns now d port plugin task hostname e]
      check_access_frame [of dns now d port plugin task hostname e]
    by (auto simp: x_def assms(1))
  have logged: "audit_entries e' \<noteq> [] \<and> last (audit_entries e') = x"
    using assms(2) by (auto simp: e' log_audit_entry_def Let_def tail_slice_def last_drop Suc_diff_le)
  have "ok \<longleftrightarrow> (\<exists>ip. dest_address dns hostname d = Some ip
      \<and> matching_rule now ip (denylist e) = None \<and> matching_rule now ip (allowlist e) \<noteq> None)"
    using check_access_decision [of dns now d port plugin task hostname e] by (simp add: assms(1))
  then show ?thesis
    using rules logged act rest by (cases "e_action x") (auto simp: matching_rule_None Let_def split: prod.splits)
qed

definition example_dns :: resolver where
  "example_dns h = (if h = ''scan.example'' then Resolved ''93.184.216.34''
     else if h = ''rebind.example'' then Resolved ''169.254.169.254'' else Gai_error)"

definition example_engine :: engine where
  "example_engine = init_default_policies 0 [] [] (new_engine 100)"

theorem access_decision_audited_witness:
  "e_action (last (audit_entries (snd (check_access example_dns 5 ''http://scan.example/x'' 80 ''nmap'' ''t1'' None
       example_engine)))) = ALLOW"
proof -
  have run: "fst (fst (check_access example_dns 5 ''http://scan.example/x'' 80 ''nmap'' ''t1'' None example_engine))"
    "max_audit_entries example_engine = 100"
    by code_simp+
  obtain ok why r e' where c: "check_access example_dns 5 ''http://scan.example/x'' 80 ''nmap'' ''t1'' None
      example_engine = ((ok, why, r), e')" by (metis surj_pair)
  show ?thesis using access_decision_audited [OF c] run by (simp add: c Let_def)
qed

text \<open>C2: Whatever deny and allow lists the operator configures, and whatever rules are added and
  checks are made since, no destination that resolves to a loopback, private, carrier-grade NAT,
  link-local or cloud-metadata address of the mandatory list is let through, by the scanner check or
  by the webhook check, at any time.\<close>

theorem mandatory_denylist_enforced:
  assumes "reachable_engine e" and "mandatory_address ip"
  shows "(dest_address dns hostname d = Some ip
            \<longrightarrow> \<not> fst (fst (check_access dns now d port plugin task hostname e)))
         \<and> (egress_address dns h = Some ip \<longrightarrow> \<not> fst (validate_egress_target dns now h e))"
proof -
  obtain net r where r: "(net, r) \<in> set (denylist e)" "net_contains net ip" "\<not> is_expired now r"
    using mandatory_rule [OF assms] by blast
  then show ?thesis
    using webhook_gate.denied_address [OF _ r(1,2), of dns h now] mandatory_denied [OF assms] by blast
qed

theorem mandatory_denylist_enforced_witness:
  "\<not> fst (fst (check_access example_dns 5 ''http://rebind.example/latest'' 80 ''nmap'' ''t1'' None
        (init_default_policies 0 [] [''0.0.0.0/0''] (new_engine 100))))"
proof -
  have "dest_address example_dns None ''http://rebind.example/latest'' = Some (IPv4 2852039166)"
    by code_simp
  then show ?thesis
    using mandatory_denylist_enforced [of "init_default_policies 0 [] [''0.0.0.0/0''] (new_engine 100)"
        "IPv4 2852039166" example_dns None "''http://rebind.example/latest''" 5 80 "''nmap''" "''t1''"]
    by (simp add: reachable_engine.start)
qed

type_synonym access_call = "usec \<times> string \<times> int \<times> string \<times> string \<times> string option"

definition do_check :: "resolver \<Rightarrow> access_call \<Rightarrow> engine \<Rightarrow> engine" where
  "do_check dns c e = (case c of (now, d, port, plugin, task, hostname) \<Rightarrow>
     snd (check_access dns now d port plugin task hostname e))"

definition audit_of_call :: "resolver \<Rightarrow> engine \<Rightarrow> access_call \<Rightarrow> audit_entry" where
  "audit_of_call dns e c = (case c of (now, d, port, plugin, task, hostname) \<Rightarrow>
     audit_of dns now d port plugin task hostname e)"

lemma audit_of_rules:
  "allowlist e' = allowlist e \<Longrightarrow> denylist e' = denylist e
     \<Longrightarrow> audit_of_call dns e' c = audit_of_call dns e c"
  by (cases e; cases e') (simp add: audit_of_call_def audit_of_def split: prod.split)

lemma do_check_logs: "do_check dns c e = log_audit_entry (audit_of_call dns e c) e"
  by (auto simp: do_check_def audit_of_call_def check_access_logs split: prod.split)

lemma tail_slice_log:
  assumes "0 < max_audit_entries e" and "audit_entries e = tail_slice (max_audit_entries e) xs"
  shows "audit_entries (log_audit_entry x e) = tail_slice (max_audit_entries e) (xs @ [x])"
  using assms by (auto simp: log_audit_entry_def Let_def tail_slice_def Suc_diff_le)

lemma do_checks_audit:
  assumes "0 < max_audit_entries e" and "audit_entries e = tail_slice (max_audit_entries e) xs"
  shows "audit_entries (fold (do_check dns) cs e)
           = tail_slice (max_audit_entries e) (xs @ map (audit_of_call dns e) cs)"
  using assms
proof (induction cs arbitrary: e xs)
  case (Cons c cs)
  let ?x = "audit_of_call dns e c"
  let ?e = "log_audit_entry ?x e"
  have "audit_entries ?e = tail_slice (max_audit_entries ?e) (xs @ [?x])"
    using tail_slice_log [OF Cons.prems] by simp
  then have "audit_entries (fold (do_check dns) cs ?e)
      = tail_slice (max_audit_entries e) (xs @ [?x] @ map (audit_of_call dns ?e) cs)"
    using Cons.IH [of ?e "xs @ [?x]"] Cons.prems(1) by simp
  moreover have "map (audit_of_call dns ?e) cs = map (audit_of_call dns e) cs"
    by (auto intro: audit_of_rules)
  ultimately show ?case by (simp add: do_check_logs [of dns c e])
qed simp

text \<open>The audit trail in memory is always the newest \<open>cap\<close> of all the decisions taken, in order:
  a long run drops only the oldest entries and never exceeds the cap.\<close>

theorem audit_trail_keeps_newest:
  assumes "0 < max_audit_entries e" and "audit_entries e = []"
  shows "audit_entries (fold (do_check dns) cs e)
           = tail_slice (max_audit_entries e) (map (audit_of_call dns e) cs)
         \<and> int (length (audit_entries (fold (do_check dns) cs e)))
           = min (max_audit_entries e) (int (length cs))"
  using do_checks_audit [OF assms(1), of "[]" dns cs] assms length_tail_slice [OF assms(1)]
  by (simp add: tail_slice_def)

theorem audit_trail_keeps_newest_witness:
  "length (audit_entries (fold (do_check example_dns)
      (replicate 3 (7, ''10.0.0.1'', 22, ''nmap'', ''t1'', None)) (new_engine 2))) = 2"
proof -
  let ?cs = "replicate 3 (7, ''10.0.0.1'', 22, ''nmap'', ''t1'', None) :: access_call list"
  have "int (length (audit_entries (fold (do_check example_dns) ?cs (new_engine 2))))
      = min (max_audit_entries (new_engine 2)) (int (length ?cs))"
    by (rule audit_trail_keeps_newest [THEN conjunct2]) (simp_all add: new_engine_def)
  also have "\<dots> = 2" by (simp add: new_engine_def)
  finally show ?thesis by linarith
qed

text \<open>A pinned IPv4 address cannot be rebound: whatever the name server answers later, a check of
  the pinned text at the same time reaches the address that was checked when pinning and takes the
  same decision.\<close>

theorem pinned_target_immune_to_rebinding:
  assumes "resolve_and_pin dns now target plugin task e = Some ((Some pinned, ok, why), e')"
    and "parse_ipv4 pinned = Some n"
  shows "dest_address dns' hostname' pinned = Some (IPv4 n)
         \<and> fst (fst (check_access dns' now pinned port' plugin' task' hostname' e')) = ok"
proof -
  obtain r q where c: "check_access dns now pinned 0 plugin task (Some target) e = ((ok, why, r), q)" "e' = q"
    using assms(1)
    by (auto simp: resolve_and_pin_def Let_def split: option.splits dns_answer.splits prod.splits if_splits)
  have rules: "allowlist e' = allowlist e" "denylist e' = denylist e"
    using check_access_frame [of dns now pinned 0 plugin task "Some target" e] by (simp_all add: c)
  have "ok \<longleftrightarrow> fst (fst (check_access dns now pinned 0 plugin task (Some target) e))" by (simp add: c)
  then show ?thesis
    using dest_address_ipv4 [OF assms(2)] by (simp add: check_access_decision rules)
qed

theorem pinned_target_immune_to_rebinding_witness:
  "\<exists>e'. resolve_and_pin example_dns 3 ''scan.example'' ''nmap'' ''t1'' example_engine
       = Some ((Some ''93.184.216.34'', True,
            ''Allowed by allowlist rule: Default public egress (no explicit allowlist configured) (matched: 0.0.0.0/0)''), e')
     \<and> fst (fst (check_access (\<lambda>h. Resolved ''10.0.0.1'') 3 ''93.184.216.34'' 443 [] [] None e'))"
proof -
  have "map_option fst (resolve_and_pin example_dns 3 ''scan.example'' ''nmap'' ''t1'' example_engine)
      = Some (Some ''93.184.216.34'', True,
          ''Allowed by allowlist rule: Default public egress (no explicit allowlist configured) (matched: 0.0.0.0/0)'')"
    by code_simp
  then obtain e' where e': "resolve_and_pin example_dns 3 ''scan.example'' ''nmap'' ''t1'' example_engine
      = Some ((Some ''93.184.216.34'', True,
          ''Allowed by allowlist rule: Default public egress (no explicit allowlist configured) (matched: 0.0.0.0/0)''), e')"
    by auto
  moreover have "parse_ipv4 ''93.184.216.34'' = Some 1572395042" by code_simp
  ultimately show ?thesis
    using pinned_target_immune_to_rebinding [OF e', of _ "\<lambda>h. Resolved ''10.0.0.1''" None 443 "[]" "[]"]
    by blast
qed

subsection \<open>Gaps\<close>

text \<open>
  The mandatory list names IPv4 networks only by their IPv4 form: the IPv4-mapped IPv6 text of the
  metadata address, and \<open>0.0.0.0\<close> (which a Linux host routes to itself), match no rule of it and pass
  the default public egress rules.
\<close>

lemma mapped_metadata_passes:
  "fst (fst (check_access example_dns 0 ''::ffff:169.254.169.254'' 80 [] [] None example_engine))"
  "fst (fst (check_access example_dns 0 ''0.0.0.0'' 80 [] [] None example_engine))"
  by code_simp+

text \<open>
  The pinning step hands a URL to the resolver as it is, so a URL target is refused although the check
  itself would take its host.
\<close>

lemma url_target_is_unresolvable:
  "map_option fst (resolve_and_pin example_dns 0 ''http://scan.example/'' [] [] example_engine)
     = Some (None, False, ''Unresolvable hostname: http://scan.example/'')"
  "fst (fst (check_access example_dns 0 ''http://scan.example/'' 80 [] [] None example_engine))"
  by code_simp+

end
