(* ===== verification/Json_Value.thy ===== *)
theory Json_Value
  imports Complex_Main Prelude
begin

text \<open>
  The Python values that plugin inputs, plugin metadata and findings are made of (what
  \<open>json.loads\<close> returns; floats as rationals), with the coercions the backend applies to them:
  truth, \<open>str(...)\<close> of scalars and dictionary access.
\<close>

datatype json =
    JNull
  | JBool bool
  | JInt int
  | JFloat rat
  | JStr string
  | JList "json list"
  | JObj "(string \<times> json) list"

type_synonym dict = "(string \<times> json) list"

definition truthy :: "json \<Rightarrow> bool" where
  "truthy v = (case v of JNull \<Rightarrow> False | JBool b \<Rightarrow> b | JInt i \<Rightarrow> i \<noteq> 0 | JFloat r \<Rightarrow> r \<noteq> 0
     | JStr s \<Rightarrow> s \<noteq> [] | JList xs \<Rightarrow> xs \<noteq> [] | JObj kvs \<Rightarrow> kvs \<noteq> [])"

text \<open>\<open>d.get(k)\<close>, where a missing key reads as \<open>None\<close>.\<close>

definition jget :: "dict \<Rightarrow> string \<Rightarrow> json" where
  "jget d k = (case map_of d k of None \<Rightarrow> JNull | Some v \<Rightarrow> v)"

definition jget_or :: "dict \<Rightarrow> string \<Rightarrow> json \<Rightarrow> json" where
  "jget_or d k dflt = (case map_of d k of None \<Rightarrow> dflt | Some v \<Rightarrow> v)"

text \<open>\<open>a or b\<close>.\<close>

definition jor :: "json \<Rightarrow> json \<Rightarrow> json" where
  "jor a b = (if truthy a then a else b)"

lemma jget_simps [simp]: "map_of d k = Some v \<Longrightarrow> jget d k = v" "map_of d k = None \<Longrightarrow> jget d k = JNull"
  by (simp_all add: jget_def)

lemma truthy_simps [simp]:
  "\<not> truthy JNull" "truthy (JBool b) = b" "truthy (JInt i) = (i \<noteq> 0)" "truthy (JFloat r) = (r \<noteq> 0)"
  "truthy (JStr s) = (s \<noteq> [])" "truthy (JList xs) = (xs \<noteq> [])" "truthy (JObj kvs) = (kvs \<noteq> [])"
  by (simp_all add: truthy_def)

end
