(* ===== verification/Target_Validation.thy ===== *)
theory Target_Validation
  imports Network_Policy Json_Value
begin

text \<open>
  \<open>backend/secuscan/validation.py\<close>: scan target, port, URL and webhook validation, the allowed
  networks of safe mode with their wildcard patterns, the DNS cache, input sanitising, the limits on
  a task-start payload and the egress check of a finished command line. \<open>socket.getaddrinfo\<close> is a
  parameter; settings are a record. \<open>None\<close> as a result stands for an exception that leaves the call.
\<close>

record net_settings =
  allowed_networks :: "string list"
  allow_loopback_scans :: bool
  dns_cache_ttl_seconds :: int
  dns_rebind_check :: bool

subsection \<open>Shell patterns (\<open>fnmatch\<close>)\<close>

datatype pat = Star | Any | Lit char | Class bool "(char \<times> char) list" \<comment> \<open>negated, ranges\<close>

fun class_ranges :: "string \<Rightarrow> (char \<times> char) list" where
  "class_ranges [] = []"
| "class_ranges [c] = [(c, c)]"
| "class_ranges [c, d] = [(c, c), (d, d)]"
| "class_ranges (c # d # e # cs) =
     (if d = CHR ''-'' then (c, e) # class_ranges cs else (c, c) # class_ranges (d # e # cs))"

text \<open>The text of a bracket class and what follows it: a leading \<open>]\<close> (after \<open>!\<close>) belongs to it.\<close>

definition class_split :: "string \<Rightarrow> (string \<times> string) option" where
  "class_split cs =
     (let pre = (if starts_with cs ''!]'' then 2 else if starts_with cs ''!'' \<or> starts_with cs '']'' then 1 else 0);
          (body, rest) = split_first (CHR '']'') (drop pre cs)
      in if CHR '']'' \<in> set (drop pre cs) then Some (take pre cs @ body, rest) else None)"

definition class_pat :: "string \<Rightarrow> pat" where
  "class_pat stuff =
     (case stuff of
        c # rest \<Rightarrow> if c = CHR ''!'' then (if rest = [] then Any else Class True (class_ranges rest))
                    else Class False (class_ranges stuff)
      | [] \<Rightarrow> Class False [])"

function parse_pattern :: "string \<Rightarrow> pat list" where
  "parse_pattern [] = []"
| "parse_pattern (c # cs) =
     (if c = CHR ''*'' then Star # parse_pattern cs
      else if c = CHR ''?'' then Any # parse_pattern cs
      else if c = CHR ''['' then
        (case class_split cs of
           None \<Rightarrow> Lit c # parse_pattern cs
         | Some (stuff, rest) \<Rightarrow> class_pat stuff # parse_pattern (if length rest < length cs then rest else []))
      else Lit c # parse_pattern cs)"
  by pat_completeness auto
termination by (relation "measure length") auto

fun pat_char :: "pat \<Rightarrow> char \<Rightarrow> bool" where
  "pat_char Star c = True"
| "pat_char Any c = True"
| "pat_char (Lit d) c = (c = d)"
| "pat_char (Class neg rs) c =
     (neg \<noteq> list_ex (\<lambda>(lo, hi). char_nat lo \<le> char_nat c \<and> char_nat c \<le> char_nat hi) rs)"

fun pat_match :: "pat list \<Rightarrow> string \<Rightarrow> bool" where
  "pat_match [] s = (s = [])"
| "pat_match (Star # ps) [] = pat_match ps []"
| "pat_match (Star # ps) (c # cs) = (pat_match ps (c # cs) \<or> pat_match (Star # ps) cs)"
| "pat_match (p # ps) [] = False"
| "pat_match (p # ps) (c # cs) = (pat_char p c \<and> pat_match ps cs)"

definition fnmatch :: "string \<Rightarrow> string \<Rightarrow> bool" where
  "fnmatch name pattern = pat_match (parse_pattern pattern) name"

definition match_pattern :: "string \<Rightarrow> string \<Rightarrow> bool" where
  "match_pattern value pattern = fnmatch value pattern"

subsection \<open>Allowed and blocked networks\<close>

definition BLOCKED_NETWORKS :: "ip_net list" where
  "BLOCKED_NETWORKS = map (the o ip_network) [''0.0.0.0/8'', ''169.254.0.0/16'', ''224.0.0.0/4'']"

definition ALLOWED_PRIVATE :: "ip_net list" where
  "ALLOWED_PRIVATE = map (the o ip_network) [''10.0.0.0/8'', ''172.16.0.0/12'', ''192.168.0.0/16'', ''127.0.0.0/8'']"

definition BLOCKED_TLDS :: "string list" where
  "BLOCKED_TLDS = [''.mil'', ''.gov'']"

text \<open>\<open>10.*.*.*\<close> to \<open>10.0.0.0/8\<close>: octets, then wildcards only. \<open>None\<close> where the code returns \<open>None\<close>.\<close>

fun wildcard_octets :: "bool \<Rightarrow> string list \<Rightarrow> int list option" where
  "wildcard_octets started [] = Some []"
| "wildcard_octets started (p # ps) =
     (if p = ''*'' then map_option ((#) 0) (wildcard_octets True ps)
      else if started \<or> \<not> py_isdigit p \<or> digits_val p > 255 then None
      else map_option ((#) (int (digits_val p))) (wildcard_octets started ps))"

definition wildcard_to_net :: "string \<Rightarrow> ip_net option" where
  "wildcard_to_net pattern =
     (let parts = split_on (CHR ''.'') pattern; stars = length (filter (\<lambda>p. p = ''*'') parts) in
      if length parts \<noteq> 4 then None
      else case wildcard_octets False parts of
          None \<Rightarrow> None
        | Some octets \<Rightarrow>
            if stars = 0 then None
            else let n = foldl (\<lambda>acc k. acc * 256 + k) 0 octets; p = (4 - stars) * 8
                 in Some (Net (mask_addr p (IPv4 n)) p))"

definition same_net_version :: "ip_net \<Rightarrow> ip_net \<Rightarrow> bool" where
  "same_net_version a b = same_version (net_addr a) (net_addr b)"

definition allowed_patterns :: "net_settings \<Rightarrow> string list" where
  "allowed_patterns cfg = filter (\<lambda>p. p \<noteq> []) (map py_strip (allowed_networks cfg))"

definition host_allowed_by :: "ip_net \<Rightarrow> string \<Rightarrow> bool" where
  "host_allowed_by net pattern =
     (case ip_network pattern of
        Some a \<Rightarrow> same_net_version net a \<and> (subnet_of net a \<or> overlaps net a)
      | None \<Rightarrow>
          (case wildcard_to_net pattern of
             Some c \<Rightarrow> (same_net_version net c \<and> subnet_of net c) \<or> fnmatch (ip_str (net_addr net)) pattern
           | None \<Rightarrow> fnmatch (ip_str (net_addr net)) pattern))"

definition range_allowed_by :: "ip_net \<Rightarrow> string \<Rightarrow> bool" where
  "range_allowed_by net pattern =
     (case (case ip_network pattern of Some a \<Rightarrow> Some a | None \<Rightarrow> wildcard_to_net pattern) of
        Some a \<Rightarrow> same_net_version net a \<and> subnet_of net a
      | None \<Rightarrow> False)"

definition net_within_allowed_networks :: "net_settings \<Rightarrow> ip_net \<Rightarrow> bool" where
  "net_within_allowed_networks cfg net =
     (let patterns = allowed_patterns cfg in
      if patterns = [] then True
      else if net_size net = 1 then list_ex (host_allowed_by net) patterns
      else list_ex (range_allowed_by net) patterns)"

subsection \<open>Name resolution with a cache\<close>

text \<open>\<open>getaddrinfo\<close>: \<open>None\<close> for an \<open>OSError\<close>, else family (\<open>True\<close> for IPv4 or IPv6) and address text.\<close>

type_synonym addr_resolver = "string \<Rightarrow> (bool \<times> string) list option"
type_synonym dns_cache = "string \<rightharpoonup> rat \<times> ip_addr list"

fun dedup_from :: "ip_addr list \<Rightarrow> ip_addr list \<Rightarrow> ip_addr list" where
  "dedup_from seen [] = []"
| "dedup_from seen (x # xs) = (if x \<in> set seen then dedup_from seen xs else x # dedup_from (x # seen) xs)"

definition answer_ips :: "(bool \<times> string) list \<Rightarrow> ip_addr list" where
  "answer_ips infos = dedup_from [] (List.map_filter (\<lambda>(inet, a). if inet then ip_address a else None) infos)"

definition resolve_host_ips ::
  "net_settings \<Rightarrow> addr_resolver \<Rightarrow> rat \<Rightarrow> string \<Rightarrow> dns_cache \<Rightarrow> ip_addr list \<times> dns_cache" where
  "resolve_host_ips cfg dns now h c =
     (let fresh = (let ips = (case dns h of None \<Rightarrow> [] | Some infos \<Rightarrow> answer_ips infos)
                   in (ips, c(h \<mapsto> (now + of_int (max 1 (dns_cache_ttl_seconds cfg)), ips))))
      in case c h of Some (until, ips) \<Rightarrow> if until > now then (ips, c) else fresh | None \<Rightarrow> fresh)"

definition resolve_host_ips_uncached ::
  "net_settings \<Rightarrow> addr_resolver \<Rightarrow> rat \<Rightarrow> string \<Rightarrow> dns_cache \<Rightarrow> ip_addr list \<times> dns_cache" where
  "resolve_host_ips_uncached cfg dns now h c = resolve_host_ips cfg dns now h (c(h := None))"

subsection \<open>Target validation\<close>

definition blocked_msg :: string where "blocked_msg = ''Target overlaps with blocked network range''"
definition loopback_msg :: string where "loopback_msg = ''Loopback scans are disabled in global settings''"
definition public_msg :: string where
  "public_msg = ''Public IPs/networks not allowed in safe mode (SecuScan Guardrail)''"
definition outside_msg :: string where
  "outside_msg = ''Target not within allowed networks in safe mode (SecuScan Guardrail)''"
definition unresolved_msg :: string where
  "unresolved_msg = ''Hostname did not resolve to any IPs in safe mode (SecuScan Guardrail)''"

definition is_private_net :: "ip_net \<Rightarrow> bool" where
  "is_private_net net = list_ex (\<lambda>a. same_net_version net a \<and> (subnet_of net a \<or> overlaps net a)) ALLOWED_PRIVATE"

definition validate_net :: "net_settings \<Rightarrow> bool \<Rightarrow> ip_net \<Rightarrow> bool \<times> string" where
  "validate_net cfg safe_mode net =
     (if list_ex (overlaps net) BLOCKED_NETWORKS then (False, blocked_msg)
      else if net_is_loopback net \<and> \<not> allow_loopback_scans cfg then (False, loopback_msg)
      else if safe_mode \<and> \<not> is_private_net net then (False, public_msg)
      else if safe_mode \<and> \<not> net_within_allowed_networks cfg net then (False, outside_msg)
      else (True, []))"

definition validate_resolved_ip :: "net_settings \<Rightarrow> ip_addr \<Rightarrow> bool \<times> string" where
  "validate_resolved_ip cfg ip =
     (let net = Net ip (ip_bits ip) in
      if list_ex (overlaps net) BLOCKED_NETWORKS then (False, blocked_msg)
      else if addr_is_loopback ip \<and> \<not> allow_loopback_scans cfg then (False, loopback_msg)
      else if \<not> is_private_net net then (False, public_msg)
      else if \<not> net_within_allowed_networks cfg net then (False, outside_msg)
      else (True, []))"

fun first_rejection :: "('a \<Rightarrow> bool \<times> string) \<Rightarrow> 'a list \<Rightarrow> bool \<times> string" where
  "first_rejection f [] = (True, [])"
| "first_rejection f (x # xs) = (if fst (f x) then first_rejection f xs else f x)"

definition validate_resolved_ips_safe_mode :: "net_settings \<Rightarrow> ip_addr list \<Rightarrow> bool \<times> string" where
  "validate_resolved_ips_safe_mode cfg ips =
     (if ips = [] then (False, unresolved_msg) else first_rejection (validate_resolved_ip cfg) ips)"

definition parse_url_hostname :: "string \<Rightarrow> string option option" where
  "parse_url_hostname target =
     (case urlsplit target of
        None \<Rightarrow> None
      | Some (scheme, netloc) \<Rightarrow>
          Some (if scheme \<in> {''http'', ''https''} then url_hostname netloc else None))"

text \<open>The host name expression; its \<open>$\<close> also matches before a final line break.\<close>

definition label_ok :: "string \<Rightarrow> bool" where
  "label_ok l = (l \<noteq> [] \<and> length l \<le> 63 \<and> is_alnum (hd l) \<and> is_alnum (last l)
     \<and> list_all (\<lambda>c. is_alnum c \<or> c = CHR ''-'') l)"

definition chop_newline :: "string \<Rightarrow> string" where
  "chop_newline s = (if s \<noteq> [] \<and> char_nat (last s) = 10 then butlast s else s)"

definition hostname_ok :: "string \<Rightarrow> bool" where
  "hostname_ok h = list_all label_ok (split_on (CHR ''.'') (chop_newline h))"

definition blocked_tld :: "string \<Rightarrow> string option" where
  "blocked_tld h = find (\<lambda>t. ends_with (py_lower h) t) BLOCKED_TLDS"

text \<open>
  The safe-mode resolution: \<open>dns\<close> and \<open>now\<close> serve the (possibly cached) lookup, \<open>dns2\<close> and \<open>now2\<close>
  the fresh one of the rebinding check.
\<close>

definition validate_hostname ::
  "net_settings \<Rightarrow> addr_resolver \<Rightarrow> rat \<Rightarrow> addr_resolver \<Rightarrow> rat \<Rightarrow> bool \<Rightarrow> string \<Rightarrow> dns_cache
     \<Rightarrow> (bool \<times> string) \<times> dns_cache" where
  "validate_hostname cfg dns now dns2 now2 safe_mode h c =
     (if \<not> hostname_ok h then ((False, ''Invalid hostname format''), c)
      else if \<not> safe_mode then ((True, []), c)
      else case blocked_tld h of
          Some t \<Rightarrow> ((False, ''Domains ending in '' @ t @ '' are blocked in safe mode''), c)
        | None \<Rightarrow>
            (let (ips, c1) = resolve_host_ips cfg dns now h c;
                 r1 = validate_resolved_ips_safe_mode cfg ips
             in if \<not> fst r1 then (r1, c1)
                else if \<not> dns_rebind_check cfg then ((True, []), c1)
                else (let (ips2, c2) = resolve_host_ips_uncached cfg dns2 now2 h c1;
                          r2 = validate_resolved_ips_safe_mode cfg (dedup_from [] (ips @ ips2))
                      in if \<not> fst r2 then (r2, c2) else ((True, []), c2))))"

definition validate_target ::
  "net_settings \<Rightarrow> addr_resolver \<Rightarrow> rat \<Rightarrow> addr_resolver \<Rightarrow> rat \<Rightarrow> bool \<Rightarrow> string \<Rightarrow> dns_cache
     \<Rightarrow> ((bool \<times> string) \<times> dns_cache) option" where
  "validate_target cfg dns now dns2 now2 safe_mode target0 c =
     (let target = py_strip target0 in
      if target = [] then Some ((False, ''Target cannot be empty''), c)
      else case ip_network target of
          Some net \<Rightarrow> Some (validate_net cfg safe_mode net, c)
        | None \<Rightarrow>
            (case parse_url_hostname target of
               None \<Rightarrow> None
             | Some host \<Rightarrow>
                 (let h = (case host of None \<Rightarrow> target | Some x \<Rightarrow> x) in
                  case ip_network h of
                    Some net \<Rightarrow>
                      (case ip_network (py_strip (net_str net)) of
                         Some net' \<Rightarrow> Some (validate_net cfg safe_mode net', c)
                       | None \<Rightarrow> Some ((False, ''Invalid hostname format''), c))
                  | None \<Rightarrow> Some (validate_hostname cfg dns now dns2 now2 safe_mode h c))))"

subsection \<open>Ports and URLs\<close>

definition validate_port :: "json \<Rightarrow> bool \<times> string" where
  "validate_port v =
     (case v of
        JInt n \<Rightarrow> if n < 1 \<or> n > 65535 then (False, ''Port must be between 1 and 65535'') else (True, [])
      | _ \<Rightarrow> (False, ''Port must be an integer''))"

definition validate_hyphen_range :: "string \<Rightarrow> bool \<times> string" where
  "validate_hyphen_range s =
     (case map py_int (split_on (CHR ''-'') s) of
        [Some a, Some b] \<Rightarrow>
          if a > b then (False, ''Port range start must be less than end'')
          else if \<not> fst (validate_port (JInt a)) then (False, snd (validate_port (JInt a)))
          else validate_port (JInt b)
      | _ \<Rightarrow> (False, ''Invalid port range format''))"

definition validate_port_item :: "string \<Rightarrow> bool \<times> string" where
  "validate_port_item item =
     (let p = py_strip item in
      if CHR ''-'' \<in> set p then validate_hyphen_range p
      else case py_int p of
          Some n \<Rightarrow> validate_port (JInt n)
        | None \<Rightarrow> (False, ''Invalid port number: '' @ p))"

definition validate_port_range :: "string \<Rightarrow> bool \<times> string" where
  "validate_port_range s =
     (if CHR '','' \<in> set s then first_rejection validate_port_item (split_on (CHR '','') s)
      else if CHR ''-'' \<in> set s then validate_hyphen_range s
      else case py_int s of
          Some n \<Rightarrow> validate_port (JInt n)
        | None \<Rightarrow> (False, ''Invalid port specification''))"

definition url_host_ok :: "string \<Rightarrow> bool" where
  "url_host_ok h =
     (let labels = split_on (CHR ''.'') h;
          ls = (if length labels > 1 \<and> last labels = [] then butlast labels else labels)
      in (length ls > 1 \<and> list_all label_ok (butlast ls) \<and> list_all is_alpha (last ls)
            \<and> 2 \<le> length (last ls) \<and> length (last ls) \<le> 6)
         \<or> py_lower h = ''localhost''
         \<or> (length labels = 4 \<and> list_all (\<lambda>l. py_isdigit l \<and> length l \<le> 3) labels))"

definition url_tail_ok :: "string \<Rightarrow> bool" where
  "url_tail_ok t =
     (t = [] \<or> t = ''/'' \<or> (hd t \<in> {CHR ''/'', CHR ''?''} \<and> tl t \<noteq> [] \<and> list_all (\<lambda>c. \<not> is_ws c) (tl t)))"

definition url_pattern_match :: "string \<Rightarrow> bool" where
  "url_pattern_match url =
     (let s = chop_newline url;
          n = (if starts_with (py_lower s) ''http://'' then 7
               else if starts_with (py_lower s) ''https://'' then 8 else 0);
          host = takeWhile (\<lambda>c. c \<notin> {CHR '':'', CHR ''/'', CHR ''?''}) (drop n s);
          rest = dropWhile (\<lambda>c. c \<notin> {CHR '':'', CHR ''/'', CHR ''?''}) (drop n s)
      in n > 0 \<and> url_host_ok host
         \<and> (if starts_with rest '':''
            then takeWhile is_digit (tl rest) \<noteq> [] \<and> url_tail_ok (dropWhile is_digit (tl rest))
            else url_tail_ok rest))"

text \<open>The first \<open>:digits\<close> that a slash, a question mark or the end follows.\<close>

fun first_port :: "string \<Rightarrow> string option" where
  "first_port [] = None"
| "first_port (c # cs) =
     (let ds = takeWhile is_digit cs; r = dropWhile is_digit cs in
      if c = CHR '':'' \<and> ds \<noteq> [] \<and> (chop_newline r = [] \<or> hd r \<in> {CHR ''/'', CHR ''?''})
      then Some ds else first_port cs)"

fun after_scheme :: "string \<Rightarrow> string" where
  "after_scheme [] = []"
| "after_scheme (c # cs) = (if starts_with (c # cs) ''://'' then drop 2 cs else after_scheme cs)"

definition validate_url :: "string \<Rightarrow> (bool \<times> string) option" where
  "validate_url url =
     (if \<not> url_pattern_match url then Some (False, ''Invalid URL format'')
      else case first_port (after_scheme url) of
          None \<Rightarrow> Some (True, [])
        | Some ds \<Rightarrow>
            (case py_int ds of
               None \<Rightarrow> None
             | Some n \<Rightarrow> if n < 1 \<or> n > 65535 then Some (False, ''Invalid URL format'') else Some (True, [])))"

subsection \<open>Input sanitising\<close>

definition dangerous_chars :: "char list" where
  "dangerous_chars = '';|&$`()<>'' @ [char_of (10::nat), char_of (13::nat), char_of (39::nat), CHR 0x22]
     @ ''!'' @ [char_of (9::nat), char_of (0::nat)]"

definition sanitize_input :: "string \<Rightarrow> string" where
  "sanitize_input value =
     (let v1 = map (\<lambda>c. if c = CHR 0x5C then CHR ''/'' else c) value;
          v2 = fold (\<lambda>d v. filter (\<lambda>c. c \<noteq> d) v) dangerous_chars v1;
          v3 = lstrip_by (\<lambda>c. c = CHR ''-'') v2
      in py_strip v3)"

definition is_filesystem_target :: "string \<Rightarrow> bool" where
  "is_filesystem_target t =
     (list_ex (starts_with t) [''/'', ''./'', ''../'', ''~/'']
      \<or> (case t of c # d # e # r \<Rightarrow> is_alpha c \<and> d = CHR '':'' \<and> (e = CHR ''/'' \<or> e = CHR 0x5C) | _ \<Rightarrow> False))"

subsection \<open>Limits on a task-start payload\<close>

record payload_limits =
  max_body_bytes :: int
  max_field_length :: int
  max_array_length :: int

definition too_long_msg :: "payload_limits \<Rightarrow> string" where
  "too_long_msg l = ''exceeds the maximum allowed length of '' @ int_str (max_field_length l) @ '' characters.''"

fun check_field :: "payload_limits \<Rightarrow> string \<Rightarrow> json \<Rightarrow> bool \<times> int \<times> string"
  and check_items :: "payload_limits \<Rightarrow> string \<Rightarrow> nat \<Rightarrow> json list \<Rightarrow> bool \<times> int \<times> string"
  and check_entries :: "payload_limits \<Rightarrow> string \<Rightarrow> dict \<Rightarrow> bool \<times> int \<times> string" where
  "check_field l key (JStr s) =
     (if int (length s) > max_field_length l
      then (False, 400, ''Input field '' @ quoted key @ '' '' @ too_long_msg l) else (True, 0, []))"
| "check_field l key (JList xs) =
     (if int (length xs) > max_array_length l
      then (False, 400, ''Input field '' @ quoted key @ '' contains too many items (max '' @ int_str (max_array_length l) @ '').'')
      else check_items l key 0 xs)"
| "check_field l key (JObj kvs) = check_entries l (key @ ''.'') kvs"
| "check_field l key v = (True, 0, [])"
| "check_items l key i [] = (True, 0, [])"
| "check_items l key i (x # xs) =
     (if (case x of JStr s \<Rightarrow> int (length s) > max_field_length l | _ \<Rightarrow> False)
      then (False, 400, ''Item at index '' @ nat_str i @ '' in input field '' @ quoted key @ '' '' @ too_long_msg l)
      else let r = check_field l (key @ ''['' @ nat_str i @ '']'') x in
           if \<not> fst r then r else check_items l key (i + 1) xs)"
| "check_entries l prefix [] = (True, 0, [])"
| "check_entries l prefix ((k, v) # kvs) =
     (let r = check_field l (prefix @ k) v in if \<not> fst r then r else check_entries l prefix kvs)"

definition validate_task_start_payload ::
  "payload_limits \<Rightarrow> int \<Rightarrow> json \<Rightarrow> json \<Rightarrow> bool \<times> int \<times> string" where
  "validate_task_start_payload l body_bytes inputs context =
     (if body_bytes > max_body_bytes l
      then (False, 413, ''Request body exceeds the maximum allowed size of '' @ int_str (max_body_bytes l) @ '' bytes.'')
      else case inputs of
          JObj kvs \<Rightarrow>
            (let r = check_entries l [] kvs in
             if \<not> fst r then r
             else case context of
                 JNull \<Rightarrow> (True, 0, [])
               | JObj ckvs \<Rightarrow> check_entries l ''execution_context.'' ckvs
               | _ \<Rightarrow> (False, 400, quoted ''execution_context'' @ '' must be a JSON object.''))
        | _ \<Rightarrow> (False, 400, quoted ''inputs'' @ '' must be a JSON object.''))"

definition validate_preset_name :: "string \<Rightarrow> string option \<Rightarrow> dict option \<Rightarrow> bool \<times> string" where
  "validate_preset_name plugin_id preset presets =
     (case preset of
        None \<Rightarrow> (True, [])
      | Some p \<Rightarrow>
          if p = [] then (True, [])
          else if p \<notin> set (akeys (case presets of None \<Rightarrow> [] | Some ps \<Rightarrow> ps))
          then (False, ''Unknown preset '' @ quoted p @ '' for plugin '' @ quoted plugin_id)
          else (True, []))"

subsection \<open>Webhook targets\<close>

record webhook_settings =
  notification_blocked_ip_ranges :: "string list"
  notification_allowed_ip_ranges :: "string list"
  notification_allowed_ports :: "int list"

text \<open>The first range of a list that covers the address; malformed ranges are skipped.\<close>

definition covering_range :: "string list \<Rightarrow> ip_addr \<Rightarrow> string option" where
  "covering_range ranges ip =
     find (\<lambda>r. case ip_network r of None \<Rightarrow> False | Some net \<Rightarrow> net_contains net ip) ranges"

definition validate_webhook_target ::
  "webhook_settings \<Rightarrow> (string \<Rightarrow> string list option) \<Rightarrow> string \<Rightarrow> (bool \<times> string option) option" where
  "validate_webhook_target cfg dns url =
     (case urlsplit url of
        None \<Rightarrow> None
      | Some (scheme, netloc) \<Rightarrow>
          (case url_hostname netloc of
             None \<Rightarrow> Some (False, Some ''Webhook URL has no hostname'')
           | Some h \<Rightarrow>
               (case dns h of
                  None \<Rightarrow> Some (False, Some ''Webhook URL hostname could not be resolved'')
                | Some addrs \<Rightarrow>
                    (case List.map_filter (\<lambda>a. case ip_address a of None \<Rightarrow> None
                            | Some ip \<Rightarrow> map_option (Pair ip) (covering_range (notification_blocked_ip_ranges cfg) ip)) addrs of
                       [] \<Rightarrow> Some (True, None)
                     | (ip, r) # _ \<Rightarrow>
                         Some (False, Some (''Webhook URL resolves to blocked address ('' @ ip_str ip @ '') in range '' @ r))))))"

definition webhook_ip_check :: "webhook_settings \<Rightarrow> string \<Rightarrow> bool \<times> string" where
  "webhook_ip_check cfg a =
     (case ip_address a of
        None \<Rightarrow> (True, [])
      | Some ip \<Rightarrow>
          (case covering_range (notification_blocked_ip_ranges cfg) ip of
             Some r \<Rightarrow> (False, ''Resolved IP '' @ ip_str ip @ '' falls in blocked range '' @ r)
           | None \<Rightarrow>
               if notification_allowed_ip_ranges cfg \<noteq> []
                  \<and> covering_range (notification_allowed_ip_ranges cfg) ip = None
               then (False, ''Resolved IP '' @ ip_str ip @ '' not in allowed ranges'') else (True, [])))"

definition int_list_str :: "int list \<Rightarrow> string" where
  "int_list_str xs = ''['' @ join_with '', '' (map int_str xs) @ '']''"

text \<open>\<open>None\<close>: reading the port of the URL raises a \<open>ValueError\<close>.\<close>

definition resolve_and_validate_target ::
  "webhook_settings \<Rightarrow> (string \<Rightarrow> string list option) \<Rightarrow> string \<Rightarrow> (bool \<times> string) option" where
  "resolve_and_validate_target cfg dns url =
     (case urlsplit url of
        None \<Rightarrow> Some (False, ''Invalid URL'')
      | Some (scheme, netloc) \<Rightarrow>
          if scheme \<notin> {''http'', ''https''}
          then Some (False, ''Scheme '' @ quoted scheme @ '' not allowed for webhooks'')
          else
            (case url_hostname netloc of
               None \<Rightarrow> Some (False, ''URL must have a hostname'')
             | Some h \<Rightarrow>
                 (case url_port netloc of
                    Inl _ \<Rightarrow> None
                  | Inr port \<Rightarrow>
                      if (case port of None \<Rightarrow> False | Some p \<Rightarrow> p \<notin> set (notification_allowed_ports cfg))
                      then Some (False, ''Port '' @ int_str (the port) @ '' not in allowed ports: ''
                             @ int_list_str (notification_allowed_ports cfg))
                      else if ip_address h \<noteq> None
                      then Some (False, ''Raw IP addresses are not allowed in webhook URLs; use a hostname'')
                      else
                        (case dns h of
                           None \<Rightarrow> Some (False, ''Could not resolve hostname: '' @ h)
                         | Some addrs \<Rightarrow> Some (first_rejection (webhook_ip_check cfg) addrs)))))"

subsection \<open>Egress check of a command line\<close>

definition mixed_case :: "string \<Rightarrow> bool" where
  "mixed_case part = (part \<noteq> py_lower part \<and> part \<noteq> py_upper part)"

text \<open>
  The part of a command argument that is checked and whether it is taken for a host name; \<open>None\<close> for
  flags, paths and everything that is neither an address nor a host name.
\<close>

definition strip_candidate_port :: "string \<Rightarrow> string" where
  "strip_candidate_port c =
     (if CHR '':'' \<in> set c \<and> \<not> starts_with c ''[''
      then (let (h, p) = split_last (CHR '':'') c in if py_isdigit p then h else c) else c)"

definition arg_candidate :: "string \<Rightarrow> string option" where
  "arg_candidate arg =
     (let s = py_strip arg in
      if s = [] \<or> starts_with s ''-'' \<or> is_filesystem_target s then None
      else let c = (if contains_sub s ''://''
                    then (case urlsplit s of
                            None \<Rightarrow> Some s
                          | Some (scheme, netloc) \<Rightarrow>
                              if scheme \<in> {''http'', ''https'', ''ws'', ''wss''} then url_hostname netloc else Some s)
                    else Some s)
           in case c of None \<Rightarrow> None | Some x \<Rightarrow> if x = [] then None else Some (strip_candidate_port x))"

definition is_host_candidate :: "string \<Rightarrow> bool" where
  "is_host_candidate c =
     (let l = py_lower c in
      l = ''localhost''
      \<or> (length (split_on (CHR ''.'') (chop_newline l)) > 1 \<and> hostname_ok l
         \<and> \<not> list_ex mixed_case (split_on (CHR ''.'') c)))"

record egress_settings =
  enforce_network_policy :: bool
  network_policy_failure_mode :: string

record world =
  dns_v :: addr_resolver
  now_v :: rat
  dns_v2 :: addr_resolver
  now_v2 :: rat
  dns_p :: resolver
  now_p :: usec

text \<open>One argument: \<open>Inl\<close> an error message or an exception, \<open>Inr\<close> the check goes on.\<close>

datatype egress_error = Egress_Refused string | Egress_Raised

definition check_arg_egress ::
  "net_settings \<Rightarrow> egress_settings \<Rightarrow> world \<Rightarrow> bool \<Rightarrow> string \<Rightarrow> string \<Rightarrow> string option \<Rightarrow> string
     \<Rightarrow> dns_cache \<times> engine \<Rightarrow> (egress_error option) \<times> dns_cache \<times> engine" where
  "check_arg_egress cfg ecfg w safe_mode plugin task pinned arg st =
     (case arg_candidate arg of
        None \<Rightarrow> (None, st)
      | Some c \<Rightarrow>
          let is_ip = ip_network c \<noteq> None; is_host = (\<not> is_ip \<and> is_host_candidate c) in
          if \<not> is_ip \<and> \<not> is_host then (None, st)
          else
            (case validate_target cfg (dns_v w) (now_v w) (dns_v2 w) (now_v2 w) safe_mode c (fst st) of
               None \<Rightarrow> (Some Egress_Raised, st)
             | Some ((ok, err), cache') \<Rightarrow>
                 if \<not> ok
                 then (Some (Egress_Refused (''Command argument '' @ quoted (py_strip arg)
                         @ '' violates safe mode: '' @ err)), cache', snd st)
                 else if \<not> enforce_network_policy ecfg then (None, cache', snd st)
                 else
                   let check_ip = (case pinned of Some p \<Rightarrow> if p \<noteq> [] \<and> is_host then p else c | None \<Rightarrow> c);
                       ((allowed, why, r), e') =
                         check_access (dns_p w) (now_p w) check_ip 0 plugin task
                           (if is_host then Some c else None) (snd st)
                   in if \<not> allowed \<and> network_policy_failure_mode ecfg \<noteq> ''log_only''
                      then (Some (Egress_Refused (''Command argument '' @ quoted (py_strip arg)
                              @ '' violates network policy: '' @ why)), cache', e')
                      else (None, cache', e')))"

fun validate_command_network_egress ::
  "net_settings \<Rightarrow> egress_settings \<Rightarrow> world \<Rightarrow> bool \<Rightarrow> string \<Rightarrow> string \<Rightarrow> string option \<Rightarrow> string list
     \<Rightarrow> dns_cache \<times> engine \<Rightarrow> (egress_error option) \<times> dns_cache \<times> engine" where
  "validate_command_network_egress cfg ecfg w safe_mode plugin task pinned [] st = (None, st)"
| "validate_command_network_egress cfg ecfg w safe_mode plugin task pinned (arg # args) st =
     (case check_arg_egress cfg ecfg w safe_mode plugin task pinned arg st of
        (Some err, st') \<Rightarrow> (Some err, st')
      | (None, st') \<Rightarrow> validate_command_network_egress cfg ecfg w safe_mode plugin task pinned args st')"

subsection \<open>What safe mode lets through\<close>

fun private_address :: "ip_addr \<Rightarrow> bool" where
  "private_address (IPv4 n) \<longleftrightarrow> n div 2 ^ 24 \<in> {10, 127} \<or> n div 2 ^ 20 = 172 * 16 + 1
     \<or> n div 2 ^ 16 = 192 * 256 + 168"
| "private_address (IPv6 n s) \<longleftrightarrow> False"

lemma ALLOWED_PRIVATE_eq:
  "ALLOWED_PRIVATE = [Net (IPv4 167772160) 8, Net (IPv4 2886729728) 12, Net (IPv4 3232235520) 16,
     Net (IPv4 2130706432) 8]"
  by (simp add: ALLOWED_PRIVATE_def mandatory_parsed)

lemma ALLOWED_PRIVATE_ok: "a \<in> set ALLOWED_PRIVATE \<Longrightarrow> net_ok a"
  by (auto simp: ALLOWED_PRIVATE_eq net_ok_def addr_ok_def net_size_def net_first_def)

lemma in_private_net: "a \<in> set ALLOWED_PRIVATE \<Longrightarrow> net_contains a ip \<Longrightarrow> private_address ip"
  by (cases ip) (auto simp: ALLOWED_PRIVATE_eq net_contains_def mask_int_def net_first_def same_version_def)

lemma host_net_last: "net_last (Net ip (ip_bits ip)) = ip_value ip"
  by (simp add: net_last_def net_first_def net_size_def)

lemma host_net_touches:
  assumes "net_ok a" and "same_net_version (Net ip (ip_bits ip)) a"
    and "subnet_of (Net ip (ip_bits ip)) a \<or> overlaps (Net ip (ip_bits ip)) a"
  shows "net_contains a ip"
proof -
  have size: "net_first a \<le> net_last a" using net_size_pos [of a] by (simp add: net_last_def)
  have "net_last (Net ip (ip_bits (net_addr a))) = ip_value ip"
    using assms(2) host_net_last [of ip] by (simp add: same_net_version_def same_version_def)
  then show ?thesis
    using assms(2,3) size
    by (auto simp: same_net_version_def subnet_of_def overlaps_def net_contains_iff [OF assms(1)]
        host_net_last net_first_def same_version_def)
       (auto simp: net_contains_def mask_int_def net_first_def)
qed

lemma private_host_net: "is_private_net (Net ip (ip_bits ip)) \<Longrightarrow> private_address ip"
  using host_net_touches in_private_net ALLOWED_PRIVATE_ok
  by (fastforce simp: is_private_net_def list_ex_iff)

lemma size_one_host: "net_ok n \<Longrightarrow> net_size n = 1 \<Longrightarrow> n = Net (net_addr n) (ip_bits (net_addr n))"
  using one_less_power [of "2::int" "ip_bits (net_addr n) - net_prefix n"]
  by (cases n) (fastforce simp: net_size_def net_ok_def)

lemma validate_net_host_private:
  assumes "validate_net cfg True n = (True, m)" and "net_ok n" and "net_size n = 1"
  shows "private_address (net_addr n)"
  using assms private_host_net [of "net_addr n"] size_one_host [OF assms(2,3)]
  by (auto simp: validate_net_def split: if_splits)

definition pattern_net :: "string \<Rightarrow> ip_net option" where
  "pattern_net p = (case ip_network p of Some a \<Rightarrow> Some a | None \<Rightarrow> wildcard_to_net p)"

lemma wildcard_octets_range:
  "wildcard_octets b ps = Some os \<Longrightarrow> length os = length ps \<and> (\<forall>k \<in> set os. 0 \<le> k \<and> k < 256)"
  by (induction b ps arbitrary: os rule: wildcard_octets.induct) (auto split: if_splits)

lemma wildcard_to_net_ok: "wildcard_to_net p = Some n \<Longrightarrow> net_ok n"
proof -
  assume w: "wildcard_to_net p = Some n"
  then obtain os where os: "wildcard_octets False (split_on (CHR ''.'') p) = Some os"
      "length (split_on (CHR ''.'') p) = 4"
    and n: "\<exists>k \<le> 32. n = Net (mask_addr k (IPv4 (foldl (\<lambda>acc k. acc * 256 + k) 0 os))) k"
    by (auto simp: wildcard_to_net_def Let_def split: if_splits option.splits)
  have len: "length os = 4" and rng: "\<forall>k \<in> set os. 0 \<le> k \<and> k < 256"
    using wildcard_octets_range [OF os(1)] os(2) by simp_all
  obtain a b c d where abcd: "os = [a, b, c, d]"
    using len by (auto simp: numeral_eq_Suc length_Suc_conv)
  have "addr_ok (IPv4 (foldl (\<lambda>acc k. acc * 256 + k) 0 os))"
    using rng by (auto simp: abcd addr_ok_def)
  then show ?thesis using n net_ok_masked by auto
qed

lemma pattern_net_ok: "pattern_net p = Some a \<Longrightarrow> net_ok a"
  by (auto simp: pattern_net_def dest: ip_network_ok wildcard_to_net_ok split: option.splits)

lemma validate_net_range_allowed:
  assumes "validate_net cfg True n = (True, m)" and "net_ok n" and "net_size n \<noteq> 1"
    and "allowed_patterns cfg \<noteq> []"
  shows "\<exists>p \<in> set (allowed_patterns cfg). \<exists>a. pattern_net p = Some a \<and> (\<forall>x. net_contains n x \<longrightarrow> net_contains a x)"
proof -
  have "net_within_allowed_networks cfg n" using assms(1) by (auto simp: validate_net_def split: if_splits)
  then obtain p where p: "p \<in> set (allowed_patterns cfg)" "range_allowed_by n p"
    using assms(3,4) by (auto simp: net_within_allowed_networks_def list_ex_iff)
  then obtain a where a: "pattern_net p = Some a" "same_net_version n a" "subnet_of n a"
    by (auto simp: range_allowed_by_def pattern_net_def split: option.splits)
  then show ?thesis
    using p(1) subnet_contains [OF assms(2) pattern_net_ok [OF a(1)]] by (auto simp: same_net_version_def)
qed

lemma validate_net_not_blocked:
  "validate_net cfg s n = (True, m) \<Longrightarrow> b \<in> set BLOCKED_NETWORKS \<Longrightarrow> \<not> overlaps n b"
  by (auto simp: validate_net_def list_ex_iff split: if_splits)

lemma first_rejection_True: "fst (first_rejection f xs) \<longleftrightarrow> (\<forall>x \<in> set xs. fst (f x))"
  by (induction xs) auto

lemma resolved_ip_private: "fst (validate_resolved_ip cfg ip) \<Longrightarrow> private_address ip"
  by (auto simp: validate_resolved_ip_def Let_def private_host_net split: if_splits)

lemma resolved_ips_private:
  "fst (validate_resolved_ips_safe_mode cfg ips) \<Longrightarrow> ips \<noteq> [] \<and> (\<forall>ip \<in> set ips. private_address ip)"
  by (auto simp: validate_resolved_ips_safe_mode_def first_rejection_True resolved_ip_private split: if_splits)

lemma set_dedup_from: "set (dedup_from seen xs) = set xs - set seen"
  by (induction seen xs rule: dedup_from.induct) auto

text \<open>The network, or the host name, that a target text names.\<close>

definition target_net :: "string \<Rightarrow> ip_net option" where
  "target_net t =
     (case ip_network (py_strip t) of
        Some n \<Rightarrow> Some n
      | None \<Rightarrow>
          (case parse_url_hostname (py_strip t) of
             Some (Some h) \<Rightarrow>
               (case ip_network h of None \<Rightarrow> None | Some n \<Rightarrow> ip_network (py_strip (net_str n)))
           | _ \<Rightarrow> None))"

definition target_name :: "string \<Rightarrow> string" where
  "target_name t = (case parse_url_hostname (py_strip t) of Some (Some h) \<Rightarrow> h | _ \<Rightarrow> py_strip t)"

lemma target_net_ok: "target_net t = Some n \<Longrightarrow> net_ok n"
  by (auto simp: target_net_def dest: ip_network_ok split: option.splits)

lemma validate_target_cases:
  assumes "validate_target cfg dns now dns2 now2 safe t c = Some ((True, m), c')"
  obtains n where "target_net t = Some n" "validate_net cfg safe n = (True, m)" "c' = c"
  | "target_net t = None" "hostname_ok (target_name t)"
    "validate_hostname cfg dns now dns2 now2 safe (target_name t) c = ((True, m), c')"
  using assms
  by (auto simp: validate_target_def target_net_def target_name_def validate_hostname_def Let_def
      split: if_splits option.splits)


definition default_net_settings :: net_settings where
  "default_net_settings = \<lparr>allowed_networks = [''127.0.0.1'', ''192.168.*.*'', ''10.*.*.*'', ''172.16.*.*''],
     allow_loopback_scans = True, dns_cache_ttl_seconds = 60, dns_rebind_check = True\<rparr>"


text \<open>
  Every private address is in the mandatory deny list. So a single address that safe mode accepts is
  always refused by an enforced egress policy: with both on, as by default, no address can be scanned.
\<close>

lemma private_is_mandatory: "private_address ip \<Longrightarrow> mandatory_address ip"
  by (cases ip) auto

lemma safe_mode_address_always_denied:
  assumes "validate_net cfg True n = (True, m)" and "net_ok n" and "net_size n = 1"
    and "reachable_engine e" and "dest_address dns hostname d = Some (net_addr n)"
  shows "\<not> fst (fst (check_access dns now d port plugin task hostname e))"
  using mandatory_denied [OF assms(4) private_is_mandatory
      [OF validate_net_host_private [OF assms(1-3)]] assms(5)] .

subsection \<open>What the command check guarantees\<close>

definition egress_dest :: "string option \<Rightarrow> string \<Rightarrow> string" where
  "egress_dest pinned c =
     (case pinned of Some p \<Rightarrow> if p \<noteq> [] \<and> ip_network c = None then p else c | None \<Rightarrow> c)"

definition network_candidate :: "string \<Rightarrow> string \<Rightarrow> bool" where
  "network_candidate arg c \<longleftrightarrow> arg_candidate arg = Some c \<and> (ip_network c \<noteq> None \<or> is_host_candidate c)"

lemma check_arg_egress_frame:
  assumes "check_arg_egress cfg ecfg w safe plugin task pinned arg st = (r, st')"
  shows "denylist (snd st') = denylist (snd st) \<and> allowlist (snd st') = allowlist (snd st)"
  using assms check_access_frame
  by (auto simp: check_arg_egress_def Let_def case_prod_beta split: option.splits if_splits)

lemma check_arg_egress_pass:
  assumes "check_arg_egress cfg ecfg w safe plugin task pinned arg st = (None, st')"
    and "network_candidate arg c" and "enforce_network_policy ecfg"
    and "network_policy_failure_mode ecfg \<noteq> ''log_only''"
  shows "(\<exists>m cache'. validate_target cfg (dns_v w) (now_v w) (dns_v2 w) (now_v2 w) safe c (fst st)
              = Some ((True, m), cache'))
         \<and> (\<exists>ip hn. dest_address (dns_p w) hn (egress_dest pinned c) = Some ip
              \<and> matching_rule (now_p w) ip (denylist (snd st)) = None
              \<and> matching_rule (now_p w) ip (allowlist (snd st)) \<noteq> None)"
  using assms check_access_decision
  by (auto simp: check_arg_egress_def network_candidate_def egress_dest_def Let_def case_prod_beta
      split: option.splits if_splits)

lemma command_egress_all:
  assumes "validate_command_network_egress cfg ecfg w safe plugin task pinned cmd st = (None, st')"
    and "arg \<in> set cmd" and "network_candidate arg c" and "enforce_network_policy ecfg"
    and "network_policy_failure_mode ecfg \<noteq> ''log_only''"
  shows "(\<exists>m cache cache'. validate_target cfg (dns_v w) (now_v w) (dns_v2 w) (now_v2 w) safe c cache
              = Some ((True, m), cache'))
         \<and> (\<exists>ip hn. dest_address (dns_p w) hn (egress_dest pinned c) = Some ip
              \<and> matching_rule (now_p w) ip (denylist (snd st)) = None
              \<and> matching_rule (now_p w) ip (allowlist (snd st)) \<noteq> None)"
  using assms(1,2)
proof (induction cmd arbitrary: st)
  case (Cons a cmd)
  obtain st1 where st1: "check_arg_egress cfg ecfg w safe plugin task pinned a st = (None, st1)"
      "validate_command_network_egress cfg ecfg w safe plugin task pinned cmd st1 = (None, st')"
    using Cons.prems(1) by (auto split: prod.splits option.splits)
  show ?case
  proof (cases "arg = a")
    case True
    then show ?thesis using check_arg_egress_pass [OF st1(1)] assms(3-5) by blast
  next
    case False
    then have "arg \<in> set cmd" using Cons.prems(2) by simp
    then show ?thesis using Cons.IH [OF st1(2)] check_arg_egress_frame [OF st1(1)] by simp
  qed
qed simp


definition example_world :: world where
  "example_world = \<lparr>dns_v = (\<lambda>h. None), now_v = 0, dns_v2 = (\<lambda>h. None), now_v2 = 0,
     dns_p = example_dns, now_p = 0\<rparr>"

definition enforcing :: egress_settings where
  "enforcing = \<lparr>enforce_network_policy = True, network_policy_failure_mode = ''block''\<rparr>"


text \<open>
  What escapes the check: the port stripping cuts the last group off an IPv6 literal, so it is no
  address any more and is not checked; and a destination inside a flag is skipped.
\<close>

lemma ipv6_argument_unchecked:
  "arg_candidate ''http://[::1]/'' = Some '':''" "\<not> network_candidate ''http://[::1]/'' '':''"
  "\<not> network_candidate ''fd00::5'' ''fd00:''" "arg_candidate ''fd00::5'' = Some ''fd00:''"
  unfolding network_candidate_def by code_simp+

lemma flag_argument_unchecked: "arg_candidate ''--url=http://169.254.169.254/'' = None"
  by code_simp

text \<open>With no allowed network configured, a public range that touches a private one passes safe mode.\<close>

lemma wide_range_passes_safe_mode:
  "validate_net (default_net_settings\<lparr>allowed_networks := []\<rparr>) True (the (ip_network ''8.0.0.0/5'')) = (True, [])"
  by code_simp

subsection \<open>Payload limits\<close>

fun within_limits :: "payload_limits \<Rightarrow> json \<Rightarrow> bool" where
  "within_limits l (JStr s) = (int (length s) \<le> max_field_length l)"
| "within_limits l (JList xs) = (int (length xs) \<le> max_array_length l \<and> list_all (within_limits l) xs)"
| "within_limits l (JObj kvs) = list_all (\<lambda>(k, v). within_limits l v) kvs"
| "within_limits l v = True"

lemma check_field_iff:
  "fst (check_field l key v) \<longleftrightarrow> within_limits l v"
  "fst (check_items l key i xs) \<longleftrightarrow> list_all (within_limits l) xs"
  "fst (check_entries l key kvs) \<longleftrightarrow> list_all (\<lambda>(k, v). within_limits l v) kvs"
  by (induction l key v and l key i xs and l key kvs rule: check_field_check_items_check_entries.induct)
     (auto simp: Let_def split: json.splits)

lemma check_field_code:
  "\<not> fst (check_field l key v) \<Longrightarrow> fst (snd (check_field l key v)) = 400"
  "\<not> fst (check_items l key i xs) \<Longrightarrow> fst (snd (check_items l key i xs)) = 400"
  "\<not> fst (check_entries l key kvs) \<Longrightarrow> fst (snd (check_entries l key kvs)) = 400"
  by (induction l key v and l key i xs and l key kvs rule: check_field_check_items_check_entries.induct)
     (auto simp: Let_def split: if_splits)

text \<open>A task-start payload is accepted exactly when the body fits, \<open>inputs\<close> is an object, the
  execution context is absent or an object, and every string and every list in them, at any depth,
  is within its limit; a refusal is a 413 for the body size and a 400 for everything else.\<close>

theorem payload_limits_deep:
  "(fst (validate_task_start_payload l n inputs context) \<longleftrightarrow>
     n \<le> max_body_bytes l \<and> (\<exists>kvs. inputs = JObj kvs) \<and> within_limits l inputs
     \<and> (context = JNull \<or> ((\<exists>kvs. context = JObj kvs) \<and> within_limits l context)))
   \<and> fst (snd (validate_task_start_payload l n inputs context)) =
     (if fst (validate_task_start_payload l n inputs context) then 0
      else if n > max_body_bytes l then 413 else 400)"
proof
  show "fst (validate_task_start_payload l n inputs context) \<longleftrightarrow>
     n \<le> max_body_bytes l \<and> (\<exists>kvs. inputs = JObj kvs) \<and> within_limits l inputs
     \<and> (context = JNull \<or> ((\<exists>kvs. context = JObj kvs) \<and> within_limits l context))"
    by (auto simp: validate_task_start_payload_def check_field_iff Let_def split: json.splits)
  have zero: "fst (check_entries l k kvs) \<Longrightarrow> fst (snd (check_entries l k kvs)) = 0" for k kvs
    by (induction kvs) (auto simp: Let_def split: if_splits)
  show "fst (snd (validate_task_start_payload l n inputs context)) =
     (if fst (validate_task_start_payload l n inputs context) then 0
      else if n > max_body_bytes l then 413 else 400)"
    using zero check_field_code(3)
    by (auto simp: validate_task_start_payload_def Let_def split: json.splits)
qed

subsection \<open>Port ranges\<close>

text \<open>What an accepted specification denotes: inclusive ranges.\<close>

definition hyphen_bounds :: "string \<Rightarrow> (int \<times> int) option" where
  "hyphen_bounds s = (case map py_int (split_on (CHR ''-'') s) of [Some a, Some b] \<Rightarrow> Some (a, b) | _ \<Rightarrow> None)"

definition item_bounds :: "string \<Rightarrow> (int \<times> int) option" where
  "item_bounds p = (if CHR ''-'' \<in> set p then hyphen_bounds p else map_option (\<lambda>n. (n, n)) (py_int p))"

definition port_spec_items :: "string \<Rightarrow> string list" where
  "port_spec_items s = (if CHR '','' \<in> set s then map py_strip (split_on (CHR '','') s) else [s])"

lemma hyphen_range_iff:
  "fst (validate_hyphen_range s) \<longleftrightarrow> (\<exists>a b. hyphen_bounds s = Some (a, b) \<and> 1 \<le> a \<and> a \<le> b \<and> b \<le> 65535)"
  by (auto simp: validate_hyphen_range_def hyphen_bounds_def validate_port_def split: list.splits option.splits)

text \<open>A port specification is accepted exactly when each of its comma-separated items is a port or
  a range of ports between 1 and 65535 whose start does not exceed its end.\<close>

theorem port_range_accepts_ports:
  "fst (validate_port_range s) \<longleftrightarrow>
     (\<forall>p \<in> set (port_spec_items s). \<exists>a b. item_bounds p = Some (a, b) \<and> 1 \<le> a \<and> a \<le> b \<and> b \<le> 65535)"
proof -
  have item: "fst (validate_port_item q) \<longleftrightarrow>
      (\<exists>a b. item_bounds (py_strip q) = Some (a, b) \<and> 1 \<le> a \<and> a \<le> b \<and> b \<le> 65535)" for q
    by (auto simp: validate_port_item_def item_bounds_def hyphen_range_iff validate_port_def Let_def
        split: option.splits)
  show ?thesis
    by (auto simp: validate_port_range_def port_spec_items_def first_rejection_True item item_bounds_def
        hyphen_range_iff validate_port_def split: option.splits)
qed

theorem port_range_accepts_ports_witness:
  "fst (validate_port_range ''22, 80,443-8080'') \<and> \<not> fst (validate_port_range ''80-70000'')"
proof -
  have "port_spec_items ''22, 80,443-8080'' = [''22'', ''80'', ''443-8080'']"
    "item_bounds ''22'' = Some (22, 22)" "item_bounds ''80'' = Some (80, 80)"
    "item_bounds ''443-8080'' = Some (443, 8080)"
    "port_spec_items ''80-70000'' = [''80-70000'']" "item_bounds ''80-70000'' = Some (80, 70000)"
    by code_simp+
  then show ?thesis
    using port_range_accepts_ports [of "''22, 80,443-8080''"] port_range_accepts_ports [of "''80-70000''"]
    by simp
qed

subsection \<open>Webhook addresses\<close>

lemma covering_range_None:
  "covering_range ranges ip = None \<longleftrightarrow>
     (\<forall>r \<in> set ranges. \<forall>net. ip_network r = Some net \<longrightarrow> \<not> net_contains net ip)"
  by (auto simp: covering_range_def find_None_iff split: option.splits)

text \<open>A webhook URL passes \<open>resolve_and_validate_target\<close> only over http or https, on an allowed
  port, with a host that is a name and not an address, and when every address it resolves to lies in
  no blocked range and, if allowed ranges are configured, in one of those.\<close>

theorem webhook_target_safe:
  assumes "resolve_and_validate_target cfg dns url = Some (True, m)"
  shows "\<exists>scheme netloc h addrs port. urlsplit url = Some (scheme, netloc) \<and> scheme \<in> {''http'', ''https''}
     \<and> url_hostname netloc = Some h \<and> ip_address h = None \<and> dns h = Some addrs
     \<and> url_port netloc = Inr port \<and> (\<forall>p. port = Some p \<longrightarrow> p \<in> set (notification_allowed_ports cfg))
     \<and> (\<forall>a \<in> set addrs. \<forall>ip. ip_address a = Some ip \<longrightarrow>
          (\<forall>r \<in> set (notification_blocked_ip_ranges cfg). \<forall>net. ip_network r = Some net \<longrightarrow> \<not> net_contains net ip)
          \<and> (notification_allowed_ip_ranges cfg \<noteq> [] \<longrightarrow>
               (\<exists>r \<in> set (notification_allowed_ip_ranges cfg). \<exists>net. ip_network r = Some net \<and> net_contains net ip)))"
proof -
  have ok: "(\<forall>r \<in> set (notification_blocked_ip_ranges cfg). \<forall>net. ip_network r = Some net \<longrightarrow> \<not> net_contains net ip)
      \<and> (notification_allowed_ip_ranges cfg \<noteq> [] \<longrightarrow>
          (\<exists>r \<in> set (notification_allowed_ip_ranges cfg). \<exists>net. ip_network r = Some net \<and> net_contains net ip))"
    if "fst (webhook_ip_check cfg a)" "ip_address a = Some ip" for a ip
    using that covering_range_None [of "notification_blocked_ip_ranges cfg" ip]
      covering_range_None [of "notification_allowed_ip_ranges cfg" ip]
    by (auto simp: webhook_ip_check_def split: option.splits if_splits)
  obtain scheme netloc where u: "urlsplit url = Some (scheme, netloc)" "scheme \<in> {''http'', ''https''}"
    using assms by (auto simp: resolve_and_validate_target_def split: option.splits if_splits)
  obtain h port addrs where h: "url_hostname netloc = Some h" "url_port netloc = Inr port"
      "ip_address h = None" "dns h = Some addrs"
      "port = None \<or> the port \<in> set (notification_allowed_ports cfg)"
      "first_rejection (webhook_ip_check cfg) addrs = (True, m)"
    using assms u by (auto simp: resolve_and_validate_target_def split: option.splits if_splits sum.splits)
  have "\<forall>a \<in> set addrs. fst (webhook_ip_check cfg a)"
    using h(6) first_rejection_True [of "webhook_ip_check cfg" addrs] by simp
  then show ?thesis using u h ok by (intro exI conjI) auto
qed

definition example_webhooks :: webhook_settings where
  "example_webhooks = \<lparr>notification_blocked_ip_ranges = [''169.254.0.0/16'', ''10.0.0.0/8''],
     notification_allowed_ip_ranges = [], notification_allowed_ports = [80, 443]\<rparr>"

theorem webhook_target_safe_witness:
  "\<exists>scheme netloc. urlsplit ''https://hooks.example:443/in'' = Some (scheme, netloc) \<and> scheme \<in> {''http'', ''https''}"
proof -
  have "resolve_and_validate_target example_webhooks (\<lambda>h. Some [''93.184.216.34'']) ''https://hooks.example:443/in''
      = Some (True, [])"
    by code_simp
  from webhook_target_safe [OF this] show ?thesis by blast
qed

subsection \<open>Sanitised input\<close>

lemma set_fold_filter: "set (fold (\<lambda>d v. filter (\<lambda>c. c \<noteq> d) v) ds v) = set v - set ds"
  by (induction ds arbitrary: v) auto

lemma sanitize_no_dangerous:
  "c \<in> set dangerous_chars \<Longrightarrow> c \<notin> set (sanitize_input s)"
  "CHR 0x5C \<notin> set (sanitize_input s)"
proof -
  let ?v = "fold (\<lambda>d v. filter (\<lambda>c. c \<noteq> d) v) dangerous_chars (map (\<lambda>c. if c = CHR 0x5C then CHR ''/'' else c) s)"
  have sub: "set (sanitize_input s) \<subseteq> set ?v"
    using set_strip_by [of is_ws "lstrip_by (\<lambda>c. c = CHR ''-'') ?v"]
    by (auto simp: sanitize_input_def Let_def py_strip_def lstrip_by_def dest: set_dropWhileD)
  show "c \<in> set dangerous_chars \<Longrightarrow> c \<notin> set (sanitize_input s)"
    using sub by (auto simp: set_fold_filter)
  show "CHR 0x5C \<notin> set (sanitize_input s)"
    using sub by (auto simp: set_fold_filter split: if_splits)
qed

text \<open>Dashes are stripped before white space, so a dash behind a blank survives in front.\<close>

lemma sanitize_leaves_option: "sanitize_input ''; --script=x'' = ''--script=x''"
  by code_simp

end
