(* ===== verification/Capabilities.thy ===== *)
theory Capabilities
  imports Complex_Main Prelude
begin

text \<open>
  Plugin capabilities of \<open>backend/secuscan/capabilities.py\<close>: the tokens a plugin declares or, when it
  declares none, those its safety level implies, checked against the set the operator denies. A
  \<open>ValueError\<close> and the \<open>CapabilityDeniedError\<close> are constructors of the outcome.
\<close>

datatype capability = NETWORK | FILESYSTEM | DOCKER | CREDENTIALS | INTRUSIVE | EXPLOIT

fun cap_value :: "capability \<Rightarrow> string" where
  "cap_value NETWORK = ''network''"
| "cap_value FILESYSTEM = ''filesystem''"
| "cap_value DOCKER = ''docker''"
| "cap_value CREDENTIALS = ''credentials''"
| "cap_value INTRUSIVE = ''intrusive''"
| "cap_value EXPLOIT = ''exploit''"

definition ALL_CAPABILITIES :: "string list" where
  "ALL_CAPABILITIES = map cap_value [NETWORK, FILESYSTEM, DOCKER, CREDENTIALS, INTRUSIVE, EXPLOIT]"

definition safety_level_implied :: "string \<Rightarrow> string list" where
  "safety_level_implied level =
     (if level = ''intrusive'' then [''network'', ''intrusive'']
      else if level = ''exploit'' then [''network'', ''intrusive'', ''exploit'']
      else [''network''])"

definition cap_token :: "string \<Rightarrow> string" where
  "cap_token raw = py_lower (py_strip raw)"

text \<open>\<open>Inl raw\<close>: the \<open>ValueError\<close> for the first unknown token.\<close>

fun validate_capability_list :: "string list \<Rightarrow> string + string list" where
  "validate_capability_list [] = Inr []"
| "validate_capability_list (raw # rest) =
     (if cap_token raw \<notin> set ALL_CAPABILITIES then Inl raw
      else case validate_capability_list rest of Inl bad \<Rightarrow> Inl bad | Inr ts \<Rightarrow> Inr (cap_token raw # ts))"

definition effective_capabilities :: "string list option \<Rightarrow> string \<Rightarrow> string + string list" where
  "effective_capabilities declared safety_level =
     (case declared of
        Some (c # cs) \<Rightarrow> validate_capability_list (c # cs)
      | _ \<Rightarrow> Inr (safety_level_implied safety_level))"

text \<open>The constructor: \<open>Inl\<close> the unrecognised tokens, \<open>Inr\<close> the denied set.\<close>

definition enforcer_init :: "string list option \<Rightarrow> string list + string list" where
  "enforcer_init denied_capabilities =
     (let raw = (case denied_capabilities of None \<Rightarrow> [] | Some ts \<Rightarrow> ts);
          toks = filter (\<lambda>t. cap_token t \<noteq> []) raw;
          unknown = map py_strip (filter (\<lambda>t. cap_token t \<notin> set ALL_CAPABILITIES) toks)
      in if unknown \<noteq> [] then Inl unknown
         else Inr (map cap_token toks))"

datatype cap_outcome =
    Cap_Pass
  | Cap_Denied "string list"
  | Cap_ValueError string

definition capability_check :: "string list \<Rightarrow> string list option \<Rightarrow> string \<Rightarrow> cap_outcome" where
  "capability_check denied declared safety_level =
     (if denied = [] then Cap_Pass
      else case effective_capabilities declared safety_level of
          Inl bad \<Rightarrow> Cap_ValueError bad
        | Inr required \<Rightarrow>
            (let blocked = remdups (filter (\<lambda>c. c \<in> set denied) required)
             in if blocked \<noteq> [] then Cap_Denied blocked else Cap_Pass))"

lemma validate_capability_list_Inr:
  "validate_capability_list cs = Inr ts \<longleftrightarrow> (\<forall>c \<in> set cs. cap_token c \<in> set ALL_CAPABILITIES) \<and> ts = map cap_token cs"
proof (induction cs arbitrary: ts)
  case (Cons c cs)
  show ?case
  proof (cases "validate_capability_list cs")
    case (Inl bad)
    then have "\<not> (\<forall>c \<in> set cs. cap_token c \<in> set ALL_CAPABILITIES)"
      using Cons.IH [of "map cap_token cs"] by auto
    then show ?thesis using Inl by auto
  next
    case (Inr us)
    then show ?thesis using Cons.IH [of us] by auto
  qed
qed auto

lemma validate_capability_list_Inl:
  "validate_capability_list cs = Inl bad \<Longrightarrow> bad \<in> set cs \<and> cap_token bad \<notin> set ALL_CAPABILITIES"
  by (induction cs) (auto split: if_splits sum.splits)

lemma implied_known: "set (safety_level_implied l) \<subseteq> set ALL_CAPABILITIES"
  by (simp add: safety_level_implied_def ALL_CAPABILITIES_def)

lemma effective_known: "effective_capabilities d l = Inr ts \<Longrightarrow> set ts \<subseteq> set ALL_CAPABILITIES"
  using implied_known [of l]
  by (auto simp: effective_capabilities_def validate_capability_list_Inr simp del: validate_capability_list.simps
      split: option.splits list.splits)

lemma enforcer_init_denied:
  "enforcer_init ds = Inr denied \<Longrightarrow>
     set denied \<subseteq> set ALL_CAPABILITIES
     \<and> (\<forall>t \<in> set (case ds of None \<Rightarrow> [] | Some ts \<Rightarrow> ts). cap_token t = [] \<or> cap_token t \<in> set denied)"
  by (cases ds) (auto simp: enforcer_init_def Let_def filter_empty_conv split: if_splits)

lemma capability_check_Pass:
  "capability_check denied declared level = Cap_Pass \<longleftrightarrow>
     denied = [] \<or> (\<exists>req. effective_capabilities declared level = Inr req \<and> set req \<inter> set denied = {})"
  by (auto simp: capability_check_def Let_def filter_empty_conv split: sum.splits)

text \<open>A plugin passes the check exactly when nothing is denied or its required capabilities (the
  declared ones, else those implied by its safety level) are all known and none is denied; a refusal
  names denied capabilities that it requires. A deny list with an unrecognised token never yields an
  enforcer, so a typing error cannot switch the check off.\<close>

theorem capability_check_exact:
  assumes "enforcer_init ds = Inr denied"
  shows "(capability_check denied declared level = Cap_Pass \<longleftrightarrow>
            denied = [] \<or> (\<exists>req. effective_capabilities declared level = Inr req \<and> set req \<inter> set denied = {}))
       \<and> (\<forall>cs. capability_check denied declared level = Cap_Denied cs \<longrightarrow>
            cs \<noteq> [] \<and> set cs \<subseteq> set denied
            \<and> (\<exists>req. effective_capabilities declared level = Inr req \<and> set cs \<subseteq> set req))
       \<and> (\<forall>t \<in> set (case ds of None \<Rightarrow> [] | Some ts \<Rightarrow> ts). cap_token t = [] \<or> cap_token t \<in> set denied)"
proof -
  have "cs \<noteq> [] \<and> set cs \<subseteq> set denied
      \<and> (\<exists>req. effective_capabilities declared level = Inr req \<and> set cs \<subseteq> set req)"
    if "capability_check denied declared level = Cap_Denied cs" for cs
    using that by (auto simp: capability_check_def Let_def split: sum.splits if_splits)
  then show ?thesis
    using capability_check_Pass enforcer_init_denied [OF assms] by blast
qed

theorem capability_check_exact_witness:
  "capability_check [''exploit''] None ''exploit'' = Cap_Denied [''exploit'']
   \<and> capability_check [''exploit''] (Some [''Network '']) ''exploit'' = Cap_Pass"
proof -
  have init: "enforcer_init (Some [''Exploit'', '' '']) = Inr [''exploit'']" by code_simp
  have "effective_capabilities (Some [''Network '']) ''exploit'' = Inr [''network'']" by code_simp
  then have "capability_check [''exploit''] (Some [''Network '']) ''exploit'' = Cap_Pass"
    using capability_check_exact [OF init, of "Some [''Network '']" "''exploit''"] by simp
  then show ?thesis by (simp add: capability_check_def effective_capabilities_def safety_level_implied_def)
qed

text \<open>
  The declared list is the only source of truth: an exploit-level plugin that declares \<open>network\<close>
  alone passes a deny list of \<open>exploit\<close>, as the second half of the witness shows.
\<close>

end
