(* ===== verification/Plugin_Commands.thy ===== *)
theory Plugin_Commands
  imports Target_Validation Capabilities
begin

text \<open>
  \<open>PluginManager\<close> of \<open>backend/secuscan/plugins.py\<close>: loading checks and integrity verification of a
  plugin, validation of caller inputs against the declared fields, and rendering of the command
  template. Parameters: the file system (existence, \<open>resolve\<close>, \<open>expanduser\<close>), the digest functions, the
  regular expressions that plugin metadata supplies, and \<open>str()\<close> of floats, lists and dictionaries.
\<close>

datatype field_type = F_STRING | F_TEXT | F_INTEGER | F_BOOLEAN | F_SELECT | F_MULTISELECT | F_FILE | F_KEYVALUE

record plugin_field =
  f_id :: string
  f_type :: field_type
  f_default :: json
  f_options :: "(string \<times> string) list list"
  f_validation :: dict

record plugin =
  p_id :: string
  p_name :: string
  p_category :: string
  p_engine :: "(string \<times> string) list"
  p_template :: "string list"
  p_fields :: "plugin_field list"
  p_presets :: "(string \<times> dict) list"
  p_output :: dict
  p_safety :: dict
  p_capabilities :: "string list option"
  p_implementation_status :: "string option"
  p_docker_image :: "string option"
  p_checksum :: "string option"
  p_signature :: "string option"

subsection \<open>Loading checks and integrity\<close>

definition validate_engine :: "plugin \<Rightarrow> bool" where
  "validate_engine p = (map_of (p_engine p) ''type'' \<in> {Some ''cli'', Some ''python'', Some ''docker''})"

definition validate_safety :: "plugin \<Rightarrow> bool" where
  "validate_safety p = (jget (p_safety p) ''level'' \<in> {JStr ''safe'', JStr ''intrusive'', JStr ''exploit''})"

definition validate_capabilities :: "plugin \<Rightarrow> bool" where
  "validate_capabilities p =
     (case p_capabilities p of
        None \<Rightarrow> True
      | Some cs \<Rightarrow> (case validate_capability_list cs of Inl bad \<Rightarrow> False | Inr ts \<Rightarrow> True))"

definition requires_parser :: "plugin \<Rightarrow> bool" where
  "requires_parser p = (jget (p_output p) ''parser'' = JStr ''custom'')"

text \<open>
  The files of a plugin directory: the canonical metadata text (keys sorted, without checksum and
  signature; \<open>None\<close> when unreadable) and the bytes of \<open>parser.py\<close>, if it exists. \<open>sha\<close> is the
  hexadecimal SHA-256 and \<open>mac\<close> the keyed one.
\<close>

record plugin_files =
  canonical_metadata :: "string option"
  parser_bytes :: "string option"

record crypto =
  sha :: "string \<Rightarrow> string"
  mac :: "string \<Rightarrow> string \<Rightarrow> string"

fun normalize_newlines :: "string \<Rightarrow> string" where
  "normalize_newlines (c # d # cs) =
     (if char_nat c = 13 \<and> char_nat d = 10 then d # normalize_newlines cs else c # normalize_newlines (d # cs))"
| "normalize_newlines cs = cs"

definition compute_plugin_digest :: "crypto \<Rightarrow> bool \<Rightarrow> plugin_files \<Rightarrow> string option" where
  "compute_plugin_digest cr require_parser files =
     (case canonical_metadata files of
        None \<Rightarrow> None
      | Some meta \<Rightarrow>
          if require_parser \<and> parser_bytes files = None then None
          else Some (sha cr (sha cr meta @ '':''
                 @ (case parser_bytes files of None \<Rightarrow> [] | Some b \<Rightarrow> sha cr (normalize_newlines b)))))"

definition given :: "string option \<Rightarrow> bool" where
  "given s = (s \<noteq> None \<and> s \<noteq> Some [])"

record integrity_settings =
  enforce_plugin_signatures :: bool
  enforce_parser_integrity :: bool
  plugin_signature_key :: "string option"

definition verify_plugin_integrity :: "integrity_settings \<Rightarrow> crypto \<Rightarrow> plugin \<Rightarrow> plugin_files \<Rightarrow> bool" where
  "verify_plugin_integrity cfg cr p files =
     (if \<not> given (p_checksum p) \<and> \<not> given (p_signature p) \<and> enforce_plugin_signatures cfg then False
      else case compute_plugin_digest cr (requires_parser p) files of
          None \<Rightarrow> False
        | Some digest \<Rightarrow>
            if given (p_checksum p) \<and> p_checksum p \<noteq> Some digest then False
            else if \<not> given (p_signature p) then True
            else if \<not> given (plugin_signature_key cfg) then False
            else mac cr (the (plugin_signature_key cfg)) digest = the (p_signature p))"

definition verify_parser_at_exec_time :: "integrity_settings \<Rightarrow> crypto \<Rightarrow> plugin \<Rightarrow> plugin_files \<Rightarrow> bool" where
  "verify_parser_at_exec_time cfg cr p files =
     (if \<not> given (p_checksum p) then \<not> enforce_parser_integrity cfg
      else case compute_plugin_digest cr False files of
          None \<Rightarrow> False
        | Some digest \<Rightarrow> digest = the (p_checksum p))"

definition validate_plugin :: "integrity_settings \<Rightarrow> crypto \<Rightarrow> plugin \<Rightarrow> plugin_files \<Rightarrow> bool" where
  "validate_plugin cfg cr p files =
     (if p_id p = [] \<or> p_name p = [] then False
      else if \<not> validate_engine p then False
      else if requires_parser p \<and> parser_bytes files = None then False
      else if \<not> validate_safety p then False
      else if \<not> validate_capabilities p then False
      else verify_plugin_integrity cfg cr p files)"

text \<open>Loading a directory listing: a plugin that fails to parse is \<open>None\<close>; a later one replaces an earlier
  one of the same id.\<close>

fun load_plugins ::
  "integrity_settings \<Rightarrow> crypto \<Rightarrow> (plugin option \<times> plugin_files) list \<Rightarrow> (string \<times> plugin) list
     \<Rightarrow> nat \<times> (string \<times> plugin) list" where
  "load_plugins cfg cr [] ps = (0, ps)"
| "load_plugins cfg cr ((meta, files) # dirs) ps =
     (case meta of
        None \<Rightarrow> load_plugins cfg cr dirs ps
      | Some p \<Rightarrow>
          if validate_plugin cfg cr p files
          then (let (n, ps') = load_plugins cfg cr dirs (aput (p_id p) p ps) in (n + 1, ps'))
          else load_plugins cfg cr dirs ps)"

definition resolve_implementation_status :: "plugin \<Rightarrow> string" where
  "resolve_implementation_status p =
     (if given (p_implementation_status p) then the (p_implementation_status p)
      else if p_id p \<in> {''zap_scanner'', ''sniper''} then ''placeholder''
      else if p_id p \<in> {''network_scanner'', ''api_scanner'', ''xss_exploiter'', ''web_scanner'',
                         ''recon_scanner'', ''port_scanner''} then ''native''
      else ''integrated'')"

subsection \<open>Input validation\<close>

datatype input_error =
    Unknown_Field string
  | Not_An_Integer string
  | Not_A_Boolean string
  | Not_An_Option string
  | Pattern_Mismatch string
  | Bad_Port_Spec string
  | Leading_Dash string
  | Path_Traversal
  | Bad_Wordlist
  | Pattern_Raises string \<comment> \<open>an exception of the pattern itself\<close>

definition internal_control_fields :: "string list" where
  "internal_control_fields = [''safe_mode'', ''consent_granted'', ''dry_run'', ''debug_mode'']"

text \<open>\<open>str(value)\<close>; \<open>repr\<close> covers floats, lists and dictionaries.\<close>

definition show_json :: "(json \<Rightarrow> string) \<Rightarrow> json \<Rightarrow> string" where
  "show_json repr v =
     (case v of
        JStr s \<Rightarrow> s | JInt i \<Rightarrow> int_str i
      | JBool b \<Rightarrow> if b then ''True'' else ''False'' | JNull \<Rightarrow> ''None'' | _ \<Rightarrow> repr v)"

definition is_empty_input :: "json \<Rightarrow> bool" where
  "is_empty_input v = (v = JNull \<or> v = JStr [])"

definition reject_path_traversal :: "string \<Rightarrow> bool" where
  "reject_path_traversal s =
     (''..'' \<in> set (split_on (CHR ''/'') (map (\<lambda>c. if c = CHR 0x5C then CHR ''/'' else c) s)))"

definition port_spec_match :: "string \<Rightarrow> bool" where
  "port_spec_match s =
     list_all (\<lambda>item. let ps = split_on (CHR ''-'') item in length ps \<le> 2 \<and> list_all py_isdigit ps)
       (split_on (CHR '','') (chop_newline s))"

definition reject_injected_args :: "string \<Rightarrow> string \<Rightarrow> input_error option" where
  "reject_injected_args field_id value =
     (if field_id \<in> {''ports'', ''port''}
      then (if value \<noteq> [] \<and> \<not> port_spec_match value then Some (Bad_Port_Spec field_id) else None)
      else if starts_with (lstrip_by is_ws value) ''-'' then Some (Leading_Dash field_id) else None)"

definition octet_text :: "string \<Rightarrow> bool" where
  "octet_text s = (parse_octet s \<noteq> None)"

text \<open>The built-in validation types.\<close>

definition preset_match :: "string \<Rightarrow> string \<Rightarrow> bool option" where
  "preset_match kind value =
     (let s = chop_newline value; parts = split_on (CHR ''.'') s in
      if kind = ''url'' then
        Some (let n = (if starts_with (py_lower s) ''http://'' then 7
                       else if starts_with (py_lower s) ''https://'' then 8 else 0)
              in n > 0 \<and> (case drop n s of
                    c # d # r \<Rightarrow> \<not> is_ws c \<and> c \<notin> set ''/$.?#'' \<and> char_nat d \<noteq> 10 \<and> list_all (\<lambda>x. \<not> is_ws x) r
                  | _ \<Rightarrow> False))
      else if kind = ''hostname'' then Some (list_all label_ok parts)
      else if kind = ''domain'' then
        Some (length parts > 1
              \<and> list_all (\<lambda>l. l \<noteq> [] \<and> list_all (\<lambda>c. is_alnum c \<or> c = CHR ''-'') l) (butlast parts)
              \<and> length (last parts) \<ge> 2 \<and> list_all is_alpha (last parts))
      else if kind = ''ipv4'' then Some (length parts = 4 \<and> list_all octet_text parts)
      else if kind = ''port'' then
        Some (py_isdigit s \<and> hd s \<noteq> CHR ''0'' \<and> length s \<le> 5 \<and> digits_val s \<le> 65535)
      else if kind = ''cidr'' then
        Some (case split_on (CHR ''/'') s of
                [a, m] \<Rightarrow> length (split_on (CHR ''.'') a) = 4 \<and> list_all octet_text (split_on (CHR ''.'') a)
                          \<and> octet_text m \<and> digits_val m \<le> 32
              | _ \<Rightarrow> False)
      else None)"

text \<open>\<open>rx pattern value\<close>: whether \<open>re.match\<close> finds a match; \<open>None\<close> when the pattern is malformed.\<close>

type_synonym regex_engine = "string \<Rightarrow> string \<Rightarrow> bool option"

definition pattern_check :: "regex_engine \<Rightarrow> string \<Rightarrow> string \<Rightarrow> dict \<Rightarrow> input_error option" where
  "pattern_check rx field_id value validation =
     (let kind = jget validation ''validation_type'';
          own = (case jget validation ''pattern'' of
                   JStr p \<Rightarrow> if p = [] then None
                             else (case rx p value of
                                     None \<Rightarrow> Some (Pattern_Raises field_id)
                                   | Some ok \<Rightarrow> if ok then None else Some (Pattern_Mismatch field_id))
                 | v \<Rightarrow> if truthy v then Some (Pattern_Raises field_id) else None)
      in case kind of
           JStr k \<Rightarrow> (case preset_match k value of
                        Some ok \<Rightarrow> if ok then None else Some (Pattern_Mismatch field_id)
                      | None \<Rightarrow> own)
         | _ \<Rightarrow> own)"

definition validate_string_field ::
  "regex_engine \<Rightarrow> string \<Rightarrow> string \<Rightarrow> dict \<Rightarrow> input_error option" where
  "validate_string_field rx field_id value validation =
     (case pattern_check rx field_id value validation of
        Some e \<Rightarrow> Some e
      | None \<Rightarrow>
          (case reject_injected_args field_id value of
             Some e \<Rightarrow> Some e
           | None \<Rightarrow> if reject_path_traversal value then Some Path_Traversal else None))"

definition validate_integer_field :: "string \<Rightarrow> json \<Rightarrow> input_error option" where
  "validate_integer_field field_id v =
     (case v of
        JInt i \<Rightarrow> None | JBool b \<Rightarrow> None | JFloat r \<Rightarrow> None
      | JStr s \<Rightarrow> if py_int s = None then Some (Not_An_Integer field_id) else None
      | _ \<Rightarrow> Some (Not_An_Integer field_id))"

definition validate_boolean_field :: "string \<Rightarrow> json \<Rightarrow> input_error option" where
  "validate_boolean_field field_id v =
     (case v of
        JBool b \<Rightarrow> None
      | JStr s \<Rightarrow> if py_lower s \<in> {''true'', ''false'', ''1'', ''0''} then None else Some (Not_A_Boolean field_id)
      | _ \<Rightarrow> Some (Not_A_Boolean field_id))"

definition validate_select_field :: "string \<Rightarrow> json \<Rightarrow> (string \<times> string) list list \<Rightarrow> input_error option" where
  "validate_select_field field_id v options =
     (if list_ex (\<lambda>opt. case map_of opt ''value'' of Some s \<Rightarrow> v = JStr s | None \<Rightarrow> v = JNull) options
      then None else Some (Not_An_Option field_id))"

definition find_field :: "plugin \<Rightarrow> string \<Rightarrow> plugin_field option" where
  "find_field p k = map_of (rev (map (\<lambda>f. (f_id f, f)) (p_fields p))) k"

definition validate_input :: "(json \<Rightarrow> string) \<Rightarrow> regex_engine \<Rightarrow> plugin \<Rightarrow> string \<Rightarrow> json \<Rightarrow> input_error option" where
  "validate_input repr rx p k v =
     (if k \<in> set internal_control_fields \<or> starts_with k ''__'' then None
      else case find_field p k of
          None \<Rightarrow> Some (Unknown_Field k)
        | Some f \<Rightarrow>
            if is_empty_input v then None
            else (case f_type f of
                F_INTEGER \<Rightarrow> validate_integer_field k v
              | F_BOOLEAN \<Rightarrow> validate_boolean_field k v
              | F_SELECT \<Rightarrow> validate_select_field k v (f_options f)
              | F_STRING \<Rightarrow> validate_string_field rx k (show_json repr v) (f_validation f)
              | F_TEXT \<Rightarrow> validate_string_field rx k (show_json repr v) (f_validation f)
              | _ \<Rightarrow> None))"

fun validate_inputs_against_schema ::
  "(json \<Rightarrow> string) \<Rightarrow> regex_engine \<Rightarrow> plugin \<Rightarrow> dict \<Rightarrow> input_error option" where
  "validate_inputs_against_schema repr rx p [] = None"
| "validate_inputs_against_schema repr rx p ((k, v) # inputs) =
     (case validate_input repr rx p k v of
        Some e \<Rightarrow> Some e
      | None \<Rightarrow> validate_inputs_against_schema repr rx p inputs)"

subsection \<open>Word lists\<close>

text \<open>POSIX paths as \<open>pathlib\<close> keeps them: empty and \<open>.\<close> components dropped.\<close>

datatype path = Path bool "string list" \<comment> \<open>absolute?\<close>

definition path_of :: "string \<Rightarrow> path" where
  "path_of s = Path (starts_with s ''/'') (filter (\<lambda>c. c \<noteq> [] \<and> c \<noteq> ''.'') (split_on (CHR ''/'') s))"

definition path_str :: "path \<Rightarrow> string" where
  "path_str p = (case p of Path ab cs \<Rightarrow>
     if cs = [] then (if ab then ''/'' else ''.'') else (if ab then ''/'' else []) @ join_with ''/'' cs)"

definition path_join :: "path \<Rightarrow> path \<Rightarrow> path" where
  "path_join p q = (case (p, q) of (Path a cs, Path b ds) \<Rightarrow> if b then q else Path a (cs @ ds))"

definition path_name :: "path \<Rightarrow> string" where
  "path_name p = (case p of Path a cs \<Rightarrow> if cs = [] then [] else last cs)"

definition path_parts :: "path \<Rightarrow> string list" where
  "path_parts p = (case p of Path a cs \<Rightarrow> cs)"

definition path_under :: "path \<Rightarrow> path \<Rightarrow> bool" where
  "path_under base p = (case (base, p) of (Path a cs, Path b ds) \<Rightarrow> a = b \<and> take (length cs) ds = cs)"

record file_system =
  fs_exists :: "path \<Rightarrow> bool"
  fs_resolve :: "path \<Rightarrow> path"
  fs_expanduser :: "string \<Rightarrow> string"

definition is_absolute_path :: "string \<Rightarrow> bool" where
  "is_absolute_path v =
     (starts_with v ''/'' \<or> starts_with v [CHR 0x5C]
      \<or> (case v of c # d # e # r \<Rightarrow> is_alpha c \<and> d = CHR '':'' \<and> (e = CHR ''/'' \<or> e = CHR 0x5C) | _ \<Rightarrow> False))"

definition wordlist_candidates :: "path \<Rightarrow> string \<Rightarrow> path \<Rightarrow> path list" where
  "wordlist_candidates dir value candidate =
     (let lowered = py_lower value;
          sub = (\<lambda>cs. path_join dir (Path False cs));
          name = (\<lambda>cs. path_join (sub cs) (path_of (path_name candidate)));
          base = [path_join dir (path_of value), name [], name [''SecLists'', ''Discovery'', ''Web-Content''],
                  name [''SecLists'', ''Discovery'', ''DNS'']]
      in if contains_sub lowered ''dirb/common.txt'' \<or> contains_sub lowered ''discovery/web-content/common.txt''
         then sub [''common.txt''] # base
         else if contains_sub lowered ''discovery/dns/subdomains-top1million-110000.txt''
         then sub [''subdomains-top1million-110000.txt''] # base
         else base)"

definition resolve_wordlist_path :: "file_system \<Rightarrow> path \<Rightarrow> string \<Rightarrow> input_error + string" where
  "resolve_wordlist_path fs dir value =
     (let candidate = path_of (fs_expanduser fs value);
          root = fs_resolve fs dir;
          inside = (\<lambda>p. path_under root (fs_resolve fs p));
          lowered = py_lower value;
          alias = path_join dir (Path False [lowered @ ''.txt''])
      in if is_absolute_path value then Inl Bad_Wordlist
         else if reject_path_traversal value then Inl Path_Traversal
         else if fs_exists fs candidate
         then (if path_under root (fs_resolve fs (fs_resolve fs candidate)) then Inr (path_str candidate)
               else Inl Bad_Wordlist)
         else if lowered \<in> {''small'', ''medium'', ''large''} \<and> fs_exists fs alias then Inr (path_str alias)
         else case find (\<lambda>p. fs_exists fs p \<and> inside p) (wordlist_candidates dir value candidate) of
             Some p \<Rightarrow> Inr (path_str p)
           | None \<Rightarrow> if inside (path_join dir (path_of value)) then Inr value else Inl Bad_Wordlist)"

definition with_field_defaults :: "plugin \<Rightarrow> dict \<Rightarrow> dict" where
  "with_field_defaults p inputs =
     fold (\<lambda>f d. if (case map_of d (f_id f) of None \<Rightarrow> True | Some v \<Rightarrow> is_empty_input v)
                    \<and> \<not> is_empty_input (f_default f)
                 then aput (f_id f) (f_default f) d else d)
       (p_fields p) inputs"

definition normalize_inputs :: "file_system \<Rightarrow> path \<Rightarrow> plugin \<Rightarrow> dict \<Rightarrow> input_error + dict" where
  "normalize_inputs fs dir p inputs =
     (let d = with_field_defaults p inputs in
      case map_of d ''wordlist'' of
        Some (JStr w) \<Rightarrow>
          if py_strip w = [] then Inr d
          else (case resolve_wordlist_path fs dir (py_strip w) of
                  Inl e \<Rightarrow> Inl e
                | Inr r \<Rightarrow> Inr (aput ''wordlist'' (JStr r) d))
      | _ \<Rightarrow> Inr d)"

subsection \<open>Rendering the command template\<close>

datatype segment = Text char | Hole string "string option"

text \<open>The placeholder that opens at a brace: name, default and the rest after the closing brace.\<close>

definition parse_hole :: "string \<Rightarrow> (segment \<times> string) option" where
  "parse_hole cs =
     (let name = takeWhile is_word cs; r = dropWhile is_word cs in
      if name = [] then None
      else if starts_with r ''}'' then Some (Hole name None, tl r)
      else if starts_with r '':''
      then (let d = takeWhile (\<lambda>c. c \<noteq> CHR ''}'') (tl r); r' = dropWhile (\<lambda>c. c \<noteq> CHR ''}'') (tl r) in
            if d \<noteq> [] \<and> r' \<noteq> [] then Some (Hole name (Some d), tl r') else None)
      else None)"

lemma length_dropWhile_le: "length (dropWhile P xs) \<le> length xs"
  by (induction xs) auto

lemma parse_hole_shorter: "parse_hole cs = Some (seg, rest) \<Longrightarrow> length rest \<le> length cs"
  using length_dropWhile_le [of is_word cs]
    length_dropWhile_le [of "\<lambda>c. c \<noteq> CHR ''}''" "tl (dropWhile is_word cs)"]
  by (auto simp: parse_hole_def Let_def split: if_splits)

function parse_token :: "string \<Rightarrow> segment list" where
  "parse_token [] = []"
| "parse_token (c # cs) =
     (if c = CHR ''{''
      then (case parse_hole cs of
              Some (seg, rest) \<Rightarrow> seg # parse_token rest
            | None \<Rightarrow> Text c # parse_token cs)
      else Text c # parse_token cs)"
  by pat_completeness auto
termination
  by (relation "measure length") (auto dest!: parse_hole_shorter)

definition hole_value :: "dict \<Rightarrow> string \<Rightarrow> string option \<Rightarrow> json" where
  "hole_value inputs name dflt =
     jget_or inputs name (case dflt of None \<Rightarrow> JNull | Some d \<Rightarrow> JStr d)"

fun seg_filled :: "dict \<Rightarrow> segment \<Rightarrow> bool" where
  "seg_filled inputs (Text c) = True"
| "seg_filled inputs (Hole n d) = (\<not> is_empty_input (hole_value inputs n d))"

fun seg_text :: "(json \<Rightarrow> string) \<Rightarrow> dict \<Rightarrow> segment \<Rightarrow> string" where
  "seg_text repr inputs (Text c) = [c]"
| "seg_text repr inputs (Hole n d) = sanitize_input (show_json repr (hole_value inputs n d))"

definition interpolate :: "(json \<Rightarrow> string) \<Rightarrow> dict \<Rightarrow> string \<Rightarrow> string option" where
  "interpolate repr inputs token =
     (if CHR ''{'' \<notin> set token \<or> CHR ''}'' \<notin> set token then Some token
      else if list_all (seg_filled inputs) (parse_token token)
      then Some (concat (map (seg_text repr inputs) (parse_token token))) else None)"

definition render_parts :: "(json \<Rightarrow> string) \<Rightarrow> dict \<Rightarrow> string list \<Rightarrow> string list" where
  "render_parts repr inputs parts =
     List.map_filter (\<lambda>t. case interpolate repr inputs t of Some r \<Rightarrow> if r = [] then None else Some r | None \<Rightarrow> None) parts"

definition evaluate_conditional_token :: "(json \<Rightarrow> string) \<Rightarrow> dict \<Rightarrow> string \<Rightarrow> string list" where
  "evaluate_conditional_token repr inputs token =
     (let parts = split_on (CHR '':'') token in
      if length parts < 4 \<or> parts ! 2 \<noteq> ''then'' then []
      else
        let k = length (takeWhile (\<lambda>p. p \<noteq> ''else'') parts);
            then_parts = drop 3 (take k parts);
            else_parts = drop (k + 1) parts;
            condition = (case jget_or inputs (parts ! 1) (JBool False) of
                           JStr s \<Rightarrow> if py_lower s = ''false'' then JBool False else JStr s
                         | v \<Rightarrow> v)
        in render_parts repr inputs (if truthy condition then then_parts else else_parts))"

definition render_command_tokens :: "(json \<Rightarrow> string) \<Rightarrow> dict \<Rightarrow> string list \<Rightarrow> string list" where
  "render_command_tokens repr inputs template =
     concat (map (\<lambda>t. if starts_with t ''--if:'' then evaluate_conditional_token repr inputs t
                      else render_parts repr inputs [t]) template)"

definition strip_internal :: "plugin \<Rightarrow> dict \<Rightarrow> dict" where
  "strip_internal p inputs =
     filter (\<lambda>(k, v). (k \<notin> set internal_control_fields \<or> k \<in> set (map f_id (p_fields p)))
                      \<and> \<not> starts_with k ''__'') inputs"

text \<open>\<open>Inr None\<close>: no such plugin.\<close>

definition build_command ::
  "(json \<Rightarrow> string) \<Rightarrow> regex_engine \<Rightarrow> file_system \<Rightarrow> path \<Rightarrow> (string \<times> plugin) list \<Rightarrow> string \<Rightarrow> dict
     \<Rightarrow> input_error + string list option" where
  "build_command repr rx fs dir plugins plugin_id inputs =
     (case map_of plugins plugin_id of
        None \<Rightarrow> Inr None
      | Some p \<Rightarrow>
          (let own = strip_internal p inputs in
           case validate_inputs_against_schema repr rx p own of
             Some e \<Rightarrow> Inl e
           | None \<Rightarrow>
               (case normalize_inputs fs dir p own of
                  Inl e \<Rightarrow> Inl e
                | Inr d \<Rightarrow> Inr (Some (render_command_tokens repr d (p_template p))))))"

subsection \<open>Where the characters of an argument come from\<close>

definition clean_char :: "char \<Rightarrow> bool" where
  "clean_char c \<longleftrightarrow> c \<notin> set dangerous_chars \<and> c \<noteq> CHR 0x5C"

lemma sanitize_clean: "c \<in> set (sanitize_input s) \<Longrightarrow> clean_char c"
  using sanitize_no_dangerous by (auto simp: clean_char_def)

lemma parse_hole_suffix: "parse_hole cs = Some (seg, rest) \<Longrightarrow> set rest \<subseteq> set cs \<and> (\<forall>c. seg \<noteq> Text c)"
proof -
  have tl: "set (tl xs) \<subseteq> set xs" for xs :: string by (cases xs) auto
  have dw: "set (dropWhile P xs) \<subseteq> set xs" for P and xs :: string by (auto dest: set_dropWhileD)
  assume h: "parse_hole cs = Some (seg, rest)"
  let ?r = "dropWhile is_word cs"
  from h have "rest = tl ?r \<or> rest = tl (dropWhile (\<lambda>c. c \<noteq> CHR ''}'') (tl ?r))" and "\<exists>n d. seg = Hole n d"
    by (auto simp: parse_hole_def Let_def split: if_splits)
  then show ?thesis using tl dw by (metis segment.distinct(1) subset_trans)
qed

lemma parse_token_text: "Text c \<in> set (parse_token t) \<Longrightarrow> c \<in> set t"
proof (induction t rule: parse_token.induct)
  case (2 d cs)
  show ?case
  proof (cases "d = CHR ''{'' \<and> parse_hole cs \<noteq> None")
    case False
    then have "Text c = Text d \<or> Text c \<in> set (parse_token cs)" using 2(4) by (auto split: option.splits)
    moreover have "parse_hole cs = None" if "d = CHR ''{''" using False that by blast
    ultimately show ?thesis using 2(1-3) by (cases "d = CHR ''{''") auto
  next
    case True
    then obtain seg rest where s: "parse_hole cs = Some (seg, rest)" by auto
    then have "Text c = seg \<or> Text c \<in> set (parse_token rest)" using 2(4) True by auto
    then have "c \<in> set rest" using 2(2) [OF _ s] True parse_hole_suffix [OF s] by auto
    then show ?thesis using parse_hole_suffix [OF s] by auto
  qed
qed simp

lemma interpolate_chars:
  assumes "interpolate repr inputs t = Some r" and "c \<in> set r" and "\<not> clean_char c"
  shows "c \<in> set t"
proof (cases "CHR ''{'' \<notin> set t \<or> CHR ''}'' \<notin> set t")
  case False
  then obtain seg where sg: "seg \<in> set (parse_token t)" "c \<in> set (seg_text repr inputs seg)"
    using assms(1,2) by (auto simp: interpolate_def split: if_splits)
  show ?thesis
  proof (cases seg)
    case (Text x)
    then show ?thesis using parse_token_text [of c t] sg by simp
  next
    case (Hole n d)
    then show ?thesis using sanitize_clean assms(3) sg(2) by auto
  qed
qed (use assms in \<open>auto simp: interpolate_def\<close>)

lemma set_map_filter: "x \<in> set (List.map_filter f xs) \<longleftrightarrow> (\<exists>y \<in> set xs. f y = Some x)"
  by (force simp: map_filter_def)

lemma render_parts_chars:
  assumes "arg \<in> set (render_parts repr inputs parts)" and "c \<in> set arg" and "\<not> clean_char c"
  shows "\<exists>t \<in> set parts. c \<in> set t"
proof -
  obtain t where "t \<in> set parts" "interpolate repr inputs t = Some arg"
    using assms(1) by (auto simp: render_parts_def set_map_filter split: option.splits if_splits)
  then show ?thesis using interpolate_chars assms(2,3) by blast
qed


lemma conditional_chars:
  assumes "arg \<in> set (evaluate_conditional_token repr inputs t)" and "c \<in> set arg" and "\<not> clean_char c"
  shows "c \<in> set t"
proof -
  let ?ps = "split_on (CHR '':'') t"
  have sub: "set (drop n xs) \<subseteq> set xs" "set (drop m (take n xs)) \<subseteq> set xs" for n m and xs :: "string list"
    by (auto dest: in_set_takeD in_set_dropD)
  define k where "k = length (takeWhile (\<lambda>p. p \<noteq> ''else'') ?ps)"
  have "arg \<in> set (render_parts repr inputs (drop 3 (take k ?ps)))
      \<or> arg \<in> set (render_parts repr inputs (drop (k + 1) ?ps))"
    using assms(1) unfolding evaluate_conditional_token_def Let_def k_def [symmetric]
    by (auto split: if_splits)
  then obtain p where "p \<in> set ?ps" "c \<in> set p"
    using render_parts_chars [OF _ assms(2,3)] sub by (meson subsetD)
  then show ?thesis using in_split_on by blast
qed

lemma render_command_chars:
  assumes "arg \<in> set (render_command_tokens repr inputs template)" and "c \<in> set arg" and "\<not> clean_char c"
  shows "\<exists>t \<in> set template. c \<in> set t"
proof -
  obtain t where t: "t \<in> set template"
      "arg \<in> set (evaluate_conditional_token repr inputs t) \<or> arg \<in> set (render_parts repr inputs [t])"
    using assms(1) by (auto simp: render_command_tokens_def split: if_splits)
  then show ?thesis
    using conditional_chars [OF _ assms(2,3)] render_parts_chars [OF _ assms(2,3), of repr inputs "[t]"] by auto
qed

text \<open>The name of a command argument comes from one field only: filling a token reads the inputs at
  its own placeholders, so a value that looks like a placeholder is not expanded again.\<close>

lemma interpolate_local:
  assumes "\<And>n d. Hole n d \<in> set (parse_token t) \<Longrightarrow> map_of i1 n = map_of i2 n"
  shows "interpolate repr i1 t = interpolate repr i2 t"
proof -
  have same: "seg_filled i1 seg = seg_filled i2 seg \<and> seg_text repr i1 seg = seg_text repr i2 seg"
    if "seg \<in> set (parse_token t)" for seg
    by (cases seg) (use that assms in \<open>auto simp: hole_value_def jget_or_def\<close>)
  have m: "map (seg_text repr i1) (parse_token t) = map (seg_text repr i2) (parse_token t)"
    using same by simp
  have l: "list_all (seg_filled i1) (parse_token t) = list_all (seg_filled i2) (parse_token t)"
    using same by (simp add: list_all_iff)
  show ?thesis by (simp only: interpolate_def m l)
qed

lemma schema_all:
  "validate_inputs_against_schema repr rx p inputs = None
     \<longleftrightarrow> (\<forall>(k, v) \<in> set inputs. validate_input repr rx p k v = None)"
  by (induction inputs) (auto split: option.splits)

lemma build_command_cases:
  assumes "build_command repr rx fs dir plugins plugin_id inputs = Inr (Some cmd)"
  obtains p d where "map_of plugins plugin_id = Some p"
    "validate_inputs_against_schema repr rx p (strip_internal p inputs) = None"
    "normalize_inputs fs dir p (strip_internal p inputs) = Inr d"
    "cmd = render_command_tokens repr d (p_template p)"
  using assms by (auto simp: build_command_def Let_def split: option.splits sum.splits)


definition example_plugin :: plugin where
  "example_plugin = \<lparr>p_id = ''nmap'', p_name = ''Nmap'', p_category = ''network'', p_engine = [(''type'', ''cli'')],
     p_template = [''nmap'', ''--if:fast:then:-F:else:-p'', ''{ports:1-1000}'', ''[{target}]''],
     p_fields = [\<lparr>f_id = ''target'', f_type = F_STRING, f_default = JNull, f_options = [], f_validation = []\<rparr>,
       \<lparr>f_id = ''ports'', f_type = F_STRING, f_default = JNull, f_options = [], f_validation = []\<rparr>,
       \<lparr>f_id = ''fast'', f_type = F_BOOLEAN, f_default = JBool False, f_options = [], f_validation = []\<rparr>],
     p_presets = [], p_output = [], p_safety = [(''level'', JStr ''safe'')], p_capabilities = None,
     p_implementation_status = None, p_docker_image = None, p_checksum = Some ''x'', p_signature = None\<rparr>"

definition example_fs :: file_system where
  "example_fs = \<lparr>fs_exists = (\<lambda>p. False), fs_resolve = (\<lambda>p. p), fs_expanduser = (\<lambda>s. s)\<rparr>"

definition example_build :: "dict \<Rightarrow> input_error + string list option" where
  "example_build = build_command (\<lambda>v. []) (\<lambda>p s. Some True) example_fs (path_of ''/wl'') [(''nmap'', example_plugin)] ''nmap''"

lemma example_build_run:
  "example_build [(''target'', JStr ''a;b$(id)''), (''safe_mode'', JBool True)]
     = Inr (Some [''nmap'', ''-p'', ''1-1000'', ''[abid]''])"
  unfolding example_build_def by code_simp


definition declared_input :: "string \<Rightarrow> bool" where
  "declared_input k \<longleftrightarrow> k \<notin> set internal_control_fields \<and> \<not> starts_with k ''__''"

lemma validate_string_None:
  "validate_string_field rx k s val = None \<Longrightarrow>
     \<not> reject_path_traversal s
     \<and> (if k \<in> {''ports'', ''port''} then s = [] \<or> port_spec_match s
        else \<not> starts_with (lstrip_by is_ws s) ''-'')"
  by (auto simp: validate_string_field_def reject_injected_args_def split: option.splits if_splits)

text \<open>When a command is built, every input that is not an internal control field belongs to a
  declared field and, unless it is empty, fits the field's type: an integer field an integer, a
  boolean one a truth value, a select field one of its options, and a text field a value without
  \<open>..\<close> component that does not open with a dash (a port field: a port specification).\<close>

theorem built_inputs_conform:
  assumes "build_command repr rx fs dir plugins plugin_id inputs = Inr (Some cmd)"
    and "map_of plugins plugin_id = Some p" and "(k, v) \<in> set inputs" and "declared_input k"
  shows "\<exists>f. find_field p k = Some f \<and> (is_empty_input v \<or>
     (case f_type f of
        F_INTEGER \<Rightarrow> (\<exists>i. v = JInt i) \<or> (\<exists>b. v = JBool b) \<or> (\<exists>r. v = JFloat r) \<or> (\<exists>s. v = JStr s \<and> py_int s \<noteq> None)
      | F_BOOLEAN \<Rightarrow> (\<exists>b. v = JBool b) \<or> (\<exists>s. v = JStr s \<and> py_lower s \<in> {''true'', ''false'', ''1'', ''0''})
      | F_SELECT \<Rightarrow> (\<exists>opt \<in> set (f_options f). \<exists>s. map_of opt ''value'' = Some s \<and> v = JStr s)
      | t \<Rightarrow> t \<in> {F_STRING, F_TEXT} \<longrightarrow>
          (let s = show_json repr v in
           \<not> reject_path_traversal s
           \<and> (if k \<in> {''ports'', ''port''} then s = [] \<or> port_spec_match s
              else \<not> starts_with (lstrip_by is_ws s) ''-''))))"
proof -
  have "validate_inputs_against_schema repr rx p (strip_internal p inputs) = None"
    using build_command_cases [OF assms(1)] assms(2) by (metis option.inject)
  moreover have "(k, v) \<in> set (strip_internal p inputs)"
    using assms(3,4) by (auto simp: strip_internal_def declared_input_def)
  ultimately have none: "validate_input repr rx p k v = None" by (auto simp: schema_all)
  then obtain f where f: "find_field p k = Some f"
    using assms(4) by (auto simp: validate_input_def declared_input_def split: option.splits)
  show ?thesis
  proof (cases "is_empty_input v")
    case False
    then show ?thesis
      using none f assms(4) validate_string_None [of rx k "show_json repr v" "f_validation f"]
      by (cases "f_type f")
         (auto simp: validate_input_def declared_input_def validate_integer_field_def validate_boolean_field_def
            validate_select_field_def list_ex_iff is_empty_input_def Let_def
            split: json.splits option.splits if_splits)
  qed (use f in auto)
qed

theorem built_inputs_conform_witness:
  "\<exists>f. find_field example_plugin ''target'' = Some f"
  using built_inputs_conform [OF example_build_run [unfolded example_build_def], of example_plugin "''target''"
      "JStr ''a;b$(id)''"]
  by (auto simp: declared_input_def internal_control_fields_def)

text \<open>Filling a token is a single pass: it depends on the values of the fields the token names and
  on nothing else, so a value that contains a placeholder of another field is not expanded.\<close>

theorem interpolation_single_pass:
  assumes "\<And>n d. Hole n d \<in> set (parse_token t) \<Longrightarrow> map_of i1 n = map_of i2 n"
  shows "interpolate repr i1 t = interpolate repr i2 t"
  by (rule interpolate_local) (rule assms)

theorem interpolation_single_pass_witness:
  "interpolate (\<lambda>v. []) [(''a'', JStr ''{b}''), (''b'', JStr ''secret'')] ''x-{a}''
     = interpolate (\<lambda>v. []) [(''a'', JStr ''{b}'')] ''x-{a}''"
proof (rule interpolation_single_pass)
  fix n d
  have "parse_token ''x-{a}'' = [Text (CHR ''x''), Text (CHR ''-''), Hole ''a'' None]" by code_simp
  then show "Hole n d \<in> set (parse_token ''x-{a}'') \<Longrightarrow>
      map_of [(''a'', JStr ''{b}''), (''b'', JStr ''secret'')] n = map_of [(''a'', JStr ''{b}'')] n"
    by auto
qed

text \<open>
  The check for a leading dash looks at the raw value, but the argument is the sanitised one: a value
  that opens with a removed character still becomes an option of the tool.
\<close>

lemma option_injection:
  "build_command (\<lambda>v. []) (\<lambda>p s. Some True) example_fs (path_of ''/wl'')
     [(''nmap'', example_plugin\<lparr>p_template := [''nmap'', ''{target}'']\<rparr>)] ''nmap''
     [(''target'', JStr ''; --script=x'')] = Inr (Some [''nmap'', ''--script=x''])"
  by code_simp

subsection \<open>Integrity\<close>

text \<open>A plugin with a checksum loads only if its files have the recorded digest, and its parser runs
  later only if they still have it: any change of the parser or of the metadata that changes the
  digest, made after loading, stops the parser from being executed.\<close>

theorem parser_unchanged_since_load:
  assumes "validate_plugin cfg cr p files" and "given (p_checksum p)"
    and "verify_parser_at_exec_time cfg' cr p files'"
  shows "compute_plugin_digest cr False files' = compute_plugin_digest cr (requires_parser p) files
         \<and> compute_plugin_digest cr False files' = p_checksum p"
  using assms
  by (auto simp: validate_plugin_def verify_plugin_integrity_def verify_parser_at_exec_time_def given_def
      split: if_splits option.splits)

definition example_crypto :: crypto where
  "example_crypto = \<lparr>sha = (\<lambda>s. s), mac = (\<lambda>k s. k @ s)\<rparr>"

theorem parser_unchanged_since_load_witness:
  "compute_plugin_digest example_crypto False \<lparr>canonical_metadata = Some ''m'', parser_bytes = Some ''p''\<rparr> = Some ''m:p''"
proof -
  let ?p = "example_plugin\<lparr>p_checksum := Some ''m:p''\<rparr>"
  let ?cfg = "\<lparr>enforce_plugin_signatures = True, enforce_parser_integrity = True, plugin_signature_key = None\<rparr>"
  let ?f = "\<lparr>canonical_metadata = Some ''m'', parser_bytes = Some ''p''\<rparr>"
  have "validate_plugin ?cfg example_crypto ?p ?f" "given (p_checksum ?p)"
    "verify_parser_at_exec_time ?cfg example_crypto ?p ?f"
    by code_simp+
  from parser_unchanged_since_load [OF this, THEN conjunct2] show ?thesis by simp
qed

text \<open>Without enforcement, a plugin that carries no checksum is executed unverified.\<close>

lemma no_checksum_unverified:
  "verify_parser_at_exec_time \<lparr>enforce_plugin_signatures = True, enforce_parser_integrity = False,
     plugin_signature_key = None\<rparr> cr (example_plugin\<lparr>p_checksum := None\<rparr>) files"
  by (simp add: verify_parser_at_exec_time_def given_def)

end
