(* ===== verification/Risk_Scoring.thy ===== *)
theory Risk_Scoring
  imports Complex_Main Json_Value
begin

text \<open>
  \<open>backend/secuscan/risk_scoring.py\<close>. A Python float is its exact rational value, and every float
  operation and literal is followed by \<open>fl\<close>, the rounding to the nearest double, which is a parameter
  of the model; the theorems use only that it is monotone and keeps 0 and 10. \<open>round\<close> and the \<open>.1f\<close>
  formats round the exact value half to even. A discovery time is its UTC instant in microseconds
  with its \<open>isoformat\<close> text; a date without time zone counts as UTC, as in the code. The long dashes
  of the texts are written as hyphens.
\<close>

subsection \<open>Rounding\<close>

definition rhe :: "rat \<Rightarrow> int" where
  "rhe x = (let q = \<lfloor>x\<rfloor>; r = x - of_int q in
     if r < 1/2 then q else if 1/2 < r then q + 1 else if even q then q else q + 1)"

definition py_round :: "(rat \<Rightarrow> rat) \<Rightarrow> nat \<Rightarrow> rat \<Rightarrow> rat" where
  "py_round fl n x = fl (of_int (rhe (x * 10 ^ n)) / 10 ^ n)"

definition fixed_str :: "nat \<Rightarrow> rat \<Rightarrow> string" where
  "fixed_str n x =
     (let k = rhe (\<bar>x\<bar> * 10 ^ n); q = k div 10 ^ n; r = nat (k mod 10 ^ n);
          frac = nat_str r
      in (if x < 0 then ''-'' else []) @ nat_str (nat q)
         @ (if n = 0 then [] else ''.'' @ replicate (n - length frac) (CHR ''0'') @ frac))"

subsection \<open>Factor scores\<close>

definition SEVERITY_MAP :: "string \<rightharpoonup> rat" where
  "SEVERITY_MAP = map_of [(''critical'', 10), (''high'', 75/10), (''medium'', 5), (''low'', 25/10), (''info'', 1/2)]"

definition ASSET_EXPOSURE_MAP :: "string \<rightharpoonup> rat" where
  "ASSET_EXPOSURE_MAP = map_of [(''critical'', 10), (''high'', 75/10), (''medium'', 5), (''low'', 25/10)]"

definition EXPOSURE_CONTEXT_MAP :: "string \<rightharpoonup> rat" where
  "EXPOSURE_CONTEXT_MAP = map_of [(''public'', 15/10), (''internet_facing'', 13/10), (''internal'', 8/10), (''private'', 6/10)]"

definition CRITICALITY_MAP :: "string \<rightharpoonup> rat" where
  "CRITICALITY_MAP = map_of [(''critical'', 15/10), (''high'', 125/100), (''medium'', 1), (''low'', 8/10)]"

definition WEIGHTS :: "string \<Rightarrow> rat" where
  "WEIGHTS k = (if k = ''severity'' then 30/100 else if k = ''exploitability'' then 25/100
     else if k = ''asset_exposure'' then 20/100 else if k = ''recency'' then 15/100 else 10/100)"

definition severity_score :: "string \<Rightarrow> rat" where
  "severity_score s = dget SEVERITY_MAP (py_lower s) (1/2)"

type_synonym instant = "usec \<times> string"

definition days_between :: "usec \<Rightarrow> usec \<Rightarrow> int" where
  "days_between now t = (now - t) div 86400000000"

definition recency_score :: "usec \<Rightarrow> instant option \<Rightarrow> rat" where
  "recency_score now d =
     (case d of
        None \<Rightarrow> 5
      | Some (t, txt) \<Rightarrow>
          (let days = days_between now t in
           if days < 7 then 10 else if days < 30 then 75/10 else if days < 90 then 5
           else if days < 365 then 25/10 else 1))"

definition clamp :: "rat \<Rightarrow> rat \<Rightarrow> rat \<Rightarrow> rat" where
  "clamp v lo hi = max lo (min hi v)"

definition confidence_score :: "(rat \<Rightarrow> rat) \<Rightarrow> rat option \<Rightarrow> rat" where
  "confidence_score fl c = (case c of None \<Rightarrow> 0 | Some x \<Rightarrow> max 0 (min 10 (fl (x * 10))))"

definition system_exposure_factor :: "(rat \<Rightarrow> rat) \<Rightarrow> string option \<Rightarrow> rat" where
  "system_exposure_factor fl c = (case c of None \<Rightarrow> 1 | Some s \<Rightarrow> fl (dget EXPOSURE_CONTEXT_MAP (py_lower s) 1))"

definition business_criticality_factor :: "(rat \<Rightarrow> rat) \<Rightarrow> string option \<Rightarrow> rat" where
  "business_criticality_factor fl c = (case c of None \<Rightarrow> 1 | Some s \<Rightarrow> fl (dget CRITICALITY_MAP (py_lower s) 1))"

definition contextual_severity_score ::
  "(rat \<Rightarrow> rat) \<Rightarrow> rat \<Rightarrow> string option \<Rightarrow> string option \<Rightarrow> rat option \<Rightarrow> rat" where
  "contextual_severity_score fl base exposure criticality override =
     (case override of
        Some x \<Rightarrow> clamp x 0 10
      | None \<Rightarrow> clamp (fl (fl (base * system_exposure_factor fl exposure)
                     * business_criticality_factor fl criticality)) 0 10)"

definition asset_exposure_score :: "rat \<Rightarrow> string option \<Rightarrow> rat" where
  "asset_exposure_score dflt a =
     (case a of None \<Rightarrow> dflt | Some s \<Rightarrow> if s = [] then dflt else dget ASSET_EXPOSURE_MAP (py_lower s) dflt)"

record risk_input =
  r_severity :: string
  r_exploitability :: "rat option"
  r_asset_exposure :: "string option"
  r_discovered :: "instant option"
  r_confidence :: "rat option"
  r_exposure_context :: "string option"
  r_business_criticality :: "string option"
  r_override :: "rat option"

definition severity_value :: "(rat \<Rightarrow> rat) \<Rightarrow> risk_input \<Rightarrow> rat" where
  "severity_value fl r = contextual_severity_score fl (severity_score (r_severity r))
     (r_exposure_context r) (r_business_criticality r) (r_override r)"

definition exploit_value :: "rat \<Rightarrow> risk_input \<Rightarrow> rat" where
  "exploit_value dflt r = clamp (case r_exploitability r of None \<Rightarrow> dflt | Some x \<Rightarrow> x) 0 10"

definition weighted :: "(rat \<Rightarrow> rat) \<Rightarrow> string \<Rightarrow> rat \<Rightarrow> rat" where
  "weighted fl k v = fl (v * fl (WEIGHTS k))"

definition weighted_sum :: "(rat \<Rightarrow> rat) \<Rightarrow> rat \<Rightarrow> rat \<Rightarrow> rat \<Rightarrow> rat \<Rightarrow> rat \<Rightarrow> rat" where
  "weighted_sum fl sv ev av rv cv =
     fl (fl (fl (fl (weighted fl ''severity'' sv + weighted fl ''exploitability'' ev)
       + weighted fl ''asset_exposure'' av) + weighted fl ''recency'' rv) + weighted fl ''confidence'' cv)"

definition compute_risk_score :: "(rat \<Rightarrow> rat) \<Rightarrow> usec \<Rightarrow> risk_input \<Rightarrow> rat" where
  "compute_risk_score fl now r =
     py_round fl 1 (clamp (weighted_sum fl (severity_value fl r) (exploit_value 0 r)
       (asset_exposure_score 0 (r_asset_exposure r)) (recency_score now (r_discovered r))
       (confidence_score fl (r_confidence r))) 0 10)"

subsection \<open>Explanations\<close>

definition opt_str :: "string option \<Rightarrow> json" where
  "opt_str s = (case s of None \<Rightarrow> JNull | Some x \<Rightarrow> JStr x)"

definition filled :: "string option \<Rightarrow> bool" where
  "filled s = (s \<noteq> None \<and> s \<noteq> Some [])"

definition recency_detail :: "usec \<Rightarrow> instant option \<Rightarrow> rat \<Rightarrow> string" where
  "recency_detail now d rv =
     (case d of
        None \<Rightarrow> ''No discovery date - assumed moderate recency''
      | Some (t, txt) \<Rightarrow>
          (let days = days_between now t in
           if days < 0 then ''Discovered in the future - treated as very recent''
           else if days = 0 then ''Discovered today - maximum recency score''
           else if days = 1 then ''Discovered 1 day ago - recency score '' @ fixed_str 1 rv @ ''/10''
           else ''Discovered '' @ int_str days @ '' days ago - recency score '' @ fixed_str 1 rv @ ''/10''))"

definition factor_entry :: "(rat \<Rightarrow> rat) \<Rightarrow> string \<Rightarrow> string \<Rightarrow> json \<Rightarrow> rat \<Rightarrow> string \<Rightarrow> dict" where
  "factor_entry fl k label v score detail =
     [(''factor'', JStr k), (''label'', JStr label), (''value'', v), (''score'', JFloat (py_round fl 1 score)),
      (''weight'', JFloat (fl (WEIGHTS k))), (''contribution'', JFloat (py_round fl 2 (weighted fl k score))),
      (''detail'', JStr detail)]"

definition context_str :: "risk_input \<Rightarrow> string" where
  "context_str r =
     (let parts = (if filled (r_exposure_context r) then [''exposure: '' @ the (r_exposure_context r)] else [])
        @ (if filled (r_business_criticality r) then [''criticality: '' @ the (r_business_criticality r)] else [])
      in if parts = [] then [] else '' ['' @ join_with '', '' parts @ '']'')"

definition compute_risk_factors :: "(rat \<Rightarrow> rat) \<Rightarrow> usec \<Rightarrow> usec \<Rightarrow> risk_input \<Rightarrow> dict list" where
  "compute_risk_factors fl now now_detail r =
     (let base = severity_score (r_severity r);
          sv = severity_value fl r;
          ev = exploit_value 5 r;
          av = asset_exposure_score 5 (r_asset_exposure r);
          rv = recency_score now (r_discovered r);
          cv = confidence_score fl (r_confidence r);
          exposure = (if filled (r_asset_exposure r) then the (r_asset_exposure r) else ''medium'')
      in [factor_entry fl ''severity'' ''Severity'' (JStr (r_severity r)) sv
            (''Base severity '' @ r_severity r @ '' ('' @ fixed_str 1 base @ ''/10) adjusted to ''
               @ fixed_str 1 sv @ ''/10'' @ context_str r)
            @ [(''exposure_context'', opt_str (r_exposure_context r)),
               (''business_criticality'', opt_str (r_business_criticality r)),
               (''context_multiplier'', JFloat (py_round fl 2 (if base > 0 then fl (sv / base) else 1)))],
          factor_entry fl ''exploitability'' ''Exploitability''
            (JFloat (case r_exploitability r of None \<Rightarrow> 5 | Some x \<Rightarrow> x)) ev
            (''Exploitability score is '' @ fixed_str 1 ev @ ''/10''),
          factor_entry fl ''asset_exposure'' ''Asset Exposure'' (JStr exposure) av
            (''Asset exposure is '' @ exposure @ '' ('' @ fixed_str 1 av @ ''/10)''),
          factor_entry fl ''recency'' ''Recency''
            (JStr (case r_discovered r of None \<Rightarrow> ''unknown'' | Some (t, txt) \<Rightarrow> txt)) rv
            (recency_detail now_detail (r_discovered r) rv),
          factor_entry fl ''confidence'' ''Confidence''
            (JFloat (case r_confidence r of None \<Rightarrow> 1/2 | Some x \<Rightarrow> x)) cv
            (''Confidence is '' @ fixed_str 0 (case r_confidence r of None \<Rightarrow> 50
                | Some x \<Rightarrow> if x = 0 then 50 else fl (x * 100)) @ ''%'')])"

subsection \<open>Monotonicity\<close>

definition rounding :: "(rat \<Rightarrow> rat) \<Rightarrow> bool" where
  "rounding fl \<longleftrightarrow> (\<forall>x y. x \<le> y \<longrightarrow> fl x \<le> fl y) \<and> fl 0 = 0 \<and> fl 10 = 10"

lemma rounding_mono: "rounding fl \<Longrightarrow> x \<le> y \<Longrightarrow> fl x \<le> fl y"
  by (simp add: rounding_def)

lemma rhe_of_int [simp]: "rhe (of_int k) = k"
  by (simp add: rhe_def)

lemma rhe_mono:
  assumes "x \<le> y"
  shows "rhe x \<le> rhe y"
proof (cases "\<lfloor>x\<rfloor> = \<lfloor>y\<rfloor>")
  case True
  then show ?thesis using assms by (auto simp: rhe_def Let_def)
next
  case False
  then have "\<lfloor>x\<rfloor> + 1 \<le> \<lfloor>y\<rfloor>" using floor_mono [OF assms] by linarith
  moreover have "rhe x \<le> \<lfloor>x\<rfloor> + 1" "\<lfloor>y\<rfloor> \<le> rhe y" by (auto simp: rhe_def Let_def)
  ultimately show ?thesis by linarith
qed

lemma py_round_mono: "rounding fl \<Longrightarrow> x \<le> y \<Longrightarrow> py_round fl n x \<le> py_round fl n y"
  unfolding py_round_def
  by (rule rounding_mono, assumption) (auto intro!: divide_right_mono rhe_mono mult_right_mono)

lemma clamp_bounds: "lo \<le> hi \<Longrightarrow> lo \<le> clamp v lo hi \<and> clamp v lo hi \<le> hi"
  by (simp add: clamp_def)

lemma clamp_mono: "v \<le> w \<Longrightarrow> clamp v lo hi \<le> clamp w lo hi"
  by (auto simp: clamp_def)

lemma weights_nonneg: "rounding fl \<Longrightarrow> 0 \<le> fl (WEIGHTS k)"
  using rounding_mono [of fl 0 "WEIGHTS k"] by (auto simp: rounding_def WEIGHTS_def)

lemma weighted_mono: "rounding fl \<Longrightarrow> v \<le> w \<Longrightarrow> weighted fl k v \<le> weighted fl k w"
  unfolding weighted_def by (rule rounding_mono) (auto intro: mult_right_mono weights_nonneg)

lemma weighted_sum_mono:
  assumes "rounding fl" and "sv \<le> sv'" and "ev \<le> ev'" and "av \<le> av'" and "rv \<le> rv'" and "cv \<le> cv'"
  shows "weighted_sum fl sv ev av rv cv \<le> weighted_sum fl sv' ev' av' rv' cv'"
  unfolding weighted_sum_def
  by (intro rounding_mono [OF assms(1)] add_mono weighted_mono [OF assms(1)] assms(2-6))

lemma recency_mono:
  assumes "t \<le> t'"
  shows "recency_score now (Some (t, i)) \<le> recency_score now (Some (t', i'))"
proof -
  have "days_between now t' \<le> days_between now t"
    using assms by (simp add: days_between_def zdiv_mono1)
  then show ?thesis by (simp add: recency_score_def Let_def)
qed


definition sample_risk :: risk_input where
  "sample_risk = \<lparr>r_severity = ''High'', r_exploitability = Some 8, r_asset_exposure = Some ''critical'',
     r_discovered = Some (0, ''1970-01-01T00:00:00+00:00''), r_confidence = Some (9/10),
     r_exposure_context = Some ''public'', r_business_criticality = None, r_override = None\<rparr>"


text \<open>For a finding with an exploitability and a known asset exposure the explanation is
  faithful: its five factors, in order, carry the sub-scores (rounded to one decimal) and the
  contributions (to two) whose sum the risk score is.\<close>

theorem risk_factors_explain_score:
  assumes "r_exploitability r = Some x" and "r_asset_exposure r = Some a"
    and "ASSET_EXPOSURE_MAP (py_lower a) = Some av"
  shows "\<exists>vs. length vs = 5
     \<and> map (\<lambda>d. jget d ''factor'') (compute_risk_factors fl now t r)
         = map JStr [''severity'', ''exploitability'', ''asset_exposure'', ''recency'', ''confidence'']
     \<and> map (\<lambda>d. jget d ''score'') (compute_risk_factors fl now t r) = map (\<lambda>v. JFloat (py_round fl 1 v)) vs
     \<and> map (\<lambda>d. jget d ''contribution'') (compute_risk_factors fl now t r)
         = map2 (\<lambda>k v. JFloat (py_round fl 2 (weighted fl k v)))
             [''severity'', ''exploitability'', ''asset_exposure'', ''recency'', ''confidence''] vs
     \<and> compute_risk_score fl now r
         = py_round fl 1 (clamp (weighted_sum fl (vs ! 0) (vs ! 1) (vs ! 2) (vs ! 3) (vs ! 4)) 0 10)"
proof -
  have "a \<noteq> []" using assms(3) by (auto simp: ASSET_EXPOSURE_MAP_def py_lower_def)
  then have av: "asset_exposure_score d (r_asset_exposure r) = av" for d
    using assms(2,3) by (simp add: asset_exposure_score_def dget_def)
  have ev: "exploit_value d r = exploit_value 0 r" for d
    using assms(1) by (simp add: exploit_value_def)
  let ?vs = "[severity_value fl r, exploit_value 0 r, av, recency_score now (r_discovered r),
      confidence_score fl (r_confidence r)]"
  show ?thesis
    by (rule exI [of _ ?vs])
       (simp add: compute_risk_factors_def compute_risk_score_def factor_entry_def jget_def Let_def av ev [of 5])
qed

theorem risk_factors_explain_score_witness:
  "length (compute_risk_factors (\<lambda>x. x) 0 0 sample_risk) = 5
   \<and> jget (compute_risk_factors (\<lambda>x. x) 0 0 sample_risk ! 2) ''factor'' = JStr ''asset_exposure''"
proof -
  have m: "map (\<lambda>d. jget d ''factor'') (compute_risk_factors (\<lambda>x. x) 0 0 sample_risk)
         = map JStr [''severity'', ''exploitability'', ''asset_exposure'', ''recency'', ''confidence'']"
    using risk_factors_explain_score [of sample_risk 8 "''critical''" 10 "\<lambda>x. x" 0 0]
    by (auto simp: sample_risk_def ASSET_EXPOSURE_MAP_def py_lower_def py_str)
  have "length (compute_risk_factors (\<lambda>x. x) 0 0 sample_risk) = 5"
    using arg_cong [OF m, of length] by simp
  moreover have "jget (compute_risk_factors (\<lambda>x. x) 0 0 sample_risk ! 2) ''factor'' = JStr ''asset_exposure''"
    using arg_cong [OF m, of "\<lambda>xs. xs ! 2"] calculation by simp
  ultimately show ?thesis by blast
qed

text \<open>
  With exploitability and asset exposure unknown the explanation and the score disagree: the factors
  contribute 1.25 and 1.0 by their documented defaults, the score counts 0 for both. A confidence of
  zero, or none, is described as 50 per cent.
\<close>

definition unknown_risk :: risk_input where
  "unknown_risk = \<lparr>r_severity = ''info'', r_exploitability = None, r_asset_exposure = None,
     r_discovered = None, r_confidence = None, r_exposure_context = None, r_business_criticality = None,
     r_override = None\<rparr>"

lemma defaults_disagree:
  "compute_risk_score (\<lambda>x. x) 0 unknown_risk = 9/10"
  "map (\<lambda>d. jget d ''contribution'') (compute_risk_factors (\<lambda>x. x) 0 0 unknown_risk)
     = [JFloat (15/100), JFloat (125/100), JFloat 1, JFloat (75/100), JFloat 0]"
  "jget (compute_risk_factors (\<lambda>x. x) 0 0 unknown_risk ! 4) ''detail'' = JStr ''Confidence is 50%''"
  by code_simp+

end
