(* ===== verification/Finding_Intelligence.thy ===== *)
theory Finding_Intelligence
  imports Risk_Scoring Ip_Address "HOL-Library.Multiset" "HOL-Library.List_Lexorder" "HOL-Library.Char_ord" "HOL-Library.Product_Lexorder"
begin

text \<open>
  \<open>backend/secuscan/finding_intelligence.py\<close>: a finding is a dictionary in insertion order; raw findings
  of one scan are normalised, staged by group, merged, joined with the last stored occurrence of the
  group, scored and sorted; groups, asset summaries and the difference of two scans are built from the
  result. \<open>sha\<close> is the hexadecimal SHA-1, \<open>repr\<close> the text of floats and containers, \<open>fl\<close> the rounding of
  float operations, \<open>stored\<close> the row the database returns for a group. \<open>None\<close> stands for an exception
  (a malformed URL, or a list-valued key that holds something that cannot be iterated).
\<close>

subsection \<open>Helpers\<close>

definition str_or :: "(json \<Rightarrow> string) \<Rightarrow> json \<Rightarrow> string" where
  "str_or repr v = (if truthy v then (case v of
       JStr s \<Rightarrow> s | JInt i \<Rightarrow> int_str i | JBool b \<Rightarrow> ''True'' | _ \<Rightarrow> repr v) else [])"

definition show_value :: "(json \<Rightarrow> string) \<Rightarrow> json \<Rightarrow> string" where
  "show_value repr v = (case v of
       JStr s \<Rightarrow> s | JInt i \<Rightarrow> int_str i | JBool b \<Rightarrow> if b then ''True'' else ''False''
     | JNull \<Rightarrow> ''None'' | _ \<Rightarrow> repr v)"

text \<open>Iterating a value, as \<open>for x in v\<close> does.\<close>

definition iterate :: "json \<Rightarrow> json list option" where
  "iterate v = (case v of
       JList xs \<Rightarrow> Some xs | JStr s \<Rightarrow> Some (map (\<lambda>c. JStr [c]) s) | JObj kvs \<Rightarrow> Some (map (JStr o fst) kvs)
     | _ \<Rightarrow> None)"

definition items_of :: "dict \<Rightarrow> string \<Rightarrow> json list option" where
  "items_of d k = iterate (jget_or d k (JList []))"

definition is_obj :: "json \<Rightarrow> bool" where
  "is_obj v = (case v of JObj kvs \<Rightarrow> True | _ \<Rightarrow> False)"

definition dict_of :: "dict \<Rightarrow> string \<Rightarrow> dict" where
  "dict_of d k = (case jget d k of JObj kvs \<Rightarrow> kvs | _ \<Rightarrow> [])"

definition list_of :: "dict \<Rightarrow> string \<Rightarrow> json list" where
  "list_of d k = (case jget d k of JList xs \<Rightarrow> xs | _ \<Rightarrow> [])"

definition stable_id :: "(json \<Rightarrow> string) \<Rightarrow> (string \<Rightarrow> string) \<Rightarrow> string \<Rightarrow> json list \<Rightarrow> string" where
  "stable_id repr sha prefix parts =
     prefix @ '':'' @ take 16 (sha (join_with ''||'' (map (\<lambda>p. py_lower (py_strip (str_or repr p))) parts)))"

definition normalize_severity :: "(json \<Rightarrow> string) \<Rightarrow> json \<Rightarrow> string" where
  "normalize_severity repr v =
     (let s = py_lower (if truthy v then str_or repr v else ''info'') in
      if s \<in> {''critical'', ''high'', ''medium'', ''low''} then s
      else if s = ''moderate'' then ''medium'' else ''info'')"

definition severity_rank :: "(json \<Rightarrow> string) \<Rightarrow> json \<Rightarrow> int" where
  "severity_rank repr v =
     (let s = normalize_severity repr v in
      if s = ''critical'' then 5 else if s = ''high'' then 4 else if s = ''medium'' then 3
      else if s = ''low'' then 2 else 1)"

text \<open>Scheme, network location and path of \<open>urlparse\<close> (the parameters after the last slash dropped).\<close>

definition drop_params :: "string \<Rightarrow> string" where
  "drop_params p =
     (if CHR ''/'' \<in> set p
      then (let (d, f) = split_last (CHR ''/'') p in d @ ''/'' @ takeWhile (\<lambda>c. c \<noteq> CHR '';'') f)
      else takeWhile (\<lambda>c. c \<noteq> CHR '';'') p)"

definition uses_params :: "string list" where
  "uses_params = [[], ''ftp'', ''hdl'', ''prospero'', ''http'', ''https'', ''shttp'', ''rtsp'', ''rtspu'',
     ''sip'', ''sips'', ''mms'', ''sftp'', ''tel'']"

definition urlparse :: "string \<Rightarrow> (string \<times> string \<times> string) option" where
  "urlparse url =
     (case urlsplit url of
        None \<Rightarrow> None
      | Some (scheme, netloc) \<Rightarrow>
          (let rest = snd (split_scheme (url_clean url));
               path0 = (if starts_with rest ''//'' then drop (2 + length netloc) rest else rest);
               path = takeWhile (\<lambda>c. c \<noteq> CHR ''#'' \<and> c \<noteq> CHR ''?'') path0
           in Some (scheme, netloc, if scheme \<in> set uses_params then drop_params path else path)))"

definition rstrip_slash :: "string \<Rightarrow> string" where
  "rstrip_slash p = (let r = rstrip_by (\<lambda>c. c = CHR ''/'') p in if r = [] then ''/'' else r)"

definition normalize_url_path :: "string \<Rightarrow> string option" where
  "normalize_url_path v =
     map_option (\<lambda>(scheme, netloc, path).
        if scheme \<noteq> [] \<or> netloc \<noteq> [] then rstrip_slash path
        else if starts_with v ''/'' then rstrip_slash v else []) (urlparse v)"

definition is_http :: "json \<Rightarrow> string option" where
  "is_http v = (case v of JStr s \<Rightarrow> if starts_with s ''http://'' \<or> starts_with s ''https://'' then Some s else None
     | _ \<Rightarrow> None)"

fun first_some :: "('a \<Rightarrow> 'b option) \<Rightarrow> 'a list \<Rightarrow> 'b option" where
  "first_some f [] = None"
| "first_some f (x # xs) = (case f x of Some y \<Rightarrow> Some y | None \<Rightarrow> first_some f xs)"

definition extract_best_url :: "(json \<Rightarrow> string) \<Rightarrow> dict \<Rightarrow> string" where
  "extract_best_url repr f =
     (let md = dict_of f ''metadata'' in
      case first_some (\<lambda>k. is_http (jget md k)) [''url'', ''matched_at'', ''endpoint'', ''action''] of
        Some u \<Rightarrow> u
      | None \<Rightarrow>
          (case first_some (\<lambda>e. case e of JObj kvs \<Rightarrow> is_http (jget kvs ''value'') | _ \<Rightarrow> None) (list_of f ''evidence'') of
             Some u \<Rightarrow> u
           | None \<Rightarrow> (let t = str_or repr (jget f ''target'') in
               if starts_with t ''http://'' \<or> starts_with t ''https://'' then t else [])))"

definition guess_asset_ref :: "(json \<Rightarrow> string) \<Rightarrow> dict \<Rightarrow> string \<Rightarrow> string option" where
  "guess_asset_ref repr f target =
     (let first = (case list_of f ''asset_refs'' of JStr s # _ \<Rightarrow> py_strip s | _ \<Rightarrow> []);
          url = extract_best_url repr f;
          md = dict_of f ''metadata'';
          host = jor (jget md ''host'') (JStr target);
          port = jget md ''port'';
          protocol = jor (jget md ''protocol'') (JStr ''tcp'')
      in if first \<noteq> [] then Some first
         else if url \<noteq> []
         then map_option (\<lambda>(scheme, netloc, path). scheme @ ''://'' @ netloc @ (if path = [] then ''/'' else path))
                (urlparse url)
         else if truthy port
         then Some (show_value repr host @ '':'' @ show_value repr port @ ''/'' @ show_value repr protocol)
         else Some (show_value repr (jor host (JStr target))))"

text \<open>\<open>re.sub(r"[^a-z0-9|:/._-]+", "-", s)\<close>.\<close>

definition sig_char :: "char \<Rightarrow> bool" where
  "sig_char c = (is_lower c \<or> is_digit c \<or> c \<in> set ''|:/._-'')"

fun collapse :: "bool \<Rightarrow> string \<Rightarrow> string" where
  "collapse in_run [] = []"
| "collapse in_run (c # cs) =
     (if sig_char c then c # collapse False cs
      else if in_run then collapse True cs else CHR ''-'' # collapse True cs)"

definition issue_signature :: "(json \<Rightarrow> string) \<Rightarrow> dict \<Rightarrow> string option" where
  "issue_signature repr f =
     (let txt = (\<lambda>v. py_lower (py_strip (str_or repr v)));
          cve = txt (jget f ''cve'');
          md = dict_of f ''metadata'';
          detail = foldr (\<lambda>k acc. jor (jget md k) acc)
             [''template'', ''header'', ''cookie_name'', ''policy'', ''service'', ''endpoint'', ''port'', ''cms''] (JStr [])
      in if cve \<noteq> [] then Some (''cve:'' @ cve)
         else case normalize_url_path (extract_best_url repr f) of
             None \<Rightarrow> None
           | Some path \<Rightarrow>
               (let base = join_with ''|'' [txt (jget f ''category''), txt (jget f ''title''),
                      txt (jget f ''validation_method''), txt detail, path];
                    compact = strip_by (\<lambda>c. c = CHR ''-'') (collapse False base)
                in Some (if compact = [] then ''finding'' else compact)))"

definition generate_finding_key ::
  "(json \<Rightarrow> string) \<Rightarrow> (string \<Rightarrow> string) \<Rightarrow> dict \<Rightarrow> string \<Rightarrow> string \<Rightarrow> string \<Rightarrow> string option" where
  "generate_finding_key repr sha f plugin_id target owner_id =
     (case (guess_asset_ref repr f target, issue_signature repr f) of
        (Some ref, Some sig) \<Rightarrow>
          Some (stable_id repr sha ''group'' [JStr plugin_id,
            JStr (stable_id repr sha ''asset'' [JStr target, JStr ref]), JStr sig, JStr owner_id])
      | _ \<Rightarrow> None)"

subsection \<open>Evidence\<close>

text \<open>\<open>str.title\<close> on ASCII: a letter is capitalised unless a letter comes before it.\<close>

fun title_from :: "bool \<Rightarrow> string \<Rightarrow> string" where
  "title_from after [] = []"
| "title_from after (c # cs) =
     (if is_alpha c then (if after then lower_char c else upper_char c) # title_from True cs
      else c # title_from False cs)"

definition unit_clamp :: "rat \<Rightarrow> rat" where
  "unit_clamp x = max 0 (min 1 x)"

definition json_number :: "json \<Rightarrow> rat option" where
  "json_number v = (case v of JInt i \<Rightarrow> Some (of_int i) | JFloat r \<Rightarrow> Some r
     | JBool b \<Rightarrow> Some (if b then 1 else 0) | _ \<Rightarrow> None)"

definition typed_evidence :: "(json \<Rightarrow> string) \<Rightarrow> string \<Rightarrow> string \<Rightarrow> rat \<Rightarrow> json \<Rightarrow> dict" where
  "typed_evidence repr source observed_at confidence item =
     (case item of
        JObj d \<Rightarrow>
          (let ty = str_or repr (jor (jget d ''type'') (JStr ''evidence'')) in
           [(''type'', JStr ty),
            (''label'', JStr (str_or repr (jor (jget d ''label'')
                (JStr (title_from False (map (\<lambda>c. if c = CHR ''_'' then CHR '' '' else c) ty)))))),
            (''value'', jget d ''value''), (''artifact_ref'', jget d ''artifact_ref''),
            (''source'', JStr (str_or repr (jor (jget d ''source'') (JStr source)))),
            (''observed_at'', JStr (str_or repr (jor (jget d ''observed_at'') (JStr observed_at)))),
            (''confidence'', JFloat (unit_clamp (case json_number (jget d ''confidence'') of
                None \<Rightarrow> confidence | Some r \<Rightarrow> r)))])
      | _ \<Rightarrow>
          [(''type'', JStr ''evidence''), (''label'', JStr ''Evidence''), (''value'', item), (''artifact_ref'', JNull),
           (''source'', JStr source), (''observed_at'', JStr observed_at),
           (''confidence'', JFloat (unit_clamp confidence))])"

text \<open>Equality of the sorted-key JSON texts: dictionaries compare up to the order of their keys.\<close>

fun canon :: "json \<Rightarrow> json" where
  "canon (JList xs) = JList (map canon xs)"
| "canon (JObj kvs) = JObj (sort_key fst (map (\<lambda>(k, v). (k, canon v)) kvs))"
| "canon v = v"

definition evidence_key :: "dict \<Rightarrow> json list" where
  "evidence_key d = map (\<lambda>k. canon (jget d k)) [''type'', ''label'', ''value'', ''artifact_ref'', ''source'']"

fun dedupe_evidence_from :: "json list list \<Rightarrow> dict list \<Rightarrow> dict list" where
  "dedupe_evidence_from seen [] = []"
| "dedupe_evidence_from seen (d # ds) =
     (if evidence_key d \<in> set seen then dedupe_evidence_from seen ds
      else d # dedupe_evidence_from (evidence_key d # seen) ds)"

definition dedupe_evidence :: "dict list \<Rightarrow> dict list" where
  "dedupe_evidence ds = dedupe_evidence_from [] ds"

definition merge_text :: "(json \<Rightarrow> string) \<Rightarrow> json \<Rightarrow> json \<Rightarrow> json" where
  "merge_text repr primary fallback = (if py_strip (str_or repr primary) \<noteq> [] then primary else fallback)"

definition sort_sources :: "string list \<Rightarrow> string list" where
  "sort_sources ss = sort (remdups (filter (\<lambda>s. s \<noteq> []) (map py_strip ss)))"

subsection \<open>Classification and confidence\<close>

definition observation_categories :: "string list" where
  "observation_categories =
     [''attack surface'', ''asset discovery'', ''api discovery'', ''api exposure'', ''service exposure'',
      ''information disclosure'', ''technology fingerprint'', ''transport security'', ''certificate hygiene'']"

definition SOURCE_QUALITY :: "string \<rightharpoonup> rat" where
  "SOURCE_QUALITY = map_of
     [(''nuclei'', 80/100), (''nikto'', 70/100), (''ffuf'', 70/100), (''nmap'', 78/100), (''http_probe'', 82/100),
      (''http_inspector'', 70/100), (''crawl'', 68/100), (''graphql'', 82/100), (''openapi'', 80/100),
      (''knowledgebase'', 72/100), (''tls_probe'', 80/100), (''socket_probe'', 76/100)]"

definition plural :: "int \<Rightarrow> string" where
  "plural n = (if n \<noteq> 1 then ''s'' else [])"

definition capitalize :: "string \<Rightarrow> string" where
  "capitalize s = (case s of [] \<Rightarrow> [] | c # cs \<Rightarrow> upper_char c # py_lower cs)"

definition build_confidence_reason :: "string \<Rightarrow> int \<Rightarrow> string list \<Rightarrow> int \<Rightarrow> string \<Rightarrow> string" where
  "build_confidence_reason kind evidence_count sources occurrence_count match_strength =
     (let n = int (length sources);
          parts = [map (\<lambda>c. if c = CHR ''_'' then CHR '' '' else c) kind @ '' classification'',
                   int_str evidence_count @ '' evidence item'' @ plural evidence_count]
            @ (if sources \<noteq> [] then [''corroborated by '' @ int_str n @ '' source'' @ plural n] else [])
            @ (if occurrence_count > 1 then [''seen across '' @ int_str occurrence_count @ '' scan observations''] else [])
            @ (if match_strength \<noteq> [] \<and> match_strength \<noteq> ''none'' then [match_strength @ '' fingerprint match''] else [])
      in capitalize (join_with ''; '' parts) @ ''.'')"

definition finding_kind_for :: "(json \<Rightarrow> string) \<Rightarrow> dict \<Rightarrow> string" where
  "finding_kind_for repr f =
     (let category = py_lower (py_strip (str_or repr (jget f ''category'')));
          severity = normalize_severity repr (jget f ''severity'');
          observed = category \<in> set observation_categories
      in if truthy (jget f ''validated'') \<and> \<not> observed \<and> severity \<in> {''critical'', ''high'', ''medium'', ''low''}
         then ''validated_issue''
         else if observed \<and> \<not> truthy (jget f ''cve'') then ''observation''
         else if severity \<in> {''critical'', ''high'', ''medium''} \<or> truthy (jget f ''cve'')
                 \<or> jget f ''validation_method'' = JStr ''cpe_cve_correlation''
         then ''suspected_issue'' else ''observation'')"

definition fingerprint_score :: "(json \<Rightarrow> string) \<Rightarrow> dict \<Rightarrow> rat \<times> string" where
  "fingerprint_score repr f =
     (let md = dict_of f ''metadata'';
          strength = py_lower (show_value repr (jor (jget md ''match_strength'') (jor (jget md ''cpe_match_strength'')
            (JStr (if truthy (jget f ''validated'') then ''validated'' else ''none'')))))
      in (dget (map_of [(''validated'', 1), (''exact'', 95/100), (''strong_fuzzy'', 80/100), (''fuzzy'', 70/100),
                        (''family'', 45/100), (''none'', 25/100)]) strength 0, strength))"

definition source_quality :: "string list \<Rightarrow> rat" where
  "source_quality ss =
     (let vs = map (\<lambda>s. dget SOURCE_QUALITY (py_lower s) (58/100)) (filter (\<lambda>s. py_strip s \<noteq> []) ss)
      in if vs = [] then 58/100 else Max (set vs))"

definition severity_component :: "string \<Rightarrow> rat" where
  "severity_component s =
     dget (map_of [(''critical'', 8/100), (''high'', 6/100), (''medium'', 4/100), (''low'', 2/100)]) s 0"

definition compute_confidence ::
  "(json \<Rightarrow> string) \<Rightarrow> (rat \<Rightarrow> rat) \<Rightarrow> dict \<Rightarrow> string list \<Rightarrow> int \<Rightarrow> nat \<Rightarrow> rat" where
  "compute_confidence repr fl f sources occurrence_count evidence_len =
     (let source_c = fl (fl (source_quality sources) * fl (28/100));
          evidence_c = min (fl (2/10)) (fl (fl (5/100) * of_nat evidence_len));
          repeat_c = min (fl (15/100)) (fl (fl (5/100) * of_int (max 0 (occurrence_count - 1))));
          corroboration_c = min (fl (12/100)) (fl (fl (6/100) * of_int (max 0 (int (length sources) - 1))));
          fingerprint_c = fl (fl (fst (fingerprint_score repr f)) * fl (18/100));
          validation_c = (if truthy (jget f ''validated'') then fl (12/100)
                          else if truthy (jget f ''cve'') then fl (4/100) else 0);
          severity_c = fl (severity_component (normalize_severity repr (jget f ''severity'')));
          score = foldl (\<lambda>a b. fl (a + b)) (fl (18/100))
            [source_c, evidence_c, repeat_c, corroboration_c, fingerprint_c, validation_c, severity_c]
      in py_round fl 2 (max 0 (min (fl (99/100)) score)))"

subsection \<open>Staging\<close>

text \<open>Setting a key of a dictionary.\<close>

definition dset :: "string \<Rightarrow> json \<Rightarrow> dict \<Rightarrow> dict" where
  "dset k v d = aput k v d"

definition base_source :: "(json \<Rightarrow> string) \<Rightarrow> dict \<Rightarrow> string \<Rightarrow> string" where
  "base_source repr f plugin_id =
     (let s = show_value repr (case jget f ''metadata'' of JObj md \<Rightarrow> jget md ''source'' | _ \<Rightarrow> JStr [])
      in if s = [] then plugin_id else s)"

definition metadata_copy :: "dict \<Rightarrow> dict option" where
  "metadata_copy f =
     (let m = jget f ''metadata'' in if \<not> truthy m then Some [] else case m of JObj kvs \<Rightarrow> Some kvs | _ \<Rightarrow> None)"

text \<open>The non-blank texts of a list-valued key, as \<open>[str(x) for x in v if str(x).strip()]\<close>.\<close>

definition text_items :: "(json \<Rightarrow> string) \<Rightarrow> dict \<Rightarrow> string \<Rightarrow> string list option" where
  "text_items repr f k =
     map_option (\<lambda>xs. filter (\<lambda>s. py_strip s \<noteq> []) (map (show_value repr) xs)) (items_of f k)"

definition strs :: "string list \<Rightarrow> json" where
  "strs ss = JList (map JStr ss)"

definition get_strs :: "dict \<Rightarrow> string \<Rightarrow> string list" where
  "get_strs d k = map (\<lambda>v. case v of JStr s \<Rightarrow> s | _ \<Rightarrow> []) (list_of d k)"

definition get_dicts :: "dict \<Rightarrow> string \<Rightarrow> dict list" where
  "get_dicts d k = map (\<lambda>v. case v of JObj kvs \<Rightarrow> kvs | _ \<Rightarrow> []) (list_of d k)"

definition get_int :: "dict \<Rightarrow> string \<Rightarrow> int \<Rightarrow> int" where
  "get_int d k dflt = (case jget d k of JInt i \<Rightarrow> i | _ \<Rightarrow> dflt)"

record env =
  e_repr :: "json \<Rightarrow> string"
  e_sha :: "string \<Rightarrow> string"
  e_fl :: "rat \<Rightarrow> rat"

definition group_of :: "env \<Rightarrow> string \<Rightarrow> string \<Rightarrow> dict \<Rightarrow> (string \<times> string \<times> string) option" where
  "group_of e plugin_id target f =
     (case (guess_asset_ref (e_repr e) f target, issue_signature (e_repr e) f) of
        (Some ref, Some sig) \<Rightarrow>
          (let asset = stable_id (e_repr e) (e_sha e) ''asset'' [JStr target, JStr ref]
           in Some (ref, asset, stable_id (e_repr e) (e_sha e) ''group'' [JStr plugin_id, JStr asset, JStr sig]))
      | _ \<Rightarrow> None)"

definition stage_evidence :: "env \<Rightarrow> string \<Rightarrow> string \<Rightarrow> dict \<Rightarrow> dict list" where
  "stage_evidence e plugin_id observed_at f =
     dedupe_evidence (map (typed_evidence (e_repr e) (base_source (e_repr e) f plugin_id) observed_at (72/100))
       (list_of f ''evidence''))"

definition stage_sources :: "env \<Rightarrow> string \<Rightarrow> string \<Rightarrow> dict \<Rightarrow> string list" where
  "stage_sources e plugin_id observed_at f =
     sort_sources (base_source (e_repr e) f plugin_id
       # map (\<lambda>d. str_or (e_repr e) (jget d ''source'')) (stage_evidence e plugin_id observed_at f))"

definition stage_new :: "env \<Rightarrow> string \<Rightarrow> string \<Rightarrow> string \<Rightarrow> dict \<Rightarrow> dict option" where
  "stage_new e plugin_id target observed_at f =
     (case (group_of e plugin_id target f, text_items (e_repr e) f ''asset_refs'', metadata_copy f) of
        (Some (ref, asset, gid), Some refs, Some md) \<Rightarrow>
          Some (fold (\<lambda>(k, v). dset k v)
            [(''severity'', JStr (normalize_severity (e_repr e) (jget f ''severity''))),
             (''target'', JStr (str_or (e_repr e) (jor (jget f ''target'') (JStr target)))),
             (''asset_refs'', strs (sort (remdups (ref # refs)))),
             (''asset_id'', JStr asset), (''finding_group_id'', JStr gid),
             (''evidence'', JList (map JObj (stage_evidence e plugin_id observed_at f))),
             (''corroborating_sources'', strs (stage_sources e plugin_id observed_at f)),
             (''metadata'', JObj md), (''occurrence_count'', JInt 1),
             (''discovered_at'', JStr (str_or (e_repr e) (jor (jget f ''discovered_at'') (JStr observed_at))))]
            f)
      | _ \<Rightarrow> None)"

definition blank_value :: "json \<Rightarrow> bool" where
  "blank_value v = (v \<in> {JStr [], JNull, JList [], JObj []})"

text \<open>Merging a further raw finding into the staged one of its group.\<close>

definition stage_merge :: "env \<Rightarrow> string \<Rightarrow> string \<Rightarrow> string \<Rightarrow> dict \<Rightarrow> dict \<Rightarrow> dict option" where
  "stage_merge e plugin_id target observed_at f st =
     (let repr = e_repr e; sev = JStr (normalize_severity repr (jget f ''severity''));
          pick = (\<lambda>k. jor (jget st k) (jget f k));
          txt = (\<lambda>k. merge_text repr (jget_or st k (JStr [])) (jget_or f k (JStr [])))
      in case (text_items repr f ''asset_refs'', items_of f ''references'', items_of st ''references'', metadata_copy f) of
           (Some refs, Some new_refs, Some old_refs, Some md) \<Rightarrow>
             Some (fold (\<lambda>(k, v). dset k v)
               [(''occurrence_count'', JInt (get_int st ''occurrence_count'' 1 + 1)),
                (''severity'', if severity_rank repr sev > severity_rank repr (jget_or st ''severity'' (JStr ''info''))
                               then sev else jget st ''severity''),
                (''validated'', JBool (truthy (jget st ''validated'') \<or> truthy (jget f ''validated''))),
                (''cvss'', pick ''cvss''), (''cve'', pick ''cve''), (''cpe'', pick ''cpe''),
                (''service_fingerprint'', pick ''service_fingerprint''),
                (''description'', txt ''description''), (''remediation'', txt ''remediation''),
                (''proof'', txt ''proof''), (''validation_method'', txt ''validation_method''),
                (''confidence_reason'', txt ''confidence_reason''),
                (''asset_refs'', strs (sort (remdups (get_strs st ''asset_refs'' @ refs)))),
                (''references'', JList (old_refs @ filter is_obj new_refs)),
                (''evidence'', JList (map JObj (dedupe_evidence
                   (get_dicts st ''evidence'' @ stage_evidence e plugin_id observed_at f)))),
                (''corroborating_sources'', strs (sort_sources
                   (get_strs st ''corroborating_sources'' @ stage_sources e plugin_id observed_at f))),
                (''metadata'', JObj (fold (\<lambda>(k, v). aput k v) (filter (\<lambda>(k, v). \<not> blank_value v) md)
                   (dict_of st ''metadata'')))]
               st)
         | _ \<Rightarrow> None)"

definition stage_one ::
  "env \<Rightarrow> string \<Rightarrow> string \<Rightarrow> string \<Rightarrow> dict \<Rightarrow> (string \<times> dict) list \<Rightarrow> (string \<times> dict) list option" where
  "stage_one e plugin_id target observed_at f staged =
     (case group_of e plugin_id target f of
        None \<Rightarrow> None
      | Some (ref, asset, gid) \<Rightarrow>
          map_option (\<lambda>d. aput gid d staged)
            (case map_of staged gid of
               None \<Rightarrow> stage_new e plugin_id target observed_at f
             | Some st \<Rightarrow> stage_merge e plugin_id target observed_at f st))"

fun stage_all ::
  "env \<Rightarrow> string \<Rightarrow> string \<Rightarrow> string \<Rightarrow> dict list \<Rightarrow> (string \<times> dict) list \<Rightarrow> (string \<times> dict) list option" where
  "stage_all e plugin_id target observed_at [] staged = Some staged"
| "stage_all e plugin_id target observed_at (f # fs) staged =
     (case stage_one e plugin_id target observed_at f staged of
        None \<Rightarrow> None | Some st \<Rightarrow> stage_all e plugin_id target observed_at fs st)"

subsection \<open>Correlation with stored findings\<close>

text \<open>
  The newest stored row of the group: a dictionary, and the sources decoded from its JSON column
  (\<open>[]\<close> when the column is empty or malformed).
\<close>

type_synonym stored_row = "(dict \<times> string list) option"

definition correlate :: "env \<Rightarrow> stored_row \<Rightarrow> dict \<Rightarrow> dict" where
  "correlate e prev f =
     (let repr = e_repr e;
          row = (case prev of None \<Rightarrow> [] | Some (d, ss) \<Rightarrow> d);
          prior = (case prev of None \<Rightarrow> [] | Some (d, ss) \<Rightarrow> ss);
          sources = sort_sources (get_strs f ''corroborating_sources'' @ prior);
          count = get_int row ''occurrence_count'' 0 + get_int f ''occurrence_count'' 1;
          seen = jget f ''discovered_at'';
          keep = (\<lambda>k dflt. if truthy (jget row k) then JStr (show_value repr (jget row k)) else dflt);
          f1 = fold (\<lambda>(k, v). dset k v)
            [(''corroborating_sources'', strs sources), (''occurrence_count'', JInt count),
             (''first_seen_at'', keep ''first_seen_at'' seen), (''last_seen_at'', seen),
             (''analyst_status'', keep ''analyst_status'' (JStr ''new'')),
             (''retest_status'', keep ''retest_status'' (JStr ''not_requested''))] f;
          kind = finding_kind_for repr f1;
          n = length (list_of f1 ''evidence'');
          (score, strength) = fingerprint_score repr f1;
          f2 = fold (\<lambda>(k, v). dset k v)
            [(''finding_kind'', JStr kind), (''evidence_count'', JInt (int n)),
             (''confidence'', JFloat (compute_confidence repr (e_fl e) f1 sources count n))] f1
      in if truthy (jget f2 ''confidence_reason'') then f2
         else dset ''confidence_reason'' (JStr (build_confidence_reason kind (int n) sources count
                (if score \<ge> 45/100 then strength else ''none''))) f2)"

definition confidence_of :: "dict \<Rightarrow> rat" where
  "confidence_of f = (case json_number (jget f ''confidence'') of None \<Rightarrow> 0 | Some r \<Rightarrow> r)"

definition finding_order :: "(json \<Rightarrow> string) \<Rightarrow> dict \<Rightarrow> int \<times> rat \<times> string" where
  "finding_order repr f =
     (- severity_rank repr (jget_or f ''severity'' (JStr ''info'')), - confidence_of f,
      py_lower (str_or repr (jget f ''title'')))"

text \<open>\<open>triage\<close>: the optional in-place batch triage (the identity when it is off or raises).\<close>

definition normalize_and_correlate_findings ::
  "env \<Rightarrow> (string \<Rightarrow> stored_row) \<Rightarrow> (dict list \<Rightarrow> dict list) \<Rightarrow> string \<Rightarrow> string \<Rightarrow> string \<Rightarrow> dict list
     \<Rightarrow> dict list option" where
  "normalize_and_correlate_findings e stored triage plugin_id target observed_at findings =
     map_option (\<lambda>staged. sort_key (finding_order (e_repr e))
         (triage (map (\<lambda>(gid, f). correlate e (stored gid) f) staged)))
       (stage_all e plugin_id target observed_at findings [])"

subsection \<open>Groups, asset summary and difference\<close>

definition group_key :: "env \<Rightarrow> dict \<Rightarrow> string" where
  "group_key e f = show_value (e_repr e)
     (jor (jget f ''finding_group_id'') (jor (jget f ''id'')
       (JStr (stable_id (e_repr e) (e_sha e) ''group'' [jget f ''title'', jget f ''target'']))))"

definition int_or :: "json \<Rightarrow> int \<Rightarrow> int" where
  "int_or v dflt = (case v of JInt i \<Rightarrow> if i \<noteq> 0 then i else dflt | _ \<Rightarrow> dflt)"

definition seen_at :: "dict \<Rightarrow> string \<Rightarrow> json" where
  "seen_at f k = jor (jget f k) (jget f ''discovered_at'')"

definition new_group :: "env \<Rightarrow> string \<Rightarrow> dict \<Rightarrow> dict" where
  "new_group e gid f =
     [(''id'', JStr gid), (''title'', jget f ''title''),
      (''severity'', JStr (normalize_severity (e_repr e) (jget f ''severity''))),
      (''category'', jget f ''category''), (''target'', jget f ''target''), (''asset_id'', jget f ''asset_id''),
      (''finding_kind'', jget_or f ''finding_kind'' (JStr ''observation'')),
      (''validated'', JBool (truthy (jget f ''validated''))), (''cve'', jget f ''cve''), (''cpe'', jget f ''cpe''),
      (''confidence'', jget f ''confidence''), (''confidence_reason'', jget f ''confidence_reason''),
      (''first_seen_at'', seen_at f ''first_seen_at''), (''last_seen_at'', seen_at f ''last_seen_at''),
      (''occurrence_count'', JInt (int_or (jget f ''occurrence_count'') 1)),
      (''evidence_count'', JInt (int_or (jget f ''evidence_count'') (int (length (list_of f ''evidence''))))),
      (''corroborating_sources'', strs (get_strs f ''corroborating_sources'')),
      (''analyst_status'', jget_or f ''analyst_status'' (JStr ''new'')),
      (''retest_status'', jget_or f ''retest_status'' (JStr ''not_requested'')),
      (''latest_finding_id'', jget f ''id''), (''findings'', JList [JObj f])]"

definition join_group :: "env \<Rightarrow> dict \<Rightarrow> dict \<Rightarrow> dict" where
  "join_group e f g =
     (let repr = e_repr e;
          later = max (str_or repr (jget g ''last_seen_at'')) (str_or repr (seen_at f ''last_seen_at''));
          earlier = min (str_or repr (jget g ''first_seen_at'')) (str_or repr (seen_at f ''first_seen_at''))
      in fold (\<lambda>(k, v). dset k v)
        [(''validated'', JBool (truthy (jget g ''validated'') \<or> truthy (jget f ''validated''))),
         (''severity'', if severity_rank repr (jget_or f ''severity'' (JStr ''info''))
                            > severity_rank repr (jget_or g ''severity'' (JStr ''info''))
                         then JStr (normalize_severity repr (jget f ''severity'')) else jget g ''severity''),
         (''last_seen_at'', JStr later), (''first_seen_at'', JStr earlier),
         (''occurrence_count'', JInt (max (int_or (jget g ''occurrence_count'') 1) (int_or (jget f ''occurrence_count'') 1))),
         (''evidence_count'', JInt (max (int_or (jget g ''evidence_count'') 0)
            (int_or (jget f ''evidence_count'') (int (length (list_of f ''evidence'')))))),
         (''corroborating_sources'', strs (sort_sources
            (get_strs g ''corroborating_sources'' @ get_strs f ''corroborating_sources''))),
         (''confidence'', JFloat (max (confidence_of g) (confidence_of f))),
         (''findings'', JList (list_of g ''findings'' @ [JObj f]))] g)"

definition group_step :: "env \<Rightarrow> dict \<Rightarrow> (string \<times> dict) list \<Rightarrow> (string \<times> dict) list" where
  "group_step e f groups =
     (let gid = group_key e f in
      case map_of groups gid of
        None \<Rightarrow> aput gid (new_group e gid f) groups
      | Some g \<Rightarrow> aput gid (join_group e f g) groups)"

definition build_finding_groups :: "env \<Rightarrow> dict list \<Rightarrow> dict list" where
  "build_finding_groups e findings =
     sort_key (finding_order (e_repr e)) (map snd (fold (group_step e) findings []))"

record asset_entry =
  a_id :: string
  a_label :: json
  a_target :: json
  a_services :: "dict list"
  a_findings :: int
  a_validated :: int
  a_highest :: string

definition new_asset :: "string \<Rightarrow> json \<Rightarrow> json \<Rightarrow> asset_entry" where
  "new_asset i label target = \<lparr>a_id = i, a_label = label, a_target = target, a_services = [], a_findings = 0,
     a_validated = 0, a_highest = ''info''\<rparr>"

definition asset_service_step :: "env \<Rightarrow> dict \<Rightarrow> (string \<times> asset_entry) list \<Rightarrow> (string \<times> asset_entry) list" where
  "asset_service_step e s assets =
     (let i = show_value (e_repr e) (jor (jget s ''asset_id'') (JStr (stable_id (e_repr e) (e_sha e) ''asset''
                [jget s ''target'', jget s ''host'', jget s ''port'', jget s ''protocol''])));
          a = (case map_of assets i of Some a \<Rightarrow> a
               | None \<Rightarrow> new_asset i (jor (jget s ''host'') (jget s ''target'')) (jget s ''target''))
      in aput i (a\<lparr>a_services := a_services a @ [s]\<rparr>) assets)"

definition asset_finding_step :: "env \<Rightarrow> dict \<Rightarrow> (string \<times> asset_entry) list \<Rightarrow> (string \<times> asset_entry) list" where
  "asset_finding_step e f assets =
     (let repr = e_repr e;
          i = show_value repr (jor (jget f ''asset_id'') (JStr (stable_id repr (e_sha e) ''asset''
                (jget f ''target'' # list_of f ''asset_refs''))));
          a = (case map_of assets i of Some a \<Rightarrow> a | None \<Rightarrow> new_asset i (jget f ''target'') (jget f ''target''));
          higher = severity_rank repr (jget_or f ''severity'' (JStr ''info'')) > severity_rank repr (JStr (a_highest a))
      in aput i (a\<lparr>a_findings := a_findings a + 1,
                    a_validated := a_validated a + (if truthy (jget f ''validated'') then 1 else 0),
                    a_highest := if higher then normalize_severity repr (jget f ''severity'') else a_highest a\<rparr>) assets)"

definition build_asset_summary :: "env \<Rightarrow> dict list \<Rightarrow> dict list \<Rightarrow> asset_entry list" where
  "build_asset_summary e findings services =
     sort_key (\<lambda>a. (- severity_rank (e_repr e) (JStr (a_highest a)), - a_findings a, str_or (e_repr e) (a_label a)))
       (map snd (fold (asset_finding_step e) findings (fold (asset_service_step e) services [])))"

definition diff_key :: "env \<Rightarrow> dict \<Rightarrow> string" where
  "diff_key e f = show_value (e_repr e) (jor (jget f ''finding_group_id'') (jget f ''id''))"

definition by_key :: "env \<Rightarrow> dict list \<Rightarrow> (string \<times> dict) list" where
  "by_key e fs = fold (\<lambda>f d. aput (diff_key e f) f d) fs []"

definition diff_changed :: "env \<Rightarrow> dict \<Rightarrow> dict \<Rightarrow> bool" where
  "diff_changed e before after \<longleftrightarrow>
     jget before ''severity'' \<noteq> jget after ''severity''
     \<or> truthy (jget before ''validated'') \<noteq> truthy (jget after ''validated'')
     \<or> py_round (e_fl e) 2 (confidence_of before) \<noteq> py_round (e_fl e) 2 (confidence_of after)"

record scan_diff =
  d_new :: "dict list"
  d_resolved :: "dict list"
  d_changed :: "(dict \<times> dict \<times> string) list"
  d_counts :: "int \<times> int \<times> int"

text \<open>The set differences have no order; they are listed here in dictionary order.\<close>

definition build_scan_diff :: "env \<Rightarrow> dict list \<Rightarrow> dict list \<Rightarrow> scan_diff" where
  "build_scan_diff e current_findings previous_findings =
     (let cur = by_key e current_findings; prev = by_key e previous_findings;
          new = map snd (filter (\<lambda>(k, f). k \<notin> set (akeys prev)) cur);
          resolved = map snd (filter (\<lambda>(k, f). k \<notin> set (akeys cur)) prev);
          changed = List.map_filter (\<lambda>(k, f). case map_of prev k of None \<Rightarrow> None
             | Some b \<Rightarrow> if diff_changed e b f then Some (b, f, k) else None) cur
      in \<lparr>d_new = build_finding_groups e new, d_resolved = build_finding_groups e resolved, d_changed = changed,
          d_counts = (int (length new), int (length resolved), int (length changed))\<rparr>)"

subsection \<open>One staged finding per group\<close>

lemma jget_dset [simp]: "jget (dset k v d) k' = (if k' = k then v else jget d k')"
  by (simp add: jget_def dset_def)

lemma jget_or_dset [simp]: "jget_or (dset k v d) k' x = (if k' = k then v else jget_or d k' x)"
  by (simp add: jget_or_def dset_def)

lemma normalize_severity_values:
  "normalize_severity repr v \<in> {''critical'', ''high'', ''medium'', ''low'', ''info''}"
  by (simp add: normalize_severity_def Let_def)

lemma py_lower_levels:
  "py_lower ''critical'' = ''critical''" "py_lower ''high'' = ''high''" "py_lower ''medium'' = ''medium''"
  "py_lower ''low'' = ''low''" "py_lower ''info'' = ''info''"
  by code_simp+

lemma normalize_severity_idem: "normalize_severity repr (JStr (normalize_severity repr v)) = normalize_severity repr v"
  using normalize_severity_values [of repr v]
  by (auto simp: normalize_severity_def [of repr "JStr _"] str_or_def py_lower_levels)

lemma rank_normalized [simp]: "severity_rank repr (JStr (normalize_severity repr v)) = severity_rank repr v"
  by (simp add: severity_rank_def normalize_severity_idem)

definition gid_of :: "env \<Rightarrow> string \<Rightarrow> string \<Rightarrow> dict \<Rightarrow> string option" where
  "gid_of e plugin_id target f = map_option (\<lambda>(ref, asset, gid). gid) (group_of e plugin_id target f)"

definition in_group :: "env \<Rightarrow> string \<Rightarrow> string \<Rightarrow> string \<Rightarrow> dict list \<Rightarrow> dict list" where
  "in_group e plugin_id target gid fs = filter (\<lambda>f. gid_of e plugin_id target f = Some gid) fs"

text \<open>What a staged entry records of the raw findings of its group.\<close>

definition staged_ok :: "env \<Rightarrow> string \<Rightarrow> string \<Rightarrow> dict list \<Rightarrow> (string \<times> dict) list \<Rightarrow> bool" where
  "staged_ok e plugin_id target fs staged \<longleftrightarrow>
     distinct (akeys staged)
     \<and> (\<forall>gid. gid \<in> set (akeys staged) \<longleftrightarrow> in_group e plugin_id target gid fs \<noteq> [])
     \<and> (\<forall>gid d. map_of staged gid = Some d \<longrightarrow>
          jget d ''finding_group_id'' = JStr gid
          \<and> jget d ''occurrence_count'' = JInt (int (length (in_group e plugin_id target gid fs)))
          \<and> (\<exists>s. jget d ''severity'' = JStr s \<and> map_of d ''severity'' = Some (JStr s))
          \<and> severity_rank (e_repr e) (jget d ''severity'')
              = Max ((\<lambda>f. severity_rank (e_repr e) (jget f ''severity'')) ` set (in_group e plugin_id target gid fs)))"

lemma stage_new_reads:
  assumes "stage_new e plugin_id target now f = Some d"
  shows "\<exists>gid. gid_of e plugin_id target f = Some gid \<and> jget d ''finding_group_id'' = JStr gid"
    and "jget d ''occurrence_count'' = JInt 1"
    and "map_of d ''severity'' = Some (JStr (normalize_severity (e_repr e) (jget f ''severity'')))"
  using assms
  by (auto simp: stage_new_def gid_of_def dset_def split: option.splits prod.splits)

lemma stage_merge_reads:
  assumes "stage_merge e plugin_id target now f st = Some d"
  shows "jget d ''finding_group_id'' = jget st ''finding_group_id''"
    and "jget d ''occurrence_count'' = JInt (get_int st ''occurrence_count'' 1 + 1)"
    and "map_of d ''severity'' = Some
        (if severity_rank (e_repr e) (jget f ''severity'') > severity_rank (e_repr e) (jget_or st ''severity'' (JStr ''info''))
         then JStr (normalize_severity (e_repr e) (jget f ''severity'')) else jget st ''severity'')"
proof -
  obtain refs new_refs old_refs md where
    d: "text_items (e_repr e) f ''asset_refs'' = Some refs" "items_of f ''references'' = Some new_refs"
       "items_of st ''references'' = Some old_refs" "metadata_copy f = Some md"
    using assms by (auto simp: stage_merge_def Let_def split: option.splits)
  show "jget d ''finding_group_id'' = jget st ''finding_group_id''"
    and "jget d ''occurrence_count'' = JInt (get_int st ''occurrence_count'' 1 + 1)"
    and "map_of d ''severity'' = Some
        (if severity_rank (e_repr e) (jget f ''severity'') > severity_rank (e_repr e) (jget_or st ''severity'' (JStr ''info''))
         then JStr (normalize_severity (e_repr e) (jget f ''severity'')) else jget st ''severity'')"
    using assms by (auto simp: stage_merge_def Let_def d dset_def jget_def)
qed

lemma in_group_snoc:
  "in_group e p t gid (fs @ [f]) = in_group e p t gid fs @ (if gid_of e p t f = Some gid then [f] else [])"
  by (simp add: in_group_def)

lemma stage_one_ok:
  assumes ok: "staged_ok e p t fs staged" and step: "stage_one e p t now f staged = Some staged'"
  shows "staged_ok e p t (fs @ [f]) staged'"
proof -
  let ?rank = "\<lambda>f. severity_rank (e_repr e) (jget f ''severity'')"
  obtain gid where gid: "gid_of e p t f = Some gid"
    using step by (auto simp: stage_one_def gid_of_def split: option.splits)
  obtain d where d: "staged' = aput gid d staged"
    and src: "(case map_of staged gid of None \<Rightarrow> stage_new e p t now f | Some st \<Rightarrow> stage_merge e p t now f st) = Some d"
    using step gid by (auto simp: stage_one_def gid_of_def split: option.splits)
  have keys: "gid \<in> set (akeys staged) \<longleftrightarrow> in_group e p t gid fs \<noteq> []"
    using ok by (simp add: staged_ok_def)
  have new: "jget d ''finding_group_id'' = JStr gid
      \<and> jget d ''occurrence_count'' = JInt (int (length (in_group e p t gid (fs @ [f]))))
      \<and> (\<exists>s. jget d ''severity'' = JStr s \<and> map_of d ''severity'' = Some (JStr s))
      \<and> ?rank d = Max (?rank ` set (in_group e p t gid (fs @ [f])))"
  proof (cases "map_of staged gid")
    case None
    then have "in_group e p t gid fs = []" using keys by (simp add: map_of_eq_None_akeys)
    then show ?thesis
      using stage_new_reads [of e p t now f d] src gid None
      by (auto simp: in_group_snoc gid)
  next
    case (Some st)
    then have ne: "in_group e p t gid fs \<noteq> []" using keys by (metis map_of_eq_None_akeys option.distinct(1))
    have st: "jget st ''finding_group_id'' = JStr gid"
        "jget st ''occurrence_count'' = JInt (int (length (in_group e p t gid fs)))"
        "?rank st = Max (?rank ` set (in_group e p t gid fs))"
      and sev: "\<exists>s. jget st ''severity'' = JStr s \<and> map_of st ''severity'' = Some (JStr s)"
      using ok Some by (auto simp: staged_ok_def)
    have m: "stage_merge e p t now f st = Some d" using src Some by simp
    have or: "jget_or st ''severity'' (JStr ''info'') = jget st ''severity''"
      using sev by (auto simp: jget_or_def)
    have "Max (?rank ` set (in_group e p t gid (fs @ [f]))) = max (?rank st) (?rank f)"
      using ne by (simp add: in_group_snoc gid st(3) Max_insert max.commute)
    then show ?thesis
      using stage_merge_reads [OF m] st sev
      by (auto simp: in_group_snoc gid get_int_def or jget_def split: option.splits if_splits)
  qed
  show ?thesis
    unfolding staged_ok_def d
  proof (intro conjI allI impI)
    show "distinct (akeys (aput gid d staged))" using ok by (simp add: staged_ok_def)
    show "k \<in> set (akeys (aput gid d staged)) \<longleftrightarrow> in_group e p t k (fs @ [f]) \<noteq> []" for k
      using ok by (auto simp: staged_ok_def in_group_snoc gid)
  next
    fix k d'
    assume "map_of (aput gid d staged) k = Some d'"
    then have "(k = gid \<and> d' = d) \<or> (k \<noteq> gid \<and> map_of staged k = Some d')" by (auto split: if_splits)
    then show "jget d' ''finding_group_id'' = JStr k"
      and "jget d' ''occurrence_count'' = JInt (int (length (in_group e p t k (fs @ [f]))))"
      and "\<exists>s. jget d' ''severity'' = JStr s \<and> map_of d' ''severity'' = Some (JStr s)"
      and "?rank d' = Max (?rank ` set (in_group e p t k (fs @ [f])))"
      using new ok by (auto simp: staged_ok_def in_group_snoc gid)
  qed
qed

lemma stage_all_ok:
  "staged_ok e p t fs staged \<Longrightarrow> stage_all e p t now gs staged = Some staged' \<Longrightarrow> staged_ok e p t (fs @ gs) staged'"
proof (induction gs arbitrary: fs staged)
  case (Cons g gs)
  then obtain st where "stage_one e p t now g staged = Some st" "stage_all e p t now gs st = Some staged'"
    by (auto split: option.splits)
  then show ?case using Cons.IH [of "fs @ [g]" st] stage_one_ok [OF Cons.prems(1)] by simp
qed simp

definition stored_count :: "(string \<Rightarrow> stored_row) \<Rightarrow> string \<Rightarrow> int" where
  "stored_count stored gid = (case stored gid of None \<Rightarrow> 0 | Some (row, ss) \<Rightarrow> get_int row ''occurrence_count'' 0)"

lemma jget_fold_dset:
  "jget (fold (\<lambda>(k, v). dset k v) kvs d) k = (case map_of (rev kvs) k of None \<Rightarrow> jget d k | Some v \<Rightarrow> v)"
  by (induction kvs arbitrary: d) (auto simp: map_add_def split: option.splits)

lemma correlate_reads:
  "jget (correlate e prev f) ''finding_group_id'' = jget f ''finding_group_id''"
  "jget (correlate e prev f) ''severity'' = jget f ''severity''"
  "jget (correlate e prev f) ''occurrence_count''
     = JInt ((case prev of None \<Rightarrow> 0 | Some (row, ss) \<Rightarrow> get_int row ''occurrence_count'' 0)
             + get_int f ''occurrence_count'' 1)"
  by (simp_all add: correlate_def Let_def jget_fold_dset split_beta if_distrib [of "\<lambda>d. jget d k" for k]
      get_int_def [of "[]"] jget_def [of "[]"] split: option.splits)

text \<open>C19: Normalising one scan (triage off) returns exactly one finding for every group that occurs
  among the raw findings, no group twice; it counts the stored occurrences of the group and every raw
  finding of it, carries the highest severity among them, and the result is ordered by severity,
  confidence and title.\<close>

theorem findings_correlated_per_group:
  assumes "normalize_and_correlate_findings e stored (\<lambda>fs. fs) p t now raw = Some out"
  shows "distinct (map (\<lambda>f. jget f ''finding_group_id'') out)
     \<and> (\<lambda>f. jget f ''finding_group_id'') ` set out = {JStr gid | gid. in_group e p t gid raw \<noteq> []}
     \<and> (\<forall>f \<in> set out. \<exists>gid. jget f ''finding_group_id'' = JStr gid
          \<and> jget f ''occurrence_count'' = JInt (stored_count stored gid + int (length (in_group e p t gid raw)))
          \<and> severity_rank (e_repr e) (jget f ''severity'')
              = Max ((\<lambda>r. severity_rank (e_repr e) (jget r ''severity'')) ` set (in_group e p t gid raw)))
     \<and> sorted (map (finding_order (e_repr e)) out)"
proof -
  obtain st where st: "stage_all e p t now raw [] = Some st"
    and out: "out = sort_key (finding_order (e_repr e)) (map (\<lambda>(gid, f). correlate e (stored gid) f) st)"
    using assms by (auto simp: normalize_and_correlate_findings_def)
  have "staged_ok e p t [] []" by (simp add: staged_ok_def in_group_def akeys_def)
  from stage_all_ok [OF this st] have ok: "staged_ok e p t raw st" by simp
  have dist: "distinct (map fst st)" using ok by (simp add: staged_ok_def akeys_def)
  have entry: "map_of st gid = Some f" if "(gid, f) \<in> set st" for gid f using dist that by simp
  have gids: "jget f ''finding_group_id'' = JStr gid" if "(gid, f) \<in> set st" for gid f
    using ok entry [OF that] by (simp add: staged_ok_def)
  have keys: "map (\<lambda>f. jget f ''finding_group_id'') (map (\<lambda>(gid, f). correlate e (stored gid) f) st)
      = map (JStr o fst) st"
    using gids by (auto simp: correlate_reads)
  have "mset (map (\<lambda>f. jget f ''finding_group_id'') out) = mset (map (JStr o fst) st)"
    unfolding keys [symmetric] out mset_map mset_sort ..
  note m = this
  have "distinct (map JStr (map fst st))" using dist by (simp only: distinct_map) (simp add: inj_on_def)
  then have 1: "distinct (map (\<lambda>f. jget f ''finding_group_id'') out)"
    using mset_eq_imp_distinct_iff [OF m] by (simp only: map_map)
  have 2: "(\<lambda>f. jget f ''finding_group_id'') ` set out = JStr ` set (map fst st)"
    using mset_eq_setD [OF m] by (simp only: set_map image_comp)
  have 3: "set (map fst st) = {gid. in_group e p t gid raw \<noteq> []}"
    using ok by (auto simp: staged_ok_def akeys_def)
  have 4: "\<exists>gid. jget f ''finding_group_id'' = JStr gid
          \<and> jget f ''occurrence_count'' = JInt (stored_count stored gid + int (length (in_group e p t gid raw)))
          \<and> severity_rank (e_repr e) (jget f ''severity'')
              = Max ((\<lambda>r. severity_rank (e_repr e) (jget r ''severity'')) ` set (in_group e p t gid raw))"
    if mem: "f \<in> set out" for f
  proof -
    obtain gid g where g: "(gid, g) \<in> set st" and f: "f = correlate e (stored gid) g"
      using mem by (auto simp: out)
    show ?thesis
      using ok entry [OF g] by (auto simp: staged_ok_def f correlate_reads stored_count_def get_int_def)
  qed
  show ?thesis using 1 2 3 4 by (auto simp: out)
qed

definition plain_env :: env where
  "plain_env = \<lparr>e_repr = (\<lambda>v. []), e_sha = (\<lambda>s. s), e_fl = (\<lambda>x. x)\<rparr>"

definition sample_raw :: "dict list" where
  "sample_raw = [[(''title'', JStr ''SQL injection''), (''severity'', JStr ''medium'')],
     [(''title'', JStr ''SQL injection''), (''severity'', JStr ''high'')]]"

theorem findings_correlated_per_group_witness:
  "\<exists>out. normalize_and_correlate_findings plain_env (\<lambda>g. None) (\<lambda>fs. fs) ''nikto'' ''10.0.0.5'' ''now'' sample_raw
       = Some out \<and> distinct (map (\<lambda>f. jget f ''finding_group_id'') out)"
proof -
  have "normalize_and_correlate_findings plain_env (\<lambda>g. None) (\<lambda>fs. fs) ''nikto'' ''10.0.0.5'' ''now'' sample_raw \<noteq> None"
    by code_simp
  then obtain out where out: "normalize_and_correlate_findings plain_env (\<lambda>g. None) (\<lambda>fs. fs) ''nikto'' ''10.0.0.5''
      ''now'' sample_raw = Some out" by blast
  show ?thesis using findings_correlated_per_group [OF out] out by blast
qed

subsection \<open>Bounds of the confidence\<close>

lemma source_quality_mono:
  assumes "set ss \<subseteq> set ss'"
  shows "source_quality ss \<le> source_quality ss'"
proof -
  let ?q = "\<lambda>s. dget SOURCE_QUALITY (py_lower s) (58/100)"
  have min: "58/100 \<le> ?q s" for s
    by (auto simp: dget_def SOURCE_QUALITY_def split: option.splits if_splits)
  let ?vs = "\<lambda>ss. ?q ` {s \<in> set ss. py_strip s \<noteq> []}"
  have q: "source_quality ss = (if ?vs ss = {} then 58/100 else Max (?vs ss))" for ss
    by (auto simp: source_quality_def Let_def filter_empty_conv image_def)
  show ?thesis
  proof (cases "?vs ss = {}")
    case True
    show ?thesis
    proof (cases "?vs ss' = {}")
      case False
      then obtain v where v: "v \<in> ?vs ss'" by blast
      then have "v \<le> Max (?vs ss')" by (intro Max_ge) auto
      moreover have "58/100 \<le> v" using v min by blast
      ultimately have "58/100 \<le> Max (?vs ss')" by (rule order_trans [rotated])
      then show ?thesis unfolding q by (simp only: True False simp_thms if_True if_False)
    qed (use True in \<open>simp add: q\<close>)
  next
    case False
    moreover have "?vs ss \<subseteq> ?vs ss'" using assms by blast
    ultimately show ?thesis unfolding q by (auto intro: Max_mono)
  qed
qed

lemma foldl_add_mono:
  assumes "rounding fl" and "list_all2 (\<le>) xs ys" and "a \<le> b"
  shows "foldl (\<lambda>a b. fl (a + b)) a xs \<le> foldl (\<lambda>a b. fl (a + b)) b ys"
  using assms(2,3) by (induction arbitrary: a b rule: list_all2_induct)
    (auto intro: rounding_mono [OF assms(1)] add_mono)

text \<open>A confidence lies between 0 and 0.99 (rounded to two decimals) and never falls when the
  same finding is seen more often, has more evidence or is reported by more sources.\<close>

theorem confidence_bounded_monotone:
  assumes "rounding fl"
  shows "0 \<le> compute_confidence repr fl f ss n k
     \<and> compute_confidence repr fl f ss n k \<le> py_round fl 2 (fl (99/100))
     \<and> (set ss \<subseteq> set ss' \<and> length ss \<le> length ss' \<and> n \<le> n' \<and> k \<le> k'
        \<longrightarrow> compute_confidence repr fl f ss n k \<le> compute_confidence repr fl f ss' n' k')"
proof -
  note mono = rounding_mono [OF assms]
  have lo: "py_round fl 2 0 = 0" using assms rhe_of_int [of 0] by (simp add: py_round_def rounding_def)
  have pos: "0 \<le> fl x" if "0 \<le> x" for x using mono [OF that] assms by (simp add: rounding_def)
  have 1: "0 \<le> compute_confidence repr fl f ss n k \<and> compute_confidence repr fl f ss n k \<le> py_round fl 2 (fl (99/100))"
  proof -
    have "0 \<le> py_round fl 2 (max 0 (min (fl (99/100)) x))
        \<and> py_round fl 2 (max 0 (min (fl (99/100)) x)) \<le> py_round fl 2 (fl (99/100))" for x
      using py_round_mono [OF assms, of 0 "max 0 (min (fl (99/100)) x)" 2] pos [of "99/100"] unfolding lo
      by (intro conjI py_round_mono [OF assms] max.boundedI min.cobounded1) simp_all
    then show ?thesis unfolding compute_confidence_def Let_def by blast
  qed
  have 2: "compute_confidence repr fl f ss n k \<le> compute_confidence repr fl f ss' n' k'"
    if "set ss \<subseteq> set ss'" "length ss \<le> length ss'" "n \<le> n'" "k \<le> k'"
  proof -
    have a: "fl (fl (source_quality ss) * fl (28/100)) \<le> fl (fl (source_quality ss') * fl (28/100))"
      by (intro mono mult_right_mono source_quality_mono that pos) simp
    have b: "fl (fl (5/100) * of_nat k) \<le> fl (fl (5/100) * of_nat k')"
      by (intro mono mult_left_mono pos) (use that in simp_all)
    have c: "fl (fl (5/100) * of_int (max 0 (n - 1))) \<le> fl (fl (5/100) * of_int (max 0 (n' - 1)))"
      by (intro mono mult_left_mono pos) (use that in simp_all)
    have d: "fl (fl (6/100) * of_int (max 0 (int (length ss) - 1))) \<le> fl (fl (6/100) * of_int (max 0 (int (length ss') - 1)))"
      by (intro mono mult_left_mono pos) (use that in simp_all)
    show ?thesis
      unfolding compute_confidence_def Let_def
      by (intro py_round_mono [OF assms] max.mono min.mono order_refl foldl_add_mono [OF assms]
          list_all2_Cons [THEN iffD2] conjI list.rel_intros a b c d)
  qed
  show ?thesis using 1 2 by blast
qed

definition sample_finding :: dict where
  "sample_finding = [(''title'', JStr ''SQL injection''), (''severity'', JStr ''high''), (''cve'', JStr ''CVE-2024-1'')]"

theorem confidence_bounded_monotone_witness:
  "compute_confidence (\<lambda>v. []) (\<lambda>x. x) sample_finding [''nmap''] 1 0
     \<le> compute_confidence (\<lambda>v. []) (\<lambda>x. x) sample_finding [''nmap'', ''nuclei''] 3 2"
  using confidence_bounded_monotone [of "\<lambda>x. x" "\<lambda>v. []" sample_finding "[''nmap'']" 1 0 "[''nmap'', ''nuclei'']" 3 2]
  by (simp add: rounding_def)

subsection \<open>Difference of two scans\<close>

text \<open>The last finding with a key is the one a dictionary comprehension keeps.\<close>

definition latest :: "env \<Rightarrow> dict list \<Rightarrow> string \<Rightarrow> dict" where
  "latest e fs k = last (filter (\<lambda>f. diff_key e f = k) fs)"

lemma by_key_snoc: "by_key e (fs @ [f]) = aput (diff_key e f) f (by_key e fs)"
  by (simp add: by_key_def)

lemma akeys_by_key: "distinct (akeys (by_key e fs)) \<and> set (akeys (by_key e fs)) = diff_key e ` set fs"
  by (induction fs rule: rev_induct) (auto simp: by_key_snoc, auto simp: by_key_def akeys_def)

lemma map_of_by_key:
  "map_of (by_key e fs) k = (if k \<in> diff_key e ` set fs then Some (latest e fs k) else None)"
  by (induction fs rule: rev_induct) (auto simp: by_key_snoc latest_def, auto simp: by_key_def)

lemma by_key_filter: "length (filter (\<lambda>(k, f). P k) (by_key e fs)) = card {k \<in> diff_key e ` set fs. P k}"
proof -
  have "length (filter (\<lambda>(k, f). P k) (by_key e fs)) = length (filter P (akeys (by_key e fs)))"
    by (simp add: akeys_def filter_map comp_def case_prod_unfold)
  also have "\<dots> = card (set (filter P (akeys (by_key e fs))))"
    using akeys_by_key by (intro distinct_card [symmetric]) auto
  finally show ?thesis using akeys_by_key by (metis set_filter)
qed

lemma by_key_mem:
  "k \<in> set (akeys (by_key e fs)) \<longleftrightarrow> k \<in> diff_key e ` set fs"
  "(k, f) \<in> set (by_key e fs) \<Longrightarrow> map_of (by_key e fs) k = Some f"
  using akeys_by_key [of e fs] by (blast, simp add: akeys_def)

lemma d_changed_eq:
  "d_changed (build_scan_diff e cur prev) = map (\<lambda>(k, f). (latest e prev k, latest e cur k, k))
     (filter (\<lambda>(k, f). k \<in> diff_key e ` set prev \<and> diff_changed e (latest e prev k) (latest e cur k)) (by_key e cur))"
  unfolding build_scan_diff_def Let_def scan_diff.simps List.map_filter_def
  by (intro map_cong filter_cong) (auto simp: map_of_by_key dest!: by_key_mem(2) split: if_splits)

lemma diff_counts_eq:
  "d_counts (build_scan_diff e cur prev)
     = (int (card (diff_key e ` set cur - diff_key e ` set prev)),
        int (card (diff_key e ` set prev - diff_key e ` set cur)),
        int (card {k \<in> diff_key e ` set cur \<inter> diff_key e ` set prev.
                     diff_changed e (latest e prev k) (latest e cur k)}))"
  (is "d_counts ?D = _")
proof -
  have "d_counts ?D = (int (length (filter (\<lambda>(k, f). k \<notin> diff_key e ` set prev) (by_key e cur))),
      int (length (filter (\<lambda>(k, f). k \<notin> diff_key e ` set cur) (by_key e prev))), int (length (d_changed ?D)))"
    by (simp add: build_scan_diff_def Let_def by_key_mem(1))
  then show ?thesis
    unfolding d_changed_eq length_map by_key_filter by (simp add: set_diff_eq Int_def conj_assoc)
qed

lemma diff_self:
  "build_scan_diff e cur cur = \<lparr>d_new = [], d_resolved = [], d_changed = [], d_counts = (0, 0, 0)\<rparr>"
proof -
  have same: "\<not> diff_changed e f f" for f by (simp add: diff_changed_def)
  have none: "filter (\<lambda>(k, f). k \<notin> set (akeys (by_key e cur))) (by_key e cur) = []"
    by (force simp: filter_empty_conv akeys_def)
  have nochange: "List.map_filter (\<lambda>(k, f). case map_of (by_key e cur) k of None \<Rightarrow> None
      | Some b \<Rightarrow> if diff_changed e b f then Some (b, f, k) else None) (by_key e cur) = []"
    by (auto simp: List.map_filter_def filter_empty_conv same dest!: by_key_mem(2) split: if_splits)
  show ?thesis by (simp add: build_scan_diff_def Let_def none nochange build_finding_groups_def)
qed

text \<open>The difference of two scans counts exactly: new are the group keys of the current scan that
  the previous one lacks, resolved the other way round, changed the common keys whose latest findings
  differ in severity, validation or rounded confidence; a scan compared with itself has no difference.\<close>

theorem scan_diff_exact:
  "d_counts (build_scan_diff e cur prev)
     = (int (card (diff_key e ` set cur - diff_key e ` set prev)),
        int (card (diff_key e ` set prev - diff_key e ` set cur)),
        int (card {k \<in> diff_key e ` set cur \<inter> diff_key e ` set prev.
                     diff_changed e (latest e prev k) (latest e cur k)}))
   \<and> (\<forall>b a k. (b, a, k) \<in> set (d_changed (build_scan_diff e cur prev))
        \<longleftrightarrow> k \<in> diff_key e ` set cur \<inter> diff_key e ` set prev \<and> b = latest e prev k \<and> a = latest e cur k
            \<and> diff_changed e b a)
   \<and> build_scan_diff e cur cur = \<lparr>d_new = [], d_resolved = [], d_changed = [], d_counts = (0, 0, 0)\<rparr>"
proof (intro conjI allI diff_counts_eq diff_self)
  fix b a k
  have "(b, a, k) \<in> set (d_changed (build_scan_diff e cur prev)) \<longleftrightarrow> (\<exists>f. (k, f) \<in> set (by_key e cur)
      \<and> k \<in> diff_key e ` set prev \<and> diff_changed e (latest e prev k) (latest e cur k)
      \<and> b = latest e prev k \<and> a = latest e cur k)"
    unfolding d_changed_eq by auto
  moreover have "(\<exists>f. (k, f) \<in> set (by_key e cur)) \<longleftrightarrow> k \<in> diff_key e ` set cur"
    using by_key_mem(1) [of k e cur] by (force simp: akeys_def)
  ultimately show "(b, a, k) \<in> set (d_changed (build_scan_diff e cur prev))
        \<longleftrightarrow> k \<in> diff_key e ` set cur \<inter> diff_key e ` set prev \<and> b = latest e prev k \<and> a = latest e cur k
            \<and> diff_changed e b a" by blast
qed

text \<open>
  The label of the source is never taken from the plugin when the metadata is a dictionary without a
  source: \<open>str(None)\<close> is the non-empty text \<open>None\<close>.
\<close>

lemma missing_source_is_none:
  "base_source repr [(''metadata'', JObj [])] ''nmap'' = ''None''"
  "base_source repr [] ''nmap'' = ''nmap''"
  by code_simp+

end
