(* ===== verification/Task_Events.thy ===== *)
theory Task_Events
  imports Prelude
begin

text \<open>
  The publish/subscribe part of \<open>TaskExecutor\<close> in \<open>backend/secuscan/executor.py\<close>: the listeners of a
  task are bounded queues; a full queue drops its oldest event. The \<open>asyncio.Queue\<close> objects live in
  \<open>queues\<close> under a number that stands for the object's identity, so a queue goes on existing for its
  reader after it was unsubscribed.
\<close>

datatype task_event =
    Status_Event string
  | Phase_Event string
  | Output_Event string

record hub =
  listeners :: "(string \<times> nat list) list"
  queues :: "task_event list list"

definition STREAM_LISTENER_QUEUE_MAXSIZE :: nat where
  "STREAM_LISTENER_QUEUE_MAXSIZE = 100"

definition subscribe :: "string \<Rightarrow> hub \<Rightarrow> nat \<times> hub" where
  "subscribe task h =
     (let q = length (queues h);
          qs = (case map_of (listeners h) task of None \<Rightarrow> [] | Some qs \<Rightarrow> qs)
      in (q, h\<lparr>listeners := aput task (qs @ [q]) (listeners h), queues := queues h @ [[]]\<rparr>))"

definition unsubscribe :: "string \<Rightarrow> nat \<Rightarrow> hub \<Rightarrow> hub" where
  "unsubscribe task q h =
     (case map_of (listeners h) task of
        None \<Rightarrow> h
      | Some qs \<Rightarrow>
          if q \<notin> set qs then h
          else let qs' = remove1 q qs in
               h\<lparr>listeners := (if qs' = [] then adel task (listeners h) else aput task qs' (listeners h))\<rparr>)"

text \<open>\<open>put_nowait\<close>, after dropping the oldest event when the queue is full.\<close>

definition put_event :: "task_event \<Rightarrow> task_event list \<Rightarrow> task_event list" where
  "put_event ev items =
     (if length items < STREAM_LISTENER_QUEUE_MAXSIZE then items @ [ev]
      else let kept = tl items in
           if length kept < STREAM_LISTENER_QUEUE_MAXSIZE then kept @ [ev] else kept)"

definition enqueue_listener_event :: "task_event \<Rightarrow> nat \<Rightarrow> hub \<Rightarrow> hub" where
  "enqueue_listener_event ev q h = h\<lparr>queues := (queues h)[q := put_event ev (queues h ! q)]\<rparr>"

definition broadcast :: "string \<Rightarrow> task_event \<Rightarrow> hub \<Rightarrow> hub" where
  "broadcast task ev h =
     (case map_of (listeners h) task of
        None \<Rightarrow> h
      | Some qs \<Rightarrow> fold (enqueue_listener_event ev) qs h)"

definition cleanup_listeners :: "string \<Rightarrow> hub \<Rightarrow> hub" where
  "cleanup_listeners task h = h\<lparr>listeners := adel task (listeners h)\<rparr>"

text \<open>The reader of a queue takes its oldest event.\<close>

definition take_event :: "nat \<Rightarrow> hub \<Rightarrow> hub" where
  "take_event q h = h\<lparr>queues := (queues h)[q := tl (queues h ! q)]\<rparr>"

subsection \<open>What a listener sees\<close>

datatype hub_op =
    Subscribe string
  | Unsubscribe string nat
  | Broadcast string task_event
  | Take nat
  | Cleanup string

fun hub_step :: "hub_op \<Rightarrow> hub \<Rightarrow> hub" where
  "hub_step (Subscribe t) h = snd (subscribe t h)"
| "hub_step (Unsubscribe t q) h = unsubscribe t q h"
| "hub_step (Broadcast t ev) h = broadcast t ev h"
| "hub_step (Take q) h = take_event q h"
| "hub_step (Cleanup t) h = cleanup_listeners t h"

definition empty_hub :: hub where
  "empty_hub = \<lparr>listeners = [], queues = []\<rparr>"

definition qs_of :: "hub \<Rightarrow> string \<Rightarrow> nat list" where
  "qs_of h t = (case map_of (listeners h) t of None \<Rightarrow> [] | Some qs \<Rightarrow> qs)"

definition listening :: "hub \<Rightarrow> string \<Rightarrow> nat \<Rightarrow> bool" where
  "listening h t q \<longleftrightarrow> q \<in> set (qs_of h t)"

text \<open>Every queue is subscribed at most once, to one task, exists and is within its bound.\<close>

definition hub_ok :: "hub \<Rightarrow> bool" where
  "hub_ok h \<longleftrightarrow>
     (\<forall>t. distinct (qs_of h t) \<and> (\<forall>q \<in> set (qs_of h t). q < length (queues h)))
     \<and> (\<forall>t t' q. listening h t q \<longrightarrow> listening h t' q \<longrightarrow> t = t')
     \<and> (\<forall>items \<in> set (queues h). length items \<le> STREAM_LISTENER_QUEUE_MAXSIZE)"

lemma put_event_eq:
  "length items \<le> STREAM_LISTENER_QUEUE_MAXSIZE \<Longrightarrow>
     put_event ev items = drop (length items + 1 - STREAM_LISTENER_QUEUE_MAXSIZE) (items @ [ev])"
  by (cases items) (auto simp: put_event_def Let_def STREAM_LISTENER_QUEUE_MAXSIZE_def)

lemma fold_enqueue:
  assumes "distinct qs" and "\<forall>q \<in> set qs. q < length (queues h)"
  shows "listeners (fold (enqueue_listener_event ev) qs h) = listeners h
     \<and> length (queues (fold (enqueue_listener_event ev) qs h)) = length (queues h)
     \<and> (\<forall>q < length (queues h). queues (fold (enqueue_listener_event ev) qs h) ! q
          = (if q \<in> set qs then put_event ev (queues h ! q) else queues h ! q))"
  using assms
proof (induction qs arbitrary: h)
  case (Cons r qs)
  let ?h = "enqueue_listener_event ev r h"
  have "\<forall>q \<in> set qs. q < length (queues ?h)" using Cons.prems by (simp add: enqueue_listener_event_def)
  with Cons.IH [of ?h] Cons.prems show ?case
    by (auto simp: enqueue_listener_event_def nth_list_update)
qed simp

lemma broadcast_queues:
  assumes "hub_ok h"
  shows "listeners (broadcast t ev h) = listeners h"
    and "length (queues (broadcast t ev h)) = length (queues h)"
    and "q < length (queues h) \<Longrightarrow> queues (broadcast t ev h) ! q
       = (if listening h t q then put_event ev (queues h ! q) else queues h ! q)"
proof -
  have b: "broadcast t ev h = fold (enqueue_listener_event ev) (qs_of h t) h"
    by (simp add: broadcast_def qs_of_def split: option.splits)
  note f = fold_enqueue [of "qs_of h t" h ev]
  have "distinct (qs_of h t)" "\<forall>q \<in> set (qs_of h t). q < length (queues h)" using assms by (auto simp: hub_ok_def)
  note f = f [OF this]
  show "listeners (broadcast t ev h) = listeners h"
    and "length (queues (broadcast t ev h)) = length (queues h)"
    and "q < length (queues h) \<Longrightarrow> queues (broadcast t ev h) ! q
       = (if listening h t q then put_event ev (queues h ! q) else queues h ! q)"
    using f by (auto simp: b listening_def)
qed

lemma qs_of_step [simp]:
  "qs_of (snd (subscribe t h)) t' = (if t' = t then qs_of h t @ [length (queues h)] else qs_of h t')"
  "qs_of (unsubscribe t q h) t' = (if t' = t then remove1 q (qs_of h t) else qs_of h t')"
  "qs_of (cleanup_listeners t h) t' = (if t' = t then [] else qs_of h t')"
  "qs_of (take_event q h) t' = qs_of h t'"
  by (auto simp: qs_of_def subscribe_def unsubscribe_def cleanup_listeners_def take_event_def map_of_adel
      Let_def remove1_idem split: option.splits)

lemma qs_of_broadcast [simp]: "hub_ok h \<Longrightarrow> qs_of (broadcast t ev h) t' = qs_of h t'"
  by (simp add: qs_of_def broadcast_queues(1))

lemma queues_step [simp]:
  "queues (snd (subscribe t h)) = queues h @ [[]]"
  "queues (unsubscribe t q h) = queues h"
  "queues (cleanup_listeners t h) = queues h"
  by (auto simp: subscribe_def unsubscribe_def cleanup_listeners_def Let_def split: option.splits)

lemma hub_ok_subscribe:
  assumes "hub_ok h"
  shows "hub_ok (snd (subscribe t h))"
proof -
  have "q < length (queues h)" if "listening h t' q" for t' q using assms that by (auto simp: hub_ok_def listening_def)
  then show ?thesis
    using assms by (fastforce simp: hub_ok_def listening_def STREAM_LISTENER_QUEUE_MAXSIZE_def less_Suc_eq split: if_splits)
qed

lemma hub_ok_unsubscribe: "hub_ok h \<Longrightarrow> hub_ok (unsubscribe t q h)"
  by (auto simp: hub_ok_def listening_def dest: notin_set_remove1 split: if_splits)

lemma hub_ok_cleanup: "hub_ok h \<Longrightarrow> hub_ok (cleanup_listeners t h)"
  by (auto simp: hub_ok_def listening_def split: if_splits)

lemma hub_ok_take:
  assumes "hub_ok h"
  shows "hub_ok (take_event q h)"
proof -
  have old: "length items \<le> STREAM_LISTENER_QUEUE_MAXSIZE" if "items \<in> set (queues h)" for items
    using assms that by (simp add: hub_ok_def)
  have "length items \<le> STREAM_LISTENER_QUEUE_MAXSIZE" if "items \<in> set (queues (take_event q h))" for items
  proof (cases "q < length (queues h)")
    case True
    then have "length (tl (queues h ! q)) \<le> STREAM_LISTENER_QUEUE_MAXSIZE" using old [OF nth_mem, of q] by simp
    then show ?thesis
      using that old by (auto simp: take_event_def dest!: set_update_subset_insert [THEN subsetD])
  qed (use that old in \<open>simp add: take_event_def list_update_beyond\<close>)
  moreover have "length (queues (take_event q h)) = length (queues h)" by (simp add: take_event_def)
  ultimately show ?thesis using assms by (auto simp: hub_ok_def listening_def)
qed

lemma hub_ok_broadcast:
  assumes "hub_ok h"
  shows "hub_ok (broadcast t ev h)"
proof -
  have "length items \<le> STREAM_LISTENER_QUEUE_MAXSIZE" if mem: "items \<in> set (queues (broadcast t ev h))" for items
  proof -
    obtain q where q: "q < length (queues h)" "items = queues (broadcast t ev h) ! q"
      using mem broadcast_queues(2) [OF assms, of t ev] by (auto simp: in_set_conv_nth)
    moreover have "length (queues h ! q) \<le> STREAM_LISTENER_QUEUE_MAXSIZE" using assms q(1) by (auto simp: hub_ok_def)
    ultimately show ?thesis
      using broadcast_queues(3) [OF assms q(1), of t ev] put_event_eq [of "queues h ! q" ev] by auto
  qed
  then show ?thesis
    using assms broadcast_queues(2) [OF assms, of t ev] by (auto simp: hub_ok_def listening_def qs_of_broadcast [OF assms])
qed

lemma hub_ok_step: "hub_ok h \<Longrightarrow> hub_ok (hub_step op h)"
  by (cases op) (auto intro: hub_ok_subscribe hub_ok_unsubscribe hub_ok_broadcast hub_ok_take hub_ok_cleanup)

fun published :: "string \<Rightarrow> hub_op list \<Rightarrow> task_event list" where
  "published t [] = []"
| "published t (Broadcast t' ev # ops) = (if t' = t then ev # published t ops else published t ops)"
| "published t (op # ops) = published t ops"

lemma published_Cons: "published t (op # ops) = published t [op] @ published t ops"
  by (cases op) auto

definition keeps_listening :: "string \<Rightarrow> nat \<Rightarrow> hub_op \<Rightarrow> bool" where
  "keeps_listening t q op \<longleftrightarrow> op \<noteq> Unsubscribe t q \<and> op \<noteq> Cleanup t"

lemma listener_step:
  assumes "hub_ok h" and "listening h t q" and "keeps_listening t q op"
  shows "listening (hub_step op h) t q"
    and "queues (hub_step op h) ! q =
      (if op = Take q then tl (queues h ! q) else fold put_event (published t [op]) (queues h ! q))"
proof -
  have q: "q < length (queues h)" using assms(1,2) by (auto simp: hub_ok_def listening_def)
  have own: "listening h t' q \<longleftrightarrow> t' = t" for t' using assms(1,2) by (auto simp: hub_ok_def)
  show "listening (hub_step op h) t q"
    using assms by (cases op) (auto simp: listening_def keeps_listening_def)
  show "queues (hub_step op h) ! q =
      (if op = Take q then tl (queues h ! q) else fold put_event (published t [op]) (queues h ! q))"
    using q own by (cases op) (auto simp: broadcast_queues(3) [OF assms(1)] nth_append take_event_def nth_list_update)
qed

lemma put_events_eq:
  "length items \<le> STREAM_LISTENER_QUEUE_MAXSIZE \<Longrightarrow>
     fold put_event evs items = drop (length items + length evs - STREAM_LISTENER_QUEUE_MAXSIZE) (items @ evs)"
proof (induction evs arbitrary: items)
  case (Cons ev evs)
  let ?n = "length items + 1 - STREAM_LISTENER_QUEUE_MAXSIZE"
  have p: "put_event ev items = drop ?n (items @ [ev])" using put_event_eq Cons.prems .
  have "fold put_event evs (put_event ev items)
      = drop (length (put_event ev items) + length evs - STREAM_LISTENER_QUEUE_MAXSIZE) (put_event ev items @ evs)"
    by (rule Cons.IH) (use Cons.prems in \<open>simp add: p\<close>)
  also have "put_event ev items @ evs = drop ?n (items @ ev # evs)"
    using Cons.prems by (simp add: p STREAM_LISTENER_QUEUE_MAXSIZE_def)
  finally have "fold put_event evs (put_event ev items)
      = drop (length (put_event ev items) + length evs - STREAM_LISTENER_QUEUE_MAXSIZE + ?n) (items @ ev # evs)"
    by (simp only: drop_drop)
  moreover have "length (put_event ev items) + length evs - STREAM_LISTENER_QUEUE_MAXSIZE + ?n
      = length items + length (ev # evs) - STREAM_LISTENER_QUEUE_MAXSIZE"
    using Cons.prems by (cases "length items = 100") (simp_all add: p STREAM_LISTENER_QUEUE_MAXSIZE_def)
  ultimately show ?case by (simp only: fold_simps)
qed simp

lemma listener_run:
  assumes "hub_ok h" and "listening h t q" and "\<forall>op \<in> set ops. keeps_listening t q op"
  shows "length (queues (fold hub_step ops h) ! q) \<le> STREAM_LISTENER_QUEUE_MAXSIZE
     \<and> (\<exists>n. queues (fold hub_step ops h) ! q = drop n (queues h ! q @ published t ops))
     \<and> (Take q \<notin> set ops \<longrightarrow> queues (fold hub_step ops h) ! q
          = fold put_event (published t ops) (queues h ! q))"
  using assms
proof (induction ops arbitrary: h)
  case Nil
  have "queues h ! q \<in> set (queues h)" using Nil.prems by (intro nth_mem) (auto simp: hub_ok_def listening_def)
  then show ?case using Nil.prems by (auto simp: hub_ok_def intro: exI [of _ 0])
next
  case (Cons op ops)
  let ?h = "hub_step op h" and ?Q = "queues (fold hub_step ops (hub_step op h)) ! q"
  have len: "length (queues h ! q) \<le> STREAM_LISTENER_QUEUE_MAXSIZE"
    using Cons.prems nth_mem [of q "queues h"] by (auto simp: hub_ok_def listening_def)
  have kl: "keeps_listening t q op" using Cons.prems(3) by simp
  note st = listener_step [OF Cons.prems(1,2) kl]
  have IH: "length ?Q \<le> STREAM_LISTENER_QUEUE_MAXSIZE \<and> (\<exists>n. ?Q = drop n (queues ?h ! q @ published t ops))
      \<and> (Take q \<notin> set ops \<longrightarrow> ?Q = fold put_event (published t ops) (queues ?h ! q))"
    by (rule Cons.IH) (use Cons.prems st(1) hub_ok_step in auto)
  have "\<exists>m. queues ?h ! q = drop m (queues h ! q @ published t [op])"
  proof (cases "op = Take q")
    case True
    then have "queues ?h ! q = drop 1 (queues h ! q @ published t [op])" using st(2) by (simp add: drop_Suc)
    then show ?thesis ..
  next
    case False
    then show ?thesis unfolding st(2) if_not_P [OF False] put_events_eq [OF len] by blast
  qed
  then obtain m n where m: "queues ?h ! q = drop m (queues h ! q @ published t [op])"
      and n: "?Q = drop n (queues ?h ! q @ published t ops)" using IH by blast
  have "\<exists>k. drop n (drop m xs @ ys) = drop k (xs @ ys)" for xs ys :: "task_event list"
    by (cases "m \<le> length xs") (auto intro: exI [of _ "n + m"] exI [of _ "n + length xs"])
  then have "\<exists>k. ?Q = drop k (queues h ! q @ published t (op # ops))"
    unfolding n m by (metis append_assoc published_Cons)
  then show ?case using IH st(2) by (auto simp: published_Cons [of t op ops] fold_append)
qed

text \<open>C18: However often a task publishes, a listener's queue never exceeds 100 events, holds the
  published events in order and without gaps (the oldest may be gone), and, as long as its reader takes
  nothing, is exactly the newest 100 of them.\<close>

theorem stream_keeps_newest:
  assumes "hub_ok h" and "listening h t q" and "\<forall>op \<in> set ops. keeps_listening t q op"
  shows "length (queues (fold hub_step ops h) ! q) \<le> 100
     \<and> (\<exists>n. queues (fold hub_step ops h) ! q = drop n (queues h ! q @ published t ops))
     \<and> (Take q \<notin> set ops \<longrightarrow> queues (fold hub_step ops h) ! q
          = tail_slice 100 (queues h ! q @ published t ops))"
proof -
  have "length (queues h ! q) \<le> STREAM_LISTENER_QUEUE_MAXSIZE"
    using assms nth_mem [of q "queues h"] by (auto simp: hub_ok_def listening_def)
  from put_events_eq [OF this, of "published t ops"] listener_run [OF assms] show ?thesis
    by (auto simp: STREAM_LISTENER_QUEUE_MAXSIZE_def tail_slice_def)
qed

definition chatty :: "hub_op list" where
  "chatty = map (\<lambda>i. Broadcast ''t1'' (Output_Event (nat_str i))) [0..<102]"

theorem stream_keeps_newest_witness:
  "\<exists>h q. subscribe ''t1'' empty_hub = (q, h)
     \<and> queues (fold hub_step chatty h) ! q = tail_slice 100 (queues h ! q @ published ''t1'' chatty)"
proof -
  define h where "h = snd (subscribe ''t1'' empty_hub)"
  have q: "subscribe ''t1'' empty_hub = (0, h)" by (simp add: subscribe_def h_def empty_hub_def)
  have "hub_ok empty_hub" by (simp add: hub_ok_def listening_def qs_of_def empty_hub_def)
  then have "hub_ok h" unfolding h_def by (rule hub_ok_subscribe)
  moreover have "listening h ''t1'' 0" by (simp add: h_def listening_def empty_hub_def)
  moreover have "\<forall>op \<in> set chatty. keeps_listening ''t1'' 0 op" by (auto simp: chatty_def keeps_listening_def)
  moreover have "Take 0 \<notin> set chatty" by (auto simp: chatty_def)
  ultimately show ?thesis using stream_keeps_newest [of h "''t1''" 0 chatty] q by blast
qed

end
