(* ===== verification/Vault.thy ===== *)
theory Vault
  imports Prelude "HOL-Library.Word"
begin

text \<open>
  \<open>VaultCrypto\<close> of \<open>backend/secuscan/vault.py\<close>, the key derivation \<open>resolved_vault_key\<close> of
  \<open>config.py\<close>, and the base64 codec both use (\<open>base64.urlsafe_b64encode\<close> and the lenient decoder of
  \<open>binascii\<close>, which skips foreign characters and stops at a complete padding). Bytes are 8-bit words.
  AES-256-GCM, SHA-256 and the random nonce are parameters. Texts are ASCII, so UTF-8 is the identity
  on them; \<open>None\<close> of \<open>utf8_decode\<close> is a byte sequence that is no such text.
\<close>

type_synonym bytes = "8 word list"

definition utf8_encode :: "string \<Rightarrow> bytes" where
  "utf8_encode s = map (\<lambda>c. word_of_nat (char_nat c)) s"

definition utf8_decode :: "bytes \<Rightarrow> string option" where
  "utf8_decode bs = (if list_all (\<lambda>b. unat b < 128) bs then Some (map (\<lambda>b. char_of (unat b)) bs) else None)"

subsection \<open>Base64\<close>

definition sextet_char :: "nat \<Rightarrow> char" where
  "sextet_char n =
     (if n < 26 then char_of (65 + n) else if n < 52 then char_of (71 + n) else if n < 62 then char_of (n - 4)
      else if n = 62 then CHR ''-'' else CHR ''_'')"

definition char_sextet :: "char \<Rightarrow> nat option" where
  "char_sextet c =
     (let n = char_nat c in
      if is_upper c then Some (n - 65) else if is_lower c then Some (n - 71) else if is_digit c then Some (n + 4)
      else if c = CHR ''-'' \<or> c = CHR ''+'' then Some 62
      else if c = CHR ''_'' \<or> c = CHR ''/'' then Some 63 else None)"

fun b64_encode :: "bytes \<Rightarrow> string" where
  "b64_encode (a # b # c # bs) =
     sextet_char (unat a div 4) # sextet_char ((unat a mod 4) * 16 + unat b div 16)
     # sextet_char ((unat b mod 16) * 4 + unat c div 64) # sextet_char (unat c mod 64) # b64_encode bs"
| "b64_encode [a, b] =
     [sextet_char (unat a div 4), sextet_char ((unat a mod 4) * 16 + unat b div 16),
      sextet_char ((unat b mod 16) * 4), CHR ''='']"
| "b64_encode [a] = [sextet_char (unat a div 4), sextet_char ((unat a mod 4) * 16), CHR ''='', CHR ''='']"
| "b64_encode [] = []"

text \<open>\<open>quad\<close>: sextets of the open group, \<open>left\<close>: bits not yet output, \<open>pads\<close>: padding seen.\<close>

fun b64_scan :: "nat \<Rightarrow> nat \<Rightarrow> nat \<Rightarrow> string \<Rightarrow> bytes option" where
  "b64_scan quad left pads [] = (if quad = 0 then Some [] else None)"
| "b64_scan quad left pads (c # cs) =
     (if c = CHR ''='' then
        (if quad < 2 then b64_scan quad left pads cs
         else if quad + (pads + 1) \<ge> 4 then Some [] else b64_scan quad left (pads + 1) cs)
      else case char_sextet c of
          None \<Rightarrow> b64_scan quad left pads cs
        | Some v \<Rightarrow>
            if quad = 0 then b64_scan 1 v 0 cs
            else if quad = 1 then map_option ((#) (word_of_nat (left * 4 + v div 16))) (b64_scan 2 (v mod 16) 0 cs)
            else if quad = 2 then map_option ((#) (word_of_nat (left * 16 + v div 4))) (b64_scan 3 (v mod 4) 0 cs)
            else map_option ((#) (word_of_nat (left * 64 + v))) (b64_scan 0 0 0 cs))"

definition b64_decode :: "string \<Rightarrow> bytes option" where
  "b64_decode s = b64_scan 0 0 0 s"

lemma char_sextet_char [simp]:
  assumes "n < 64"
  shows "char_sextet (sextet_char n) = Some n" and "sextet_char n \<noteq> CHR ''=''"
proof -
  have c: "char_nat (char_of k) = k" if "k < 128" for k using that by (simp add: char_nat_def take_bit_eq_mod)
  have lit: "char_nat (CHR ''-'') = 45" "char_nat (CHR ''_'') = 95" "char_nat (CHR ''='') = 61"
    by (simp_all add: char_nat_def)
  have e: "char_nat d \<noteq> char_nat e \<Longrightarrow> d \<noteq> e" for d e by auto
  have d: "48 \<le> n - 4" "n - 4 \<le> 57" if "52 \<le> n" "n < 62" using that by linarith+
  consider "n < 26" | "26 \<le> n" "n < 52" | "52 \<le> n" "n < 62" | "n = 62" | "n = 63" using assms by linarith
  then show "char_sextet (sextet_char n) = Some n"
    by cases (simp_all add: char_sextet_def sextet_char_def is_upper_def is_lower_def is_digit_def c lit d Let_def)
  from assms have "char_nat (sextet_char n) \<noteq> 61" by (auto simp: sextet_char_def c lit)
  then show "sextet_char n \<noteq> CHR ''=''" using e lit(3) by metis
qed

lemma byte_less: "unat (b :: 8 word) < 256"
  using unsigned_less [of b, where 'a = nat] by simp

lemma sextets_less [simp]:
  "unat (a :: 8 word) div 4 < 64" "(unat (a :: 8 word) mod 4) * 16 + unat (b :: 8 word) div 16 < 64"
  "(unat (b :: 8 word) mod 16) * 4 + unat (c :: 8 word) div 64 < 64" "unat (c :: 8 word) mod 64 < 64"
  "(unat (a :: 8 word) mod 4) * 16 < 64" "(unat (b :: 8 word) mod 16) * 4 < 64"
proof -
  have "unat a mod 4 < 4" "unat b mod 16 < 16" "unat b div 16 < 16" "unat c div 64 < 4" "unat a div 4 < 64"
    using byte_less [of a] byte_less [of b] byte_less [of c] by simp_all
  then show "unat a div 4 < 64" "(unat a mod 4) * 16 + unat b div 16 < 64"
    "(unat b mod 16) * 4 + unat c div 64 < 64" "unat c mod 64 < 64"
    "(unat a mod 4) * 16 < 64" "(unat b mod 16) * 4 < 64"
    by simp_all
qed

lemma byte_parts [simp]:
  "unat (b :: 8 word) div 16 div 16 = 0" "unat (c :: 8 word) div 64 div 4 = 0"
  "unat (b :: 8 word) div 16 mod 16 = unat b div 16" "unat (c :: 8 word) div 64 mod 4 = unat c div 64"
  using byte_less [of b] byte_less [of c] by (simp_all flip: div_mult2_eq)

lemma b64_roundtrip: "b64_decode (b64_encode bs) = Some bs"
  unfolding b64_decode_def
  by (induction bs rule: b64_encode.induct) (simp_all del: of_nat_add of_nat_mult)

lemma utf8_roundtrip: "\<forall>c \<in> set s. char_nat c < 128 \<Longrightarrow> utf8_decode (utf8_encode s) = Some s"
  by (auto simp: utf8_encode_def utf8_decode_def unat_of_nat char_nat_def list_all_iff intro!: map_idI)

subsection \<open>The vault\<close>

text \<open>\<open>seal key nonce text\<close> and \<open>unseal key nonce data\<close>; \<open>None\<close>: the tag does not verify.\<close>

record aead =
  seal :: "bytes \<Rightarrow> bytes \<Rightarrow> bytes \<Rightarrow> bytes"
  unseal :: "bytes \<Rightarrow> bytes \<Rightarrow> bytes \<Rightarrow> bytes option"

datatype vault_error =
    Key_Not_Base64 | Key_Wrong_Length nat | Payload_Not_Base64 | Integrity_Failure | Not_Text | No_Vault_Key

record vault =
  vault_raw_key :: bytes
  key_fingerprint :: string

definition NONCE_LEN :: nat where
  "NONCE_LEN = 12"

definition FINGERPRINT_DOMAIN :: string where
  "FINGERPRINT_DOMAIN = ''secuscan/vault-key-fingerprint/v1''"

definition FINGERPRINT_BYTES :: nat where
  "FINGERPRINT_BYTES = 8"

definition hex_digit :: "nat \<Rightarrow> char" where
  "hex_digit n = ''0123456789abcdef'' ! n"

definition hex_byte :: "8 word \<Rightarrow> string" where
  "hex_byte b = [hex_digit (unat b div 16), hex_digit (unat b mod 16)]"

definition compute_fingerprint :: "(bytes \<Rightarrow> bytes) \<Rightarrow> bytes \<Rightarrow> string" where
  "compute_fingerprint sha256 raw =
     join_with '':'' (map hex_byte (take FINGERPRINT_BYTES (sha256 (utf8_encode FINGERPRINT_DOMAIN @ raw))))"

definition vault_init :: "(bytes \<Rightarrow> bytes) \<Rightarrow> string \<Rightarrow> vault_error + vault" where
  "vault_init sha256 key =
     (case b64_decode key of
        None \<Rightarrow> Inl Key_Not_Base64
      | Some raw \<Rightarrow>
          if length raw \<noteq> 32 then Inl (Key_Wrong_Length (length raw))
          else Inr \<lparr>vault_raw_key = raw, key_fingerprint = compute_fingerprint sha256 raw\<rparr>)"

definition resolved_vault_key ::
  "(bytes \<Rightarrow> bytes) \<Rightarrow> string option \<Rightarrow> string option \<Rightarrow> vault_error + string" where
  "resolved_vault_key sha256 vault_key plugin_signature_key =
     (let filled = (\<lambda>s. s \<noteq> None \<and> s \<noteq> Some []);
          seed = (if filled vault_key then vault_key else plugin_signature_key)
      in if \<not> filled seed then Inl No_Vault_Key else Inr (b64_encode (sha256 (utf8_encode (the seed)))))"

definition encrypt :: "aead \<Rightarrow> bytes \<Rightarrow> string \<Rightarrow> vault \<Rightarrow> string" where
  "encrypt cipher nonce plaintext v =
     b64_encode (nonce @ seal cipher (vault_raw_key v) nonce (utf8_encode plaintext))"

text \<open>\<open>payload.encode("ascii")\<close> cannot fail on an ASCII text.\<close>

definition decrypt :: "aead \<Rightarrow> string \<Rightarrow> vault \<Rightarrow> vault_error + string" where
  "decrypt cipher payload v =
     (case b64_decode payload of
        None \<Rightarrow> Inl Payload_Not_Base64
      | Some blob \<Rightarrow>
          (case unseal cipher (vault_raw_key v) (take NONCE_LEN blob) (drop NONCE_LEN blob) of
             None \<Rightarrow> Inl Integrity_Failure
           | Some raw \<Rightarrow> (case utf8_decode raw of None \<Rightarrow> Inl Not_Text | Some s \<Rightarrow> Inr s)))"

text \<open>
  The contract of the cipher: under a key and a nonce exactly the sealed forms open (the encryption is
  a deterministic bijection and the tag is a function of key, nonce and ciphertext).
\<close>

definition opens_sealed :: "aead \<Rightarrow> bool" where
  "opens_sealed cipher \<longleftrightarrow> (\<forall>k n m d. unseal cipher k n d = Some m \<longleftrightarrow> d = seal cipher k n m)"

lemma decrypt_encrypt:
  assumes "opens_sealed cipher" and "length nonce = NONCE_LEN" and "\<forall>c \<in> set s. char_nat c < 128"
  shows "decrypt cipher (encrypt cipher nonce s v) v = Inr s"
proof -
  have "unseal cipher k n (seal cipher k n m) = Some m" for k n m using assms(1) by (simp add: opens_sealed_def)
  then show ?thesis using assms(2,3) by (simp add: decrypt_def encrypt_def b64_roundtrip utf8_roundtrip)
qed

lemma decrypt_sealed:
  assumes "opens_sealed cipher" and "decrypt cipher payload v = Inr s"
  shows "\<exists>nonce m. b64_decode payload = Some (nonce @ seal cipher (vault_raw_key v) nonce m) \<and> utf8_decode m = Some s"
proof -
  obtain blob m where b: "b64_decode payload = Some blob"
      and m: "unseal cipher (vault_raw_key v) (take NONCE_LEN blob) (drop NONCE_LEN blob) = Some m" "utf8_decode m = Some s"
    using assms(2) by (auto simp: decrypt_def split: option.splits)
  have "drop NONCE_LEN blob = seal cipher (vault_raw_key v) (take NONCE_LEN blob) m"
    using assms(1) m(1) by (simp add: opens_sealed_def)
  then have "blob = take NONCE_LEN blob @ seal cipher (vault_raw_key v) (take NONCE_LEN blob) m"
    by (metis append_take_drop_id)
  then show ?thesis using b m(2) by metis
qed

text \<open>C16: A configured seed always gives a vault whose key has 32 bytes; in that vault decrypting what
  was encrypted, under whatever 12-byte nonce, returns the secret; and a stored payload decrypts only
  if it is a nonce followed by a text sealed under this vault's key, so a tampered one is refused.\<close>

theorem vault_roundtrip:
  assumes "opens_sealed cipher" and "\<forall>m. length (sha256 m) = 32"
    and "resolved_vault_key sha256 vault_key signature_key = Inr key"
    and "length nonce = 12" and "\<forall>c \<in> set s. char_nat c < 128"
  shows "\<exists>v. vault_init sha256 key = Inr v \<and> length (vault_raw_key v) = 32
     \<and> decrypt cipher (encrypt cipher nonce s v) v = Inr s
     \<and> (\<forall>payload s'. decrypt cipher payload v = Inr s' \<longrightarrow> (\<exists>n m. utf8_decode m = Some s'
          \<and> b64_decode payload = Some (n @ seal cipher (vault_raw_key v) n m)))"
proof -
  obtain m where "key = b64_encode (sha256 m)"
    using assms(3) by (auto simp: resolved_vault_key_def Let_def split: if_splits)
  have sealed: "\<exists>n m. utf8_decode m = Some s' \<and> b64_decode payload = Some (n @ seal cipher (vault_raw_key v) n m)"
    if "decrypt cipher payload v = Inr s'" for payload v s'
    using decrypt_sealed [OF assms(1) that] by blast
  from \<open>key = _\<close> have "vault_init sha256 key
      = Inr \<lparr>vault_raw_key = sha256 m, key_fingerprint = compute_fingerprint sha256 (sha256 m)\<rparr>"
    using assms(2) by (simp add: vault_init_def b64_roundtrip)
  then obtain v where v: "vault_init sha256 key = Inr v" "length (vault_raw_key v) = 32" using assms(2) by auto
  moreover have "decrypt cipher (encrypt cipher nonce s v) v = Inr s"
    using decrypt_encrypt [OF assms(1) _ assms(5)] assms(4) by (simp add: NONCE_LEN_def)
  ultimately show ?thesis using sealed by blast
qed

definition toy_cipher :: aead where
  "toy_cipher = \<lparr>seal = (\<lambda>k n m. 7 # m), unseal = (\<lambda>k n d. case d of b # m \<Rightarrow> if b = 7 then Some m else None
     | [] \<Rightarrow> None)\<rparr>"

definition toy_sha :: "bytes \<Rightarrow> bytes" where
  "toy_sha m = take 32 (m @ replicate 32 0)"

theorem vault_roundtrip_witness:
  "\<exists>key v. resolved_vault_key toy_sha None (Some ''seed'') = Inr key \<and> vault_init toy_sha key = Inr v
     \<and> decrypt toy_cipher (encrypt toy_cipher (replicate 12 7) ''hunter2'' v) v = Inr ''hunter2''"
proof -
  obtain key where key: "resolved_vault_key toy_sha None (Some ''seed'') = Inr key"
    by (simp add: resolved_vault_key_def)
  have "opens_sealed toy_cipher" by (auto simp: opens_sealed_def toy_cipher_def split: list.splits)
  moreover have "\<forall>m. length (toy_sha m) = 32" by (simp add: toy_sha_def min_def)
  moreover have "\<forall>c \<in> set ''hunter2''. char_nat c < 128" by (simp add: char_nat_def)
  ultimately show ?thesis
    using vault_roundtrip [of toy_cipher toy_sha None "Some ''seed''" key "replicate 12 7" "''hunter2''"] key by auto
qed

end
