(* ===== verification/Task_Launch.thy ===== *)
theory Task_Launch
  imports Finding_Intelligence Plugin_Commands Vault
begin

text \<open>
  What \<open>TaskExecutor\<close> (\<open>backend/secuscan/executor.py\<close>) decides before and after a scanner runs: the
  execution context (\<open>execution_context.py\<close>), the target of a task (\<open>executor_target_helpers.py\<close>), the
  guardrails, the inputs with credentials added, every check between the claim of a task and the launch
  of its command, the time limit, and the classification of the exit code. It composes the models of
  target validation, the policy engine, capabilities, command rendering and the vault. Parameters: the
  environment of those models, database rows as values, \<open>json.loads\<close>, whether a check ran into its
  time-out, and whether the Docker network could be provided.
\<close>

subsection \<open>Execution context\<close>

record exec_context =
  c_target_policy_id :: "string option"
  c_scan_profile :: string
  c_credential_profile_id :: "string option"
  c_session_profile_id :: "string option"
  c_validation_mode :: string
  c_evidence_level :: string

definition default_context :: exec_context where
  "default_context = \<lparr>c_target_policy_id = None, c_scan_profile = ''standard'', c_credential_profile_id = None,
     c_session_profile_id = None, c_validation_mode = ''proof'', c_evidence_level = ''standard''\<rparr>"

text \<open>The fields as the model class validates them; \<open>None\<close> is its \<open>ValidationError\<close>.\<close>

definition opt_text_field :: "dict \<Rightarrow> string \<Rightarrow> string option option" where
  "opt_text_field d k = (case jget d k of JNull \<Rightarrow> Some None | JStr s \<Rightarrow> Some (Some s) | _ \<Rightarrow> None)"

definition text_field :: "dict \<Rightarrow> string \<Rightarrow> string \<Rightarrow> (string \<Rightarrow> bool) \<Rightarrow> string option" where
  "text_field d k dflt ok =
     (case jget_or d k (JStr dflt) of JStr s \<Rightarrow> if ok s then Some s else None | _ \<Rightarrow> None)"

definition normalize_execution_context :: "json \<Rightarrow> exec_context option" where
  "normalize_execution_context raw =
     (case raw of
        JObj d \<Rightarrow>
          (case (opt_text_field d ''target_policy_id'', opt_text_field d ''credential_profile_id'',
                 opt_text_field d ''session_profile_id'', text_field d ''scan_profile'' ''standard'' (\<lambda>s. True),
                 text_field d ''validation_mode'' ''proof'' (\<lambda>s. s \<in> {''detect_only'', ''proof'', ''controlled_extract''}),
                 text_field d ''evidence_level'' ''standard'' (\<lambda>s. s \<in> {''minimal'', ''standard'', ''full''})) of
             (Some t, Some c, Some s, Some p, Some m, Some l) \<Rightarrow>
               Some \<lparr>c_target_policy_id = t, c_scan_profile = p, c_credential_profile_id = c,
                     c_session_profile_id = s, c_validation_mode = m, c_evidence_level = l\<rparr>
           | _ \<Rightarrow> None)
      | _ \<Rightarrow> Some default_context)"

definition is_offensive_validation :: "exec_context \<Rightarrow> bool" where
  "is_offensive_validation c =
     ((if c_validation_mode c = [] then ''proof'' else c_validation_mode c) \<in> {''proof'', ''controlled_extract''})"

definition evidence_level_rank :: "string \<Rightarrow> int" where
  "evidence_level_rank l = (if l = ''minimal'' then 0 else if l = ''full'' then 2 else 1)"

subsection \<open>Target and time limit\<close>

definition extract_target :: "dict \<Rightarrow> json" where
  "extract_target i = jor (jget i ''target'') (jor (jget i ''url'') (jor (jget i ''host'')
     (jor (jget i ''domain'') (JStr []))))"

text \<open>\<open>int(v)\<close>: truncation of floats, parsing of texts; \<open>None\<close> for a \<open>TypeError\<close> or \<open>ValueError\<close>.\<close>

definition py_int_of :: "json \<Rightarrow> int option" where
  "py_int_of v =
     (case v of
        JInt i \<Rightarrow> Some i | JBool b \<Rightarrow> Some (if b then 1 else 0)
      | JFloat r \<Rightarrow> Some (if r < 0 then \<lceil>r\<rceil> else \<lfloor>r\<rfloor>)
      | JStr s \<Rightarrow> py_int s | _ \<Rightarrow> None)"

definition requested_timeout :: "dict \<Rightarrow> int option" where
  "requested_timeout inputs =
     first_some (\<lambda>k. case py_int_of (jget inputs k) of None \<Rightarrow> None | Some t \<Rightarrow> if t > 0 then Some t else None)
       [''max_scan_time'', ''timeout'']"

definition resolve_execution_timeout :: "int \<Rightarrow> dict \<Rightarrow> int" where
  "resolve_execution_timeout sandbox_timeout inputs =
     (case requested_timeout inputs of None \<Rightarrow> sandbox_timeout | Some t \<Rightarrow> min t sandbox_timeout)"

subsection \<open>Exit codes\<close>

datatype task_status = QUEUED | RUNNING | COMPLETED | FAILED | CANCELLED

definition all_some :: "'a option list \<Rightarrow> 'a list option" where
  "all_some xs = (if list_all (\<lambda>x. x \<noteq> None) xs then Some (map the xs) else None)"

definition tolerated_codes :: "dict \<Rightarrow> int list" where
  "tolerated_codes output =
     (case iterate (jget_or output ''nonfatal_exit_codes'' (JList [])) of
        None \<Rightarrow> []
      | Some vs \<Rightarrow> (case all_some (map py_int_of vs) of None \<Rightarrow> [] | Some codes \<Rightarrow> codes))"

definition matched_success_pattern :: "string \<Rightarrow> json list \<Rightarrow> bool" where
  "matched_success_pattern normalized_output ps =
     list_ex (\<lambda>p. case p of JStr s \<Rightarrow> contains_sub normalized_output (py_lower s) | _ \<Rightarrow> False) ps"

text \<open>\<open>None\<close>: the success patterns of the plugin are nothing that can be iterated.\<close>

definition classify_command_result :: "plugin \<Rightarrow> string \<Rightarrow> int \<Rightarrow> (task_status \<times> string option) option" where
  "classify_command_result p output exit_code =
     (let low = py_lower output in
      if contains_sub low ''unknown option:'' \<or> contains_sub low ''flag provided but not defined:''
      then Some (FAILED, Some output)
      else if exit_code = 0 then Some (COMPLETED, None)
      else case iterate (jget_or (p_output p) ''success_output_patterns'' (JList [])) of
          None \<Rightarrow> None
        | Some ps \<Rightarrow>
            if exit_code \<in> set (tolerated_codes (p_output p)) \<and> matched_success_pattern low ps
            then Some (COMPLETED, None)
            else Some (FAILED, Some (''Tool returned non-zero exit code '' @ int_str exit_code
                   @ ''. Check raw output for details.'')))"

subsection \<open>Guardrails\<close>

record launch_env =
  le_net :: net_settings
  le_egress :: egress_settings
  le_world :: world
  le_later :: world \<comment> \<open>when the built command is checked\<close>
  le_validation_late :: bool
  le_pinning_late :: bool
  le_plugins :: "(string \<times> plugin) list"
  le_denied :: "string list"
  le_repr :: "json \<Rightarrow> string"
  le_rx :: regex_engine
  le_fs :: file_system
  le_wordlists :: path
  le_docker_enabled :: bool
  le_docker_network :: string
  le_docker_ready :: bool
  le_memory_mb :: int
  le_cpu_quota :: string
  le_sandbox_timeout :: int

type_synonym guard_state = "dns_cache \<times> engine"

datatype guard =
    Guard_Pass "string option" \<comment> \<open>the pinned address\<close>
  | Guard_Fail string \<comment> \<open>the task is marked as failed with this message\<close>
  | Guard_Raise \<comment> \<open>an exception\<close>

definition is_code_plugin :: "launch_env \<Rightarrow> string \<Rightarrow> bool" where
  "is_code_plugin e plugin_id =
     (case map_of (le_plugins e) plugin_id of None \<Rightarrow> False | Some p \<Rightarrow> p_category p = ''code'')"

text \<open>The thread of a check that timed out runs on, so its state changes happen all the same.\<close>

definition validation_guard :: "launch_env \<Rightarrow> bool \<Rightarrow> string \<Rightarrow> dns_cache \<Rightarrow> guard \<times> dns_cache" where
  "validation_guard e safe target cache =
     (let w = le_world e in
      case validate_target (le_net e) (dns_v w) (now_v w) (dns_v2 w) (now_v2 w) safe target cache of
        None \<Rightarrow> (if le_validation_late e then Guard_Fail ''Target validation timed out (SecuScan Guardrail)''
                 else Guard_Raise, cache)
      | Some ((ok, msg), cache') \<Rightarrow>
          (if le_validation_late e then Guard_Fail ''Target validation timed out (SecuScan Guardrail)''
           else if ok then Guard_Pass None else Guard_Fail (''Safe mode target validation failed: '' @ msg), cache'))"

definition policy_guard :: "launch_env \<Rightarrow> string \<Rightarrow> string \<Rightarrow> string \<Rightarrow> engine \<Rightarrow> guard \<times> engine" where
  "policy_guard e plugin_id task target eng =
     (let w = le_world e;
          verdict = (\<lambda>pinned ok why.
            if ok \<or> network_policy_failure_mode (le_egress e) = ''log_only'' then Guard_Pass pinned
            else Guard_Fail (''Network policy denied access to '' @ target @ '': '' @ why));
          timed_out = verdict None False ''Network policy check timed out (DNS resolution timeout)''
      in case resolve_and_pin (dns_p w) (now_p w) target plugin_id task eng of
           None \<Rightarrow> (if le_pinning_late e then timed_out else Guard_Raise, eng)
         | Some ((pinned, ok, why), eng') \<Rightarrow> (if le_pinning_late e then timed_out else verdict pinned ok why, eng'))"

definition enforce_guardrails ::
  "launch_env \<Rightarrow> string \<Rightarrow> json \<Rightarrow> string \<Rightarrow> bool \<Rightarrow> guard_state \<Rightarrow> guard \<times> guard_state" where
  "enforce_guardrails e task target plugin_id safe st =
     (if \<not> truthy target then (Guard_Pass None, st)
      else case target of
          JStr t \<Rightarrow>
            (let (g, cache) = (if is_code_plugin e plugin_id \<or> is_filesystem_target t then (Guard_Pass None, fst st)
                               else validation_guard e safe t (fst st))
             in case g of
                  Guard_Pass _ \<Rightarrow>
                    if enforce_network_policy (le_egress e)
                    then (let (g', eng) = policy_guard e plugin_id task t (snd st) in (g', cache, eng))
                    else (Guard_Pass None, cache, snd st)
                | _ \<Rightarrow> (g, cache, snd st))
        | _ \<Rightarrow> (Guard_Raise, st))"

subsection \<open>Credentials and sessions\<close>

text \<open>The tables the executor reads, in the order the database returns them, and the vault settings.\<close>

record profile_store =
  target_policies :: "dict list"
  credential_profiles :: "dict list"
  session_profiles :: "dict list"
  vault_rows :: "(string \<times> string \<times> string) list" \<comment> \<open>owner, name, encrypted value\<close>
  ps_loads :: "string \<Rightarrow> json option" \<comment> \<open>\<open>json.loads\<close>\<close>
  ps_repr :: "json \<Rightarrow> string"
  ps_cipher :: aead
  ps_sha256 :: "bytes \<Rightarrow> bytes"
  ps_vault_key :: "string option"
  ps_signature_key :: "string option"

definition deserialize_resource_row :: "(string \<Rightarrow> json option) \<Rightarrow> dict \<Rightarrow> dict" where
  "deserialize_resource_row loads row =
     fold (\<lambda>k item. case jget item k of
             JStr s \<Rightarrow> if ends_with k ''_json''
                       then aput (take (length k - 5) k) (case loads s of None \<Rightarrow> JStr s | Some v \<Rightarrow> v) item
                       else item
           | _ \<Rightarrow> item) (akeys row) row"

definition owned_row :: "profile_store \<Rightarrow> dict list \<Rightarrow> string \<Rightarrow> string option \<Rightarrow> dict option" where
  "owned_row ps rows owner row_id =
     (case row_id of
        None \<Rightarrow> None
      | Some i \<Rightarrow> if i = [] then None
          else map_option (deserialize_resource_row (ps_loads ps))
                 (find (\<lambda>r. jget r ''id'' = JStr i \<and> jget r ''owner_id'' = JStr owner) rows))"

datatype hydrate_error = Vault_Failure vault_error | Not_A_Mapping

text \<open>\<open>_read_vault_secret\<close>: the row is looked up by name alone.\<close>

definition read_vault_secret :: "profile_store \<Rightarrow> json \<Rightarrow> hydrate_error + string option" where
  "read_vault_secret ps name =
     (if \<not> truthy name then Inr None
      else case find (\<lambda>(owner, n, enc). n = show_json (ps_repr ps) name) (vault_rows ps) of
          None \<Rightarrow> Inr None
        | Some (owner, n, enc) \<Rightarrow>
            (case resolved_vault_key (ps_sha256 ps) (ps_vault_key ps) (ps_signature_key ps) of
               Inl e \<Rightarrow> Inl (Vault_Failure e)
             | Inr key \<Rightarrow>
                 (case vault_init (ps_sha256 ps) key of
                    Inl e \<Rightarrow> Inl (Vault_Failure e)
                  | Inr v \<Rightarrow> (case decrypt (ps_cipher ps) enc v of
                                Inl e \<Rightarrow> Inl (Vault_Failure e)
                              | Inr s \<Rightarrow> Inr (Some s)))))"

definition shown_items :: "profile_store \<Rightarrow> dict \<Rightarrow> dict" where
  "shown_items ps d = map (\<lambda>(k, v). (k, JStr (show_json (ps_repr ps) v))) d"

text \<open>\<open>profile.get("extra_headers", {}) or {}\<close>, which must be a mapping.\<close>

definition profile_headers :: "dict \<Rightarrow> hydrate_error + dict" where
  "profile_headers profile =
     (case jor (jget_or profile ''extra_headers'' (JObj [])) (JObj []) of
        JObj h \<Rightarrow> Inr h | _ \<Rightarrow> Inl Not_A_Mapping)"

definition std_base64 :: "string \<Rightarrow> string" where
  "std_base64 s = map (\<lambda>c. if c = CHR ''-'' then CHR ''+'' else if c = CHR ''_'' then CHR ''/'' else c)
     (b64_encode (utf8_encode s))"

definition header_dict :: "dict \<Rightarrow> dict" where
  "header_dict d = (case jget d ''__extra_headers'' of JObj h \<Rightarrow> h | _ \<Rightarrow> [])"

definition add_credentials :: "profile_store \<Rightarrow> dict option \<Rightarrow> dict \<Rightarrow> hydrate_error + dict" where
  "add_credentials ps profile d =
     (case profile of
        None \<Rightarrow> Inr d
      | Some p \<Rightarrow>
          (case profile_headers p of
             Inl e \<Rightarrow> Inl e
           | Inr headers \<Rightarrow>
               let d1 = aput ''__extra_headers'' (JObj (shown_items ps headers)) d in
               (case read_vault_secret ps (jget p ''username_secret_name'') of
                  Inl e \<Rightarrow> Inl e
                | Inr username \<Rightarrow>
                    (case read_vault_secret ps (jget p ''password_secret_name'') of
                       Inl e \<Rightarrow> Inl e
                     | Inr password \<Rightarrow>
                         (case (username, password) of
                            (Some u, Some w) \<Rightarrow>
                              Inr (aput ''__extra_headers''
                                (JObj (aput ''Authorization'' (JStr (''Basic '' @ std_base64 (u @ '':'' @ w)))
                                  (header_dict d1))) d1)
                          | _ \<Rightarrow> Inr d1)))))"

definition add_cookies :: "profile_store \<Rightarrow> string option \<Rightarrow> dict \<Rightarrow> dict" where
  "add_cookies ps cookie d =
     (case cookie of
        None \<Rightarrow> d
      | Some c \<Rightarrow>
          if c = [] then d
          else case ps_loads ps c of
              None \<Rightarrow> aput ''__cookies'' (JObj [(''session'', JStr c)]) d
            | Some (JObj kvs) \<Rightarrow> aput ''__cookies'' (JObj (shown_items ps kvs)) d
            | Some _ \<Rightarrow> d)"

text \<open>
  \<open>effective_inputs.setdefault("__extra_headers", {})\<close> may find a value the client stored under that
  key; item assignment on anything but a mapping raises.
\<close>

definition add_session :: "profile_store \<Rightarrow> dict option \<Rightarrow> dict \<Rightarrow> hydrate_error + dict" where
  "add_session ps profile d =
     (case profile of
        None \<Rightarrow> Inr d
      | Some p \<Rightarrow>
          (case profile_headers p of
             Inl e \<Rightarrow> Inl e
           | Inr headers \<Rightarrow>
               (case (if headers = [] then Inr d
                      else case jget_or d ''__extra_headers'' (JObj []) of
                          JObj h \<Rightarrow> Inr (aput ''__extra_headers''
                            (JObj (fold (\<lambda>(k, v). aput k v) (shown_items ps headers) h)) d)
                        | _ \<Rightarrow> Inl Not_A_Mapping) of
                  Inl e \<Rightarrow> Inl e
                | Inr d1 \<Rightarrow>
                    (case read_vault_secret ps (jget p ''cookie_secret_name'') of
                       Inl e \<Rightarrow> Inl e
                     | Inr cookie \<Rightarrow> Inr (add_cookies ps cookie d1)))))"

definition opt_json :: "string option \<Rightarrow> json" where
  "opt_json v = (case v of None \<Rightarrow> JNull | Some s \<Rightarrow> JStr s)"

definition context_json :: "exec_context \<Rightarrow> json" where
  "context_json c = JObj [(''target_policy_id'', opt_json (c_target_policy_id c)),
     (''scan_profile'', JStr (c_scan_profile c)), (''credential_profile_id'', opt_json (c_credential_profile_id c)),
     (''session_profile_id'', opt_json (c_session_profile_id c)),
     (''validation_mode'', JStr (c_validation_mode c)), (''evidence_level'', JStr (c_evidence_level c))]"

definition hydrate_inputs :: "profile_store \<Rightarrow> string \<Rightarrow> dict \<Rightarrow> exec_context \<Rightarrow> hydrate_error + dict" where
  "hydrate_inputs ps owner inputs c =
     (let d = (case owned_row ps (target_policies ps) owner (c_target_policy_id c) of
                 None \<Rightarrow> inputs | Some p \<Rightarrow> aput ''__target_policy'' (JObj p) inputs)
      in case add_credentials ps (owned_row ps (credential_profiles ps) owner (c_credential_profile_id c)) d of
           Inl e \<Rightarrow> Inl e
         | Inr d1 \<Rightarrow>
             (case add_session ps (owned_row ps (session_profiles ps) owner (c_session_profile_id c)) d1 of
                Inl e \<Rightarrow> Inl e
              | Inr d2 \<Rightarrow> Inr (aput ''__execution_context'' (context_json c) d2)))"

subsection \<open>From the claimed task to the command\<close>

definition MODULAR_SCANNERS :: "string list" where
  "MODULAR_SCANNERS = [''port_scanner'', ''web_scanner'', ''recon_scanner'', ''network_scanner'',
     ''api_scanner'', ''zap_scanner'', ''xss_exploiter'']"

datatype abort =
    Bad_Context
  | Hydration_Failed hydrate_error
  | Guard_Exception
  | Unknown_Plugin
  | Capability_Refused cap_outcome
  | Needs_Offensive_Context
  | Input_Refused input_error
  | No_Command
  | Egress_Failed egress_error
  | No_Docker_Network

datatype launch =
    Launch_Modular string json dict
  | Launch_Command "string list" int \<comment> \<open>argument vector and time limit\<close>
  | Rejected string \<comment> \<open>failed by a guardrail, with its message\<close>
  | Aborted abort \<comment> \<open>an exception\<close>

definition docker_prefix :: "launch_env \<Rightarrow> plugin \<Rightarrow> string \<Rightarrow> string list" where
  "docker_prefix e p task =
     [''docker'', ''run'', ''--rm'', ''--name'', ''secuscan_task_'' @ task,
      ''--memory'', int_str (le_memory_mb e) @ ''m'', ''--cpus'', le_cpu_quota e,
      ''--cap-drop'', ''NET_RAW'', ''--network'', le_docker_network e,
      (case p_docker_image p of Some i \<Rightarrow> if i = [] then ''alpine:latest'' else i | None \<Rightarrow> ''alpine:latest'')]"

definition prepare_standard ::
  "launch_env \<Rightarrow> plugin \<Rightarrow> string \<Rightarrow> string \<Rightarrow> bool \<Rightarrow> dict \<Rightarrow> guard_state \<Rightarrow> launch \<times> guard_state" where
  "prepare_standard e p task plugin_id safe inputs st =
     (case build_command (le_repr e) (le_rx e) (le_fs e) (le_wordlists e) (le_plugins e) plugin_id inputs of
        Inl err \<Rightarrow> (Aborted (Input_Refused err), st)
      | Inr None \<Rightarrow> (Aborted No_Command, st)
      | Inr (Some cmd) \<Rightarrow>
          if cmd = [] then (Aborted No_Command, st)
          else (case validate_command_network_egress (le_net e) (le_egress e) (le_later e) safe plugin_id task
                       None cmd st of
                  (Some err, st') \<Rightarrow> (Aborted (Egress_Failed err), st')
                | (None, st') \<Rightarrow>
                    (if le_docker_enabled e \<and> \<not> le_docker_ready e then (Aborted No_Docker_Network, st')
                     else (Launch_Command ((if le_docker_enabled e then docker_prefix e p task else []) @ cmd)
                             (resolve_execution_timeout (le_sandbox_timeout e) inputs), st'))))"

definition safety_level :: "launch_env \<Rightarrow> plugin \<Rightarrow> string" where
  "safety_level e p = show_json (le_repr e) (jget_or (p_safety p) ''level'' (JStr ''safe''))"

definition prepare_launch ::
  "launch_env \<Rightarrow> profile_store \<Rightarrow> string \<Rightarrow> string \<Rightarrow> string \<Rightarrow> bool \<Rightarrow> dict \<Rightarrow> json \<Rightarrow> guard_state
     \<Rightarrow> launch \<times> guard_state" where
  "prepare_launch e ps task owner plugin_id safe inputs context st =
     (case normalize_execution_context context of
        None \<Rightarrow> (Aborted Bad_Context, st)
      | Some c \<Rightarrow>
          (case hydrate_inputs ps owner inputs c of
             Inl err \<Rightarrow> (Aborted (Hydration_Failed err), st)
           | Inr hydrated \<Rightarrow>
               (case enforce_guardrails e task (extract_target inputs) plugin_id safe st of
                  (Guard_Raise, st') \<Rightarrow> (Aborted Guard_Exception, st')
                | (Guard_Fail msg, st') \<Rightarrow> (Rejected msg, st')
                | (Guard_Pass pinned, st') \<Rightarrow>
                    let ready = (case pinned of Some ip \<Rightarrow> if ip = [] then hydrated
                                   else aput ''__pinned_ip'' (JStr ip) hydrated | None \<Rightarrow> hydrated)
                    in (case map_of (le_plugins e) plugin_id of
                          None \<Rightarrow> (Aborted Unknown_Plugin, st')
                        | Some p \<Rightarrow>
                            (case capability_check (le_denied e) (p_capabilities p) (safety_level e p) of
                               Cap_Pass \<Rightarrow>
                                 if jget (p_safety p) ''level'' = JStr ''exploit'' \<and> \<not> is_offensive_validation c
                                 then (Aborted Needs_Offensive_Context, st')
                                 else if plugin_id \<in> set MODULAR_SCANNERS
                                 then (Launch_Modular plugin_id (extract_target inputs) ready, st')
                                 else prepare_standard e p task plugin_id safe ready st'
                             | refused \<Rightarrow> (Aborted (Capability_Refused refused), st'))))))"

subsection \<open>What a launched task has passed\<close>

definition launched :: "launch \<Rightarrow> bool" where
  "launched l = (case l of Launch_Modular _ _ _ \<Rightarrow> True | Launch_Command _ _ \<Rightarrow> True | _ \<Rightarrow> False)"

lemma launched_simps [simp]:
  "launched (Launch_Modular a b c)" "launched (Launch_Command cmd t)" "\<not> launched (Rejected msg)" "\<not> launched (Aborted err)"
  by (simp_all add: launched_def)

text \<open>The inputs a scanner receives: hydrated, with the pinned address, if there is one.\<close>

definition with_pin :: "string option \<Rightarrow> dict \<Rightarrow> dict" where
  "with_pin pinned d = (case pinned of Some ip \<Rightarrow> if ip = [] then d else aput ''__pinned_ip'' (JStr ip) d | None \<Rightarrow> d)"

lemma prepare_launch_cases:
  assumes "prepare_launch e ps task owner plugin_id safe inputs context st = (l, st'')" and "launched l"
  obtains c hydrated pinned st' p where
    "normalize_execution_context context = Some c" "hydrate_inputs ps owner inputs c = Inr hydrated"
    "enforce_guardrails e task (extract_target inputs) plugin_id safe st = (Guard_Pass pinned, st')"
    "map_of (le_plugins e) plugin_id = Some p"
    "capability_check (le_denied e) (p_capabilities p) (safety_level e p) = Cap_Pass"
    "jget (p_safety p) ''level'' = JStr ''exploit'' \<Longrightarrow> is_offensive_validation c"
    "(l, st'') = (if plugin_id \<in> set MODULAR_SCANNERS
        then (Launch_Modular plugin_id (extract_target inputs) (with_pin pinned hydrated), st')
        else prepare_standard e p task plugin_id safe (with_pin pinned hydrated) st')"
  using assms
  by (auto simp: prepare_launch_def with_pin_def Let_def
      split: option.splits sum.splits prod.splits guard.splits cap_outcome.splits if_splits)

lemma prepare_standard_cases:
  assumes "prepare_standard e p task plugin_id safe d st = (l, st')" and "launched l"
  obtains cmd where
    "build_command (le_repr e) (le_rx e) (le_fs e) (le_wordlists e) (le_plugins e) plugin_id d = Inr (Some cmd)"
    "cmd \<noteq> []" "validate_command_network_egress (le_net e) (le_egress e) (le_later e) safe plugin_id task None cmd st = (None, st')"
    "l = Launch_Command ((if le_docker_enabled e then docker_prefix e p task else []) @ cmd)
           (resolve_execution_timeout (le_sandbox_timeout e) d)"
  using assms by (auto simp: prepare_standard_def split: option.splits sum.splits prod.splits if_splits)

lemma strip_internal_aput [simp]:
  "starts_with k ''__'' \<Longrightarrow> strip_internal p (aput k v d) = strip_internal p d"
  by (induction k v d rule: aput.induct) (auto simp: strip_internal_def)

lemma hydration_keys [simp]:
  "starts_with ''__target_policy'' ''__''" "starts_with ''__extra_headers'' ''__''" "starts_with ''__cookies'' ''__''"
  "starts_with ''__execution_context'' ''__''" "starts_with ''__pinned_ip'' ''__''"
  by simp_all

lemma add_credentials_strip:
  "add_credentials ps profile d = Inr d' \<Longrightarrow> strip_internal p d' = strip_internal p d"
  by (auto simp: add_credentials_def Let_def split: option.splits sum.splits)

lemma add_cookies_strip [simp]: "strip_internal p (add_cookies ps cookie d) = strip_internal p d"
  by (auto simp: add_cookies_def split: option.splits json.splits)

lemma add_session_strip:
  "add_session ps profile d = Inr d' \<Longrightarrow> strip_internal p d' = strip_internal p d"
  by (auto simp: add_session_def split: option.splits sum.splits if_splits json.splits)

lemma hydrate_strip:
  assumes "hydrate_inputs ps owner inputs c = Inr d"
  shows "strip_internal p (with_pin pinned d) = strip_internal p inputs"
  using assms
  by (auto simp: hydrate_inputs_def with_pin_def Let_def split: option.splits sum.splits
      dest!: add_credentials_strip [where p = p] add_session_strip [where p = p])

lemma build_command_strip:
  assumes "\<And>p. strip_internal p d = strip_internal p d'"
  shows "build_command repr rx fs dir plugins plugin_id d = build_command repr rx fs dir plugins plugin_id d'"
  by (cases "map_of plugins plugin_id") (simp_all add: build_command_def assms)

lemma timeout_bounds:
  "resolve_execution_timeout limit d \<le> limit" "0 < limit \<Longrightarrow> 0 < resolve_execution_timeout limit d"
  by (auto simp: resolve_execution_timeout_def requested_timeout_def split: option.splits if_splits)

definition enforcing_mode :: "launch_env \<Rightarrow> bool" where
  "enforcing_mode e \<longleftrightarrow> enforce_network_policy (le_egress e) \<and> network_policy_failure_mode (le_egress e) \<noteq> ''log_only''"

text \<open>Some address behind the text, in the sense of the policy engine, passes its rules.\<close>

definition egress_allowed :: "world \<Rightarrow> engine \<Rightarrow> string \<Rightarrow> bool" where
  "egress_allowed w eng dest \<longleftrightarrow>
     (\<exists>hn ip. dest_address (dns_p w) hn dest = Some ip \<and> \<not> mandatory_address ip
        \<and> matching_rule (now_p w) ip (denylist eng) = None \<and> matching_rule (now_p w) ip (allowlist eng) \<noteq> None)"

lemma egress_allowedI:
  assumes "reachable_engine eng" and "dest_address (dns_p w) hn dest = Some ip"
    and "matching_rule (now_p w) ip (denylist eng) = None" and "matching_rule (now_p w) ip (allowlist eng) \<noteq> None"
  shows "egress_allowed w eng dest"
proof -
  have "\<not> mandatory_address ip"
    using mandatory_rule [OF assms(1), of ip "now_p w"] assms(3) by (auto simp: matching_rule_None)
  then show ?thesis using assms(2-4) unfolding egress_allowed_def by blast
qed

lemma resolve_and_pin_pass:
  assumes "resolve_and_pin dns now target plugin task eng = Some ((pinned, True, why), eng')"
  obtains ip where "pinned = Some ip"
    "ip_address target \<noteq> None \<and> ip = ip_str (the (ip_address target)) \<or> dns target = Resolved ip"
    "fst (fst (check_access dns now ip 0 plugin task (Some target) eng))"
    "eng' = snd (check_access dns now ip 0 plugin task (Some target) eng)"
  using assms by (auto simp: resolve_and_pin_def Let_def case_prod_beta split: option.splits dns_answer.splits if_splits)

lemma resolve_and_pin_engine:
  assumes "resolve_and_pin dns now target plugin task eng = Some (r, eng')"
  shows "(reachable_engine eng \<longrightarrow> reachable_engine eng') \<and> denylist eng' = denylist eng \<and> allowlist eng' = allowlist eng"
  using assms reachable_engine.check
  by (auto simp: resolve_and_pin_def Let_def case_prod_beta split: option.splits dns_answer.splits if_splits)

lemma policy_guard_pass:
  assumes "policy_guard e plugin_id task t eng = (Guard_Pass pinned, eng')" and "enforcing_mode e"
    and "reachable_engine eng"
  shows "\<exists>ip. egress_allowed (le_world e) eng ip
    \<and> (ip_address t \<noteq> None \<and> ip = ip_str (the (ip_address t)) \<or> dns_p (le_world e) t = Resolved ip)"
proof -
  obtain why where r: "resolve_and_pin (dns_p (le_world e)) (now_p (le_world e)) t plugin_id task eng
      = Some ((pinned, True, why), eng')"
    using assms(1,2) by (auto simp: policy_guard_def enforcing_mode_def Let_def split: option.splits prod.splits if_splits)
  obtain ip where ip: "ip_address t \<noteq> None \<and> ip = ip_str (the (ip_address t)) \<or> dns_p (le_world e) t = Resolved ip"
      "fst (fst (check_access (dns_p (le_world e)) (now_p (le_world e)) ip 0 plugin_id task (Some t) eng))"
    using resolve_and_pin_pass [OF r] by metis
  then have "egress_allowed (le_world e) eng ip"
    using egress_allowedI [OF assms(3)] unfolding check_access_decision by blast
  then show ?thesis using ip(1) by blast
qed

lemma guardrails_pass:
  assumes "enforce_guardrails e task (JStr t) plugin_id safe st = (Guard_Pass pinned, st')" and "t \<noteq> []"
  obtains cache cache1 m where
    "is_code_plugin e plugin_id \<or> is_filesystem_target t \<or>
       validate_target (le_net e) (dns_v (le_world e)) (now_v (le_world e)) (dns_v2 (le_world e)) (now_v2 (le_world e))
         safe t (fst st) = Some ((True, m), cache1) \<and> \<not> le_validation_late e"
    "enforce_network_policy (le_egress e) \<Longrightarrow>
       policy_guard e plugin_id task t (snd st) = (Guard_Pass pinned, snd st')"
  using assms
  by (auto simp: enforce_guardrails_def validation_guard_def Let_def
      split: option.splits prod.splits guard.splits if_splits)

lemma policy_guard_engine:
  assumes "policy_guard e plugin_id task t eng = (g, eng')" and "reachable_engine eng"
  shows "reachable_engine eng' \<and> denylist eng' = denylist eng \<and> allowlist eng' = allowlist eng"
proof (cases "resolve_and_pin (dns_p (le_world e)) (now_p (le_world e)) t plugin_id task eng")
  case (Some r)
  then have "eng' = snd r" using assms(1) by (simp add: policy_guard_def Let_def case_prod_beta)
  then show ?thesis using resolve_and_pin_engine [of _ _ t plugin_id task eng "fst r" "snd r"] Some assms(2) by simp
qed (use assms in \<open>simp add: policy_guard_def Let_def\<close>)

lemma guardrails_engine:
  assumes "enforce_guardrails e task target plugin_id safe st = (g, st')" and "reachable_engine (snd st)"
  shows "reachable_engine (snd st') \<and> denylist (snd st') = denylist (snd st) \<and> allowlist (snd st') = allowlist (snd st)"
  using assms policy_guard_engine
  by (auto simp: enforce_guardrails_def Let_def split: prod.splits guard.splits if_splits json.splits)

subsection \<open>Properties\<close>


definition example_launch :: launch_env where
  "example_launch = \<lparr>le_net = default_net_settings, le_egress = enforcing, le_world = example_world,
     le_later = example_world, le_validation_late = False, le_pinning_late = False,
     le_plugins = [(''nmap'', example_plugin)], le_denied = [''exploit''], le_repr = (\<lambda>v. []),
     le_rx = (\<lambda>p s. Some True), le_fs = example_fs, le_wordlists = path_of ''/wl'', le_docker_enabled = True,
     le_docker_network = ''restricted'', le_docker_ready = True, le_memory_mb = 512, le_cpu_quota = ''0.5'',
     le_sandbox_timeout = 600\<rparr>"

definition example_store :: profile_store where
  "example_store = \<lparr>target_policies = [], credential_profiles = [], session_profiles = [], vault_rows = [],
     ps_loads = (\<lambda>s. None), ps_repr = (\<lambda>v. []), ps_cipher = toy_cipher, ps_sha256 = toy_sha,
     ps_vault_key = Some ''seed'', ps_signature_key = None\<rparr>"

definition example_run :: "launch \<times> guard_state" where
  "example_run = prepare_launch example_launch example_store ''t1'' ''default'' ''nmap'' False
     [(''target'', JStr ''93.184.216.34'')] (JObj []) (Map.empty, example_engine)"

lemma example_run_command: "\<exists>argv limit. fst example_run = Launch_Command argv limit"
proof -
  have "case fst example_run of Launch_Command _ _ \<Rightarrow> True | _ \<Rightarrow> False"
    unfolding example_run_def by code_simp
  then show ?thesis by (auto split: launch.splits)
qed

lemma example_run_launches: "launched (fst example_run)"
  using example_run_command by auto

lemma example_run_inputs:
  "prepare_launch example_launch example_store ''t1'' ''default'' ''nmap'' False
     [(''target'', JStr ''93.184.216.34'')] (JObj []) (Map.empty, example_engine) = (fst example_run, snd example_run)"
  "extract_target [(''target'', JStr ''93.184.216.34'')] = JStr ''93.184.216.34''"
  by (simp_all add: example_run_def extract_target_def jor_def)

lemma example_engine_reachable: "reachable_engine example_engine"
  unfolding example_engine_def by (rule reachable_engine.start)


text \<open>C8: The command of a task is the container prefix, if containers are enabled, followed by exactly the
  command the plugin builds from the stored inputs: no credential, cookie, header or policy that was
  added to the inputs can show up in an argument. It runs under a time limit of at most the sandbox
  limit; and with the policy enforced every argument that names an address or a host reaches, at the
  time it is checked, an address that is allowed and not mandatorily denied.\<close>

theorem command_authorised:
  assumes "prepare_launch e ps task owner plugin_id safe inputs context st = (Launch_Command argv limit, st')"
    and "reachable_engine (snd st)"
  shows "\<exists>p cmd. map_of (le_plugins e) plugin_id = Some p
     \<and> argv = (if le_docker_enabled e then docker_prefix e p task else []) @ cmd \<and> cmd \<noteq> []
     \<and> build_command (le_repr e) (le_rx e) (le_fs e) (le_wordlists e) (le_plugins e) plugin_id inputs = Inr (Some cmd)
     \<and> limit \<le> le_sandbox_timeout e \<and> (0 < le_sandbox_timeout e \<longrightarrow> 0 < limit)
     \<and> (enforcing_mode e \<longrightarrow> (\<forall>arg \<in> set cmd. \<forall>dest. network_candidate arg dest \<longrightarrow>
          egress_allowed (le_later e) (snd st) dest))"
proof -
  obtain c hydrated pinned st1 p where p: "hydrate_inputs ps owner inputs c = Inr hydrated"
      "enforce_guardrails e task (extract_target inputs) plugin_id safe st = (Guard_Pass pinned, st1)"
      "map_of (le_plugins e) plugin_id = Some p"
      "prepare_standard e p task plugin_id safe (with_pin pinned hydrated) st1 = (Launch_Command argv limit, st')"
    by (rule prepare_launch_cases [OF assms(1)]) (auto split: if_splits)
  obtain cmd where cmd:
      "build_command (le_repr e) (le_rx e) (le_fs e) (le_wordlists e) (le_plugins e) plugin_id (with_pin pinned hydrated)
         = Inr (Some cmd)" "cmd \<noteq> []"
      "validate_command_network_egress (le_net e) (le_egress e) (le_later e) safe plugin_id task None cmd st1 = (None, st')"
      "argv = (if le_docker_enabled e then docker_prefix e p task else []) @ cmd"
      "limit = resolve_execution_timeout (le_sandbox_timeout e) (with_pin pinned hydrated)"
    by (rule prepare_standard_cases [OF p(4)]) auto
  have eng: "reachable_engine (snd st1)" "denylist (snd st1) = denylist (snd st)" "allowlist (snd st1) = allowlist (snd st)"
    using guardrails_engine [OF p(2) assms(2)] by blast+
  have "egress_allowed (le_later e) (snd st) dest"
    if mode: "enforcing_mode e" and arg: "arg \<in> set cmd" "network_candidate arg dest" for arg dest
  proof -
    obtain ip hn where "dest_address (dns_p (le_later e)) hn (egress_dest None dest) = Some ip"
        "matching_rule (now_p (le_later e)) ip (denylist (snd st1)) = None"
        "matching_rule (now_p (le_later e)) ip (allowlist (snd st1)) \<noteq> None"
      using command_egress_all [OF cmd(3) arg] mode unfolding enforcing_mode_def by blast
    then show ?thesis using egress_allowedI [OF assms(2)] eng(2,3) by (auto simp: egress_dest_def)
  qed
  moreover have "build_command (le_repr e) (le_rx e) (le_fs e) (le_wordlists e) (le_plugins e) plugin_id inputs = Inr (Some cmd)"
    using build_command_strip [OF hydrate_strip [OF p(1)]] cmd(1) by simp
  ultimately show ?thesis using p(3) cmd timeout_bounds by blast
qed

theorem command_authorised_witness:
  "\<exists>cmd limit. fst example_run = Launch_Command (docker_prefix example_launch example_plugin ''t1'' @ cmd) limit \<and> limit \<le> 600"
proof -
  obtain argv limit where run: "fst example_run = Launch_Command argv limit"
    using example_run_command by blast
  show ?thesis
    using command_authorised [OF example_run_inputs(1) [unfolded run]] example_engine_reachable run
    by (auto simp: example_launch_def)
qed

text \<open>
  Secrets are found by name alone: who owns the row makes no difference, so a profile of one owner that
  names a secret of another one sends that secret along.
\<close>

lemma vault_lookup_ignores_owner:
  "read_vault_secret ps name = read_vault_secret (ps\<lparr>vault_rows := map (\<lambda>r. (other, snd r)) (vault_rows ps)\<rparr>) name"
proof -
  have "find (\<lambda>(ow, n, x). n = s) (map (\<lambda>r. (other, snd r)) rows)
      = map_option (\<lambda>r. (other, snd r)) (find (\<lambda>(ow, n, x). n = s) rows)" for rows :: "(string \<times> string \<times> string) list" and s
    by (induction rows) auto
  then show ?thesis
    by (cases "find (\<lambda>(ow, n, x). n = show_json (ps_repr ps) name) (vault_rows ps)")
       (auto simp: read_vault_secret_def split: sum.splits)
qed

end
