(* ===== verification/Task_Lifecycle.thy ===== *)
theory Task_Lifecycle
  imports "HOL-Library.Multiset" Rate_Limits Task_Launch
begin

text \<open>
  The life of tasks in \<open>backend/secuscan/executor.py\<close> (\<open>create_task\<close>, \<open>execute_task\<close>, \<open>cancel_task\<close>,
  \<open>mark_task_failed\<close>) and the handlers of \<open>routes.py\<close> that start, retry, cancel and delete them, as the
  interleaving of coroutines over the shared state: the status column of the table of tasks, the
  registry of running tasks and the slots of the concurrency limiter. A step is the code between two
  awaits that touch that state. A coroutine that waits for an UPDATE when it is cancelled may or may
  not have it applied. Parameter of a step: what the code in between decides (guardrails, exit code,
  an exception). Database errors inside the exception handlers and the cancellation of a request
  handler by the server are not modelled.
\<close>

subsection \<open>State\<close>

datatype pc =
    Claiming \<comment> \<open>registered; \<open>UPDATE ... WHERE status = 'queued'\<close> is pending\<close>
  | Preparing \<comment> \<open>inputs, guardrails, plugin checks\<close>
  | Rejecting \<comment> \<open>\<open>mark_task_failed\<close> by a guardrail is pending\<close>
  | Executing
  | Recording task_status \<comment> \<open>the UPDATE with the final status is pending\<close>
  | Persisting \<comment> \<open>findings, report, notifications\<close>
  | Failing \<comment> \<open>handler of an exception, its UPDATE is pending\<close>
  | Cancelling \<comment> \<open>handler of \<open>CancelledError\<close>, its UPDATE is pending\<close>
  | Reporting \<comment> \<open>rest of a handler\<close>
  | Closing \<comment> \<open>the \<open>finally\<close> block\<close>

record run =
  r_task :: string
  r_pc :: pc
  r_cancel :: bool \<comment> \<open>\<open>task.cancel()\<close> was called and is not delivered\<close>

text \<open>A handler that starts or retries a task, and one that cancels it (which run it looked up, and
  whether it has called \<open>cancel()\<close> already).\<close>

datatype start_pc = Admitted | Scheduled | Refused

datatype cancel_pc = Killing | Marking

record system =
  rows :: "string \<rightharpoonup> task_status"
  used_ids :: "string list" \<comment> \<open>every id \<open>uuid4\<close> has given out\<close>
  limiter :: task_limiter
  registry :: "string \<rightharpoonup> nat"
  runs :: "(nat \<times> run) list"
  starters :: "(nat \<times> string \<times> start_pc) list"
  cancellers :: "(nat \<times> string \<times> nat \<times> cancel_pc) list"
  next_id :: nat

definition boot :: "int \<Rightarrow> system" where
  "boot cap = \<lparr>rows = Map.empty, used_ids = [], limiter = \<lparr>max_concurrent = cap, running_tasks = []\<rparr>,
     registry = Map.empty, runs = [], starters = [], cancellers = [], next_id = 0\<rparr>"

subsection \<open>One run of \<open>execute_task\<close>\<close>

text \<open>The pending UPDATE of a run on its row.\<close>

fun row_effect :: "pc \<Rightarrow> task_status \<Rightarrow> task_status" where
  "row_effect Claiming s = (if s = QUEUED then RUNNING else s)"
| "row_effect Rejecting s = FAILED"
| "row_effect (Recording st) s = st"
| "row_effect Failing s = FAILED"
| "row_effect Cancelling s = (if s = RUNNING then CANCELLED else s)"
| "row_effect _ s = s"

definition update_row :: "(task_status \<Rightarrow> task_status) \<Rightarrow> string \<Rightarrow> (string \<rightharpoonup> task_status) \<Rightarrow> (string \<rightharpoonup> task_status)" where
  "update_row f t m = (case m t of None \<Rightarrow> m | Some s \<Rightarrow> m(t \<mapsto> f s))"

text \<open>Where a run goes when its pending UPDATE is done; a claim that matched no row aborts.\<close>

fun next_pc :: "pc \<Rightarrow> task_status option \<Rightarrow> pc option" where
  "next_pc Claiming s = Some (if s = Some QUEUED then Preparing else Closing)"
| "next_pc Rejecting s = Some Persisting"
| "next_pc (Recording st) s = Some Persisting"
| "next_pc Persisting s = Some Closing"
| "next_pc Failing s = Some Reporting"
| "next_pc Cancelling s = Some Reporting"
| "next_pc Reporting s = Some Closing"
| "next_pc _ s = None"

fun on_cancel :: "pc \<Rightarrow> pc" where
  "on_cancel Failing = Closing"
| "on_cancel Cancelling = Closing"
| "on_cancel Reporting = Closing"
| "on_cancel Closing = Closing"
| "on_cancel _ = Cancelling"

definition in_body :: "pc \<Rightarrow> bool" where
  "in_body p \<longleftrightarrow> p \<notin> {Failing, Cancelling, Reporting, Closing}"

datatype action =
    Create string \<comment> \<open>\<open>create_task\<close> inserted the row\<close>
  | Retry string
  | Delete string
  | Cancel string
  | Start_Step nat
  | Cancel_Step nat
  | Advance nat \<comment> \<open>the pending UPDATE or wait of a run ends\<close>
  | Reject nat
  | Launch nat
  | Finish nat task_status \<comment> \<open>the scanner is done, with the status it is classified to\<close>
  | Raise nat
  | Deliver nat bool \<comment> \<open>\<open>CancelledError\<close>; was the pending UPDATE applied?\<close>
  | Close nat

definition put_run :: "nat \<Rightarrow> run \<Rightarrow> system \<Rightarrow> system" where
  "put_run i r s = s\<lparr>runs := aput i r (runs s)\<rparr>"

definition move_run :: "nat \<Rightarrow> run \<Rightarrow> pc \<Rightarrow> system \<Rightarrow> system" where
  "move_run i r p s = put_run i (r\<lparr>r_pc := p\<rparr>) s"

definition advance :: "nat \<Rightarrow> run \<Rightarrow> system \<Rightarrow> system option" where
  "advance i r s =
     map_option (\<lambda>p. move_run i r p (s\<lparr>rows := update_row (row_effect (r_pc r)) (r_task r) (rows s)\<rparr>))
       (next_pc (r_pc r) (rows s (r_task r)))"

definition deliver :: "nat \<Rightarrow> run \<Rightarrow> bool \<Rightarrow> system \<Rightarrow> system" where
  "deliver i r applied s =
     put_run i (r\<lparr>r_pc := on_cancel (r_pc r), r_cancel := False\<rparr>)
       (if applied then s\<lparr>rows := update_row (row_effect (r_pc r)) (r_task r) (rows s)\<rparr> else s)"

text \<open>The \<open>finally\<close> block: whatever is registered under the task is dropped and a slot of it given back.\<close>

definition close_run :: "nat \<Rightarrow> run \<Rightarrow> system \<Rightarrow> system" where
  "close_run i r s = s\<lparr>registry := (registry s)(r_task r := None), limiter := release_slot (r_task r) (limiter s),
     runs := adel i (runs s)\<rparr>"

subsection \<open>The handlers\<close>

definition create_task :: "string \<Rightarrow> system \<Rightarrow> system option" where
  "create_task t s =
     (if t \<in> set (used_ids s) then None
      else Some (s\<lparr>rows := (rows s)(t \<mapsto> QUEUED), used_ids := t # used_ids s,
             starters := (next_id s, t, Admitted) # starters s, next_id := Suc (next_id s)\<rparr>))"

definition retry_task :: "string \<Rightarrow> system \<Rightarrow> system option" where
  "retry_task t s =
     (if rows s t \<in> {Some FAILED, Some CANCELLED}
      then Some (s\<lparr>rows := (rows s)(t \<mapsto> QUEUED), starters := (next_id s, t, Admitted) # starters s,
             next_id := Suc (next_id s)\<rparr>)
      else None)"

definition delete_task :: "string \<Rightarrow> system \<Rightarrow> system option" where
  "delete_task t s = (if rows s t = Some RUNNING then None else Some (s\<lparr>rows := (rows s)(t := None)\<rparr>))"

text \<open>\<open>acquire\<close>, then the background task or the roll-back by \<open>mark_task_failed\<close>.\<close>

definition start_step :: "nat \<Rightarrow> string \<times> start_pc \<Rightarrow> system \<Rightarrow> system" where
  "start_step k x s =
     (let t = fst x in
      case snd x of
        Admitted \<Rightarrow>
          (let (granted, l) = try_acquire t (limiter s)
           in s\<lparr>limiter := l, starters := aput k (t, if granted then Scheduled else Refused) (starters s)\<rparr>)
      | Scheduled \<Rightarrow>
          s\<lparr>starters := adel k (starters s), registry := (registry s)(t \<mapsto> next_id s),
            runs := (next_id s, \<lparr>r_task = t, r_pc = Claiming, r_cancel = False\<rparr>) # runs s, next_id := Suc (next_id s)\<rparr>
      | Refused \<Rightarrow> s\<lparr>starters := adel k (starters s), rows := update_row (\<lambda>st. FAILED) t (rows s)\<rparr>)"

definition cancel_task :: "string \<Rightarrow> system \<Rightarrow> system option" where
  "cancel_task t s =
     map_option (\<lambda>i. s\<lparr>cancellers := (next_id s, t, i, Killing) # cancellers s, next_id := Suc (next_id s)\<rparr>)
       (registry s t)"

definition cancel_step :: "nat \<Rightarrow> string \<times> nat \<times> cancel_pc \<Rightarrow> system \<Rightarrow> system" where
  "cancel_step k x s =
     (let (t, i, p) = x in
      case p of
        Killing \<Rightarrow>
          (let s' = s\<lparr>cancellers := aput k (t, i, Marking) (cancellers s)\<rparr>
           in case map_of (runs s) i of None \<Rightarrow> s' | Some r \<Rightarrow> put_run i (r\<lparr>r_cancel := True\<rparr>) s')
      | Marking \<Rightarrow> s\<lparr>cancellers := adel k (cancellers s),
                     rows := update_row (\<lambda>st. if st = RUNNING then CANCELLED else st) t (rows s)\<rparr>)"

text \<open>A cancelled coroutine resumes with the exception before it does anything else.\<close>

definition on_run :: "nat \<Rightarrow> system \<Rightarrow> (run \<Rightarrow> bool) \<Rightarrow> (run \<Rightarrow> system option) \<Rightarrow> system option" where
  "on_run i s ok f = (case map_of (runs s) i of None \<Rightarrow> None | Some r \<Rightarrow> if ok r then f r else None)"

fun exec :: "action \<Rightarrow> system \<Rightarrow> system option" where
  "exec (Create t) s = create_task t s"
| "exec (Retry t) s = retry_task t s"
| "exec (Delete t) s = delete_task t s"
| "exec (Cancel t) s = cancel_task t s"
| "exec (Start_Step k) s = map_option (\<lambda>x. start_step k x s) (map_of (starters s) k)"
| "exec (Cancel_Step k) s = map_option (\<lambda>x. cancel_step k x s) (map_of (cancellers s) k)"
| "exec (Advance i) s = on_run i s (\<lambda>r. \<not> r_cancel r) (\<lambda>r. advance i r s)"
| "exec (Reject i) s = on_run i s (\<lambda>r. \<not> r_cancel r \<and> r_pc r = Preparing) (\<lambda>r. Some (move_run i r Rejecting s))"
| "exec (Launch i) s = on_run i s (\<lambda>r. \<not> r_cancel r \<and> r_pc r = Preparing) (\<lambda>r. Some (move_run i r Executing s))"
| "exec (Finish i st) s = on_run i s (\<lambda>r. \<not> r_cancel r \<and> r_pc r = Executing \<and> st \<in> {COMPLETED, FAILED})
     (\<lambda>r. Some (move_run i r (Recording st) s))"
| "exec (Raise i) s = on_run i s (\<lambda>r. \<not> r_cancel r \<and> in_body (r_pc r)) (\<lambda>r. Some (move_run i r Failing s))"
| "exec (Deliver i applied) s = on_run i s r_cancel (\<lambda>r. Some (deliver i r applied s))"
| "exec (Close i) s = on_run i s (\<lambda>r. \<not> r_cancel r \<and> r_pc r = Closing) (\<lambda>r. Some (close_run i r s))"

fun exec_all :: "action list \<Rightarrow> system \<Rightarrow> system option" where
  "exec_all [] s = Some s"
| "exec_all (a # as) s = (case exec a s of None \<Rightarrow> None | Some s' \<Rightarrow> exec_all as s')"

inductive reachable :: "int \<Rightarrow> system \<Rightarrow> bool" for cap where
  boot: "reachable cap (boot cap)"
| step: "reachable cap s \<Longrightarrow> exec a s = Some s' \<Longrightarrow> reachable cap s'"

subsection \<open>Identifiers\<close>

lemma mset_adel:
  "distinct (akeys xs) \<Longrightarrow> map_of xs k = Some v \<Longrightarrow> mset xs = add_mset (k, v) (mset (adel k xs))"
proof (induction xs)
  case (Cons p xs)
  show ?case
  proof (cases "fst p = k")
    case True
    then have "k \<notin> set (akeys xs)" using Cons.prems(1) by (auto simp: akeys_def)
    then have "adel k xs = xs" by (auto simp: adel_def akeys_def filter_id_conv)
    moreover have "p = (k, v)" using Cons.prems(2) True by (cases p) auto
    ultimately show ?thesis by (simp add: adel_def)
  next
    case False
    then show ?thesis using Cons by (cases p) (auto simp: adel_def akeys_def)
  qed
qed simp

lemma mset_aput:
  "distinct (akeys xs) \<Longrightarrow> map_of xs k = Some v0 \<Longrightarrow> mset (aput k v xs) = add_mset (k, v) (mset (adel k xs))"
proof (induction xs)
  case (Cons p xs)
  show ?case
  proof (cases "fst p = k")
    case True
    then have "k \<notin> set (akeys xs)" using Cons.prems(1) by (auto simp: akeys_def)
    then have "adel k xs = xs" by (auto simp: adel_def akeys_def filter_id_conv)
    then show ?thesis using True by (cases p) (simp add: adel_def)
  next
    case False
    then show ?thesis using Cons by (cases p) (auto simp: adel_def akeys_def)
  qed
qed simp

definition fresh_ids :: "system \<Rightarrow> bool" where
  "fresh_ids s \<longleftrightarrow> distinct (akeys (runs s)) \<and> distinct (akeys (starters s)) \<and> distinct (akeys (cancellers s))
     \<and> (\<forall>k \<in> set (akeys (runs s)) \<union> set (akeys (starters s)) \<union> set (akeys (cancellers s)). k < next_id s)"

text \<open>A canceller refers to a run of its task, or to one that is gone; the registry to a run of its key.\<close>

definition cancellers_ok :: "system \<Rightarrow> bool" where
  "cancellers_ok s \<longleftrightarrow> (\<forall>x \<in> set (cancellers s). fst (snd (snd x)) < next_id s
     \<and> (\<forall>r. map_of (runs s) (fst (snd (snd x))) = Some r \<longrightarrow> r_task r = fst (snd x)))"

definition registry_ok :: "system \<Rightarrow> bool" where
  "registry_ok s \<longleftrightarrow> (\<forall>t i. registry s t = Some i \<longrightarrow> (\<exists>r. map_of (runs s) i = Some r \<and> r_task r = t))"

lemmas step_defs = create_task_def retry_task_def delete_task_def cancel_task_def start_step_def cancel_step_def
  on_run_def advance_def deliver_def close_run_def move_run_def put_run_def

lemma akeys_Cons [simp]: "akeys (p # xs) = fst p # akeys xs"
  by (simp add: akeys_def)

lemma map_of_key: "map_of xs k = Some v \<Longrightarrow> k \<in> set (akeys xs)"
  by (metis map_of_eq_None_akeys option.distinct(1))

lemma in_aput: "x \<in> set (aput k v xs) \<Longrightarrow> x = (k, v) \<or> x \<in> set xs"
  by (induction k v xs rule: aput.induct) (auto split: if_splits)

lemma in_adel: "x \<in> set (adel k xs) \<Longrightarrow> x \<in> set xs"
  by (simp add: adel_def)

lemma exec_AdvanceE:
  assumes "exec (Advance i) s = Some s'"
  obtains r p where "map_of (runs s) i = Some r" "\<not> r_cancel r" "next_pc (r_pc r) (rows s (r_task r)) = Some p"
    "s' = s\<lparr>rows := update_row (row_effect (r_pc r)) (r_task r) (rows s), runs := aput i (r\<lparr>r_pc := p\<rparr>) (runs s)\<rparr>"
  using assms by (auto simp: on_run_def advance_def move_run_def put_run_def split: option.splits if_splits)

lemma exec_DeliverE:
  assumes "exec (Deliver i b) s = Some s'"
  obtains r where "map_of (runs s) i = Some r" "r_cancel r"
    "s' = s\<lparr>rows := if b then update_row (row_effect (r_pc r)) (r_task r) (rows s) else rows s,
            runs := aput i (r\<lparr>r_pc := on_cancel (r_pc r), r_cancel := False\<rparr>) (runs s)\<rparr>"
proof -
  obtain r where r: "map_of (runs s) i = Some r" "r_cancel r" "s' = deliver i r b s"
    using assms by (auto simp: on_run_def split: option.splits if_splits)
  show ?thesis by (rule that [OF r(1,2)]) (simp add: r(3) deliver_def put_run_def)
qed

text \<open>The shapes of a step, as far as identifiers, slots and registry go.\<close>

lemma exec_shape:
  assumes "exec a s = Some s'"
  obtains
    (rows) m where "s' = s\<lparr>rows := m\<rparr>"
  | (admit) t m u where "a = Create t \<or> a = Retry t" "s' = s\<lparr>rows := m, used_ids := u, starters := (next_id s, t, Admitted) # starters s,
        next_id := Suc (next_id s)\<rparr>"
  | (cancel) t i where "registry s t = Some i"
      "s' = s\<lparr>cancellers := (next_id s, t, i, Killing) # cancellers s, next_id := Suc (next_id s)\<rparr>"
  | (start) k x where "map_of (starters s) k = Some x" "s' = start_step k x s"
  | (stop) k x where "map_of (cancellers s) k = Some x" "s' = cancel_step k x s"
  | (run) i r r' m where "map_of (runs s) i = Some r" "r_task r' = r_task r"
      "s' = s\<lparr>rows := m, runs := aput i r' (runs s)\<rparr>"
  | (close) i r where "map_of (runs s) i = Some r" "s' = close_run i r s"
proof -
  note run_shape = that(6)
  have moved: thesis if m: "map_of (runs s) i = Some r" "s' = move_run i r p s" for i r p
    by (rule run_shape [OF m(1), where r' = "r\<lparr>r_pc := p\<rparr>" and m = "rows s"]) (simp_all add: m(2) move_run_def put_run_def)
  show ?thesis
  proof (cases a)
  case (Retry t)
  then show ?thesis
    using assms that(2) [where u = "used_ids s"] by (auto simp: retry_task_def split: if_splits)
next
  case (Deliver i b)
  show ?thesis by (rule exec_DeliverE [OF assms [unfolded Deliver]]) (rule run_shape [rotated 2], assumption+, simp)
next
  case (Advance i)
  show ?thesis by (rule exec_AdvanceE [OF assms [unfolded Advance]]) (rule run_shape [rotated 2], assumption+, simp)
next
  case (Create t)
  then show ?thesis using assms that(2) by (auto simp: create_task_def split: if_splits)
next
  case (Delete t)
  then show ?thesis using assms that(1) by (auto simp: delete_task_def split: if_splits)
next
  case (Cancel t)
  then show ?thesis using assms that(3) by (auto simp: cancel_task_def)
next
  case (Start_Step k)
  then show ?thesis using assms that(4) by auto
next
  case (Cancel_Step k)
  then show ?thesis using assms that(5) by auto
next
  case (Close i)
  then show ?thesis using assms that(7) by (auto simp: on_run_def split: option.splits if_splits)
qed (use assms moved in \<open>auto simp: on_run_def split: option.splits if_splits\<close>)
qed

lemma fresh_ids_exec:
  assumes "fresh_ids s" and "exec a s = Some s'"
  shows "fresh_ids s'"
  using assms(2)
proof (cases rule: exec_shape)
  case (start k x)
  have "k \<in> set (akeys (starters s))" using start(1) by (rule map_of_key)
  then show ?thesis using assms(1) start(2)
    by (cases "snd x") (auto simp: fresh_ids_def start_step_def Let_def case_prod_beta less_Suc_eq)
next
  case (stop k x)
  have "k \<in> set (akeys (cancellers s))" using stop(1) by (rule map_of_key)
  then show ?thesis using assms(1) stop(2)
    by (auto simp: fresh_ids_def cancel_step_def put_run_def Let_def case_prod_beta map_of_key
        split: cancel_pc.splits option.splits)
next
  case (close i r)
  then show ?thesis using assms(1) by (auto simp: fresh_ids_def close_run_def)
qed (use assms(1) in \<open>auto simp: fresh_ids_def less_Suc_eq dest: map_of_key\<close>)

lemma cancellers_ok_exec:
  assumes "cancellers_ok s" and "fresh_ids s" and "registry_ok s" and "exec a s = Some s'"
  shows "cancellers_ok s'"
  using assms(4)
proof (cases rule: exec_shape)
  case (cancel t i)
  then obtain r where r: "map_of (runs s) i = Some r" "r_task r = t" using assms(3) by (auto simp: registry_ok_def)
  then have "i < next_id s" using assms(2) map_of_key [OF r(1)] by (auto simp: fresh_ids_def)
  then show ?thesis using assms(1) cancel r by (auto simp: cancellers_ok_def less_Suc_eq)
next
  case (start k x)
  then show ?thesis using assms(1)
    by (cases "snd x") (auto simp: cancellers_ok_def start_step_def Let_def case_prod_beta less_Suc_eq)
next
  case (stop k x)
  then have "(k, x) \<in> set (cancellers s)" by (simp add: map_of_SomeD)
  then show ?thesis using assms(1) stop
    by (cases x; cases "snd (snd x)")
       (auto simp: cancellers_ok_def cancel_step_def put_run_def Let_def dest!: in_aput in_adel split: option.splits if_splits, metis fst_conv snd_conv)
next
  case (close i r)
  then show ?thesis using assms(1) by (auto simp: cancellers_ok_def close_run_def map_of_adel)
qed (use assms(1) in \<open>auto simp: cancellers_ok_def less_Suc_eq split: if_splits\<close>)

lemma registry_okD: "registry_ok s \<Longrightarrow> registry s t = Some i \<Longrightarrow> \<exists>r. map_of (runs s) i = Some r \<and> r_task r = t"
  by (simp add: registry_ok_def)

lemma registry_ok_exec:
  assumes "registry_ok s" and "fresh_ids s" and "exec a s = Some s'"
  shows "registry_ok s'"
  using assms(3)
proof (cases rule: exec_shape)
  case (start k x)
  show ?thesis unfolding registry_ok_def
  proof (intro allI impI)
    fix t i assume "registry s' t = Some i"
    then have "registry s t = Some i \<and> runs s' = runs s
        \<or> (\<exists>r. runs s' = (next_id s, r) # runs s \<and> (i = next_id s \<and> r_task r = t \<or> registry s t = Some i))"
      using start by (cases "snd x") (auto simp: start_step_def Let_def case_prod_beta split: if_splits)
    moreover have "i \<noteq> next_id s" if "registry s t = Some i"
      using registry_okD [OF assms(1) that] assms(2) map_of_key by (fastforce simp: fresh_ids_def)
    ultimately show "\<exists>r. map_of (runs s') i = Some r \<and> r_task r = t"
      using registry_okD [OF assms(1)] by fastforce
  qed
next
  case (stop k x)
  show ?thesis unfolding registry_ok_def
  proof (intro allI impI)
    fix t i assume "registry s' t = Some i"
    then show "\<exists>r. map_of (runs s') i = Some r \<and> r_task r = t"
      using registry_okD [OF assms(1), of t i] stop
      by (cases x; cases "snd (snd x)") (auto simp: cancel_step_def put_run_def Let_def split: option.splits)
  qed
next
  case (run i r r' m)
  then show ?thesis using assms(1) unfolding registry_ok_def by fastforce
next
  case (close i r)
  show ?thesis unfolding registry_ok_def
  proof (intro allI impI)
    fix t j assume "registry s' t = Some j"
    then have "t \<noteq> r_task r" "registry s t = Some j" using close(2) by (auto simp: close_run_def split: if_splits)
    then show "\<exists>q. map_of (runs s') j = Some q \<and> r_task q = t"
      using registry_okD [OF assms(1), of t j] close by (auto simp: close_run_def map_of_adel)
  qed
qed (use assms(1) in \<open>auto simp: registry_ok_def\<close>)

subsection \<open>Slots\<close>

text \<open>Who holds a slot: every run that has not closed, and every handler that scheduled one.\<close>

definition slot_holders :: "system \<Rightarrow> string multiset" where
  "slot_holders s = image_mset (\<lambda>p. r_task (snd p)) (mset (runs s))
     + image_mset (\<lambda>p. fst (snd p)) (filter_mset (\<lambda>p. snd (snd p) = Scheduled) (mset (starters s)))"

definition slots_ok :: "int \<Rightarrow> system \<Rightarrow> bool" where
  "slots_ok cap s \<longleftrightarrow> held_slots (limiter s) = slot_holders s \<and> max_concurrent (limiter s) = cap
     \<and> int (size (held_slots (limiter s))) \<le> max 0 cap"

lemma slot_holders_run:
  assumes "distinct (akeys (runs s))" and "map_of (runs s) i = Some r" and "r_task r' = r_task r"
  shows "slot_holders (s\<lparr>rows := m, runs := aput i r' (runs s)\<rparr>) = slot_holders s"
  using assms mset_adel [OF assms(1,2)] by (simp add: slot_holders_def mset_aput)

lemma slot_holders_flag:
  assumes "distinct (akeys (runs s))"
  shows "slot_holders (cancel_step k x s) = slot_holders s \<and> limiter (cancel_step k x s) = limiter s"
proof (cases x)
  case (fields t i p)
  show ?thesis
  proof (cases "map_of (runs s) i")
    case None
    then show ?thesis by (cases p) (simp_all add: fields cancel_step_def slot_holders_def Let_def)
  next
    case (Some r)
    then show ?thesis
      using mset_adel [OF assms Some]
      by (cases p) (simp_all add: fields cancel_step_def slot_holders_def Let_def put_run_def mset_aput [OF assms Some])
  qed
qed

lemma slots_ok_start:
  assumes "slots_ok cap s" and "distinct (akeys (starters s))" and "map_of (starters s) k = Some x"
  shows "slots_ok cap (start_step k x s)"
proof -
  obtain t p where x: "x = (t, p)" by (cases x)
  note ms = mset_adel [OF assms(2,3)] mset_aput [OF assms(2,3)]
  show ?thesis
  proof (cases p)
    case Admitted
    obtain b l where a: "try_acquire t (limiter s) = (b, l)" by (cases "try_acquire t (limiter s)")
    then show ?thesis
      using assms(1) Admitted slots.grant_law [of t "limiter s" l] slots.refuse_law [of t "limiter s" l] ms
      by (cases b) (auto simp: slots_ok_def slot_holders_def start_step_def x Let_def)
  qed (use assms(1) ms in \<open>auto simp: slots_ok_def slot_holders_def start_step_def x Let_def\<close>)
qed

lemma slots_ok_close:
  assumes "slots_ok cap s" and "distinct (akeys (runs s))" and "map_of (runs s) i = Some r"
  shows "slots_ok cap (close_run i r s)"
  using assms(1) mset_adel [OF assms(2,3)]
  by (auto simp: slots_ok_def slot_holders_def close_run_def slots.release_law size_Diff_singleton)

lemma slots_ok_exec:
  assumes "slots_ok cap s" and "fresh_ids s" and "exec a s = Some s'"
  shows "slots_ok cap s'"
proof -
  have d: "distinct (akeys (runs s))" "distinct (akeys (starters s))" using assms(2) by (simp_all add: fresh_ids_def)
  show ?thesis using assms(3)
  proof (cases rule: exec_shape)
    case (start k x)
    then show ?thesis using slots_ok_start [OF assms(1) d(2)] by simp
  next
    case (stop k x)
    then show ?thesis using assms(1) slot_holders_flag [OF d(1)] by (auto simp: slots_ok_def)
  next
    case (run i r r' m)
    then show ?thesis using assms(1) slot_holders_run [OF d(1) run(1,2)] by (auto simp: slots_ok_def)
  next
    case (close i r)
    then show ?thesis using slots_ok_close [OF assms(1) d(1)] by simp
  qed (use assms(1) in \<open>auto simp: slots_ok_def slot_holders_def\<close>)
qed

lemma reachable_ok:
  assumes "reachable cap s"
  shows "fresh_ids s \<and> registry_ok s \<and> cancellers_ok s \<and> slots_ok cap s"
  using assms
proof (induction rule: reachable.induct)
  case boot
  then show ?case
    by (simp add: boot_def fresh_ids_def registry_ok_def cancellers_ok_def slots_ok_def slot_holders_def
        held_slots_def akeys_def)
next
  case (step s a s')
  then show ?case using fresh_ids_exec registry_ok_exec cancellers_ok_exec slots_ok_exec by blast
qed

subsection \<open>Rows that say running\<close>

text \<open>A run that will still take its row out of \<open>RUNNING\<close>, unless it is cancelled in a handler.\<close>

definition carrier :: "run \<Rightarrow> bool" where
  "carrier r \<longleftrightarrow> (case r_pc r of Preparing \<Rightarrow> True | Rejecting \<Rightarrow> True | Executing \<Rightarrow> True | Recording st \<Rightarrow> True
     | Failing \<Rightarrow> \<not> r_cancel r | Cancelling \<Rightarrow> \<not> r_cancel r | _ \<Rightarrow> False)"

definition marking :: "system \<Rightarrow> string \<Rightarrow> bool" where
  "marking s t \<longleftrightarrow> (\<exists>x \<in> set (cancellers s). fst (snd x) = t \<and> snd (snd (snd x)) = Marking)"

definition running_ok :: "system \<Rightarrow> bool" where
  "running_ok s \<longleftrightarrow> (\<forall>t. rows s t = Some RUNNING \<longrightarrow>
     (\<exists>i r. map_of (runs s) i = Some r \<and> r_task r = t \<and> carrier r) \<or> marking s t)"

definition recording_ok :: "system \<Rightarrow> bool" where
  "recording_ok s \<longleftrightarrow> (\<forall>i r st. map_of (runs s) i = Some r \<longrightarrow> r_pc r = Recording st \<longrightarrow> st \<in> {COMPLETED, FAILED})"

lemma aput_new: "(k, v) \<in> set (aput k v xs)"
  by (induction k v xs rule: aput.induct) auto

lemma aput_old: "x \<in> set xs \<Longrightarrow> fst x \<noteq> k \<Longrightarrow> x \<in> set (aput k v xs)"
  by (induction k v xs rule: aput.induct) auto

lemma update_row_eq: "update_row f t m t' = (if t' = t then map_option f (m t) else m t')"
  by (simp add: update_row_def split: option.split)

lemma recording_ok_exec:
  assumes "recording_ok s" and "exec a s = Some s'"
  shows "recording_ok s'"
proof -
  have moved: "recording_ok (s\<lparr>rows := m, runs := aput i r' (runs s)\<rparr>)"
    if "\<And>st. r_pc r' = Recording st \<Longrightarrow> st \<in> {COMPLETED, FAILED}" for i r' m
    using assms(1) that unfolding recording_ok_def by auto
  show ?thesis
  proof (cases a)
    case (Advance i)
    obtain r p where r: "next_pc (r_pc r) (rows s (r_task r)) = Some p"
        "s' = s\<lparr>rows := update_row (row_effect (r_pc r)) (r_task r) (rows s), runs := aput i (r\<lparr>r_pc := p\<rparr>) (runs s)\<rparr>"
      by (rule exec_AdvanceE [OF assms(2) [unfolded Advance]])
    have "p \<noteq> Recording st" for st using r(1) by (cases "r_pc r") (auto split: if_splits)
    then show ?thesis unfolding r(2) by (intro moved) simp
  next
    case (Deliver i b)
    obtain r where r: "s' = s\<lparr>rows := if b then update_row (row_effect (r_pc r)) (r_task r) (rows s) else rows s,
        runs := aput i (r\<lparr>r_pc := on_cancel (r_pc r), r_cancel := False\<rparr>) (runs s)\<rparr>"
      by (rule exec_DeliverE [OF assms(2) [unfolded Deliver]])
    have "on_cancel (r_pc r) \<noteq> Recording st" for st by (cases "r_pc r") auto
    then show ?thesis unfolding r by (intro moved) simp
  next
    case (Start_Step k)
    then obtain x where "s' = start_step k x s" using assms(2) by auto
    then show ?thesis using assms(1)
      by (cases "snd x") (auto simp: recording_ok_def start_step_def Let_def case_prod_beta split: if_splits)
  next
    case (Cancel_Step k)
    then obtain x where "s' = cancel_step k x s" using assms(2) by auto
    then show ?thesis using assms(1)
      by (cases x; cases "snd (snd x)")
         (auto simp: recording_ok_def cancel_step_def put_run_def Let_def split: option.splits if_splits)
  next
    case (Close i)
    then obtain r where "s' = close_run i r s" using assms(2) by (auto simp: on_run_def split: option.splits if_splits)
    then show ?thesis using assms(1) by (auto simp: recording_ok_def close_run_def map_of_adel split: if_splits)
  qed (use assms in \<open>fastforce simp: recording_ok_def step_defs split: option.splits if_splits\<close>)+
qed

lemma running_ok_run:
  assumes "running_ok s" and "map_of (runs s) i = Some r" and "r_task r' = r_task r"
    and "\<And>t. t \<noteq> r_task r \<Longrightarrow> m t = rows s t"
    and "m (r_task r) = Some RUNNING \<Longrightarrow> carrier r' \<or> rows s (r_task r) = Some RUNNING \<and> \<not> carrier r"
  shows "running_ok (s\<lparr>rows := m, runs := aput i r' (runs s)\<rparr>)" (is "running_ok ?s'")
  unfolding running_ok_def
proof (intro allI impI)
  fix t assume run: "rows ?s' t = Some RUNNING"
  show "(\<exists>j q. map_of (runs ?s') j = Some q \<and> r_task q = t \<and> carrier q) \<or> marking ?s' t"
  proof (cases "t = r_task r \<and> carrier r'")
    case True
    then show ?thesis using assms(3) by auto
  next
    case False
    then have old: "rows s t = Some RUNNING" "t = r_task r \<Longrightarrow> \<not> carrier r"
      using run assms(4,5) by (cases "t = r_task r"; simp)+
    then have "(\<exists>j q. map_of (runs s) j = Some q \<and> r_task q = t \<and> carrier q) \<or> marking s t"
      using assms(1) by (simp add: running_ok_def)
    moreover have "j \<noteq> i" if "map_of (runs s) j = Some q" "r_task q = t" "carrier q" for j q
      using old(2) assms(2) that by auto
    ultimately show ?thesis by (auto simp: marking_def)
  qed
qed

lemma running_ok_advance:
  assumes "running_ok s" and "recording_ok s" and "exec (Advance i) s = Some s'"
  shows "running_ok s'"
proof -
  obtain r p where r: "map_of (runs s) i = Some r" "\<not> r_cancel r" "next_pc (r_pc r) (rows s (r_task r)) = Some p"
      "s' = s\<lparr>rows := update_row (row_effect (r_pc r)) (r_task r) (rows s), runs := aput i (r\<lparr>r_pc := p\<rparr>) (runs s)\<rparr>"
    by (rule exec_AdvanceE [OF assms(3)])
  have "st \<noteq> RUNNING" if "r_pc r = Recording st" for st using assms(2) r(1) that by (auto simp: recording_ok_def)
  then show ?thesis unfolding r(4)
    by (intro running_ok_run [OF assms(1) r(1)])
       (use r(2,3) in \<open>cases "r_pc r"; auto simp: update_row_eq carrier_def split: if_splits\<close>)+
qed

lemma running_ok_deliver:
  assumes "running_ok s" and "recording_ok s" and "exec (Deliver i b) s = Some s'"
  shows "running_ok s'"
proof -
  obtain r where r: "map_of (runs s) i = Some r" "r_cancel r"
      "s' = s\<lparr>rows := if b then update_row (row_effect (r_pc r)) (r_task r) (rows s) else rows s,
            runs := aput i (r\<lparr>r_pc := on_cancel (r_pc r), r_cancel := False\<rparr>) (runs s)\<rparr>"
    by (rule exec_DeliverE [OF assms(3)])
  show ?thesis unfolding r(3)
    by (intro running_ok_run [OF assms(1) r(1)])
       (use r(2) in \<open>cases "r_pc r"; auto simp: update_row_eq carrier_def split: if_splits\<close>)+
qed

lemma running_ok_start:
  assumes "running_ok s" and "fresh_ids s"
  shows "running_ok (start_step k x s)" (is "running_ok ?s'")
  unfolding running_ok_def
proof (intro allI impI)
  fix t assume "rows ?s' t = Some RUNNING"
  then have "rows s t = Some RUNNING"
    by (cases "snd x") (auto simp: start_step_def Let_def case_prod_beta update_row_eq split: if_splits)
  then consider (run) i q where "map_of (runs s) i = Some q" "r_task q = t" "carrier q" | (mark) "marking s t"
    using assms(1) unfolding running_ok_def by blast
  then show "(\<exists>i q. map_of (runs ?s') i = Some q \<and> r_task q = t \<and> carrier q) \<or> marking ?s' t"
  proof cases
    case run
    have "i < next_id s" using assms(2) map_of_key [OF run(1)] by (auto simp: fresh_ids_def)
    then have "map_of (runs ?s') i = Some q"
      using run(1) by (cases "snd x") (auto simp: start_step_def Let_def case_prod_beta)
    then show ?thesis using run by blast
  next
    case mark
    have "cancellers ?s' = cancellers s" by (cases "snd x") (auto simp: start_step_def Let_def case_prod_beta)
    then show ?thesis using mark by (simp add: marking_def)
  qed
qed

lemma running_ok_cancel:
  assumes "running_ok s" and "cancellers_ok s" and "fresh_ids s" and "map_of (cancellers s) k = Some x"
  shows "running_ok (cancel_step k x s)" (is "running_ok ?s'")
  unfolding running_ok_def
proof (intro allI impI)
  obtain t i p where x: "x = (t, i, p)" by (cases x)
  have mem: "(k, t, i, p) \<in> set (cancellers s)" using assms(4) x by (simp add: map_of_SomeD)
  fix t' assume run: "rows ?s' t' = Some RUNNING"
  then have old: "rows s t' = Some RUNNING" "p = Marking \<Longrightarrow> t' \<noteq> t"
    by (cases p; auto simp: x cancel_step_def put_run_def Let_def update_row_eq split: if_splits option.splits)+
  show "(\<exists>j q. map_of (runs ?s') j = Some q \<and> r_task q = t' \<and> carrier q) \<or> marking ?s' t'"
  proof (cases "p = Killing \<and> t' = t")
    case True
    then have "(k, t, i, Marking) \<in> set (cancellers ?s')"
      by (auto simp: x cancel_step_def put_run_def Let_def aput_new split: option.split)
    then show ?thesis using True unfolding marking_def by force
  next
    case False
    then have other: "t' \<noteq> t" using old(2) by (cases p) auto
    consider (run) j q where "map_of (runs s) j = Some q" "r_task q = t'" "carrier q" | (mark) "marking s t'"
      using assms(1) old(1) unfolding running_ok_def by blast
    then show ?thesis
    proof cases
      case run
      have "j \<noteq> i" using assms(2) mem run other by (fastforce simp: cancellers_ok_def)
      then have "map_of (runs ?s') j = Some q"
        using run(1) by (cases p) (auto simp: x cancel_step_def put_run_def Let_def split: option.split)
      then show ?thesis using run by blast
    next
      case mark
      then obtain y where y: "y \<in> set (cancellers s)" "fst (snd y) = t'" "snd (snd (snd y)) = Marking"
        by (auto simp: marking_def)
      have "fst y \<noteq> k"
        using y other mem assms(3) eq_key_imp_eq_value [of "cancellers s" k "snd y" "(t, i, p)"]
        by (cases y) (auto simp: fresh_ids_def akeys_def)
      then have "y \<in> set (cancellers ?s')"
        using y(1) by (cases p) (auto simp: x cancel_step_def put_run_def Let_def aput_old adel_def split: option.split)
      then show ?thesis using y(2,3) unfolding marking_def by blast
    qed
  qed
qed

lemma running_ok_exec:
  assumes "running_ok s" and "recording_ok s" and "cancellers_ok s" and "fresh_ids s" and "exec a s = Some s'"
  shows "running_ok s'"
proof -
  have moved: "running_ok (s\<lparr>runs := aput i (r\<lparr>r_pc := p\<rparr>) (runs s)\<rparr>)"
    if m: "map_of (runs s) i = Some r" "carrier (r\<lparr>r_pc := p\<rparr>)" for i r p
    using running_ok_run [OF assms(1) m(1), of "r\<lparr>r_pc := p\<rparr>" "rows s"] m(2) by simp
  show ?thesis
  proof (cases a)
    case (Advance i)
    then show ?thesis using running_ok_advance assms by blast
  next
    case (Deliver i b)
    then show ?thesis using running_ok_deliver assms by blast
  next
    case (Start_Step k)
    then show ?thesis using running_ok_start assms by auto
  next
    case (Cancel_Step k)
    then show ?thesis using running_ok_cancel assms by auto
  next
    case (Close i)
    then obtain r where r: "map_of (runs s) i = Some r" "r_pc r = Closing" "s' = close_run i r s"
      using assms(5) by (auto simp: on_run_def split: option.splits if_splits)
    have "j \<noteq> i" if "map_of (runs s) j = Some q" "carrier q" for j q using that r(1,2) by (auto simp: carrier_def)
    then show ?thesis using assms(1) unfolding r(3) running_ok_def marking_def close_run_def
      by (auto simp: map_of_adel) blast
  next
    case (Create t)
    then have "s' = s\<lparr>rows := (rows s)(t \<mapsto> QUEUED), used_ids := t # used_ids s,
        starters := (next_id s, t, Admitted) # starters s, next_id := Suc (next_id s)\<rparr>"
      using assms(5) by (simp add: create_task_def split: if_splits)
    then show ?thesis using assms(1) by (simp add: running_ok_def marking_def)
  next
    case (Retry t)
    then have "s' = s\<lparr>rows := (rows s)(t \<mapsto> QUEUED), starters := (next_id s, t, Admitted) # starters s,
        next_id := Suc (next_id s)\<rparr>" using assms(5) by (simp add: retry_task_def split: if_splits)
    then show ?thesis using assms(1) by (simp add: running_ok_def marking_def)
  next
    case (Delete t)
    then have "s' = s\<lparr>rows := (rows s)(t := None)\<rparr>" using assms(5) by (simp add: delete_task_def split: if_splits)
    then show ?thesis using assms(1) by (simp add: running_ok_def marking_def)
  next
    case (Cancel t)
    then obtain i where "s' = s\<lparr>cancellers := (next_id s, t, i, Killing) # cancellers s, next_id := Suc (next_id s)\<rparr>"
      using assms(5) by (auto simp: cancel_task_def)
    then show ?thesis using assms(1) by (simp add: running_ok_def marking_def)
  qed (use assms(5) moved in \<open>auto simp: on_run_def move_run_def put_run_def carrier_def split: option.splits if_splits\<close>)
qed

lemma reachable_running:
  assumes "reachable cap s"
  shows "running_ok s \<and> recording_ok s"
  using assms
proof (induction rule: reachable.induct)
  case boot
  then show ?case by (simp add: boot_def running_ok_def recording_ok_def)
next
  case (step s a s')
  then show ?case using running_ok_exec recording_ok_exec reachable_ok by blast
qed

subsection \<open>Work that is left\<close>

fun pc_work :: "pc \<Rightarrow> nat" where
  "pc_work Claiming = 8"
| "pc_work Preparing = 7"
| "pc_work Executing = 6"
| "pc_work Rejecting = 5"
| "pc_work (Recording st) = 5"
| "pc_work Persisting = 4"
| "pc_work Failing = 3"
| "pc_work Cancelling = 3"
| "pc_work Reporting = 2"
| "pc_work Closing = 1"

definition run_work :: "run \<Rightarrow> nat" where
  "run_work r = pc_work (r_pc r) + (if r_cancel r then 1 else 0)"

definition start_work :: "start_pc \<Rightarrow> nat" where
  "start_work p = (case p of Admitted \<Rightarrow> 10 | Scheduled \<Rightarrow> 9 | Refused \<Rightarrow> 1)"

definition cancel_work :: "cancel_pc \<Rightarrow> nat" where
  "cancel_work p = (case p of Killing \<Rightarrow> 3 | Marking \<Rightarrow> 1)"

definition runs_work :: "system \<Rightarrow> nat" where
  "runs_work s = sum_mset (image_mset (\<lambda>p. run_work (snd p)) (mset (runs s)))"

definition work :: "system \<Rightarrow> nat" where
  "work s = runs_work s + sum_mset (image_mset (\<lambda>p. start_work (snd (snd p))) (mset (starters s)))
     + sum_mset (image_mset (\<lambda>p. cancel_work (snd (snd (snd p)))) (mset (cancellers s)))"

definition internal :: "action \<Rightarrow> bool" where
  "internal a \<longleftrightarrow> (case a of Create t \<Rightarrow> False | Retry t \<Rightarrow> False | Delete t \<Rightarrow> False | Cancel t \<Rightarrow> False | _ \<Rightarrow> True)"

lemma work_run:
  assumes "distinct (akeys (runs s))" and "map_of (runs s) i = Some r" and "run_work r' < run_work r"
  shows "work (s\<lparr>rows := m, runs := aput i r' (runs s)\<rparr>) < work s"
  using assms(3) mset_adel [OF assms(1,2)] by (simp add: work_def runs_work_def mset_aput [OF assms(1,2)])

lemma work_moved:
  assumes "distinct (akeys (runs s))" and "map_of (runs s) i = Some r" and "pc_work p < pc_work (r_pc r)"
  shows "work (move_run i r p s) < work s"
  using work_run [OF assms(1,2), of "r\<lparr>r_pc := p\<rparr>" "rows s"] assms(3) by (simp add: run_work_def move_run_def put_run_def)

lemma work_start:
  assumes "distinct (akeys (starters s))" and "map_of (starters s) k = Some x"
  shows "work (start_step k x s) < work s"
proof (cases x)
  case (Pair t p)
  then show ?thesis
    using mset_adel [OF assms]
    by (cases p) (auto simp: work_def runs_work_def start_step_def Let_def case_prod_beta mset_aput [OF assms]
        start_work_def run_work_def)
qed

lemma work_cancel:
  assumes "distinct (akeys (runs s))" and "distinct (akeys (cancellers s))" and "map_of (cancellers s) k = Some x"
  shows "work (cancel_step k x s) < work s"
proof (cases x)
  case (fields t i p)
  have flag: "run_work (r\<lparr>r_cancel := True\<rparr>) \<le> Suc (run_work r)" for r by (simp add: run_work_def)
  show ?thesis
  proof (cases "map_of (runs s) i")
    case None
    then show ?thesis using mset_adel [OF assms(2,3)]
      by (cases p) (auto simp: fields work_def runs_work_def cancel_step_def Let_def mset_aput [OF assms(2,3)] cancel_work_def)
  next
    case (Some r)
    then show ?thesis using mset_adel [OF assms(2,3)] mset_adel [OF assms(1) Some] flag [of r]
      by (cases p) (auto simp: fields work_def runs_work_def cancel_step_def Let_def put_run_def cancel_work_def
          mset_aput [OF assms(2,3)] mset_aput [OF assms(1) Some])
  qed
qed

lemma work_decreases:
  assumes "fresh_ids s" and "internal a" and "exec a s = Some s'"
  shows "work s' < work s"
proof -
  have d: "distinct (akeys (runs s))" "distinct (akeys (starters s))" "distinct (akeys (cancellers s))"
    using assms(1) by (simp_all add: fresh_ids_def)
  show ?thesis
  proof (cases a)
    case (Advance i)
    obtain r p where r: "map_of (runs s) i = Some r" "next_pc (r_pc r) (rows s (r_task r)) = Some p"
        "s' = s\<lparr>rows := update_row (row_effect (r_pc r)) (r_task r) (rows s), runs := aput i (r\<lparr>r_pc := p\<rparr>) (runs s)\<rparr>"
      by (rule exec_AdvanceE [OF assms(3) [unfolded Advance]])
    show ?thesis unfolding r(3) by (rule work_run [OF d(1) r(1)]) (use r(2) in \<open>cases "r_pc r"; auto simp: run_work_def\<close>)
  next
    case (Deliver i b)
    obtain r where r: "map_of (runs s) i = Some r" "r_cancel r"
        "s' = s\<lparr>rows := if b then update_row (row_effect (r_pc r)) (r_task r) (rows s) else rows s,
              runs := aput i (r\<lparr>r_pc := on_cancel (r_pc r), r_cancel := False\<rparr>) (runs s)\<rparr>"
      by (rule exec_DeliverE [OF assms(3) [unfolded Deliver]])
    show ?thesis unfolding r(3) by (rule work_run [OF d(1) r(1)]) (use r(2) in \<open>cases "r_pc r"; auto simp: run_work_def\<close>)
  next
    case (Start_Step k)
    then show ?thesis using assms(3) work_start [OF d(2)] by auto
  next
    case (Cancel_Step k)
    then show ?thesis using assms(3) work_cancel [OF d(1,3)] by auto
  next
    case (Close i)
    then obtain r where r: "map_of (runs s) i = Some r" "r_pc r = Closing" "s' = close_run i r s"
      using assms(3) by (auto simp: on_run_def split: option.splits if_splits)
    then show ?thesis using mset_adel [OF d(1) r(1)] by (simp add: work_def runs_work_def close_run_def run_work_def)
  next
    case (Raise i)
    then obtain r where r: "map_of (runs s) i = Some r" "in_body (r_pc r)" "s' = move_run i r Failing s"
      using assms(3) by (auto simp: on_run_def split: option.splits if_splits)
    show ?thesis unfolding r(3) by (rule work_moved [OF d(1) r(1)]) (use r(2) in \<open>cases "r_pc r"; simp add: in_body_def\<close>)
  qed (use assms(2,3) work_moved [OF d(1)] in \<open>auto simp: internal_def on_run_def split: option.splits if_splits\<close>)
qed

lemma run_can_move:
  assumes "map_of (runs s) i = Some r"
  shows "\<exists>a. internal a \<and> exec a s \<noteq> None"
proof (cases "r_cancel r")
  case True
  then show ?thesis using assms by (intro exI [of _ "Deliver i True"]) (simp add: internal_def on_run_def)
next
  case False
  have "exec (Launch i) s \<noteq> None \<or> exec (Finish i COMPLETED) s \<noteq> None \<or> exec (Close i) s \<noteq> None
      \<or> exec (Advance i) s \<noteq> None"
    using assms False by (cases "r_pc r") (simp_all add: on_run_def advance_def)
  moreover have "internal (Launch i)" "internal (Finish i COMPLETED)" "internal (Close i)" "internal (Advance i)"
    by (simp_all add: internal_def)
  ultimately show ?thesis by blast
qed

lemma busy_can_move:
  assumes "runs s \<noteq> [] \<or> starters s \<noteq> [] \<or> cancellers s \<noteq> []"
  shows "\<exists>a. internal a \<and> exec a s \<noteq> None"
proof -
  have first: "\<exists>k v. map_of xs k = Some v" if "xs \<noteq> []" for xs :: "(nat \<times> 'a) list"
    using that by (cases xs) auto
  consider "runs s \<noteq> []" | "starters s \<noteq> []" | "cancellers s \<noteq> []" using assms by blast
  then show ?thesis
  proof cases
    case 1
    then show ?thesis using first run_can_move by blast
  next
    case 2
    then obtain k x where "map_of (starters s) k = Some x" using first by blast
    then show ?thesis by (intro exI [of _ "Start_Step k"]) (simp add: internal_def)
  next
    case 3
    then obtain k x where "map_of (cancellers s) k = Some x" using first by blast
    then show ?thesis by (intro exI [of _ "Cancel_Step k"]) (simp add: internal_def)
  qed
qed

lemma reachable_exec_all:
  "reachable cap s \<Longrightarrow> exec_all as s = Some s' \<Longrightarrow> reachable cap s'"
  by (induction as arbitrary: s) (auto split: option.splits intro: reachable.step)

lemma internal_run_bounded:
  "reachable cap s \<Longrightarrow> list_all internal as \<Longrightarrow> exec_all as s = Some s' \<Longrightarrow> length as + work s' \<le> work s"
proof (induction as arbitrary: s)
  case (Cons a as)
  obtain s1 where s1: "exec a s = Some s1" "exec_all as s1 = Some s'"
    using Cons.prems(3) by (auto split: option.splits)
  have "work s1 < work s" using work_decreases [of s a s1] reachable_ok [OF Cons.prems(1)] Cons.prems(2) s1(1) by simp
  moreover have "length as + work s' \<le> work s1"
    using Cons.IH [of s1] reachable.step [OF Cons.prems(1) s1(1)] Cons.prems(2) s1(2) by simp
  ultimately show ?case by simp
qed simp

lemma idle_state:
  assumes "reachable cap s" and "runs s = []" and "starters s = []" and "cancellers s = []"
  shows "running_tasks (limiter s) = [] \<and> registry s = Map.empty \<and> (\<forall>t. rows s t \<noteq> Some RUNNING)"
proof -
  have "held_slots (limiter s) = {#}"
    using reachable_ok [OF assms(1)] assms(2,3) by (simp add: slots_ok_def slot_holders_def)
  moreover have "registry s t = None" for t
    using reachable_ok [OF assms(1)] assms(2) by (cases "registry s t") (auto simp: registry_ok_def)
  ultimately show ?thesis
    using reachable_running [OF assms(1)] assms(2,4)
    by (auto simp: held_slots_def running_ok_def marking_def)
qed

subsection \<open>A task that is never retried\<close>

inductive unretried :: "int \<Rightarrow> system \<Rightarrow> bool" for cap where
  unretried_boot: "unretried cap (boot cap)"
| unretried_step: "unretried cap s \<Longrightarrow> exec a s = Some s' \<Longrightarrow> \<forall>t. a \<noteq> Retry t \<Longrightarrow> unretried cap s'"

lemma unretried_reachable: "unretried cap s \<Longrightarrow> reachable cap s"
  by (induction rule: unretried.induct) (auto intro: reachable.intros)

definition claimants :: "system \<Rightarrow> string multiset" where
  "claimants s = image_mset (\<lambda>p. r_task (snd p)) (mset (runs s)) + image_mset (\<lambda>p. fst (snd p)) (mset (starters s))"

definition solo :: "system \<Rightarrow> bool" where
  "solo s \<longleftrightarrow> (\<forall>t. count (claimants s) t \<le> 1) \<and> set_mset (claimants s) \<subseteq> set (used_ids s)"

lemma claimants_run:
  assumes "distinct (akeys (runs s))" and "map_of (runs s) i = Some r" and "r_task r' = r_task r"
  shows "claimants (s\<lparr>rows := m, runs := aput i r' (runs s)\<rparr>) = claimants s"
  using assms mset_adel [OF assms(1,2)] by (simp add: claimants_def mset_aput)

lemma used_ids_start [simp]: "used_ids (start_step k x s) = used_ids s"
  by (cases "snd x") (simp_all add: start_step_def Let_def case_prod_beta)

lemma used_ids_cancel [simp]: "used_ids (cancel_step k x s) = used_ids s"
  by (cases x; cases "snd (snd x)") (auto simp: cancel_step_def put_run_def Let_def split: option.split)

lemma claimants_start:
  assumes "distinct (akeys (starters s))" and "map_of (starters s) k = Some x"
  shows "claimants (start_step k x s) \<subseteq># claimants s"
proof (cases x)
  case (Pair t p)
  then show ?thesis
    using mset_adel [OF assms]
    by (cases p) (auto simp: claimants_def start_step_def Let_def case_prod_beta mset_aput [OF assms])
qed

lemma claimants_cancel:
  assumes "distinct (akeys (runs s))"
  shows "claimants (cancel_step k x s) = claimants s"
proof (cases x)
  case (fields t i p)
  then show ?thesis
    using mset_adel [OF assms, of i] mset_aput [OF assms, of i]
    by (cases p) (auto simp: claimants_def cancel_step_def Let_def put_run_def split: option.split)
qed

lemma solo_exec:
  assumes "solo s" and "fresh_ids s" and "exec a s = Some s'" and "\<forall>t. a \<noteq> Retry t"
  shows "solo s'"
proof -
  have d: "distinct (akeys (runs s))" "distinct (akeys (starters s))" using assms(2) by (simp_all add: fresh_ids_def)
  have sub: "solo s'" if "claimants s' \<subseteq># claimants s" "used_ids s' = used_ids s"
    using assms(1) that mset_subset_eq_count [OF that(1)] set_mset_mono [OF that(1)] unfolding solo_def
    by (metis le_trans subset_trans)
  show ?thesis
  proof (cases "\<exists>t. a = Create t")
    case True
    then obtain t where t: "t \<notin> set (used_ids s)" "s' = s\<lparr>rows := (rows s)(t \<mapsto> QUEUED), used_ids := t # used_ids s,
        starters := (next_id s, t, Admitted) # starters s, next_id := Suc (next_id s)\<rparr>"
      using assms(3) by (auto simp: create_task_def split: if_splits)
    then have "count (claimants s) t = 0" using assms(1) by (auto simp: solo_def not_in_iff [symmetric])
    moreover have "claimants s' = add_mset t (claimants s)" using t(2) by (simp add: claimants_def)
    ultimately show ?thesis using assms(1) t(2) by (auto simp: solo_def)
  next
    case False
    show ?thesis using assms(3)
    proof (cases rule: exec_shape)
      case (start k x)
      then show ?thesis using sub claimants_start [OF d(2)] by simp
    next
      case (stop k x)
      then show ?thesis using sub claimants_cancel [OF d(1)] by simp
    next
      case (run i r r' m)
      then show ?thesis using sub claimants_run [OF d(1) run(1,2)] by simp
    next
      case (close i r)
      then show ?thesis using sub mset_adel [OF d(1) close(1)] by (simp add: claimants_def close_run_def)
    next
      case (admit t m u)
      then show ?thesis using False assms(4) by auto
    qed (use sub in \<open>auto simp: claimants_def\<close>)
  qed
qed

lemma unretried_solo: "unretried cap s \<Longrightarrow> solo s"
proof (induction rule: unretried.induct)
  case unretried_boot
  then show ?case by (simp add: solo_def boot_def claimants_def)
next
  case (unretried_step s a s')
  then show ?case using solo_exec reachable_ok unretried_reachable by blast
qed

lemma solo_one_run:
  assumes "solo s" and "distinct (akeys (runs s))" and "map_of (runs s) i = Some r" and "map_of (runs s) j = Some q"
    and "r_task r = r_task q"
  shows "i = j"
proof (rule ccontr)
  assume "i \<noteq> j"
  then have "map_of (adel i (runs s)) j = Some q" using assms(4) by (simp add: map_of_adel)
  moreover have "distinct (akeys (adel i (runs s)))" using assms(2) by simp
  ultimately have "count (claimants s) (r_task q) \<ge> 2"
    using mset_adel [OF assms(2,3)] mset_adel [of "adel i (runs s)" j q] assms(5) by (simp add: claimants_def)
  then show False using assms(1) by (metis solo_def le_antisym numeral_le_one_iff order_trans semiring_norm(69))
qed

subsection \<open>Properties\<close>

text \<open>C6: The slots of the concurrency limiter are exactly those of the executions that have not ended and
  of the handlers that have scheduled one, one slot each, whatever requests, cancellations, retries and
  exceptions interleave: none is lost or given back twice, so there are never more executions of scans
  than the configured maximum.\<close>

theorem slots_match_executions:
  assumes "reachable cap s" and "0 \<le> cap"
  shows "mset (running_tasks (limiter s)) = slot_holders s \<and> int (length (runs s)) \<le> cap
     \<and> (\<forall>i r. map_of (runs s) i = Some r \<longrightarrow> r_task r \<in> set (running_tasks (limiter s)))"
proof -
  have ok: "held_slots (limiter s) = slot_holders s" "int (size (slot_holders s)) \<le> cap"
    using reachable_ok [OF assms(1)] assms(2) by (auto simp: slots_ok_def)
  have "r_task r \<in># slot_holders s" if "map_of (runs s) i = Some r" for i r
    using map_of_SomeD [OF that] by (force simp: slot_holders_def)
  moreover have "length (runs s) \<le> size (slot_holders s)" by (simp add: slot_holders_def)
  ultimately show ?thesis using ok by (auto simp: held_slots_def simp flip: set_mset_mset)
qed

definition example_trace :: "action list" where
  "example_trace = [Create ''t'', Start_Step 0, Start_Step 0, Advance 1, Launch 1]"

lemma example_trace_runs: "\<exists>s. exec_all example_trace (boot 3) = Some s \<and> map_of (runs s) 1
    = Some \<lparr>r_task = ''t'', r_pc = Executing, r_cancel = False\<rparr> \<and> rows s ''t'' = Some RUNNING"
  unfolding example_trace_def by (simp add: boot_def step_defs Let_def adel_def try_acquire_def acquire_slot_def update_row_def)

theorem slots_match_executions_witness:
  "\<exists>s. exec_all example_trace (boot 3) = Some s \<and> ''t'' \<in> set (running_tasks (limiter s)) \<and> length (runs s) \<le> 3"
proof -
  obtain s where s: "exec_all example_trace (boot 3) = Some s"
      "map_of (runs s) 1 = Some \<lparr>r_task = ''t'', r_pc = Executing, r_cancel = False\<rparr>"
    using example_trace_runs by blast
  have "reachable 3 s" using reachable_exec_all [OF reachable.boot s(1)] .
  from slots_match_executions [OF this] s show ?thesis by force
qed

text \<open>C10: A row that says \<open>RUNNING\<close> is never orphaned: an execution of that task is on its way to an UPDATE
  that takes the row out of that state, or a cancellation that will do it is under way. (Of the states
  it leaves the row in, see the lemmas on races below.)\<close>

theorem running_rows_owned:
  assumes "reachable cap s" and "rows s t = Some RUNNING"
  shows "(\<exists>i r. map_of (runs s) i = Some r \<and> r_task r = t \<and> r_pc r \<notin> {Claiming, Persisting, Reporting, Closing})
     \<or> (\<exists>k i. (k, t, i, Marking) \<in> set (cancellers s))"
proof -
  have "running_ok s" using reachable_running [OF assms(1)] by simp
  then consider (run) i r where "map_of (runs s) i = Some r" "r_task r = t" "carrier r" | (mark) "marking s t"
    using assms(2) unfolding running_ok_def by blast
  then show ?thesis
  proof cases
    case run
    then have "r_pc r \<notin> {Claiming, Persisting, Reporting, Closing}" by (auto simp: carrier_def)
    then show ?thesis using run by blast
  next
    case mark
    then show ?thesis by (auto simp: marking_def)
  qed
qed

theorem running_rows_owned_witness:
  "\<exists>s. exec_all example_trace (boot 3) = Some s \<and> ((\<exists>i r. map_of (runs s) i = Some r \<and> r_task r = ''t''
     \<and> r_pc r \<notin> {Claiming, Persisting, Reporting, Closing}) \<or> (\<exists>k i. (k, ''t'', i, Marking) \<in> set (cancellers s)))"
proof -
  obtain s where s: "exec_all example_trace (boot 3) = Some s" "rows s ''t'' = Some RUNNING"
    using example_trace_runs by blast
  have "reachable 3 s" using reachable_exec_all [OF reachable.boot s(1)] .
  from running_rows_owned [OF this s(2)] show ?thesis using s(1) by blast
qed

text \<open>C9: Without new requests the executor comes to rest: from every state it reaches, no sequence of its
  own steps is longer than the work that is left, and where no step is possible any more, no execution,
  start or cancellation is pending, every slot is free, nothing is registered and no row says
  \<open>RUNNING\<close>.\<close>

theorem executor_quiesces:
  assumes "reachable cap s" and "list_all internal as" and "exec_all as s = Some s'"
  shows "length as + work s' \<le> work s
     \<and> ((\<forall>a. internal a \<longrightarrow> exec a s' = None) \<longrightarrow> runs s' = [] \<and> starters s' = [] \<and> cancellers s' = []
          \<and> running_tasks (limiter s') = [] \<and> registry s' = Map.empty \<and> (\<forall>t. rows s' t \<noteq> Some RUNNING))"
proof -
  have "runs s' = [] \<and> starters s' = [] \<and> cancellers s' = []" if "\<forall>a. internal a \<longrightarrow> exec a s' = None"
    using busy_can_move [of s'] that by metis
  then show ?thesis
    using internal_run_bounded [OF assms] idle_state [OF reachable_exec_all [OF assms(1,3)]] by simp
qed

theorem executor_quiesces_witness:
  "\<exists>s s'. exec_all example_trace (boot 3) = Some s \<and> exec_all [Finish 1 COMPLETED, Advance 1, Advance 1, Close 1] s = Some s'
     \<and> 4 + work s' \<le> work s"
proof -
  obtain s s' where s: "exec_all example_trace (boot 3) = Some s"
      "exec_all [Finish 1 COMPLETED, Advance 1, Advance 1, Close 1] s = Some s'"
    unfolding example_trace_def by (simp add: boot_def step_defs Let_def adel_def try_acquire_def acquire_slot_def update_row_def)
  have r: "reachable 3 s" using reachable_exec_all [OF reachable.boot s(1)] .
  have "list_all internal [Finish 1 COMPLETED, Advance 1, Advance 1, Close 1]" by (simp add: internal_def)
  from executor_quiesces [OF r this s(2)] show ?thesis using s by auto
qed

text \<open>A task that is never retried is executed at most once at a time and by one execution only: two
  live executions of the same task are the same, and while one is alive no handler is about to start
  another.\<close>

theorem unretried_runs_once:
  assumes "unretried cap s" and "map_of (runs s) i = Some r"
  shows "(\<forall>j q. map_of (runs s) j = Some q \<longrightarrow> r_task q = r_task r \<longrightarrow> j = i)
     \<and> (\<forall>k p. (k, r_task r, p) \<notin> set (starters s))"
proof -
  have solo: "solo s" using unretried_solo [OF assms(1)] .
  have d: "distinct (akeys (runs s))" using reachable_ok [OF unretried_reachable [OF assms(1)]] by (simp add: fresh_ids_def)
  have "False" if "(k, r_task r, p) \<in> set (starters s)" for k p
  proof -
    have "r_task r \<in># image_mset (\<lambda>p. fst (snd p)) (mset (starters s))" using that by force
    then have "0 < count (image_mset (\<lambda>p. fst (snd p)) (mset (starters s))) (r_task r)"
      by (simp only: count_greater_zero_iff)
    moreover have "count (claimants s) (r_task r) = Suc (count (image_mset (\<lambda>p. r_task (snd p)) (mset (adel i (runs s)))) (r_task r)
        + count (image_mset (\<lambda>p. fst (snd p)) (mset (starters s))) (r_task r))"
      using mset_adel [OF d assms(2)] by (simp add: claimants_def)
    ultimately have "count (claimants s) (r_task r) \<ge> 2" by linarith
    then show False using solo by (metis solo_def le_antisym numeral_le_one_iff order_trans semiring_norm(69))
  qed
  then show ?thesis using solo_one_run [OF solo d _ assms(2)] by blast
qed

lemma unretried_exec_all:
  "unretried cap s \<Longrightarrow> \<forall>t. Retry t \<notin> set as \<Longrightarrow> exec_all as s = Some s' \<Longrightarrow> unretried cap s'"
  by (induction as arbitrary: s) (auto split: option.splits intro: unretried_step)

theorem unretried_runs_once_witness:
  "\<exists>s. exec_all example_trace (boot 3) = Some s \<and> (\<forall>j q. map_of (runs s) j = Some q \<longrightarrow> r_task q = ''t'' \<longrightarrow> j = 1)"
proof -
  obtain s where s: "exec_all example_trace (boot 3) = Some s"
      "map_of (runs s) 1 = Some \<lparr>r_task = ''t'', r_pc = Executing, r_cancel = False\<rparr>"
    using example_trace_runs by blast
  have "unretried 3 s"
    by (rule unretried_exec_all [OF unretried_boot _ s(1)]) (simp add: example_trace_def)
  from unretried_runs_once [OF this s(2)] show ?thesis using s(1) by auto
qed

subsection \<open>Races\<close>

text \<open>
  A cancellation that arrives before the claim of the row leaves the task \<open>QUEUED\<close> for good: nothing
  runs it, it can be neither cancelled nor retried (both refuse a queued task), although the client was
  told that it is cancelled.
\<close>

lemmas race_defs = boot_def step_defs Let_def adel_def try_acquire_def acquire_slot_def release_slot_def update_row_def
  in_body_def

lemma cancel_before_claim_strands:
  "\<exists>s. exec_all [Create ''t'', Start_Step 0, Start_Step 0, Cancel ''t'', Cancel_Step 2, Cancel_Step 2, Deliver 1 False,
         Advance 1, Advance 1, Close 1] (boot 3) = Some s
     \<and> rows s ''t'' = Some QUEUED \<and> runs s = [] \<and> starters s = []
     \<and> exec (Cancel ''t'') s = None \<and> exec (Retry ''t'') s = None"
  by (simp add: race_defs)

text \<open>
  A retry while the failed execution still winds up: the end of the old one drops the registration of
  the new one, which then cannot be cancelled.
\<close>

lemma retry_becomes_uncancellable:
  "\<exists>s. exec_all [Create ''t'', Start_Step 0, Start_Step 0, Advance 1, Raise 1, Advance 1,
         Retry ''t'', Start_Step 2, Start_Step 2, Advance 3, Launch 3, Advance 1, Close 1] (boot 3) = Some s
     \<and> map_of (runs s) 3 = Some \<lparr>r_task = ''t'', r_pc = Executing, r_cancel = False\<rparr>
     \<and> rows s ''t'' = Some RUNNING \<and> exec (Cancel ''t'') s = None"
  by (simp add: race_defs)

text \<open>
  A cancelled task that is retried before its first execution has noticed the cancellation runs twice at
  once, and the first one, when it notices, marks the second as cancelled.
\<close>

lemma retry_overlaps_cancelled_run:
  "\<exists>s s'. exec_all [Create ''t'', Start_Step 0, Start_Step 0, Advance 1, Launch 1, Cancel ''t'', Cancel_Step 2, Cancel_Step 2,
         Retry ''t'', Start_Step 3, Start_Step 3, Advance 4, Launch 4] (boot 3) = Some s
     \<and> map_option r_pc (map_of (runs s) 1) = Some Executing \<and> map_option r_pc (map_of (runs s) 4) = Some Executing
     \<and> exec_all [Deliver 1 True, Advance 1] s = Some s' \<and> map_option r_pc (map_of (runs s') 4) = Some Executing
     \<and> rows s' ''t'' = Some CANCELLED"
  by (simp add: race_defs)

text \<open>An exception after the result was recorded turns a completed task into a failed one.\<close>

lemma completed_becomes_failed:
  "\<exists>s s'. exec_all (example_trace @ [Finish 1 COMPLETED, Advance 1]) (boot 3) = Some s \<and> rows s ''t'' = Some COMPLETED
     \<and> exec_all [Raise 1, Advance 1] s = Some s' \<and> rows s' ''t'' = Some FAILED"
  by (simp add: race_defs example_trace_def)

end
