(* ===== verification/Result_Contract.thy ===== *)
theory Result_Contract
  imports Task_Launch
begin

text \<open>
  From the output of a scanner to the stored findings (\<open>backend/secuscan/executor.py\<close>): the built-in
  parsers, the normalisation of whatever a parser returns, the result contract with its correlated
  findings, groups, assets and differences, and the persistence of findings with its upsert.
  Parameters: \<open>str\<close> of floats and containers, \<open>json.loads\<close>, \<open>json.dumps\<close>, timestamps as the model
  of risk scoring has them, UUIDs and digests.
\<close>

subsection \<open>Normalising a finding\<close>

text \<open>\<open>str.title()\<close>: a letter is upper case exactly when no letter stands before it.\<close>

fun title_from :: "bool \<Rightarrow> string \<Rightarrow> string" where
  "title_from after [] = []"
| "title_from after (c # cs) =
     (let letter = is_upper c \<or> is_lower c
      in (if letter then (if after then lower_char c else upper_char c) else c) # title_from letter cs)"

definition py_title :: "string \<Rightarrow> string" where
  "py_title s = title_from False s"

definition severity_map :: "string \<Rightarrow> string" where
  "severity_map s =
     (if s = ''critical'' then ''critical'' else if s \<in> {''high'', ''error''} then ''high''
      else if s \<in> {''medium'', ''moderate'', ''warning'', ''warn''} then ''medium''
      else if s = ''low'' then ''low'' else ''info'')"

definition list_or_empty :: "dict \<Rightarrow> string \<Rightarrow> json" where
  "list_or_empty f k = (case jget f k of JList xs \<Rightarrow> JList xs | _ \<Rightarrow> JList [])"

definition normalize_finding :: "(json \<Rightarrow> string) \<Rightarrow> plugin \<Rightarrow> dict \<Rightarrow> dict" where
  "normalize_finding repr p f =
     (let severity = py_lower (show_json repr (jget_or f ''severity'' (JStr ''info'')));
          category = jor (jget f ''category'') (jor (jget f ''type'') (JStr (py_title (p_category p))));
          title = jor (jget f ''title'') (jor (jget f ''name'') (JStr ''Security Finding''));
          description = jor (jget f ''description'') (jor (jget f ''message'') (JStr (show_json repr title)));
          metadata = (case jget_or f ''metadata'' (JObj []) of JObj md \<Rightarrow> md | v \<Rightarrow> [(''value'', v)])
      in [(''title'', JStr (show_json repr title)),
          (''category'', JStr (show_json repr category)),
          (''severity'', JStr (severity_map severity)),
          (''description'', JStr (show_json repr description)),
          (''remediation'', JStr (show_json repr (jget_or f ''remediation'' (JStr [])))),
          (''proof'', jget f ''proof''),
          (''cvss'', jget f ''cvss''),
          (''cve'', jget f ''cve''),
          (''metadata'', JObj metadata),
          (''exploitability'', jget f ''exploitability''),
          (''confidence'', jget f ''confidence''),
          (''validated'', JBool (truthy (jget f ''validated''))),
          (''validation_method'', jget f ''validation_method''),
          (''confidence_reason'', jget f ''confidence_reason''),
          (''evidence'', list_or_empty f ''evidence''),
          (''asset_refs'', list_or_empty f ''asset_refs''),
          (''service_fingerprint'', jget f ''service_fingerprint''),
          (''cpe'', jget f ''cpe''),
          (''references'', list_or_empty f ''references''),
          (''asset_exposure'', jget f ''asset_exposure'')])"

definition json_item_to_finding :: "(json \<Rightarrow> string) \<Rightarrow> plugin \<Rightarrow> dict \<Rightarrow> string \<Rightarrow> dict" where
  "json_item_to_finding repr p item default_title =
     (let title = jor (jget item ''title'') (jor (jget item ''name'') (jor (jget item ''issue'')
            (jor (jget item ''message'') (JStr default_title))));
          description = jor (jget item ''description'') (jor (jget item ''detail'') (jor (jget item ''message'')
            (JStr (repr (JObj item)))))
      in normalize_finding repr p
           [(''title'', title), (''category'', jget_or item ''category'' (JStr (py_title (p_category p)))),
            (''severity'', jget_or item ''severity'' (JStr ''info'')), (''description'', description),
            (''metadata'', JObj item)])"

definition scalar_item :: "(json \<Rightarrow> string) \<Rightarrow> plugin \<Rightarrow> json \<Rightarrow> nat \<Rightarrow> dict" where
  "scalar_item repr p item idx =
     normalize_finding repr p
       [(''title'', JStr (p_name p @ '' Result #'' @ nat_str idx)), (''category'', JStr (p_category p)),
        (''severity'', JStr ''info''), (''description'', JStr (show_json repr item))]"

definition list_items :: "(json \<Rightarrow> string) \<Rightarrow> plugin \<Rightarrow> json list \<Rightarrow> dict list" where
  "list_items repr p xs =
     map (\<lambda>(item, i). case item of
            JObj d \<Rightarrow> json_item_to_finding repr p d (''Item '' @ nat_str (Suc i))
          | _ \<Rightarrow> scalar_item repr p item (Suc i)) (zip xs [0..<length xs])"

definition keyed_items :: "(json \<Rightarrow> string) \<Rightarrow> plugin \<Rightarrow> dict \<Rightarrow> string \<Rightarrow> dict list option" where
  "keyed_items repr p d k =
     (case jget d k of
        JList xs \<Rightarrow>
          (let fs = List.map_filter (\<lambda>(item, i). case item of
                      JObj o' \<Rightarrow> Some (json_item_to_finding repr p o' (k @ '' #'' @ nat_str (Suc i)))
                    | _ \<Rightarrow> None) (zip xs [0..<length xs])
           in if fs = [] then None else Some fs)
      | _ \<Rightarrow> None)"

definition parse_json_fallback_findings :: "(json \<Rightarrow> string) \<Rightarrow> (string \<Rightarrow> json option) \<Rightarrow> plugin \<Rightarrow> string \<Rightarrow> dict list" where
  "parse_json_fallback_findings repr loads p parser_input =
     (case loads parser_input of
        Some (JList xs) \<Rightarrow> list_items repr p xs
      | Some (JObj d) \<Rightarrow>
          (case first_some (keyed_items repr p d) [''results'', ''findings'', ''issues'', ''vulnerabilities''] of
             Some fs \<Rightarrow> fs
           | None \<Rightarrow> [json_item_to_finding repr p d (p_name p)])
      | _ \<Rightarrow> [])"

definition raw_findings :: "json \<Rightarrow> dict list" where
  "raw_findings parsed =
     (let raw = (case parsed of JObj d \<Rightarrow> jget_or d ''findings'' (JList []) | JList xs \<Rightarrow> JList xs | _ \<Rightarrow> JList [])
      in case raw of
           JObj d \<Rightarrow> [d]
         | JList xs \<Rightarrow> List.map_filter (\<lambda>v. case v of JObj d \<Rightarrow> Some d | _ \<Rightarrow> None) xs
         | _ \<Rightarrow> [])"

definition normalize_parsed_result ::
  "(json \<Rightarrow> string) \<Rightarrow> (string \<Rightarrow> json option) \<Rightarrow> plugin \<Rightarrow> string \<Rightarrow> json \<Rightarrow> dict" where
  "normalize_parsed_result repr loads p parser_input parsed =
     (let own = map (normalize_finding repr p) (raw_findings parsed);
          format = py_lower (show_json repr (jget_or (p_output p) ''format'' (JStr [])));
          findings = (if own = [] \<and> format \<in> {''json'', ''jsonl''}
                      then parse_json_fallback_findings repr loads p parser_input else own);
          d0 = aput ''findings'' (JList (map JObj findings)) (case parsed of JObj d \<Rightarrow> d | _ \<Rightarrow> []);
          d1 = (if map_of d0 ''count'' = None then aput ''count'' (JInt (int (length findings))) d0 else d0)
      in if map_of d1 ''raw'' = None \<and> findings = [] then aput ''raw'' (JStr parser_input) d1 else d1)"

subsection \<open>The built-in parsers\<close>

text \<open>\<open>(\d+)/(tcp|udp)\s+open\s+([\w-]+)\<close> at the start of a text, and the text after the match.\<close>

definition strip_prefix :: "string \<Rightarrow> string \<Rightarrow> string option" where
  "strip_prefix p s = (if starts_with s p then Some (drop (length p) s) else None)"

definition nmap_match :: "string \<Rightarrow> ((string \<times> string \<times> string) \<times> string) option" where
  "nmap_match s =
     (let port = takeWhile is_digit s; r = dropWhile is_digit s in
      if port = [] then None
      else case first_some (\<lambda>proto. map_option (Pair proto) (strip_prefix (''/'' @ proto) r)) [''tcp'', ''udp''] of
          None \<Rightarrow> None
        | Some (proto, r1) \<Rightarrow>
            (case strip_prefix ''open'' (dropWhile is_ws r1) of
               None \<Rightarrow> None
             | Some r2 \<Rightarrow>
                 (let r3 = dropWhile is_ws r2; name_char = (\<lambda>c. is_word c \<or> c = CHR ''-'');
                      service = takeWhile name_char r3
                  in if is_ws (hd (r1 @ [CHR ''x''])) \<and> is_ws (hd (r2 @ [CHR ''x''])) \<and> service \<noteq> []
                     then Some ((port, proto, service), dropWhile name_char r3) else None)))"

lemma drop_le: "length (dropWhile P xs) \<le> length xs"
  by (rule length_dropWhile_le)

lemma strip_prefix_length: "strip_prefix p s = Some r \<Longrightarrow> length r \<le> length s"
  by (auto simp: strip_prefix_def split: if_splits)

lemma nmap_match_shorter:
  assumes "nmap_match s = Some (m, r)"
  shows "length r < length s"
proof -
  define d where "d = dropWhile is_digit s"
  obtain proto r1 r2 where r: "takeWhile is_digit s \<noteq> []" "strip_prefix (''/'' @ proto) d = Some r1"
      "strip_prefix ''open'' (dropWhile is_ws r1) = Some r2"
      "r = dropWhile (\<lambda>c. is_word c \<or> c = CHR ''-'') (dropWhile is_ws r2)"
    using assms unfolding d_def
    by (auto simp: nmap_match_def Let_def split: option.splits if_splits)
  have "length r \<le> length r2" unfolding r(4) by (meson drop_le le_trans)
  also have "\<dots> \<le> length r1" using strip_prefix_length [OF r(3)] drop_le le_trans by blast
  also have "\<dots> \<le> length d" using strip_prefix_length [OF r(2)] .
  also have "\<dots> < length s" unfolding d_def using r(1) by (cases s) (auto simp: le_imp_less_Suc length_dropWhile_le split: if_splits)
  finally show ?thesis .
qed

function nmap_ports :: "string \<Rightarrow> (string \<times> string \<times> string) list" where
  "nmap_ports [] = []"
| "nmap_ports (c # cs) =
     (case nmap_match (c # cs) of Some (m, r) \<Rightarrow> m # nmap_ports r | None \<Rightarrow> nmap_ports cs)"
  by pat_completeness auto
termination
  by (relation "measure length") (auto dest: nmap_match_shorter)

definition port_number :: "string \<Rightarrow> int" where
  "port_number s = int (digits_val s)"

definition nmap_finding :: "string \<times> string \<times> string \<Rightarrow> dict" where
  "nmap_finding m =
     (case m of (port, proto, service) \<Rightarrow>
        [(''title'', JStr (''Open Port: '' @ port @ ''/'' @ proto @ '' ('' @ service @ '')'')),
         (''category'', JStr ''Network Service''), (''severity'', JStr ''low''),
         (''description'', JStr (''Port '' @ port @ '' is open and running '' @ service @ '' service.'')),
         (''remediation'', JStr ''Close unnecessary ports and use a firewall to restrict access.''),
         (''metadata'', JObj [(''port'', JStr port), (''protocol'', JStr proto), (''service'', JStr service)])])"

definition parse_nmap_output :: "string \<Rightarrow> dict" where
  "parse_nmap_output output =
     (let ms = nmap_ports output in
      [(''open_ports'', JList (map JInt (sort (remdups (map (\<lambda>(port, _). port_number port) ms))))),
       (''services'', JList (map JStr (sort (remdups (map (\<lambda>(_, _, service). service) ms))))),
       (''findings'', JList (map (JObj o nmap_finding) ms))])"

text \<open>\<open>(?i)Name:\s*(.+)\<close>: white space that the dot needs is given back, but the dot takes no newline.\<close>

definition header_text :: "string \<Rightarrow> string option" where
  "header_text r =
     (let w = takeWhile is_ws r; v = dropWhile is_ws r; newline = CHR 0x0A in
      if v \<noteq> [] then Some (takeWhile (\<lambda>c. c \<noteq> newline) v)
      else case filter (\<lambda>c. c \<noteq> newline) w of [] \<Rightarrow> None | cs \<Rightarrow> Some [List.last cs])"

fun search_header :: "string \<Rightarrow> string \<Rightarrow> string option" where
  "search_header name [] = None"
| "search_header name (c # cs) =
     (case (if starts_with (py_lower (c # cs)) name then header_text (drop (length name) (c # cs)) else None) of
        Some v \<Rightarrow> Some (py_strip v)
      | None \<Rightarrow> search_header name cs)"

definition http_finding :: "string \<Rightarrow> string \<Rightarrow> string \<Rightarrow> string \<Rightarrow> string \<Rightarrow> dict" where
  "http_finding title description remediation key v =
     [(''title'', JStr (title @ v)), (''category'', JStr ''Information Disclosure''), (''severity'', JStr ''low''),
      (''description'', JStr (description @ v)), (''remediation'', JStr remediation),
      (''metadata'', JObj [(key, JStr v)])]"

definition parse_http_output :: "string \<Rightarrow> dict" where
  "parse_http_output output =
     (let found = (\<lambda>name mk. case search_header name output of None \<Rightarrow> [] | Some v \<Rightarrow> [(v, mk v)]);
          hits = found ''server:'' (http_finding ''Web Server Disclosed: '' ''The web server discloses its version: ''
                   ''Disable the Server header in web server configuration.'' ''server'')
               @ found ''x-powered-by:'' (http_finding ''X-Powered-By Disclosed: ''
                   ''The application discloses its technology stack: '' ''Disable the X-Powered-By header.'' ''tech'')
      in [(''technologies'', JList (map JStr (sort (remdups (map fst hits))))),
          (''findings'', JList (map (JObj o snd) hits))])"

datatype parse_error = Parser_Tampered | Parser_Failed string

text \<open>
  The plugin directory: whether there is a \<open>parser.py\<close>, whether it passes the integrity check, and what
  the sandbox makes of it (\<open>Inl\<close> the reason of its error); and the text of a report file, if the path
  names a readable one.
\<close>

record parser_env =
  parser_exists :: bool
  parser_verified :: bool
  sandboxed :: "string \<Rightarrow> string + json"
  report_file :: "string \<Rightarrow> string option"

definition resolve_parser_input :: "parser_env \<Rightarrow> plugin \<Rightarrow> string \<Rightarrow> string" where
  "resolve_parser_input pe p output =
     (case jget (p_output p) ''report_path'' of
        JStr path \<Rightarrow> if py_strip path = [] then output
                     else (case report_file pe path of None \<Rightarrow> output | Some txt \<Rightarrow> txt)
      | _ \<Rightarrow> output)"

definition parse_results ::
  "(json \<Rightarrow> string) \<Rightarrow> (string \<Rightarrow> json option) \<Rightarrow> parser_env \<Rightarrow> plugin \<Rightarrow> string \<Rightarrow> parse_error + dict" where
  "parse_results repr loads pe p output =
     (let parser_input = resolve_parser_input pe p output;
          done = (\<lambda>parsed. Inr (normalize_parsed_result repr loads p parser_input parsed));
          kind = jget (p_output p) ''parser''
      in if parser_exists pe
         then (if \<not> parser_verified pe then Inl Parser_Tampered
               else case sandboxed pe parser_input of Inl why \<Rightarrow> Inl (Parser_Failed why) | Inr parsed \<Rightarrow> done parsed)
         else if kind = JStr ''builtin_nmap'' then done (JObj (parse_nmap_output parser_input))
         else if kind = JStr ''builtin_http'' then done (JObj (parse_http_output parser_input))
         else done (JObj [(''findings'', JList []), (''raw'', JStr parser_input)]))"

subsection \<open>The result contract\<close>

definition build_severity_counts :: "(json \<Rightarrow> string) \<Rightarrow> dict list \<Rightarrow> (string \<times> int) list" where
  "build_severity_counts repr fs =
     fold (\<lambda>f counts. let s = py_lower (show_json repr (jget_or f ''severity'' (JStr ''info'')))
                       in aput s ((case map_of counts s of None \<Rightarrow> 0 | Some n \<Rightarrow> n) + 1) counts) fs []"

text \<open>\<open>_stable_asset_id\<close> of the executor has the shape of \<open>stable_id\<close>, with a name-based UUID as digest.\<close>

definition executor_asset_id :: "(json \<Rightarrow> string) \<Rightarrow> (string \<Rightarrow> string) \<Rightarrow> string \<Rightarrow> string \<Rightarrow> json \<Rightarrow> json \<Rightarrow> string" where
  "executor_asset_id repr uuid5 target host port protocol =
     stable_id repr uuid5 ''asset'' [JStr target, JStr host, port, protocol]"

definition normalize_asset_service_record ::
  "(json \<Rightarrow> string) \<Rightarrow> (string \<Rightarrow> string) \<Rightarrow> string \<Rightarrow> dict \<Rightarrow> dict" where
  "normalize_asset_service_record repr uuid5 target service =
     (let md = dict_of service ''metadata'';
          host = show_json repr (jor (jget service ''host'') (JStr target));
          san = jor (jget service ''cert_san'') (jor (jget service ''cert_sans'') (jor (jget md ''cert_san'')
                  (jor (jget md ''cert_sans'') (JList []))));
          parts = filter (\<lambda>s. s \<noteq> []) (map (\<lambda>k. py_strip (str_or repr (jget service k)))
                    [''product'', ''version'', ''service'', ''title'']);
          fingerprint = jor (jget service ''service_fingerprint'')
                          (if parts = [] then JNull else JStr (join_with '' '' parts))
      in fold (\<lambda>(k, v). aput k v)
           [(''host'', JStr host), (''target'', JStr target),
            (''asset_id'', JStr (show_json repr (jor (jget service ''asset_id'')
               (JStr (executor_asset_id repr uuid5 target host (jget service ''port'') (jget service ''protocol'')))))),
            (''cert_san'', (case san of JList xs \<Rightarrow> JList xs | v \<Rightarrow> JList [v])),
            (''metadata'', JObj md), (''service_fingerprint'', fingerprint)] service)"

text \<open>
  The safety metadata of a remediation text; \<open>None\<close> when its validation raises, which skips the
  enrichment of the whole scan.
\<close>

definition enrich_remediation :: "(json \<Rightarrow> (json \<times> json \<times> json) option) \<Rightarrow> dict list \<Rightarrow> dict list" where
  "enrich_remediation check fs =
     (if list_ex (\<lambda>f. truthy (jget f ''remediation'') \<and> check (jget f ''remediation'') = None) fs then fs
      else map (\<lambda>f. case check (jget f ''remediation'') of
              Some (safe, ok_range, alternatives) \<Rightarrow>
                if truthy (jget f ''remediation'')
                then aput ''metadata'' (JObj (aput ''alternatives'' alternatives (aput ''compatible_range'' ok_range
                       (aput ''safe_to_apply'' safe (dict_of f ''metadata''))))) f
                else f
            | None \<Rightarrow> f) fs)"

record contract =
  k_rest :: dict \<comment> \<open>whatever else the parser returned\<close>
  k_findings :: "dict list"
  k_services :: "dict list"
  k_groups :: "dict list"
  k_assets :: "asset_entry list"
  k_diff :: scan_diff
  k_counts :: "(string \<times> int) list"
  k_count :: int

record scan_env =
  s_env :: env
  s_stored :: "string \<Rightarrow> stored_row"
  s_triage :: "dict list \<Rightarrow> dict list"
  s_check :: "json \<Rightarrow> (json \<times> json \<times> json) option"
  s_uuid5 :: "string \<Rightarrow> string"
  s_observed :: string
  s_previous :: "dict list"

text \<open>\<open>None\<close>: something is not iterable, or normalisation raises on a finding.\<close>

definition build_result_contract :: "scan_env \<Rightarrow> string \<Rightarrow> string \<Rightarrow> dict \<Rightarrow> contract option" where
  "build_result_contract se plugin_id target result =
     (let dicts = List.map_filter (\<lambda>x. case x of JObj d \<Rightarrow> Some d | _ \<Rightarrow> None); e = s_env se
      in case (items_of result ''findings'',
               iterate (jor (jget result ''asset_services'') (jor (jget result ''services'') (JList [])))) of
           (Some raw, Some raw_services) \<Rightarrow>
             (case normalize_and_correlate_findings e (s_stored se) (s_triage se) plugin_id target (s_observed se) (dicts raw) of
                None \<Rightarrow> None
              | Some fs \<Rightarrow>
             (let findings = enrich_remediation (s_check se) fs;
                  services = map (normalize_asset_service_record (e_repr e) (s_uuid5 se) target) (dicts raw_services)
              in Some \<lparr>k_rest = adels [''findings'', ''asset_services'', ''services'', ''finding_groups'', ''asset_summary'',
                         ''scan_diff'', ''severity_counts'', ''count''] result,
                       k_findings = findings, k_services = services,
                       k_groups = build_finding_groups e findings,
                       k_assets = build_asset_summary e findings services,
                       k_diff = build_scan_diff e findings (s_previous se),
                       k_counts = build_severity_counts (e_repr e) findings,
                       k_count = int (length findings)\<rparr>))
         | _ \<Rightarrow> None)"

subsection \<open>Persisting findings\<close>

definition number_within :: "json \<Rightarrow> rat \<Rightarrow> bool" where
  "number_within v hi = (v = JNull \<or> (case json_number v of None \<Rightarrow> False | Some r \<Rightarrow> 0 \<le> r \<and> r \<le> hi))"

definition validate_risk_fields :: "dict \<Rightarrow> bool" where
  "validate_risk_fields f \<longleftrightarrow>
     number_within (jget f ''exploitability'') 10 \<and> number_within (jget f ''confidence'') 1
     \<and> (case jget f ''asset_exposure'' of JNull \<Rightarrow> True
        | JStr s \<Rightarrow> py_lower s \<in> {''critical'', ''high'', ''medium'', ''low''} | _ \<Rightarrow> False)"

record persist_env =
  q_env :: env
  q_dumps :: "json \<Rightarrow> string"
  q_parse_time :: "json \<Rightarrow> instant option"
  q_now :: instant
  q_detail_now :: usec

definition text_of :: "dict \<Rightarrow> string \<Rightarrow> string option" where
  "text_of f k = (case jget f k of JStr s \<Rightarrow> Some s | _ \<Rightarrow> None)"

definition count_or :: "dict \<Rightarrow> string \<Rightarrow> int \<Rightarrow> int option" where
  "count_or f k dflt = py_int_of (jor (jget f k) (JInt dflt))"

definition risk_of :: "dict \<Rightarrow> string \<Rightarrow> instant \<Rightarrow> risk_input" where
  "risk_of f severity discovered =
     \<lparr>r_severity = severity, r_exploitability = json_number (jget f ''exploitability''),
      r_asset_exposure = text_of f ''asset_exposure'', r_discovered = Some discovered,
      r_confidence = json_number (jget f ''confidence''), r_exposure_context = None,
      r_business_criticality = None, r_override = None\<rparr>"

text \<open>The columns an upsert overwrites when the group has a row already; the others keep their value.\<close>

definition updated_columns :: "string list" where
  "updated_columns =
     [''task_id'', ''plugin_id'', ''title'', ''category'', ''severity'', ''target'', ''description'', ''remediation'',
      ''proof'', ''cvss'', ''cve'', ''metadata_json'', ''discovered_at'', ''exploitability'', ''confidence'', ''validated'',
      ''validation_method'', ''confidence_reason'', ''finding_kind'', ''asset_id'', ''last_seen_at'',
      ''corroborating_sources_json'', ''evidence_count'', ''analyst_status'', ''retest_status'', ''evidence_json'',
      ''asset_refs_json'', ''service_fingerprint'', ''cpe'', ''references_json'', ''asset_exposure'', ''risk_score'',
      ''risk_factors_json'']"

definition merge_row :: "dict \<Rightarrow> dict \<Rightarrow> dict" where
  "merge_row old new =
     aput ''occurrence_count'' (JInt (get_int old ''occurrence_count'' 0 + get_int new ''occurrence_count'' 0))
       (fold (\<lambda>k. aput k (jget new k)) updated_columns old)"

text \<open>The unique index on owner and group; a null group conflicts with nothing.\<close>

definition same_group :: "string \<Rightarrow> json \<Rightarrow> dict \<Rightarrow> bool" where
  "same_group owner gid row \<longleftrightarrow> gid \<noteq> JNull \<and> jget row ''owner_id'' = JStr owner \<and> jget row ''finding_group_id'' = gid"

definition upsert_row :: "string \<Rightarrow> json \<Rightarrow> dict \<Rightarrow> dict list \<Rightarrow> dict list" where
  "upsert_row owner gid new table =
     (if list_ex (same_group owner gid) table
      then map (\<lambda>r. if same_group owner gid r then merge_row r new else r) table
      else table @ [new])"

definition discovered_at :: "persist_env \<Rightarrow> dict \<Rightarrow> instant" where
  "discovered_at q f = (case q_parse_time q (jget f ''discovered_at'') of None \<Rightarrow> q_now q | Some t \<Rightarrow> t)"

text \<open>The columns of the INSERT; the required texts and the counts are arguments.\<close>

definition finding_columns ::
  "persist_env \<Rightarrow> string \<Rightarrow> string \<Rightarrow> string \<Rightarrow> string \<Rightarrow> string \<Rightarrow> dict
     \<Rightarrow> string \<Rightarrow> json \<Rightarrow> json \<Rightarrow> json \<Rightarrow> int \<Rightarrow> int \<Rightarrow> dict" where
  "finding_columns q owner task plugin_id target uid f severity title category description occurrences evidences =
     (let e = q_env q; repr = e_repr e; fl = e_fl e; dumps = (\<lambda>v. JStr (q_dumps q v));
          discovered = discovered_at q f; risk = risk_of f severity discovered;
          or_text = (\<lambda>k dflt. JStr (show_json repr (jor (jget f k) (JStr dflt))))
      in [(''id'', JStr (''finding:'' @ task @ '':'' @ take 8 (filter (\<lambda>c. c \<noteq> CHR ''-'') uid))),
                (''owner_id'', JStr owner), (''task_id'', JStr task), (''plugin_id'', JStr plugin_id),
                (''title'', title), (''category'', category), (''severity'', JStr severity),
                (''target'', or_text ''target'' target), (''description'', description),
                (''remediation'', jget_or f ''remediation'' (JStr [])), (''proof'', jget f ''proof''),
                (''cvss'', jget f ''cvss''), (''cve'', jget f ''cve''),
                (''metadata_json'', dumps (JObj (dict_of f ''metadata''))),
                (''discovered_at'', JStr (snd discovered)),
                (''exploitability'', jget f ''exploitability''), (''confidence'', jget f ''confidence''),
                (''validated'', JInt (if truthy (jget f ''validated'') then 1 else 0)),
                (''validation_method'', jget f ''validation_method''),
                (''confidence_reason'', jget f ''confidence_reason''),
                (''finding_kind'', or_text ''finding_kind'' ''observation''),
                (''finding_group_id'', jget f ''finding_group_id''), (''asset_id'', jget f ''asset_id''),
                (''first_seen_at'', or_text ''first_seen_at'' (snd discovered)),
                (''last_seen_at'', or_text ''last_seen_at'' (snd discovered)),
                (''occurrence_count'', JInt occurrences),
                (''corroborating_sources_json'', dumps (list_or_empty f ''corroborating_sources'')),
                (''evidence_count'', JInt evidences),
                (''analyst_status'', or_text ''analyst_status'' ''new''),
                (''retest_status'', or_text ''retest_status'' ''not_requested''),
                (''evidence_json'', dumps (list_or_empty f ''evidence'')),
                (''asset_refs_json'', dumps (list_or_empty f ''asset_refs'')),
                (''service_fingerprint'', jget f ''service_fingerprint''), (''cpe'', jget f ''cpe''),
                (''references_json'', dumps (list_or_empty f ''references'')),
                (''asset_exposure'', jget f ''asset_exposure''),
                (''risk_score'', JFloat (compute_risk_score fl (fst (q_now q)) risk)),
                (''risk_factors_json'', dumps (JList (map JObj
                   (compute_risk_factors fl (fst (q_now q)) (q_detail_now q) risk))))])"

definition finding_row ::
  "persist_env \<Rightarrow> string \<Rightarrow> string \<Rightarrow> string \<Rightarrow> string \<Rightarrow> string \<Rightarrow> dict \<Rightarrow> dict option" where
  "finding_row q owner task plugin_id target uid f =
     (case (text_of f ''severity'', map_of f ''title'', map_of f ''category'', map_of f ''description'',
            count_or f ''occurrence_count'' 1,
            count_or f ''evidence_count'' (case list_or_empty f ''evidence'' of JList xs \<Rightarrow> int (length xs) | _ \<Rightarrow> 0)) of
        (Some severity, Some title, Some category, Some description, Some occurrences, Some evidences) \<Rightarrow>
          if \<not> validate_risk_fields f then None
          else Some (finding_columns q owner task plugin_id target uid f severity title category description
                       occurrences evidences)
      | _ \<Rightarrow> None)"

text \<open>The finding as it is reported after it was stored: with the id and the count of its row.\<close>

definition stored_finding :: "persist_env \<Rightarrow> dict \<Rightarrow> dict \<Rightarrow> dict \<Rightarrow> dict" where
  "stored_finding q row stored f =
     (let fl = e_fl (q_env q);
          discovered = discovered_at q f;
          risk = risk_of f (the (text_of f ''severity'')) discovered
      in fold (\<lambda>(k, v). aput k v)
           [(''id'', jget stored ''id''), (''plugin_id'', jget row ''plugin_id''), (''target'', jget row ''target''),
            (''discovered_at'', jget row ''discovered_at''), (''metadata'', JObj (dict_of f ''metadata'')),
            (''evidence'', list_or_empty f ''evidence''), (''asset_refs'', list_or_empty f ''asset_refs''),
            (''references'', list_or_empty f ''references''),
            (''corroborating_sources'', list_or_empty f ''corroborating_sources''),
            (''first_seen_at'', jget row ''first_seen_at''), (''last_seen_at'', jget row ''last_seen_at''),
            (''occurrence_count'', jget stored ''occurrence_count''), (''evidence_count'', jget row ''evidence_count''),
            (''risk_score'', jget row ''risk_score''),
            (''risk_factors'', JList (map JObj (compute_risk_factors fl (fst (q_now q)) (q_detail_now q) risk)))] f)"

definition persist_finding ::
  "persist_env \<Rightarrow> string \<Rightarrow> string \<Rightarrow> string \<Rightarrow> string \<Rightarrow> string \<Rightarrow> dict \<Rightarrow> dict list \<Rightarrow> (dict \<times> dict list) option" where
  "persist_finding q owner task plugin_id target uid f table =
     (case finding_row q owner task plugin_id target uid f of
        None \<Rightarrow> None
      | Some row \<Rightarrow>
          (let gid = jget f ''finding_group_id''; table' = upsert_row owner gid row table;
               stored = (case find (same_group owner gid) table' of None \<Rightarrow> row | Some r \<Rightarrow> r)
           in Some (stored_finding q row stored f, table')))"

fun persist_all ::
  "persist_env \<Rightarrow> string \<Rightarrow> string \<Rightarrow> string \<Rightarrow> string \<Rightarrow> string list \<Rightarrow> dict list \<Rightarrow> dict list \<Rightarrow> (dict list \<times> dict list) option" where
  "persist_all q owner task plugin_id target uids [] table = Some ([], table)"
| "persist_all q owner task plugin_id target uids (f # fs) table =
     (case persist_finding q owner task plugin_id target (hd uids) f table of
        None \<Rightarrow> None
      | Some (d, table') \<Rightarrow>
          map_option (\<lambda>(ds, t). (d # ds, t)) (persist_all q owner task plugin_id target (tl uids) fs table'))"

subsection \<open>The transaction that stores a scan\<close>

record report_row =
  rp_owner :: string
  rp_task :: string
  rp_name :: string
  rp_type :: string
  rp_status :: string
  rp_findings :: nat
  rp_pages :: nat

record result_store =
  t_findings :: "dict list"
  t_structured :: "string \<rightharpoonup> contract"
  t_reports :: "string \<rightharpoonup> report_row"
  t_services :: "(string \<times> dict) list" \<comment> \<open>with the task that found them\<close>

text \<open>A plugin or a scanner class: its name decides the report's, its kind the type and pages.\<close>

datatype reporter = Standard_Plugin string | Modular_Scanner string

definition report_of :: "reporter \<Rightarrow> string \<Rightarrow> string \<Rightarrow> task_status \<Rightarrow> nat \<Rightarrow> report_row" where
  "report_of rp owner task status n =
     (let ready = (if status = COMPLETED then ''ready'' else ''failed'') in
      case rp of
        Standard_Plugin nm \<Rightarrow> \<lparr>rp_owner = owner, rp_task = task, rp_name = nm @ '' Report'', rp_type = ''technical'',
          rp_status = ready, rp_findings = n, rp_pages = 1\<rparr>
      | Modular_Scanner nm \<Rightarrow> \<lparr>rp_owner = owner, rp_task = task, rp_name = nm @ '' Report'',
          rp_type = (if status = COMPLETED then ''professional'' else ''failed''),
          rp_status = ready, rp_findings = n, rp_pages = 2\<rparr>)"

definition put_report :: "report_row \<Rightarrow> (string \<rightharpoonup> report_row) \<Rightarrow> (string \<rightharpoonup> report_row)" where
  "put_report r m =
     (let i = ''report:'' @ rp_task r in
      m(i \<mapsto> (case m i of None \<Rightarrow> r
              | Some old \<Rightarrow> old\<lparr>rp_status := rp_status r, rp_findings := rp_findings r, rp_pages := rp_pages r\<rparr>)))"

definition refresh_contract :: "scan_env \<Rightarrow> dict list \<Rightarrow> contract \<Rightarrow> contract" where
  "refresh_contract se fs k =
     (let e = s_env se in
      k\<lparr>k_findings := fs, k_counts := build_severity_counts (e_repr e) fs, k_groups := build_finding_groups e fs,
        k_assets := build_asset_summary e fs (k_services k), k_diff := build_scan_diff e fs (s_previous se)\<rparr>)"

text \<open>\<open>replace_asset_services\<close>, which runs only when the contract lists services.\<close>

definition replace_services :: "string \<Rightarrow> dict list \<Rightarrow> (string \<times> dict) list \<Rightarrow> (string \<times> dict) list" where
  "replace_services task services rows' =
     (if services = [] then rows' else filter (\<lambda>r. fst r \<noteq> task) rows' @ map (Pair task) services)"

text \<open>An exception anywhere inside the transaction rolls everything back.\<close>

definition upsert_findings_and_report ::
  "scan_env \<Rightarrow> persist_env \<Rightarrow> reporter \<Rightarrow> string \<Rightarrow> string \<Rightarrow> string \<Rightarrow> string \<Rightarrow> task_status \<Rightarrow> string list \<Rightarrow> dict
     \<Rightarrow> result_store \<Rightarrow> bool \<times> result_store" where
  "upsert_findings_and_report se q rp owner task plugin_id target status uids result st =
     (case build_result_contract se plugin_id target result of
        None \<Rightarrow> (False, st)
      | Some k \<Rightarrow>
          (case persist_all q owner task plugin_id target uids (k_findings k) (t_findings st) of
             None \<Rightarrow> (False, st)
           | Some (fs, table) \<Rightarrow>
               (True, st\<lparr>t_findings := table, t_structured := (t_structured st)(task \<mapsto> refresh_contract se fs k),
                  t_reports := put_report (report_of rp owner task status (length fs)) (t_reports st),
                  t_services := replace_services task (k_services k) (t_services st)\<rparr>)))"

subsection \<open>Shape of a normalised result\<close>

definition finding_keys :: "string list" where
  "finding_keys = [''title'', ''category'', ''severity'', ''description'', ''remediation'', ''proof'', ''cvss'', ''cve'',
     ''metadata'', ''exploitability'', ''confidence'', ''validated'', ''validation_method'', ''confidence_reason'',
     ''evidence'', ''asset_refs'', ''service_fingerprint'', ''cpe'', ''references'', ''asset_exposure'']"

definition is_text :: "json \<Rightarrow> bool" where "is_text v \<longleftrightarrow> (\<exists>s. v = JStr s)"

definition is_seq :: "json \<Rightarrow> bool" where "is_seq v \<longleftrightarrow> (\<exists>xs. v = JList xs)"

text \<open>The type of a finding: its keys, and the kind of value under the keys whose kind is fixed.\<close>

definition typed_finding :: "dict \<Rightarrow> bool" where
  "typed_finding f \<longleftrightarrow> akeys f = finding_keys
     \<and> (\<forall>k \<in> {''title'', ''category'', ''description'', ''remediation''}. is_text (jget f k))
     \<and> jget f ''severity'' \<in> JStr ` {''critical'', ''high'', ''medium'', ''low'', ''info''}
     \<and> (\<exists>md. jget f ''metadata'' = JObj md) \<and> (\<exists>b. jget f ''validated'' = JBool b)
     \<and> (\<forall>k \<in> {''evidence'', ''asset_refs'', ''references''}. is_seq (jget f k))"

lemma list_or_empty_seq [simp]: "\<exists>xs. list_or_empty f k = JList xs"
  by (simp add: list_or_empty_def split: json.split)

lemma severity_map_range: "severity_map s \<in> {''critical'', ''high'', ''medium'', ''low'', ''info''}"
  by (simp add: severity_map_def)

lemma normalize_finding_typed: "typed_finding (normalize_finding repr p f)"
  using severity_map_range
  by (auto simp: typed_finding_def normalize_finding_def finding_keys_def akeys_def jget_def is_text_def is_seq_def Let_def
      simp del: insert_iff)

lemma first_some_Some: "first_some f xs = Some y \<Longrightarrow> \<exists>x \<in> set xs. f x = Some y"
  by (induction xs) (auto split: option.splits)

lemma map_filter_member: "y \<in> set (List.map_filter f xs) \<Longrightarrow> \<exists>x \<in> set xs. f x = Some y"
  by (auto simp: List.map_filter_def)

lemma json_item_typed: "typed_finding (json_item_to_finding repr p item dflt)"
  by (simp add: json_item_to_finding_def Let_def normalize_finding_typed)

lemma fallback_typed:
  assumes "f \<in> set (parse_json_fallback_findings repr loads p parser_input)"
  shows "typed_finding f"
proof -
  have items: "typed_finding g" if "g \<in> set (list_items repr p xs)" for g xs
    using that by (auto simp: list_items_def scalar_item_def json_item_typed normalize_finding_typed split: json.splits)
  have keyed: "typed_finding g" if "keyed_items repr p d k = Some fs" "g \<in> set fs" for g d k fs
    using that by (auto simp: keyed_items_def Let_def json_item_typed dest!: map_filter_member split: json.splits if_splits)
  define ks where "ks = [''results'', ''findings'', ''issues'', ''vulnerabilities'']"
  have first: "typed_finding g" if f: "first_some (keyed_items repr p d) ks = Some fs" and g: "g \<in> set fs" for g d fs
  proof -
    obtain k where k: "keyed_items repr p d k = Some fs" using first_some_Some [OF f] by auto
    show ?thesis by (rule keyed [OF k g])
  qed
  have "f \<in> set (case loads parser_input of Some (JList xs) \<Rightarrow> list_items repr p xs
      | Some (JObj d) \<Rightarrow> (case first_some (keyed_items repr p d) ks of Some fs \<Rightarrow> fs
           | None \<Rightarrow> [json_item_to_finding repr p d (p_name p)]) | _ \<Rightarrow> [])"
    using assms unfolding parse_json_fallback_findings_def ks_def by simp
  note f = this
  show ?thesis
  proof (cases "loads parser_input")
    case (Some v)
    show ?thesis
    proof (cases v)
      case (JList xs)
      then show ?thesis using f Some items by simp
    next
      case (JObj d)
      then show ?thesis
        using f Some first by (cases "first_some (keyed_items repr p d) ks") (auto simp: json_item_typed)
    qed (use f Some in simp_all)
  qed (use f in simp)
qed

lemma raw_count:
  "raw_findings (JList (map JObj fs)) = fs"
  by (induction fs) (auto simp: raw_findings_def List.map_filter_def Let_def)

lemma normalized_shape:
  fixes repr loads p parser_input parsed
  defines "d \<equiv> normalize_parsed_result repr loads p parser_input parsed"
  shows "\<exists>fs. map_of d ''findings'' = Some (JList (map JObj fs)) \<and> (\<forall>f \<in> set fs. typed_finding f)
     \<and> (raw_findings parsed \<noteq> [] \<longrightarrow> length fs = length (raw_findings parsed))
     \<and> map_of d ''count'' \<noteq> None \<and> (fs = [] \<longrightarrow> map_of d ''raw'' \<noteq> None)"
proof -
  define own where "own = map (normalize_finding repr p) (raw_findings parsed)"
  define fs where "fs = (if own = [] \<and> py_lower (show_json repr (jget_or (p_output p) ''format'' (JStr []))) \<in> {''json'', ''jsonl''}
    then parse_json_fallback_findings repr loads p parser_input else own)"
  have "\<forall>f \<in> set fs. typed_finding f"
    using fallback_typed by (auto simp: fs_def own_def normalize_finding_typed)
  moreover have "map_of d ''findings'' = Some (JList (map JObj fs)) \<and> map_of d ''count'' \<noteq> None
      \<and> (fs = [] \<longrightarrow> map_of d ''raw'' \<noteq> None)"
  proof -
    have "d = (let d0 = aput ''findings'' (JList (map JObj fs)) (case parsed of JObj d \<Rightarrow> d | _ \<Rightarrow> []);
          d1 = (if map_of d0 ''count'' = None then aput ''count'' (JInt (int (length fs))) d0 else d0)
      in if map_of d1 ''raw'' = None \<and> fs = [] then aput ''raw'' (JStr parser_input) d1 else d1)"
      unfolding d_def normalize_parsed_result_def Let_def fs_def own_def ..
    then show ?thesis by (simp add: Let_def)
  qed
  moreover have "raw_findings parsed \<noteq> [] \<longrightarrow> length fs = length (raw_findings parsed)"
    by (auto simp: fs_def own_def)
  ultimately show ?thesis by blast
qed

subsection \<open>The table of findings\<close>

lemma jget_aput [simp]: "jget (aput k v d) k' = (if k' = k then v else jget d k')"
  by (simp add: jget_def)

lemma jget_copy: "jget (fold (\<lambda>k. aput k (jget new k)) ks old) k = (if k \<in> set ks then jget new k else jget old k)"
  by (induction ks arbitrary: old) auto

lemma jget_merge_row:
  "jget (merge_row old new) k =
     (if k = ''occurrence_count'' then JInt (get_int old k 0 + get_int new k 0)
      else if k \<in> set updated_columns then jget new k else jget old k)"
  by (simp add: merge_row_def jget_copy)

lemma merge_row_kept [simp]:
  "jget (merge_row old new) ''owner_id'' = jget old ''owner_id''"
  "jget (merge_row old new) ''finding_group_id'' = jget old ''finding_group_id''"
  "jget (merge_row old new) ''id'' = jget old ''id''"
  "jget (merge_row old new) ''first_seen_at'' = jget old ''first_seen_at''"
  "jget (merge_row old new) ''task_id'' = jget new ''task_id''"
  by (simp_all add: jget_merge_row updated_columns_def)

lemma same_group_merge [simp]: "same_group owner gid (merge_row old new) = same_group owner gid old"
  by (simp add: same_group_def)

lemma same_group_inj: "same_group owner gid r \<Longrightarrow> same_group owner' gid' r \<Longrightarrow> owner = owner' \<and> gid = gid'"
  by (auto simp: same_group_def)

definition groups_unique :: "dict list \<Rightarrow> bool" where
  "groups_unique table \<longleftrightarrow> (\<forall>owner gid. length (filter (same_group owner gid) table) \<le> 1)"

definition other_owners :: "string \<Rightarrow> dict list \<Rightarrow> dict list" where
  "other_owners owner table = filter (\<lambda>r. jget r ''owner_id'' \<noteq> JStr owner) table"

definition stored_by :: "string \<Rightarrow> string \<Rightarrow> json \<Rightarrow> dict list \<Rightarrow> bool" where
  "stored_by task owner gid table \<longleftrightarrow> (\<exists>r \<in> set table. same_group owner gid r \<and> jget r ''task_id'' = JStr task)"

lemma filter_group_map:
  "length (filter (same_group o' g) (map (\<lambda>r. if same_group owner gid r then merge_row r new else r) table))
     = length (filter (same_group o' g) table)"
  by (induction table) auto

lemma upsert_row_unique:
  assumes "groups_unique table" and "jget new ''owner_id'' = JStr owner" and "jget new ''finding_group_id'' = gid"
  shows "groups_unique (upsert_row owner gid new table)"
proof (cases "list_ex (same_group owner gid) table")
  case True
  then have "upsert_row owner gid new table = map (\<lambda>r. if same_group owner gid r then merge_row r new else r) table"
    by (simp add: upsert_row_def)
  then show ?thesis using assms(1) unfolding groups_unique_def by (simp only: filter_group_map simp_thms)
next
  case False
  then have "filter (same_group owner gid) table = []" by (auto simp: list_ex_iff filter_empty_conv)
  moreover have "same_group o' g new \<Longrightarrow> o' = owner \<and> g = gid" for o' g using assms(2,3) by (auto simp: same_group_def)
  ultimately show ?thesis using assms(1) False by (auto simp: groups_unique_def upsert_row_def)
qed

lemma upsert_row_others:
  assumes "jget new ''owner_id'' = JStr owner"
  shows "other_owners owner (upsert_row owner gid new table) = other_owners owner table"
proof -
  have "other_owners owner (map (\<lambda>r. if same_group owner gid r then merge_row r new else r) table) = other_owners owner table"
    by (induction table) (auto simp: other_owners_def same_group_def)
  then show ?thesis using assms by (simp add: upsert_row_def other_owners_def)
qed

lemma upsert_row_stores:
  assumes "gid \<noteq> JNull" and "jget new ''owner_id'' = JStr owner" and "jget new ''finding_group_id'' = gid"
    and "jget new ''task_id'' = JStr task"
  shows "stored_by task owner gid (upsert_row owner gid new table)"
proof (cases "list_ex (same_group owner gid) table")
  case True
  then obtain r where r: "r \<in> set table" "same_group owner gid r" by (auto simp: list_ex_iff)
  then have "merge_row r new \<in> set (upsert_row owner gid new table)" using True by (force simp: upsert_row_def)
  moreover have "same_group owner gid (merge_row r new)" "jget (merge_row r new) ''task_id'' = JStr task"
    using r(2) assms(4) by simp_all
  ultimately show ?thesis unfolding stored_by_def by blast
next
  case False
  then show ?thesis using assms by (simp add: stored_by_def upsert_row_def same_group_def)
qed

lemma upsert_row_keeps_stored:
  assumes "stored_by task o' g table" and "jget new ''task_id'' = JStr task"
  shows "stored_by task o' g (upsert_row owner gid new table)"
proof -
  obtain r where r: "r \<in> set table" "same_group o' g r" "jget r ''task_id'' = JStr task"
    using assms(1) by (auto simp: stored_by_def)
  show ?thesis
  proof (cases "list_ex (same_group owner gid) table")
    case True
    let ?r = "if same_group owner gid r then merge_row r new else r"
    have "?r \<in> set (upsert_row owner gid new table)" using True r(1) by (auto simp: upsert_row_def)
    moreover have "same_group o' g ?r" "jget ?r ''task_id'' = JStr task" using r assms(2) by auto
    ultimately show ?thesis unfolding stored_by_def by blast
  next
    case False
    then show ?thesis using r by (auto simp: stored_by_def upsert_row_def)
  qed
qed

lemma columns:
  "jget (finding_columns q owner task plugin_id target uid f sev ti ca de n m) ''owner_id'' = JStr owner"
  "jget (finding_columns q owner task plugin_id target uid f sev ti ca de n m) ''finding_group_id'' = jget f ''finding_group_id''"
  "jget (finding_columns q owner task plugin_id target uid f sev ti ca de n m) ''task_id'' = JStr task"
  "jget (finding_columns q owner task plugin_id target uid f sev ti ca de n m) ''occurrence_count'' = JInt n"
  unfolding finding_columns_def Let_def by (simp_all add: jget_def)

lemma finding_row_columns:
  assumes "finding_row q owner task plugin_id target uid f = Some row"
  shows "jget row ''owner_id'' = JStr owner" "jget row ''finding_group_id'' = jget f ''finding_group_id''"
    "jget row ''task_id'' = JStr task"
    "\<exists>n. count_or f ''occurrence_count'' 1 = Some n \<and> jget row ''occurrence_count'' = JInt n"
  using assms by (auto simp: finding_row_def columns split: option.splits if_splits)

lemma persist_all_table:
  assumes "persist_all q owner task plugin_id target uids fs table = Some (ds, table')"
  shows "length ds = length fs \<and> (groups_unique table \<longrightarrow> groups_unique table')
     \<and> other_owners owner table' = other_owners owner table
     \<and> (\<forall>f \<in> set fs. jget f ''finding_group_id'' \<noteq> JNull \<longrightarrow> stored_by task owner (jget f ''finding_group_id'') table')
     \<and> (\<forall>o' g. stored_by task o' g table \<longrightarrow> stored_by task o' g table')"
  using assms
proof (induction fs arbitrary: uids table ds)
  case (Cons f fs)
  obtain row d ds' where row: "finding_row q owner task plugin_id target (hd uids) f = Some row" and
      rest: "persist_all q owner task plugin_id target (tl uids) fs
        (upsert_row owner (jget f ''finding_group_id'') row table) = Some (ds', table')" "ds = d # ds'"
    using Cons.prems by (auto simp: persist_finding_def Let_def split: option.splits)
  note cols = finding_row_columns [OF row]
  show ?case
    using Cons.IH [OF rest(1)] rest(2) cols upsert_row_unique [of table row owner] upsert_row_others [OF cols(1)]
      upsert_row_stores [OF _ cols(1,2,3)] upsert_row_keeps_stored [OF _ cols(3)]
    by auto
qed simp

subsection \<open>Properties\<close>

text \<open>C14: Whatever a parser returns, a parsed result has a typed list of findings: every finding has exactly
  the twenty keys, texts where texts are expected, one of the five severities, a mapping as metadata, a
  truth value and lists; every raw finding of the parser gives one of them; and a count and, when there
  is no finding, the raw output are present. A plugin whose parser fails the integrity check or the
  sandbox gives an error and no result.\<close>

theorem parsed_results_typed:
  assumes "parse_results repr loads pe p output = res"
  shows "(\<forall>d. res = Inr d \<longrightarrow> (\<exists>fs. map_of d ''findings'' = Some (JList (map JObj fs)) \<and> (\<forall>f \<in> set fs. typed_finding f)
            \<and> (\<forall>parsed. parser_exists pe \<longrightarrow> sandboxed pe (resolve_parser_input pe p output) = Inr parsed
                \<longrightarrow> raw_findings parsed \<noteq> [] \<longrightarrow> length fs = length (raw_findings parsed))
            \<and> map_of d ''count'' \<noteq> None \<and> (fs = [] \<longrightarrow> map_of d ''raw'' \<noteq> None)))
     \<and> (parser_exists pe \<longrightarrow> (\<not> parser_verified pe \<longrightarrow> res = Inl Parser_Tampered)
          \<and> (\<forall>why. parser_verified pe \<longrightarrow> sandboxed pe (resolve_parser_input pe p output) = Inl why
               \<longrightarrow> res = Inl (Parser_Failed why)))"
proof -
  let ?input = "resolve_parser_input pe p output"
  have "\<exists>parsed. d = normalize_parsed_result repr loads p ?input parsed
      \<and> (parser_exists pe \<longrightarrow> sandboxed pe ?input = Inr parsed)" if "res = Inr d" for d
    using assms that by (auto simp: parse_results_def Let_def split: if_splits sum.splits)
  moreover have "parser_exists pe \<longrightarrow> (\<not> parser_verified pe \<longrightarrow> res = Inl Parser_Tampered)
      \<and> (\<forall>why. parser_verified pe \<longrightarrow> sandboxed pe ?input = Inl why \<longrightarrow> res = Inl (Parser_Failed why))"
    using assms by (auto simp: parse_results_def Let_def)
  ultimately show ?thesis using normalized_shape by fastforce
qed

definition example_parser :: parser_env where
  "example_parser = \<lparr>parser_exists = True, parser_verified = True,
     sandboxed = (\<lambda>s. Inr (JList [JObj [(''name'', JStr ''Open port''), (''severity'', JStr ''Moderate'')]])),
     report_file = (\<lambda>s. None)\<rparr>"

theorem parsed_results_typed_witness:
  "\<exists>d fs. parse_results (\<lambda>v. []) (\<lambda>s. None) example_parser example_plugin ''x'' = Inr d
     \<and> map_of d ''findings'' = Some (JList (map JObj fs)) \<and> length fs = 1"
proof -
  let ?pe = example_parser
  have s: "sandboxed ?pe (resolve_parser_input ?pe example_plugin ''x'')
      = Inr (JList [JObj [(''name'', JStr ''Open port''), (''severity'', JStr ''Moderate'')]])"
    "parser_exists ?pe" "parser_verified ?pe"
    by (simp_all add: example_parser_def)
  then obtain d where d: "parse_results (\<lambda>v. []) (\<lambda>s. None) ?pe example_plugin ''x'' = Inr d"
    by (simp add: parse_results_def Let_def)
  have "raw_findings (JList [JObj [(''name'', JStr ''Open port''), (''severity'', JStr ''Moderate'')]])
      = [[(''name'', JStr ''Open port''), (''severity'', JStr ''Moderate'')]]"
    using raw_count [of "[[(''name'', JStr ''Open port''), (''severity'', JStr ''Moderate'')]]"] by simp
  then show ?thesis using parsed_results_typed [OF refl, of "\<lambda>v. []" "\<lambda>s. None" ?pe example_plugin "''x''"] d s by fastforce
qed


text \<open>
  Occurrences are counted twice: the correlation adds the stored count to the new one, and the upsert
  adds the stored count again. A finding that is seen once in every scan has been counted
  \<open>2 ^ n - 1\<close> times after \<open>n\<close> scans.
\<close>

lemma occurrences_counted_twice:
  assumes "jget new ''occurrence_count'' = JInt (get_int old ''occurrence_count'' 0 + seen)"
  shows "jget (merge_row old new) ''occurrence_count'' = JInt (2 * get_int old ''occurrence_count'' 0 + seen)"
  using assms by (simp add: jget_merge_row get_int_def)

lemma correlated_then_stored:
  assumes "jget new ''occurrence_count'' = jget (correlate e (Some (old, ss)) f) ''occurrence_count''"
  shows "jget (merge_row old new) ''occurrence_count''
     = JInt (2 * get_int old ''occurrence_count'' 0 + get_int f ''occurrence_count'' 1)"
  by (rule occurrences_counted_twice) (simp add: assms correlate_reads)

lemma occurrences_after_scans: "((\<lambda>n. 2 * n + 1) ^^ k) (0::int) = 2 ^ k - 1"
  by (induction k) simp_all

text \<open>One value of an unexpected type from a parser keeps the whole scan from being stored.\<close>

lemma one_bad_value_loses_scan:
  assumes "jget f ''exploitability'' = JStr s" and "f \<in> set fs"
  shows "persist_all q owner task plugin_id target uids fs table = None"
  using assms(2)
proof (induction fs arbitrary: uids table)
  case (Cons g fs)
  have "finding_row q owner task plugin_id target (hd uids) f = None"
    using assms(1) by (auto simp: finding_row_def validate_risk_fields_def number_within_def json_number_def split: option.split)
  then show ?case using Cons by (auto simp: persist_finding_def Let_def split: option.split)
qed simp

definition example_scan :: scan_env where
  "example_scan = \<lparr>s_env = plain_env, s_stored = (\<lambda>g. None), s_triage = (\<lambda>fs. fs), s_check = (\<lambda>v. None),
     s_uuid5 = (\<lambda>s. s), s_observed = ''now'', s_previous = []\<rparr>"

definition example_persist :: persist_env where
  "example_persist = \<lparr>q_env = plain_env, q_dumps = (\<lambda>v. []), q_parse_time = (\<lambda>v. None), q_now = (0, ''now''),
     q_detail_now = 0\<rparr>"

definition empty_store :: result_store where
  "empty_store = \<lparr>t_findings = [], t_structured = Map.empty, t_reports = Map.empty, t_services = []\<rparr>"

definition example_result :: dict where
  "example_result = [(''findings'', JList []), (''services'', JList [JObj [(''port'', JInt 22)]])]"

definition example_upsert :: "bool \<times> result_store" where
  "example_upsert = upsert_findings_and_report example_scan example_persist (Standard_Plugin ''Nmap'') ''default'' ''t1''
     ''nmap'' ''10.0.0.5'' COMPLETED [''abc-def''] example_result empty_store"

lemma example_upsert_ok: "fst example_upsert \<and> length (t_services (snd example_upsert)) = 1"
proof -
  have "items_of example_result ''findings'' = Some []"
    "iterate (jor (jget example_result ''asset_services'') (jor (jget example_result ''services'') (JList [])))
       = Some [JObj [(''port'', JInt 22)]]"
    by (simp_all add: example_result_def items_of_def iterate_def jget_or_def jget_def jor_def)
  then show ?thesis
    by (simp add: example_upsert_def upsert_findings_and_report_def build_result_contract_def Let_def example_scan_def
        normalize_and_correlate_findings_def List.map_filter_def enrich_remediation_def replace_services_def empty_store_def)
qed


end
