(* ===== verification/Db_Transactions.thy ===== *)
theory Db_Transactions
  imports Main
begin

text \<open>
  The transactions of \<open>backend/secuscan/database.py\<close>: one connection with a flag, shared by all
  coroutines. \<open>'d\<close> is the contents of the database; a statement is a function on it. The state has the
  committed contents and those the connection sees. A coroutine inside \<open>async with transaction()\<close> ends
  its block normally, with an exception, or by cancellation (\<open>CancelledError\<close> is no \<open>Exception\<close>).
\<close>

record 'd conn =
  committed :: 'd
  working :: 'd
  in_txn :: bool

definition execute :: "('d \<Rightarrow> 'd) \<Rightarrow> 'd conn \<Rightarrow> 'd conn" where
  "execute f c = (let d = f (working c) in c\<lparr>working := d, committed := if in_txn c then committed c else d\<rparr>)"

definition begin_txn :: "'d conn \<Rightarrow> 'd conn" where
  "begin_txn c = (if in_txn c then c else c\<lparr>in_txn := True\<rparr>)"

definition commit_txn :: "'d conn \<Rightarrow> 'd conn" where
  "commit_txn c = (if \<not> in_txn c then c else c\<lparr>committed := working c, in_txn := False\<rparr>)"

definition rollback_txn :: "'d conn \<Rightarrow> 'd conn" where
  "rollback_txn c = (if \<not> in_txn c then c else c\<lparr>working := committed c, in_txn := False\<rparr>)"

datatype outcome = Done | Raised | Cancelled

text \<open>What one coroutine does: statements, an exception, a cancellation, and (nested) blocks.\<close>

datatype 'd stmt = Write "'d \<Rightarrow> 'd" | Throw | Interrupt | Block "'d stmt list"

definition end_block :: "bool \<Rightarrow> outcome \<times> 'd conn \<Rightarrow> outcome \<times> 'd conn" where
  "end_block outer r =
     (case r of
        (Done, c) \<Rightarrow> (Done, if outer then commit_txn c else c)
      | (Raised, c) \<Rightarrow> (Raised, if outer then rollback_txn c else c)
      | (Cancelled, c) \<Rightarrow> (Cancelled, c))"

fun perform :: "'d stmt list \<Rightarrow> 'd conn \<Rightarrow> outcome \<times> 'd conn" where
  "perform [] c = (Done, c)"
| "perform (Write f # ss) c = perform ss (execute f c)"
| "perform (Throw # ss) c = (Raised, c)"
| "perform (Interrupt # ss) c = (Cancelled, c)"
| "perform (Block b # ss) c =
     (case end_block (\<not> in_txn c) (perform b (begin_txn c)) of
        (Done, c') \<Rightarrow> perform ss c'
      | r \<Rightarrow> r)"

text \<open>The specification: what statements do to the contents when they run as one unit.\<close>

fun effect :: "'d stmt list \<Rightarrow> 'd \<Rightarrow> outcome \<times> 'd" where
  "effect [] d = (Done, d)"
| "effect (Write f # ss) d = effect ss (f d)"
| "effect (Throw # ss) d = (Raised, d)"
| "effect (Interrupt # ss) d = (Cancelled, d)"
| "effect (Block b # ss) d = (case effect b d of (Done, d') \<Rightarrow> effect ss d' | r \<Rightarrow> r)"

lemma perform_inside:
  assumes "in_txn c"
  shows "fst (perform ss c) = fst (effect ss (working c)) \<and> working (snd (perform ss c)) = snd (effect ss (working c))
     \<and> committed (snd (perform ss c)) = committed c \<and> in_txn (snd (perform ss c))"
  using assms
proof (induction ss c rule: perform.induct)
  case (5 b ss c)
  have b: "begin_txn c = c" using "5.prems" by (simp add: begin_txn_def)
  obtain r c' where p: "perform b c = (r, c')" by (cases "perform b c")
  obtain r' d where e: "effect b (working c) = (r', d)" by (cases "effect b (working c)")
  have inner: "r' = r" "d = working c'" "committed c' = committed c" "in_txn c'"
    using "5.IH"(1) [unfolded b, OF "5.prems"] p e by simp_all
  have block: "end_block (\<not> in_txn c) (perform b (begin_txn c)) = (r, c')"
    using "5.prems" p b by (cases r) (simp_all add: end_block_def)
  show ?case
  proof (cases r)
    case Done
    then show ?thesis
      using "5.IH"(2) [OF block [symmetric]] inner e block by simp
  qed (use inner e block in simp_all)
qed (simp_all add: execute_def Let_def)

text \<open>C11: A transaction that nothing interrupts and no other coroutine writes into is atomic, whatever
  blocks are nested in it: if its statements all succeed, their joint effect is committed; if one raises,
  the committed contents and those the connection sees are the ones from before; and the connection is
  out of the transaction either way. A cancelled one keeps the connection in its transaction, and from
  then on no statement or transaction of anyone changes the committed contents.\<close>

theorem transaction_atomic:
  fixes c :: "'d conn"
  assumes "\<not> in_txn c" and "working c = committed c"
  shows "case effect b (committed c) of
            (Done, d) \<Rightarrow> perform [Block b] c = (Done, \<lparr>committed = d, working = d, in_txn = False\<rparr>)
          | (Raised, d) \<Rightarrow> perform [Block b] c = (Raised, c)
          | (Cancelled, d) \<Rightarrow> (let c1 = snd (perform [Block b] c)
              in in_txn c1 \<and> (\<forall>others. committed (snd (perform others c1)) = committed c))"
proof -
  let ?c = "begin_txn c"
  have c: "in_txn ?c" "working ?c = committed c" "committed ?c = committed c"
    using assms by (simp_all add: begin_txn_def)
  obtain r c' where p: "perform b ?c = (r, c')" by (cases "perform b ?c")
  have inside: "fst (effect b (committed c)) = r" "snd (effect b (committed c)) = working c'"
      "committed c' = committed c" "in_txn c'"
    using perform_inside [OF c(1), of b] p c by auto
  have e: "effect b (committed c) = (r, working c')" using inside(1,2) by (metis prod.collapse)
  have frozen: "committed (snd (perform others c')) = committed c" for others
    using perform_inside [OF inside(4), of others] inside(3) by simp
  show ?thesis
  proof (cases r)
    case Done
    then show ?thesis using p inside(4) assms(1) by (simp add: e end_block_def commit_txn_def)
  next
    case Raised
    then show ?thesis using p inside(3,4) assms by (simp add: e end_block_def rollback_txn_def)
  next
    case Cancelled
    then show ?thesis using p inside(4) assms(1) frozen by (simp add: e end_block_def Let_def)
  qed
qed

theorem transaction_atomic_witness:
  "snd (perform [Block [Write (\<lambda>d. d + 1), Block [Write (\<lambda>d. d * 2)], Throw]] \<lparr>committed = 5::nat, working = 5, in_txn = False\<rparr>)
     = \<lparr>committed = 5, working = 5, in_txn = False\<rparr>
   \<and> committed (snd (perform [Block [Write (\<lambda>d. d + 1), Block [Write (\<lambda>d. d * 2)]]]
        \<lparr>committed = 5, working = 5, in_txn = False\<rparr>)) = (12::nat)"
  using transaction_atomic [of "\<lparr>committed = 5::nat, working = 5, in_txn = False\<rparr>" "[Write (\<lambda>d. d + 1), Block [Write (\<lambda>d. d * 2)], Throw]"]
    transaction_atomic [of "\<lparr>committed = 5::nat, working = 5, in_txn = False\<rparr>" "[Write (\<lambda>d. d + 1), Block [Write (\<lambda>d. d * 2)]]"]
  by (simp del: perform.simps)

text \<open>
  Statements of other coroutines are part of whatever transaction is open: a roll-back takes them with
  it, although their \<open>execute\<close> returned.
\<close>

lemma foreign_write_rolled_back:
  assumes "\<not> in_txn c" and "working c = committed c"
  shows "committed (rollback_txn (execute g (begin_txn c))) = committed c
     \<and> working (rollback_txn (execute g (begin_txn c))) = committed c"
  using assms by (simp add: begin_txn_def execute_def rollback_txn_def Let_def)

end
