(* ===== verification/Task_Admission.thy ===== *)
theory Task_Admission
  imports Task_Launch Rate_Limits Response_Cache
begin

text \<open>
  The handlers \<open>start_task\<close> and \<open>retry_task\<close> of \<open>backend/secuscan/routes.py\<close> with \<open>create_task\<close> and
  \<open>mark_task_failed\<close> of the executor: payload limits, consent, preset, the profiles and the target policy
  of the owner, safe mode, time limits, target validation, the hourly quota, the row of the task and the
  execution slot. A handler is one function of the shared state here; how handlers and executions
  interleave is in \<open>Task_Lifecycle\<close>. Parameters: the new task id, the clock, and those of the
  components called. Errors of the database are not modelled.
\<close>

subsection \<open>State\<close>

record task_row =
  k_owner :: string
  k_plugin :: string
  k_tool :: string
  k_target :: json
  k_inputs :: dict
  k_preset :: "string option"
  k_context :: exec_context
  k_status :: task_status
  k_consent :: bool
  k_safe :: bool
  k_error :: "string option"

record admit_env =
  ae_launch :: launch_env
  ae_store :: profile_store
  ae_limits :: payload_limits
  ae_require_consent :: bool
  ae_safe_default :: bool
  ae_hourly_default :: int
  ae_trusted :: "string list"
  ae_now :: usec

record audit_event =
  ev_type :: string
  ev_severity :: string
  ev_task :: "string option"
  ev_plugin :: "string option"

record admission =
  a_history :: history
  a_slots :: task_limiter
  a_tasks :: "(string \<times> task_row) list"
  a_findings :: "dict list"
  a_reports :: "dict list"
  a_audit :: "audit_event list"
  a_dns :: dns_cache
  a_cache :: "json cache option"
  a_scheduled :: "string list" \<comment> \<open>executions handed to the event loop\<close>

record task_request =
  q_plugin :: string
  q_preset :: "string option"
  q_inputs :: dict
  q_consent :: bool
  q_context :: exec_context
  q_body_bytes :: int
  q_http :: http_request

datatype reply =
    Accepted string
  | Refused_With int string \<comment> \<open>status code and detail of an \<open>HTTPException\<close>\<close>
  | Server_Error \<comment> \<open>any other exception\<close>

definition log_audit :: "string \<Rightarrow> string \<Rightarrow> string option \<Rightarrow> string option \<Rightarrow> admission \<Rightarrow> admission" where
  "log_audit ty severity task plugin st =
     st\<lparr>a_audit := a_audit st @ [\<lparr>ev_type = ty, ev_severity = severity, ev_task = task, ev_plugin = plugin\<rparr>]\<rparr>"

subsection \<open>Guards\<close>

definition policy_allows :: "dict option \<Rightarrow> string \<Rightarrow> bool" where
  "policy_allows policy permission = (case policy of None \<Rightarrow> False | Some d \<Rightarrow> truthy (jget d permission))"

definition requires_exploit_policy :: "plugin \<Rightarrow> exec_context \<Rightarrow> bool" where
  "requires_exploit_policy p c \<longleftrightarrow>
     jget (p_safety p) ''level'' = JStr ''exploit'' \<or> c_validation_mode c = ''controlled_extract''"

definition context_refusal :: "profile_store \<Rightarrow> string \<Rightarrow> exec_context \<Rightarrow> plugin \<Rightarrow> string option" where
  "context_refusal ps owner c p =
     (let policy = owned_row ps (target_policies ps) owner (c_target_policy_id c);
          credential = owned_row ps (credential_profiles ps) owner (c_credential_profile_id c);
          session = owned_row ps (session_profiles ps) owner (c_session_profile_id c)
      in if given (c_target_policy_id c) \<and> policy = None
         then Some ''Target policy not found for this workspace''
         else if given (c_credential_profile_id c) \<and> credential = None
         then Some ''Credential profile not found for this workspace''
         else if given (c_session_profile_id c) \<and> session = None
         then Some ''Session profile not found for this workspace''
         else if (credential \<noteq> None \<or> session \<noteq> None) \<and> \<not> policy_allows policy ''allow_authenticated_scan''
         then Some ''Authenticated scans require a target policy with authenticated scanning enabled.''
         else if requires_exploit_policy p c \<and> \<not> policy_allows policy ''allow_exploit_validation''
         then Some ''Offensive validation requires a target policy that explicitly allows exploit validation.''
         else None)"

definition effective_safe_mode :: "bool \<Rightarrow> dict option \<Rightarrow> bool" where
  "effective_safe_mode safe_default policy \<longleftrightarrow> safe_default \<and> \<not> policy_allows policy ''allow_public_targets''"

definition effective_inputs :: "bool \<Rightarrow> dict \<Rightarrow> dict" where
  "effective_inputs safe inputs = aput ''safe_mode'' (JBool safe) (adel ''safe_mode'' inputs)"

definition timeout_refusal :: "int \<Rightarrow> plugin \<Rightarrow> dict \<Rightarrow> string option" where
  "timeout_refusal sandbox_timeout p inputs =
     first_some (\<lambda>k.
         if \<not> list_ex (\<lambda>f. f_id f = k) (p_fields p) \<or> jget inputs k \<in> {JNull, JStr []} then None
         else case py_int_of (jget inputs k) of
             None \<Rightarrow> Some (''Invalid value for '' @ k @ '': must be an integer'')
           | Some t \<Rightarrow>
               if t \<le> 0 \<or> t > sandbox_timeout
               then Some (k @ '' must be between 1 and '' @ int_str sandbox_timeout @ '' seconds'') else None)
       [''timeout'', ''max_scan_time'']"

text \<open>The check of the target, in a thread that goes on when the handler stops waiting for it.\<close>

datatype target_check = Target_Fine | Target_Late | Target_Bad string | Target_Crash

definition target_admission :: "launch_env \<Rightarrow> bool \<Rightarrow> plugin \<Rightarrow> dict \<Rightarrow> dns_cache \<Rightarrow> target_check \<times> dns_cache" where
  "target_admission e safe p inputs cache =
     (let w = le_world e; target = show_json (le_repr e) (jget inputs ''target'') in
      if \<not> truthy (jget inputs ''target'') \<or> p_category p = ''code'' \<or> is_filesystem_target target
      then (Target_Fine, cache)
      else case validate_target (le_net e) (dns_v w) (now_v w) (dns_v2 w) (now_v2 w) safe target cache of
          None \<Rightarrow> (if le_validation_late e then Target_Late else Target_Crash, cache)
        | Some ((ok, msg), cache') \<Rightarrow>
            (if le_validation_late e then Target_Late else if ok then Target_Fine else Target_Bad msg, cache'))"

subsection \<open>The hourly quota\<close>

text \<open>\<open>plugin.safety.get("rate_limit", {}).get("max_per_hour", default)\<close>; \<open>None\<close> is an \<open>AttributeError\<close>.\<close>

definition hourly_limit :: "plugin \<Rightarrow> int \<Rightarrow> json option" where
  "hourly_limit p hourly_default =
     (case jget_or (p_safety p) ''rate_limit'' (JObj []) of
        JObj d \<Rightarrow> Some (jget_or d ''max_per_hour'' (JInt hourly_default))
      | _ \<Rightarrow> None)"

text \<open>A count reaches a fractional limit exactly when it reaches the next integer; what is no number
  cannot be compared (\<open>TypeError\<close>).\<close>

definition limit_number :: "json \<Rightarrow> int option" where
  "limit_number v =
     (case v of JInt i \<Rightarrow> Some i | JBool b \<Rightarrow> Some (if b then 1 else 0) | JFloat r \<Rightarrow> Some \<lceil>r\<rceil> | _ \<Rightarrow> None)"

datatype quota = Quota_Ok | Quota_Exceeded string | Quota_Error

definition quota_check :: "admit_env \<Rightarrow> plugin \<Rightarrow> string \<Rightarrow> string \<Rightarrow> history \<Rightarrow> quota \<times> history" where
  "quota_check e p plugin_id client h =
     (case hourly_limit p (ae_hourly_default e) of
        None \<Rightarrow> (Quota_Error, h)
      | Some limit \<Rightarrow>
          (case limit_number limit of
             None \<Rightarrow> (Quota_Error, snd (can_execute (ae_now e) plugin_id 0 client h))
           | Some m \<Rightarrow>
               (let ((ok, msg), h') = can_execute (ae_now e) plugin_id m client h;
                    count = length (dget h' (task_bucket client plugin_id) [])
                in (if ok then Quota_Ok
                    else Quota_Exceeded (''Rate limit exceeded: '' @ int_str (int count) @ ''/''
                           @ show_json (le_repr (ae_launch e)) limit @ '' per hour''), h'))))"

subsection \<open>Creating and scheduling a task\<close>

text \<open>\<open>{**preset_values, **inputs}\<close>\<close>

definition dict_merge :: "dict \<Rightarrow> dict \<Rightarrow> dict" where
  "dict_merge a b = fold (\<lambda>(k, v). aput k v) b a"

definition with_preset :: "plugin \<Rightarrow> string option \<Rightarrow> dict \<Rightarrow> dict" where
  "with_preset p preset inputs =
     (case preset of
        None \<Rightarrow> inputs
      | Some n \<Rightarrow>
          if n = [] then inputs
          else (case map_of (p_presets p) n of None \<Rightarrow> inputs | Some vals \<Rightarrow> dict_merge vals inputs))"

definition new_task_row :: "plugin \<Rightarrow> string \<Rightarrow> string \<Rightarrow> dict \<Rightarrow> bool \<Rightarrow> string option \<Rightarrow> exec_context \<Rightarrow> bool \<Rightarrow> task_row" where
  "new_task_row p owner plugin_id inputs safe preset c consent =
     (let full = with_preset p preset inputs in
      \<lparr>k_owner = owner, k_plugin = plugin_id, k_tool = p_name p, k_target = extract_target full,
       k_inputs = full, k_preset = preset, k_context = c, k_status = QUEUED, k_consent = consent,
       k_safe = safe, k_error = None\<rparr>)"

definition insert_task :: "string \<Rightarrow> task_row \<Rightarrow> admission \<Rightarrow> admission" where
  "insert_task tid row st =
     log_audit ''task_created'' ''info'' (Some tid) (Some (k_plugin row)) (st\<lparr>a_tasks := a_tasks st @ [(tid, row)]\<rparr>)"

definition change_task :: "string \<Rightarrow> (task_row \<Rightarrow> task_row) \<Rightarrow> admission \<Rightarrow> admission" where
  "change_task tid f st = st\<lparr>a_tasks := map (\<lambda>(i, r). (i, if i = tid then f r else r)) (a_tasks st)\<rparr>"

definition mark_task_failed :: "string \<Rightarrow> string \<Rightarrow> admission \<Rightarrow> admission" where
  "mark_task_failed tid why st =
     log_audit ''task_failed'' ''warning'' (Some tid) None
       (change_task tid (\<lambda>r. r\<lparr>k_status := FAILED, k_error := Some why\<rparr>) st)"

text \<open>Take a slot for the task or mark it as failed.\<close>

definition take_slot :: "string \<Rightarrow> string \<Rightarrow> admission \<Rightarrow> (bool \<times> string) \<times> admission" where
  "take_slot why tid st =
     (let ((granted, msg), l) = acquire_slot tid (a_slots st)
      in if granted then ((True, []), st\<lparr>a_slots := l\<rparr>)
         else ((False, msg), mark_task_failed tid why st))"

definition schedule :: "string \<Rightarrow> admission \<Rightarrow> admission" where
  "schedule tid st = st\<lparr>a_scheduled := a_scheduled st @ [tid]\<rparr>"

definition slot_and_schedule :: "string \<Rightarrow> string \<Rightarrow> admission \<Rightarrow> reply \<times> admission" where
  "slot_and_schedule why tid st =
     (case take_slot why tid st of
        ((False, msg), st') \<Rightarrow> (Refused_With 503 msg, st')
      | ((True, _), st') \<Rightarrow>
          (let st'' = schedule tid st' in (Accepted tid, st''\<lparr>a_cache := invalidate_view_cache (a_cache st'')\<rparr>)))"

subsection \<open>The handlers\<close>

definition start_checked :: "admit_env \<Rightarrow> task_request \<Rightarrow> string \<Rightarrow> string \<Rightarrow> plugin \<Rightarrow> bool \<Rightarrow> dict \<Rightarrow> admission \<Rightarrow> reply \<times> admission" where
  "start_checked e q owner tid p safe inputs st =
     (case quota_check e p (q_plugin q) (resolve_client_identity (ae_trusted e) (q_http q)) (a_history st) of
        (Quota_Error, h) \<Rightarrow> (Server_Error, st\<lparr>a_history := h\<rparr>)
      | (Quota_Exceeded msg, h) \<Rightarrow> (Refused_With 429 msg, st\<lparr>a_history := h\<rparr>)
      | (Quota_Ok, h) \<Rightarrow>
          slot_and_schedule ''Concurrency limit reached; task was not started'' tid
            (insert_task tid (new_task_row p owner (q_plugin q) inputs safe (q_preset q) (q_context q) (q_consent q))
               (st\<lparr>a_history := h\<rparr>)))"

definition start_known :: "admit_env \<Rightarrow> task_request \<Rightarrow> string \<Rightarrow> string \<Rightarrow> plugin \<Rightarrow> admission \<Rightarrow> reply \<times> admission" where
  "start_known e q owner tid p st =
     (case validate_preset_name (q_plugin q) (q_preset q) (Some (map (\<lambda>(n, d). (n, JObj d)) (p_presets p))) of
        (False, msg) \<Rightarrow> (Refused_With 400 msg, st)
      | (True, _) \<Rightarrow>
          (case context_refusal (ae_store e) owner (q_context q) p of
             Some msg \<Rightarrow> (Refused_With 400 msg, st)
           | None \<Rightarrow>
               (let policy = owned_row (ae_store e) (target_policies (ae_store e)) owner (c_target_policy_id (q_context q));
                    safe = effective_safe_mode (ae_safe_default e) policy;
                    inputs = effective_inputs safe (q_inputs q)
                in case timeout_refusal (le_sandbox_timeout (ae_launch e)) p inputs of
                     Some msg \<Rightarrow> (Refused_With 400 msg, st)
                   | None \<Rightarrow>
                       (case target_admission (ae_launch e) safe p inputs (a_dns st) of
                          (Target_Crash, d) \<Rightarrow> (Server_Error, st\<lparr>a_dns := d\<rparr>)
                        | (Target_Late, d) \<Rightarrow>
                            (Refused_With 400 ''Target validation timed out in safe mode (SecuScan Guardrail)'', st\<lparr>a_dns := d\<rparr>)
                        | (Target_Bad msg, d) \<Rightarrow>
                            (Refused_With 400 msg, log_audit ''scan_blocked_target_validation'' ''warning'' None
                               (Some (q_plugin q)) (st\<lparr>a_dns := d\<rparr>))
                        | (Target_Fine, d) \<Rightarrow> start_checked e q owner tid p safe inputs (st\<lparr>a_dns := d\<rparr>)))))"

definition start_task :: "admit_env \<Rightarrow> task_request \<Rightarrow> string \<Rightarrow> string \<Rightarrow> admission \<Rightarrow> reply \<times> admission" where
  "start_task e q owner tid st =
     (case validate_task_start_payload (ae_limits e) (q_body_bytes q) (JObj (q_inputs q)) (context_json (q_context q)) of
        (False, code, msg) \<Rightarrow> (Refused_With code msg, st)
      | (True, _, _) \<Rightarrow>
          if ae_require_consent e \<and> \<not> q_consent q
          then (Refused_With 400 ''Consent required. You must acknowledge the legal notice.'',
                log_audit ''scan_blocked_consent'' ''warning'' None (Some (q_plugin q)) st)
          else (case map_of (le_plugins (ae_launch e)) (q_plugin q) of
                  None \<Rightarrow> (Refused_With 404 (''Plugin not found: '' @ q_plugin q), st)
                | Some p \<Rightarrow> start_known e q owner tid p st))"

definition require_owned_task :: "string \<Rightarrow> string \<Rightarrow> admission \<Rightarrow> reply + task_row" where
  "require_owned_task tid owner st =
     (case map_of (a_tasks st) tid of
        None \<Rightarrow> Inl (Refused_With 404 ''Task not found'')
      | Some row \<Rightarrow>
          if k_owner row \<noteq> owner then Inl (Refused_With 403 ''You do not have access to this task'') else Inr row)"

definition without_results :: "string \<Rightarrow> admission \<Rightarrow> admission" where
  "without_results tid st =
     st\<lparr>a_findings := filter (\<lambda>r. jget r ''task_id'' \<noteq> JStr tid) (a_findings st),
        a_reports := filter (\<lambda>r. jget r ''task_id'' \<noteq> JStr tid) (a_reports st)\<rparr>"

definition requeue :: "string \<Rightarrow> admission \<Rightarrow> admission" where
  "requeue tid st =
     change_task tid (\<lambda>r. if k_status r \<in> {FAILED, CANCELLED} then r\<lparr>k_status := QUEUED, k_error := None\<rparr> else r) st"

definition retry_request :: "admit_env \<Rightarrow> http_request \<Rightarrow> string \<Rightarrow> string \<Rightarrow> admission \<Rightarrow> reply \<times> admission" where
  "retry_request e r owner tid st =
     (case require_owned_task tid owner st of
        Inl refusal \<Rightarrow> (refusal, st)
      | Inr row \<Rightarrow>
          if k_status row \<in> {QUEUED, RUNNING} then (Refused_With 409 ''Task is already queued or running'', st)
          else if k_status row \<notin> {FAILED, CANCELLED}
          then (Refused_With 400 ''Only failed or cancelled tasks can be retried'', st)
          else (case map_of (le_plugins (ae_launch e)) (k_plugin row) of
              None \<Rightarrow> (Refused_With 404 (''Plugin not found: '' @ k_plugin row), st)
            | Some p \<Rightarrow>
                (case quota_check e p (k_plugin row) (resolve_client_identity (ae_trusted e) r) (a_history st) of
                   (Quota_Error, h) \<Rightarrow> (Server_Error, st\<lparr>a_history := h\<rparr>)
                 | (Quota_Exceeded msg, h) \<Rightarrow> (Refused_With 429 msg, st\<lparr>a_history := h\<rparr>)
                 | (Quota_Ok, h) \<Rightarrow>
                     slot_and_schedule ''Concurrency limit reached; task was not retried'' tid
                       (without_results tid (requeue tid (st\<lparr>a_history := h\<rparr>))))))"


subsection \<open>Slots\<close>

lemma slot_and_schedule_eq:
  "slot_and_schedule why tid st =
     (if fst (try_acquire tid (a_slots st))
      then (Accepted tid, st\<lparr>a_slots := snd (try_acquire tid (a_slots st)), a_scheduled := a_scheduled st @ [tid],
              a_cache := invalidate_view_cache (a_cache st)\<rparr>)
      else (Refused_With 503 (snd (fst (acquire_slot tid (a_slots st)))), mark_task_failed tid why st))"
  by (auto simp: slot_and_schedule_def take_slot_def try_acquire_def schedule_def Let_def split: prod.splits bool.splits)

lemma take_slot_held:
  "fst (try_acquire tid l) \<Longrightarrow>
     held_slots (snd (try_acquire tid l)) = add_mset tid (held_slots l)
     \<and> int (size (held_slots l)) < max_concurrent l"
  using slots.grant_law [of tid l "snd (try_acquire tid l)"] by (cases "try_acquire tid l") auto

lemma log_audit_simps [simp]:
  "a_tasks (log_audit ty sev t p st) = a_tasks st" "a_slots (log_audit ty sev t p st) = a_slots st"
  "a_scheduled (log_audit ty sev t p st) = a_scheduled st" "a_findings (log_audit ty sev t p st) = a_findings st"
  "a_reports (log_audit ty sev t p st) = a_reports st" "a_history (log_audit ty sev t p st) = a_history st"
  by (simp_all add: log_audit_def)

lemma change_task_simps [simp]:
  "a_slots (change_task tid f st) = a_slots st" "a_scheduled (change_task tid f st) = a_scheduled st"
  "a_findings (change_task tid f st) = a_findings st" "a_reports (change_task tid f st) = a_reports st"
  "a_history (change_task tid f st) = a_history st"
  by (simp_all add: change_task_def)

lemma map_of_map_snd: "map_of (map (\<lambda>(i, r). (i, g i r)) xs) t = map_option (g t) (map_of xs t)"
  by (induction xs) auto

lemma task_of_changed:
  "map_of (a_tasks (change_task tid f st)) t = (if t = tid then map_option f (map_of (a_tasks st) t) else map_of (a_tasks st) t)"
  by (cases "t = tid"; cases "map_of (a_tasks st) t") (simp_all add: change_task_def map_of_map_snd)

lemma change_new_task:
  assumes "tid \<notin> fst ` set (a_tasks st)" and "a_tasks st' = a_tasks st @ [(tid, row)]"
  shows "a_tasks (change_task tid f st') = a_tasks st @ [(tid, f row)]"
proof -
  have "map (\<lambda>(i, r). (i, if i = tid then f r else r)) (a_tasks st) = a_tasks st"
    by (rule map_idI) (use assms(1) in force)
  then show ?thesis by (simp add: change_task_def assms(2))
qed

subsection \<open>What an accepted start has passed\<close>

text \<open>Nothing that an execution works on has changed.\<close>

definition same_work :: "admission \<Rightarrow> admission \<Rightarrow> bool" where
  "same_work st st' \<longleftrightarrow> a_tasks st' = a_tasks st \<and> a_slots st' = a_slots st \<and> a_scheduled st' = a_scheduled st
     \<and> a_findings st' = a_findings st \<and> a_reports st' = a_reports st"

definition refusal :: "reply \<Rightarrow> bool" where
  "refusal r \<longleftrightarrow> (case r of Accepted _ \<Rightarrow> False | Refused_With code _ \<Rightarrow> code \<noteq> 503 | Server_Error \<Rightarrow> True)"

lemma refusal_simps [simp]: "\<not> refusal (Accepted t)" "refusal (Refused_With code msg) = (code \<noteq> 503)" "refusal Server_Error"
  by (simp_all add: refusal_def)

definition admitted_row :: "admit_env \<Rightarrow> task_request \<Rightarrow> string \<Rightarrow> plugin \<Rightarrow> task_row" where
  "admitted_row e q owner p =
     (let safe = effective_safe_mode (ae_safe_default e)
                   (owned_row (ae_store e) (target_policies (ae_store e)) owner (c_target_policy_id (q_context q)))
      in new_task_row p owner (q_plugin q) (effective_inputs safe (q_inputs q)) safe (q_preset q) (q_context q) (q_consent q))"

lemma start_checked_cases:
  assumes "start_checked e q owner tid p safe inputs st = (r, st')"
  obtains (refused) "refusal r" "same_work st st'"
  | (admitted) h where
      "quota_check e p (q_plugin q) (resolve_client_identity (ae_trusted e) (q_http q)) (a_history st) = (Quota_Ok, h)"
      "(r, st') = slot_and_schedule ''Concurrency limit reached; task was not started'' tid
          (insert_task tid (new_task_row p owner (q_plugin q) inputs safe (q_preset q) (q_context q) (q_consent q))
             (st\<lparr>a_history := h\<rparr>))"
proof (cases "quota_check e p (q_plugin q) (resolve_client_identity (ae_trusted e) (q_http q)) (a_history st)")
  case (Pair o1 h)
  show thesis
  proof (cases o1)
    case Quota_Ok
    then show thesis using admitted [of h] assms Pair by (simp add: start_checked_def)
  qed (use assms Pair in \<open>auto simp: start_checked_def same_work_def intro!: refused\<close>)
qed

lemma start_known_cases:
  assumes "start_known e q owner tid p st = (r, st')"
  obtains (refused) "refusal r" "same_work st st'"
  | (admitted) policy safe inputs d where
      "policy = owned_row (ae_store e) (target_policies (ae_store e)) owner (c_target_policy_id (q_context q))"
      "safe = effective_safe_mode (ae_safe_default e) policy" "inputs = effective_inputs safe (q_inputs q)"
      "context_refusal (ae_store e) owner (q_context q) p = None"
      "timeout_refusal (le_sandbox_timeout (ae_launch e)) p inputs = None"
      "target_admission (ae_launch e) safe p inputs (a_dns st) = (Target_Fine, d)"
      "start_checked e q owner tid p safe inputs (st\<lparr>a_dns := d\<rparr>) = (r, st')"
  using assms
  by (auto simp: start_known_def Let_def same_work_def split: option.splits target_check.splits prod.splits bool.splits)

lemma payload_refusal:
  assumes "validate_task_start_payload l n (JObj kvs) context = (False, code, msg)"
  shows "code \<in> {400, 413}"
proof -
  have "fst (snd (validate_task_start_payload l n (JObj kvs) context)) \<in> {400, 413}"
    using assms check_field_code(3) [of l "[]" kvs] check_field_code(3) [of l "''execution_context.''"]
    by (auto simp: validate_task_start_payload_def Let_def split: if_splits json.splits) (metis fst_conv snd_conv)+
  then show ?thesis by (simp add: assms)
qed

lemma start_task_cases:
  assumes "start_task e q owner tid st = (r, st')"
  obtains (refused) "refusal r" "same_work st st'"
  | (admitted) p d h where
      "ae_require_consent e \<Longrightarrow> q_consent q" "map_of (le_plugins (ae_launch e)) (q_plugin q) = Some p"
      "context_refusal (ae_store e) owner (q_context q) p = None"
      "target_admission (ae_launch e) (k_safe (admitted_row e q owner p)) p
         (effective_inputs (k_safe (admitted_row e q owner p)) (q_inputs q)) (a_dns st) = (Target_Fine, d)"
      "quota_check e p (q_plugin q) (resolve_client_identity (ae_trusted e) (q_http q)) (a_history st) = (Quota_Ok, h)"
      "(r, st') = slot_and_schedule ''Concurrency limit reached; task was not started'' tid
          (insert_task tid (admitted_row e q owner p) (st\<lparr>a_dns := d, a_history := h\<rparr>))"
proof -
  note accept = admitted and refuse = refused
  obtain ok code msg where v: "validate_task_start_payload (ae_limits e) (q_body_bytes q) (JObj (q_inputs q))
      (context_json (q_context q)) = (ok, code, msg)" by (metis prod_cases3)
  show thesis
  proof (cases "ok \<and> (ae_require_consent e \<longrightarrow> q_consent q) \<and> map_of (le_plugins (ae_launch e)) (q_plugin q) \<noteq> None")
    case False
    have "\<not> ok \<Longrightarrow> code \<noteq> 503" using payload_refusal v by fastforce
    then have "refusal r \<and> same_work st st'"
      using False assms v by (cases ok) (auto simp: start_task_def same_work_def log_audit_def split: if_splits)
    then show thesis using refuse by blast
  next
    case True
    then obtain p where p: "map_of (le_plugins (ae_launch e)) (q_plugin q) = Some p" by blast
    then have known: "start_known e q owner tid p st = (r, st')"
      using assms True v by (auto simp: start_task_def)
    from known show thesis
    proof (cases rule: start_known_cases)
      case (admitted policy safe inputs d)
      note known_facts = admitted
      have row: "admitted_row e q owner p = new_task_row p owner (q_plugin q) inputs safe (q_preset q) (q_context q) (q_consent q)"
        "k_safe (admitted_row e q owner p) = safe"
        using known_facts(1-3) by (simp_all add: admitted_row_def new_task_row_def Let_def)
      from known_facts(7) show thesis
      proof (cases rule: start_checked_cases)
        case (admitted h)
        then show thesis
          using accept [of p d h] p known_facts(3,4,6) True row by simp
      next
        case refused
        then show thesis using refuse by (simp add: same_work_def)
      qed
    qed (rule refuse)
  qed
qed

text \<open>A policy of the same owner, named by the execution context, carries the permission.\<close>

definition permits :: "profile_store \<Rightarrow> string \<Rightarrow> string option \<Rightarrow> string \<Rightarrow> bool" where
  "permits ps owner policy_id permission \<longleftrightarrow>
     (\<exists>row \<in> set (target_policies ps). policy_id \<noteq> None \<and> jget row ''id'' = JStr (the policy_id)
        \<and> jget row ''owner_id'' = JStr owner
        \<and> truthy (jget (deserialize_resource_row (ps_loads ps) row) permission))"

lemma policy_allows_permits:
  assumes "policy_allows (owned_row ps (target_policies ps) owner i) permission"
  shows "permits ps owner i permission"
proof -
  obtain j row where "i = Some j" "find (\<lambda>r. jget r ''id'' = JStr j \<and> jget r ''owner_id'' = JStr owner) (target_policies ps) = Some row"
      "truthy (jget (deserialize_resource_row (ps_loads ps) row) permission)"
    using assms by (auto simp: policy_allows_def owned_row_def split: option.splits if_splits)
  moreover from this(2) have "row \<in> set (target_policies ps)" "jget row ''id'' = JStr j" "jget row ''owner_id'' = JStr owner"
    by (auto simp: find_Some_iff)
  ultimately show ?thesis by (auto simp: permits_def)
qed

lemma context_refusal_None:
  assumes "context_refusal ps owner c p = None"
  shows "given (c_credential_profile_id c) \<or> given (c_session_profile_id c)
           \<Longrightarrow> permits ps owner (c_target_policy_id c) ''allow_authenticated_scan''"
    and "requires_exploit_policy p c \<Longrightarrow> permits ps owner (c_target_policy_id c) ''allow_exploit_validation''"
  using assms by (auto simp: context_refusal_def Let_def intro: policy_allows_permits split: if_splits)

lemma adel_absent: "k \<notin> set (akeys (adel k xs))"
  by simp

lemma aput_absent: "k \<notin> set (akeys xs) \<Longrightarrow> aput k v xs = xs @ [(k, v)]"
  by (induction k v xs rule: aput.induct) (auto simp: akeys_def)

lemma jget_effective_inputs:
  "jget (effective_inputs safe d) k = (if k = ''safe_mode'' then JBool safe else jget d k)"
  by (simp add: effective_inputs_def jget_def map_of_adel)

lemma dict_merge_snoc: "dict_merge a (b @ [(k, v)]) = aput k v (dict_merge a b)"
  by (simp add: dict_merge_def)

lemma with_preset_safe_mode: "jget (with_preset p preset (effective_inputs safe d)) ''safe_mode'' = JBool safe"
proof -
  have "effective_inputs safe d = adel ''safe_mode'' d @ [(''safe_mode'', JBool safe)]"
    unfolding effective_inputs_def by (rule aput_absent [OF adel_absent])
  then have "jget (dict_merge a (effective_inputs safe d)) ''safe_mode'' = JBool safe" for a
    by (simp add: dict_merge_snoc)
  then show ?thesis
    by (auto simp: with_preset_def jget_effective_inputs split: option.splits)
qed

lemma target_admission_fine:
  assumes "target_admission e safe p inputs cache = (Target_Fine, cache')" and "truthy (jget inputs ''target'')"
    and "p_category p \<noteq> ''code''" and "\<not> is_filesystem_target (show_json (le_repr e) (jget inputs ''target''))"
  shows "\<exists>msg. validate_target (le_net e) (dns_v (le_world e)) (now_v (le_world e)) (dns_v2 (le_world e))
     (now_v2 (le_world e)) safe (show_json (le_repr e) (jget inputs ''target'')) cache = Some ((True, msg), cache')"
  using assms by (auto simp: target_admission_def Let_def split: option.splits prod.splits if_splits)

definition plugin_hourly_limit :: "admit_env \<Rightarrow> plugin \<Rightarrow> int option" where
  "plugin_hourly_limit e p = Option.bind (hourly_limit p (ae_hourly_default e)) limit_number"

definition recent_starts :: "admit_env \<Rightarrow> string \<Rightarrow> string \<Rightarrow> history \<Rightarrow> usec list" where
  "recent_starts e client plugin_id h = filter (\<lambda>ts. ts > ae_now e - hour_usec) (dget h (task_bucket client plugin_id) [])"

lemma quota_ok:
  assumes "quota_check e p plugin_id client h = (Quota_Ok, h')"
  obtains m where "plugin_hourly_limit e p = Some m" "int (length (recent_starts e client plugin_id h)) < m"
    "dget h' (task_bucket client plugin_id) [] = recent_starts e client plugin_id h @ [ae_now e]"
  using assms
  by (auto simp: quota_check_def can_execute_def recent_starts_def plugin_hourly_limit_def Let_def dget_def
      split: option.splits if_splits)

subsection \<open>Properties\<close>

text \<open>C4: An accepted start has passed every guard: consent is given where it is required; a credential or
  session profile, and offensive validation, are used only with a policy of the same owner that permits
  them; safe mode is on, in the row and in the inputs, unless such a policy permits public targets,
  whatever the client sent; the target was accepted by target validation in that mode; and fewer starts
  of this client and plugin than the hourly limit were counted in the last hour. Then the row is added
  in state QUEUED for that owner, the task holds one more slot, and one execution is scheduled.\<close>

theorem started_task_admitted:
  assumes "start_task e q owner tid st = (Accepted t, st')"
  shows "\<exists>p m row. map_of (le_plugins (ae_launch e)) (q_plugin q) = Some p \<and> row = admitted_row e q owner p
     \<and> (ae_require_consent e \<longrightarrow> q_consent q)
     \<and> (given (c_credential_profile_id (q_context q)) \<or> given (c_session_profile_id (q_context q))
          \<longrightarrow> permits (ae_store e) owner (c_target_policy_id (q_context q)) ''allow_authenticated_scan'')
     \<and> (requires_exploit_policy p (q_context q)
          \<longrightarrow> permits (ae_store e) owner (c_target_policy_id (q_context q)) ''allow_exploit_validation'')
     \<and> (ae_safe_default e \<and> \<not> permits (ae_store e) owner (c_target_policy_id (q_context q)) ''allow_public_targets''
          \<longrightarrow> k_safe row \<and> jget (k_inputs row) ''safe_mode'' = JBool True)
     \<and> (truthy (jget (q_inputs q) ''target'') \<and> p_category p \<noteq> ''code''
          \<and> \<not> is_filesystem_target (show_json (le_repr (ae_launch e)) (jget (q_inputs q) ''target''))
          \<longrightarrow> (\<exists>msg cache. validate_target (le_net (ae_launch e)) (dns_v (le_world (ae_launch e))) (now_v (le_world (ae_launch e)))
                 (dns_v2 (le_world (ae_launch e))) (now_v2 (le_world (ae_launch e))) (k_safe row)
                 (show_json (le_repr (ae_launch e)) (jget (q_inputs q) ''target'')) (a_dns st) = Some ((True, msg), cache)))
     \<and> plugin_hourly_limit e p = Some m
     \<and> int (length (recent_starts e (resolve_client_identity (ae_trusted e) (q_http q)) (q_plugin q) (a_history st))) < m
     \<and> a_tasks st' = a_tasks st @ [(tid, row)] \<and> k_status row = QUEUED \<and> k_owner row = owner
     \<and> a_scheduled st' = a_scheduled st @ [tid]
     \<and> held_slots (a_slots st') = add_mset tid (held_slots (a_slots st))
     \<and> int (size (held_slots (a_slots st))) < max_concurrent (a_slots st)"
  using assms
proof (cases rule: start_task_cases)
  case (admitted p d h)
  let ?row = "admitted_row e q owner p"
  obtain m where m: "plugin_hourly_limit e p = Some m"
      "int (length (recent_starts e (resolve_client_identity (ae_trusted e) (q_http q)) (q_plugin q) (a_history st))) < m"
    using quota_ok [OF admitted(5)] by metis
  have row: "k_status ?row = QUEUED" "k_owner ?row = owner" "jget (k_inputs ?row) ''safe_mode'' = JBool (k_safe ?row)"
    by (simp_all add: admitted_row_def new_task_row_def Let_def with_preset_safe_mode)
  have safe: "k_safe ?row" if "ae_safe_default e" "\<not> permits (ae_store e) owner (c_target_policy_id (q_context q)) ''allow_public_targets''"
    using that policy_allows_permits
    by (auto simp: admitted_row_def new_task_row_def effective_safe_mode_def Let_def)
  have granted: "fst (try_acquire tid (a_slots st))" and st': "a_tasks st' = a_tasks st @ [(tid, ?row)]"
      "a_scheduled st' = a_scheduled st @ [tid]" "a_slots st' = snd (try_acquire tid (a_slots st))"
    using admitted(6) by (auto simp: slot_and_schedule_eq insert_task_def split: if_splits)
  note slot = take_slot_held [OF granted]
  show ?thesis
    using admitted(1,2) context_refusal_None [OF admitted(3)] target_admission_fine [OF admitted(4)] m row safe st' slot
    by (intro exI [of _ p] exI [of _ m] exI [of _ ?row]) (auto simp: jget_effective_inputs)
qed simp

text \<open>A start that is not accepted schedules nothing and takes no slot, and no finding or report
  changes. Either the tasks are as before, or (code 503) the new row is there, already in state FAILED
  with a reason, because every slot was taken.\<close>

theorem refused_start_leaves_nothing:
  assumes "start_task e q owner tid st = (r, st')" and "\<forall>t. r \<noteq> Accepted t" and "tid \<notin> fst ` set (a_tasks st)"
  shows "a_scheduled st' = a_scheduled st \<and> a_slots st' = a_slots st
     \<and> a_findings st' = a_findings st \<and> a_reports st' = a_reports st
     \<and> (a_tasks st' = a_tasks st
        \<or> (\<exists>msg row. r = Refused_With 503 msg \<and> max_concurrent (a_slots st) \<le> int (size (held_slots (a_slots st)))
             \<and> a_tasks st' = a_tasks st @ [(tid, row)] \<and> k_status row = FAILED \<and> k_error row \<noteq> None))"
  using assms(1)
proof (cases rule: start_task_cases)
  case refused
  then show ?thesis by (simp add: same_work_def)
next
  case (admitted p d h)
  then have full: "\<not> fst (try_acquire tid (a_slots st))"
    using assms(2) by (auto simp: slot_and_schedule_eq insert_task_def split: if_splits)
  then have "max_concurrent (a_slots st) \<le> int (size (held_slots (a_slots st)))"
    using slots.refuse_law [of tid "a_slots st" "snd (try_acquire tid (a_slots st))"]
    by (cases "try_acquire tid (a_slots st)") auto
  then show ?thesis
    using admitted(6) full change_new_task [OF assms(3), of "insert_task tid (admitted_row e q owner p) (st\<lparr>a_dns := d, a_history := h\<rparr>)"]
    by (auto simp: slot_and_schedule_eq mark_task_failed_def insert_task_def)
qed

subsection \<open>Retries\<close>

definition results_of :: "string \<Rightarrow> admission \<Rightarrow> dict list" where
  "results_of t st = filter (\<lambda>r. jget r ''task_id'' = JStr t) (a_findings st @ a_reports st)"

lemma without_results_simps [simp]:
  "a_tasks (without_results tid st) = a_tasks st" "a_slots (without_results tid st) = a_slots st"
  "a_scheduled (without_results tid st) = a_scheduled st"
  by (simp_all add: without_results_def)

lemma requeue_simps [simp]:
  "a_slots (requeue tid st) = a_slots st" "a_scheduled (requeue tid st) = a_scheduled st"
  "a_findings (requeue tid st) = a_findings st" "a_reports (requeue tid st) = a_reports st"
  by (simp_all add: requeue_def)

lemma results_of_simps [simp]:
  "results_of t (log_audit ty sev i p st) = results_of t st" "results_of t (change_task tid f st) = results_of t st"
  "results_of t (requeue tid st) = results_of t st" "results_of t (st\<lparr>a_history := h\<rparr>) = results_of t st"
  by (simp_all add: results_of_def)

lemma results_of_without [simp]: "results_of t (without_results tid st) = (if t = tid then [] else results_of t st)"
proof -
  have "filter (\<lambda>r. jget r ''task_id'' = JStr t) (filter (\<lambda>r. jget r ''task_id'' \<noteq> JStr tid) xs)
      = (if t = tid then [] else filter (\<lambda>r. jget r ''task_id'' = JStr t) xs)" for xs
    by (induction xs) auto
  then show ?thesis by (simp add: results_of_def without_results_def)
qed

lemma retry_request_cases:
  assumes "retry_request e r owner tid st = (res, st')"
  obtains (refused) "refusal res" "same_work st st'"
  | (retried) row h where "map_of (a_tasks st) tid = Some row" "k_owner row = owner" "k_status row \<in> {FAILED, CANCELLED}"
      "(res, st') = slot_and_schedule ''Concurrency limit reached; task was not retried'' tid
         (without_results tid (requeue tid (st\<lparr>a_history := h\<rparr>)))"
proof (cases "map_of (a_tasks st) tid")
  case None
  then show thesis using assms by (intro refused) (auto simp: retry_request_def require_owned_task_def same_work_def)
next
  case (Some row)
  show thesis
  proof (cases "k_owner row = owner \<and> k_status row \<in> {FAILED, CANCELLED} \<and> map_of (le_plugins (ae_launch e)) (k_plugin row) \<noteq> None")
    case False
    then have "refusal res \<and> same_work st st'"
      using assms Some by (auto simp: retry_request_def require_owned_task_def same_work_def split: if_splits)
    then show thesis using refused by blast
  next
    case True
    then obtain p where p: "map_of (le_plugins (ae_launch e)) (k_plugin row) = Some p" by blast
    obtain o1 h where q: "quota_check e p (k_plugin row) (resolve_client_identity (ae_trusted e) r) (a_history st) = (o1, h)"
      by (metis prod.exhaust)
    show thesis
      using assms Some True p q retried [of row h] refused
      by (cases o1) (auto simp: retry_request_def require_owned_task_def same_work_def)
  qed
qed

text \<open>A retry touches the rows and results of that task only. It is accepted only for a task of the
  caller that failed or was cancelled, and fewer slots than the maximum are taken; the row is then QUEUED
  without an error, its findings and reports are gone, and the task holds one more slot and one more
  scheduled execution. Whatever else the answer is, no slot is taken and nothing is scheduled.\<close>

theorem retry_isolated:
  assumes "retry_request e r owner tid st = (res, st')"
  shows "(\<forall>t. t \<noteq> tid \<longrightarrow> map_of (a_tasks st') t = map_of (a_tasks st) t \<and> results_of t st' = results_of t st)
     \<and> (if res = Accepted tid
        then (\<exists>row. map_of (a_tasks st) tid = Some row \<and> k_owner row = owner \<and> k_status row \<in> {FAILED, CANCELLED}
                \<and> map_of (a_tasks st') tid = Some (row\<lparr>k_status := QUEUED, k_error := None\<rparr>))
             \<and> results_of tid st' = [] \<and> a_scheduled st' = a_scheduled st @ [tid]
             \<and> held_slots (a_slots st') = add_mset tid (held_slots (a_slots st))
             \<and> int (size (held_slots (a_slots st))) < max_concurrent (a_slots st)
        else (\<forall>t. res \<noteq> Accepted t) \<and> a_scheduled st' = a_scheduled st \<and> a_slots st' = a_slots st)"
  using assms
proof (cases rule: retry_request_cases)
  case refused
  then show ?thesis by (auto simp: same_work_def results_of_def)
next
  case (retried row h)
  let ?q = "without_results tid (requeue tid (st\<lparr>a_history := h\<rparr>))"
  have row: "map_of (a_tasks ?q) t = (if t = tid then Some (row\<lparr>k_status := QUEUED, k_error := None\<rparr>) else map_of (a_tasks st) t)" for t
    using retried(1,3) by (auto simp: requeue_def task_of_changed)
  show ?thesis
  proof (cases "fst (try_acquire tid (a_slots st))")
    case True
    then have "res = Accepted tid" and st': "st' = ?q\<lparr>a_slots := snd (try_acquire tid (a_slots st)),
        a_scheduled := a_scheduled st @ [tid], a_cache := invalidate_view_cache (a_cache ?q)\<rparr>"
      using retried(4) by (simp_all add: slot_and_schedule_eq)
    moreover have "results_of t st' = results_of t ?q" for t by (simp add: st' results_of_def)
    ultimately show ?thesis using retried(1-3) row take_slot_held [OF True] by simp
  next
    case False
    then have "res \<noteq> Accepted t" and st': "st' = mark_task_failed tid ''Concurrency limit reached; task was not retried'' ?q" for t
      using retried(4) by (simp_all add: slot_and_schedule_eq)
    then show ?thesis using row by (simp add: mark_task_failed_def task_of_changed)
  qed
qed

text \<open>A retry that finds every slot taken has already deleted the results of the earlier run.\<close>

lemma refused_retry_loses_results:
  assumes "retry_request e r owner tid st = (Refused_With 503 msg, st')"
  shows "results_of tid st' = []"
  using assms by (cases rule: retry_request_cases) (auto simp: slot_and_schedule_eq mark_task_failed_def split: if_splits)

subsection \<open>Witnesses\<close>

definition example_admission :: admit_env where
  "example_admission = \<lparr>ae_launch = example_launch, ae_store = example_store, ae_limits = \<lparr>max_body_bytes = 65536,
     max_field_length = 4096, max_array_length = 100\<rparr>, ae_require_consent = True, ae_safe_default = True,
     ae_hourly_default = 50, ae_trusted = [], ae_now = 0\<rparr>"

definition empty_admission :: "int \<Rightarrow> admission" where
  "empty_admission slots = \<lparr>a_history = Map.empty, a_slots = \<lparr>max_concurrent = slots, running_tasks = []\<rparr>, a_tasks = [],
     a_findings = [], a_reports = [], a_audit = [], a_dns = Map.empty, a_cache = None, a_scheduled = []\<rparr>"

definition example_request :: task_request where
  "example_request = \<lparr>q_plugin = ''nmap'', q_preset = None,
     q_inputs = [(''target'', JStr ''192.168.1.5''), (''safe_mode'', JBool False)], q_consent = True,
     q_context = default_context, q_body_bytes = 120,
     q_http = \<lparr>req_headers = Map.empty, req_client = Some ''10.0.0.9'', req_user_id = None, req_user = No_User\<rparr>\<rparr>"

lemma example_start:
  "fst (start_task example_admission example_request ''default'' ''t1'' (empty_admission 1)) = Accepted ''t1''"
  "fst (start_task example_admission example_request ''default'' ''t1'' (empty_admission 0)) = Refused_With 503 ''Maximum concurrent tasks (0) reached''"
  by code_simp+

theorem started_task_admitted_witness:
  "\<exists>st row. start_task example_admission example_request ''default'' ''t1'' (empty_admission 1) = (Accepted ''t1'', st)
     \<and> a_tasks st = [(''t1'', row)] \<and> jget (k_inputs row) ''safe_mode'' = JBool True"
proof -
  obtain st where st: "start_task example_admission example_request ''default'' ''t1'' (empty_admission 1) = (Accepted ''t1'', st)"
    using example_start(1) by (metis prod.collapse)
  show ?thesis
    using started_task_admitted [OF st] st
    by (auto simp: permits_def example_admission_def example_store_def empty_admission_def)
qed

theorem refused_start_leaves_nothing_witness:
  "a_scheduled (snd (start_task example_admission example_request ''default'' ''t1'' (empty_admission 0))) = []"
  using refused_start_leaves_nothing [OF prod.collapse [symmetric], where e = example_admission and q = example_request
      and owner = "''default''" and tid = "''t1''" and st = "empty_admission 0"] example_start(2)
  by (simp add: empty_admission_def)

definition failed_task :: admission where
  "failed_task = (empty_admission 1)\<lparr>a_tasks := [(''t1'', (admitted_row example_admission example_request ''default'' example_plugin)\<lparr>k_status := FAILED\<rparr>)],
     a_findings := [[(''task_id'', JStr ''t1'')], [(''task_id'', JStr ''t2'')]]\<rparr>"

lemma example_retry: "fst (retry_request example_admission (q_http example_request) ''default'' ''t1'' failed_task) = Accepted ''t1''"
  by code_simp

theorem retry_isolated_witness:
  "results_of ''t1'' (snd (retry_request example_admission (q_http example_request) ''default'' ''t1'' failed_task)) = []
   \<and> length (results_of ''t2'' (snd (retry_request example_admission (q_http example_request) ''default'' ''t1'' failed_task))) = 1"
  using retry_isolated [OF prod.collapse [symmetric], where e = example_admission and r = "q_http example_request"
      and owner = "''default''" and tid = "''t1''" and st = failed_task] example_retry
  by (auto simp: results_of_def failed_task_def empty_admission_def jget_def)

end
