(* ===== verification/Workflows.thy ===== *)
theory Workflows
  imports Task_Admission
begin

text \<open>
  Workflows: the scheduler of \<open>backend/secuscan/workflows.py\<close>, the handlers of \<open>routes.py\<close> that create,
  change, delete, run and roll back workflows, and the versions and runs \<open>database.py\<close> keeps of them.
  Handlers are functions of the state; a tick runs to its end before the next handler. Parameters:
  the clock, fresh ids, \<open>json.loads\<close>, and which time zones \<open>ZoneInfo\<close> knows. The columns
  \<open>last_run_at\<close> hold times in whole seconds, as \<open>datetime('now')\<close> writes them.
\<close>

subsection \<open>State\<close>

record step =
  st_plugin :: string
  st_inputs :: dict
  st_preset :: "string option"
  st_context :: exec_context

text \<open>What a version keeps of a workflow.\<close>

record wf_def =
  d_name :: string
  d_schedule :: "int option"
  d_timezone :: "string option"
  d_enabled :: bool
  d_steps :: "step list"

record workflow =
  w_owner :: string
  w_def :: wf_def
  w_last_run :: "usec option"

record version =
  v_workflow :: string
  v_number :: int
  v_def :: wf_def
  v_by :: string

datatype run_status = Run_Queued | Run_Completed | Run_Failed | Run_Cancelled

record wf_run =
  n_workflow :: string
  n_version :: int
  n_trigger :: string
  n_tasks :: "string list"
  n_status :: run_status
  n_error :: "string option"

record flow =
  f_workflows :: "(string \<times> workflow) list"
  f_versions :: "version list"
  f_runs :: "(string \<times> wf_run) list"
  f_spacing :: "string \<rightharpoonup> usec" \<comment> \<open>the workflow rate limiter\<close>
  f_work :: "admission \<times> engine"

record flow_env =
  fe_admit :: admit_env
  fe_min_interval :: int
  fe_loads :: "string \<Rightarrow> json option"
  fe_zone :: "string \<Rightarrow> bool"

abbreviation fe_show :: "flow_env \<Rightarrow> json \<Rightarrow> string" where
  "fe_show e \<equiv> show_json (le_repr (ae_launch (fe_admit e)))"

subsection \<open>Steps and versions\<close>

definition step_of :: "flow_env \<Rightarrow> json \<Rightarrow> step option" where
  "step_of e raw =
     (case raw of
        JObj d \<Rightarrow>
          (case (jor (jget d ''inputs'') (JObj []), opt_text_field d ''preset'',
                 jor (jget d ''execution_context'') (JObj [])) of
             (JObj i, Some preset, JObj c) \<Rightarrow>
               map_option (\<lambda>x. \<lparr>st_plugin = fe_show e (jget_or d ''plugin_id'' (JStr [])), st_inputs = i,
                  st_preset = preset, st_context = x\<rparr>) (normalize_execution_context (JObj c))
           | _ \<Rightarrow> None)
      | _ \<Rightarrow> None)"

definition parse_workflow_steps :: "flow_env \<Rightarrow> json \<Rightarrow> step list" where
  "parse_workflow_steps e raw =
     (let parsed = (case raw of
          JList xs \<Rightarrow> xs
        | JStr s \<Rightarrow> if s = [] then [] else (case fe_loads e s of Some (JList xs) \<Rightarrow> xs | _ \<Rightarrow> [])
        | _ \<Rightarrow> [])
      in List.map_filter (step_of e) parsed)"

definition next_version :: "version list \<Rightarrow> string \<Rightarrow> int" where
  "next_version vs wid = fold (\<lambda>v m. max m (v_number v)) (filter (\<lambda>v. v_workflow v = wid) vs) 0 + 1"

definition get_workflow_version :: "version list \<Rightarrow> string \<Rightarrow> int \<Rightarrow> version option" where
  "get_workflow_version vs wid n = find (\<lambda>v. v_workflow v = wid \<and> v_number v = n) vs"

definition active_version :: "version list \<Rightarrow> string \<Rightarrow> version option" where
  "active_version vs wid = get_workflow_version vs wid (next_version vs wid - 1)"

definition snapshot_workflow_version :: "string \<Rightarrow> wf_def \<Rightarrow> string \<Rightarrow> flow \<Rightarrow> flow" where
  "snapshot_workflow_version wid d by_whom f =
     f\<lparr>f_versions := f_versions f @ [\<lparr>v_workflow = wid, v_number = next_version (f_versions f) wid, v_def = d, v_by = by_whom\<rparr>]\<rparr>"

definition record_workflow_run :: "string \<Rightarrow> string \<Rightarrow> int \<Rightarrow> string list \<Rightarrow> string \<Rightarrow> flow \<Rightarrow> flow" where
  "record_workflow_run rid wid n tids trigger f =
     f\<lparr>f_runs := f_runs f @ [(rid, \<lparr>n_workflow = wid, n_version = n, n_trigger = trigger, n_tasks = tids,
        n_status = Run_Queued, n_error = None\<rparr>)]\<rparr>"

definition set_last_run :: "string \<Rightarrow> usec \<Rightarrow> flow \<Rightarrow> flow" where
  "set_last_run wid t f =
     f\<lparr>f_workflows := map (\<lambda>(i, w). (i, if i = wid then w\<lparr>w_last_run := Some (t div usec_per_second * usec_per_second)\<rparr> else w))
        (f_workflows f)\<rparr>"

subsection \<open>Running the steps\<close>

datatype step_result = Step_Skipped | Step_Started | Step_Raised

text \<open>The last part of a step, shared by both runners: the row, the slot and the execution.\<close>

definition launch_step ::
  "string \<Rightarrow> plugin \<Rightarrow> string \<Rightarrow> step \<Rightarrow> bool \<Rightarrow> string \<Rightarrow> admission \<Rightarrow> step_result \<times> admission" where
  "launch_step why p owner s safe tid st =
     (let row = new_task_row p owner (st_plugin s) (effective_inputs safe (st_inputs s)) safe (st_preset s) (st_context s) True
      in case take_slot why tid (insert_task tid row st) of
           ((False, _), st') \<Rightarrow> (Step_Skipped, st')
         | ((True, _), st') \<Rightarrow> (Step_Started, schedule tid st'))"

definition step_policy :: "admit_env \<Rightarrow> string \<Rightarrow> step \<Rightarrow> dict option" where
  "step_policy a owner s = owned_row (ae_store a) (target_policies (ae_store a)) owner (c_target_policy_id (st_context s))"

text \<open>One step of \<open>run_workflow_once\<close>.\<close>

definition manual_step :: "admit_env \<Rightarrow> string \<Rightarrow> step \<Rightarrow> string \<Rightarrow> admission \<times> engine \<Rightarrow> step_result \<times> admission \<times> engine" where
  "manual_step a owner s tid w =
     (case map_of (le_plugins (ae_launch a)) (st_plugin s) of
        None \<Rightarrow> (Step_Skipped, w)
      | Some p \<Rightarrow>
          if requires_exploit_policy p (st_context s) \<and> \<not> policy_allows (step_policy a owner s) ''allow_exploit_validation''
          then (Step_Skipped, w)
          else (let (r, st) = launch_step ''Concurrency limit reached; task was not started'' p owner s
                       (effective_safe_mode (ae_safe_default a) (step_policy a owner s)) tid (fst w)
                in (r, st, snd w)))"

text \<open>The checks of the target in a scheduled step; a time-out of the policy check is not caught.\<close>

datatype step_target = Step_Target_Ok | Step_Target_Refused | Step_Target_Raised

definition scheduled_target ::
  "launch_env \<Rightarrow> plugin \<Rightarrow> step \<Rightarrow> bool \<Rightarrow> dns_cache \<times> engine \<Rightarrow> step_target \<times> dns_cache \<times> engine" where
  "scheduled_target e p s safe g =
     (let w = le_world e; target = show_json (le_repr e) (jget (st_inputs s) ''target'') in
      if \<not> truthy (jget (st_inputs s) ''target'') \<or> p_category p = ''code'' then (Step_Target_Ok, g)
      else case validate_target (le_net e) (dns_v w) (now_v w) (dns_v2 w) (now_v2 w) safe target (fst g) of
          None \<Rightarrow> (if le_validation_late e then Step_Target_Refused else Step_Target_Raised, g)
        | Some ((ok, msg), cache) \<Rightarrow>
            if le_validation_late e \<or> \<not> ok then (Step_Target_Refused, cache, snd g)
            else if \<not> enforce_network_policy (le_egress e) \<or> target = [] then (Step_Target_Ok, cache, snd g)
            else (let ((allowed, why, rule), eng) =
                        check_access (dns_p w) (now_p w) target 0 (st_plugin s) [] None (snd g)
                  in (if le_pinning_late e then Step_Target_Raised
                      else if allowed then Step_Target_Ok else Step_Target_Refused, cache, eng)))"

text \<open>One step of the scheduler's \<open>_run_workflow\<close>.\<close>

definition scheduled_step :: "admit_env \<Rightarrow> string \<Rightarrow> step \<Rightarrow> string \<Rightarrow> admission \<times> engine \<Rightarrow> step_result \<times> admission \<times> engine" where
  "scheduled_step a owner s tid w =
     (if st_plugin s = [] then (Step_Skipped, w)
      else (case map_of (le_plugins (ae_launch a)) (st_plugin s) of
        None \<Rightarrow> (Step_Skipped, w)
      | Some p \<Rightarrow>
          if requires_exploit_policy p (st_context s) \<and> \<not> policy_allows (step_policy a owner s) ''allow_exploit_validation''
          then (Step_Skipped, w)
          else
            (let safe = effective_safe_mode (ae_safe_default a) (step_policy a owner s);
                 (verdict, dns, eng) = scheduled_target (ae_launch a) p s safe (a_dns (fst w), snd w);
                 st = (fst w)\<lparr>a_dns := dns\<rparr>
             in case verdict of
                  Step_Target_Raised \<Rightarrow> (Step_Raised, st, eng)
                | Step_Target_Refused \<Rightarrow> (Step_Skipped, st, eng)
                | Step_Target_Ok \<Rightarrow>
                    (case quota_check a p (st_plugin s) (''user:'' @ owner) (a_history st) of
                       (Quota_Error, h) \<Rightarrow> (Step_Raised, st\<lparr>a_history := h\<rparr>, eng)
                     | (Quota_Exceeded msg, h) \<Rightarrow> (Step_Skipped, st\<lparr>a_history := h\<rparr>, eng)
                     | (Quota_Ok, h) \<Rightarrow>
                         (let (r, st') = launch_step ''Concurrency limit reached'' p owner s safe tid (st\<lparr>a_history := h\<rparr>)
                          in (r, st', eng))))))"

text \<open>The steps in order, with the ids of the tasks started; \<open>None\<close> when an exception ends the run.\<close>

fun run_steps ::
  "(step \<Rightarrow> string \<Rightarrow> 'w \<Rightarrow> step_result \<times> 'w) \<Rightarrow> (nat \<Rightarrow> string) \<Rightarrow> nat \<Rightarrow> step list \<Rightarrow> 'w \<Rightarrow> string list option \<times> 'w" where
  "run_steps go ids i [] w = (Some [], w)"
| "run_steps go ids i (s # ss) w =
     (case go s (ids i) w of
        (Step_Raised, w') \<Rightarrow> (None, w')
      | (Step_Skipped, w') \<Rightarrow> run_steps go ids (i + 1) ss w'
      | (Step_Started, w') \<Rightarrow>
          (case run_steps go ids (i + 1) ss w' of
             (None, w'') \<Rightarrow> (None, w'') | (Some ts, w'') \<Rightarrow> (Some (ids i # ts), w'')))"

subsection \<open>The scheduler\<close>

definition should_run :: "usec \<Rightarrow> usec option \<Rightarrow> int \<Rightarrow> bool" where
  "should_run now last_run schedule_seconds =
     (case last_run of None \<Rightarrow> True | Some t \<Rightarrow> now - t \<ge> schedule_seconds * usec_per_second)"

text \<open>The clock readings and ids of one tick, by workflow.\<close>

record tick_env =
  tk_now :: usec
  tk_spacing :: "string \<Rightarrow> usec"
  tk_done :: "string \<Rightarrow> usec"
  tk_ids :: "string \<Rightarrow> nat \<Rightarrow> string"
  tk_run :: "string \<Rightarrow> string"

definition due :: "tick_env \<Rightarrow> workflow \<Rightarrow> bool" where
  "due t w \<longleftrightarrow> d_enabled (w_def w) \<and>
     (case d_schedule (w_def w) of None \<Rightarrow> False | Some k \<Rightarrow> k > 0 \<and> should_run (tk_now t) (w_last_run w) k)"

text \<open>\<open>_run_workflow\<close>: the version is taken before the steps run; the flag tells whether it returned.\<close>

definition run_scheduled :: "flow_env \<Rightarrow> tick_env \<Rightarrow> string \<Rightarrow> workflow \<Rightarrow> flow \<Rightarrow> bool \<times> flow" where
  "run_scheduled e t wid w f =
     (let f1 = (if active_version (f_versions f) wid = None
                then snapshot_workflow_version wid (w_def w) ''system'' f else f)
      in case active_version (f_versions f1) wid of
           None \<Rightarrow> (False, f1)
         | Some v \<Rightarrow>
             (case run_steps (scheduled_step (fe_admit e) (w_owner w)) (tk_ids t wid) 0 (d_steps (w_def w)) (f_work f1) of
                (None, work) \<Rightarrow> (False, f1\<lparr>f_work := work\<rparr>)
              | (Some tids, work) \<Rightarrow>
                  (True, record_workflow_run (tk_run t wid) wid (v_number v) tids ''scheduler'' (f1\<lparr>f_work := work\<rparr>))))"

text \<open>The loop of \<open>tick\<close> over the rows read at its start.\<close>

fun tick_rows :: "flow_env \<Rightarrow> tick_env \<Rightarrow> (string \<times> workflow) list \<Rightarrow> flow \<Rightarrow> bool \<times> flow" where
  "tick_rows e t [] f = (True, f)"
| "tick_rows e t ((wid, w) # ws) f =
     (if \<not> due t w then tick_rows e t ws f
      else (case check_workflow_rate_limit (tk_spacing t wid) wid (fe_min_interval e) (f_spacing f) of
              ((False, msg), m) \<Rightarrow> tick_rows e t ws (f\<lparr>f_spacing := m\<rparr>)
            | ((True, msg), m) \<Rightarrow>
                (case run_scheduled e t wid w (f\<lparr>f_spacing := m\<rparr>) of
                   (False, f') \<Rightarrow> (False, f')
                 | (True, f') \<Rightarrow> tick_rows e t ws (set_last_run wid (tk_done t wid) f'))))"

definition tick :: "flow_env \<Rightarrow> tick_env \<Rightarrow> flow \<Rightarrow> bool \<times> flow" where
  "tick e t f = tick_rows e t (f_workflows f) f"

subsection \<open>Handlers\<close>

definition validate_schedule_timezone :: "(string \<Rightarrow> bool) \<Rightarrow> json \<Rightarrow> bool \<times> string" where
  "validate_schedule_timezone zone tz =
     (case tz of
        JStr s \<Rightarrow>
          (let name = py_strip s;
               invalid = ''Invalid timezone: '' @ quoted s @ ''. Use an IANA name such as '' @ quoted ''America/New_York''
                 @ '' or '' @ quoted ''UTC'' @ ''.''
           in if name = [] then (False, ''schedule_timezone must be a non-empty string'')
              else if CHR ''/'' \<notin> set name \<and> py_upper name \<notin> {''UTC'', ''GMT''} then (False, invalid)
              else if zone name then (True, []) else (False, invalid))
      | _ \<Rightarrow> (False, ''schedule_timezone must be a non-empty string''))"

text \<open>The time zone to store, or the detail of the 400.\<close>

definition timezone_of :: "flow_env \<Rightarrow> json \<Rightarrow> string + string option" where
  "timezone_of e tz =
     (if tz = JNull then Inr None
      else case validate_schedule_timezone (fe_zone e) tz of
          (False, msg) \<Rightarrow> Inl msg
        | (True, msg) \<Rightarrow> Inr (case tz of JStr s \<Rightarrow> Some (py_strip s) | _ \<Rightarrow> None))"

definition name_taken :: "string \<Rightarrow> string \<Rightarrow> string \<Rightarrow> flow \<Rightarrow> bool" where
  "name_taken owner name wid f = list_ex (\<lambda>(i, w). i \<noteq> wid \<and> w_owner w = owner \<and> d_name (w_def w) = name) (f_workflows f)"

definition too_long :: "string \<Rightarrow> bool" where
  "too_long name \<longleftrightarrow> length (py_strip name) > 255"

text \<open>\<open>int(schedule_seconds)\<close> of \<open>create_workflow\<close>: a \<open>TypeError\<close> is not caught there.\<close>

datatype schedule_input = Schedule "int option" | Schedule_Invalid | Schedule_Type_Error

definition new_schedule :: "json \<Rightarrow> schedule_input" where
  "new_schedule v =
     (case v of
        JNull \<Rightarrow> Schedule None
      | JList _ \<Rightarrow> Schedule_Type_Error
      | JObj _ \<Rightarrow> Schedule_Type_Error
      | _ \<Rightarrow> (case py_int_of v of
               None \<Rightarrow> Schedule_Invalid
             | Some k \<Rightarrow> if k < 60 then Schedule_Invalid else Schedule (Some k)))"

definition create_workflow :: "flow_env \<Rightarrow> dict \<Rightarrow> string \<Rightarrow> string \<Rightarrow> flow \<Rightarrow> reply \<times> flow" where
  "create_workflow e payload owner wid f =
     (let name = py_strip (fe_show e (jget_or payload ''name'' (JStr [])));
          steps = parse_workflow_steps e (jget_or payload ''steps'' (JList []))
      in if name = [] then (Refused_With 400 ''Workflow name is required'', f)
         else if too_long name then (Refused_With 400 ''Workflow name exceeds maximum length of 255 characters'', f)
         else if steps = [] then (Refused_With 400 ''Workflow requires at least one step'', f)
         else case timezone_of e (jget payload ''schedule_timezone'') of
             Inl msg \<Rightarrow> (Refused_With 400 msg, f)
           | Inr tz \<Rightarrow>
               (case new_schedule (jget payload ''schedule_seconds'') of
                  Schedule_Type_Error \<Rightarrow> (Server_Error, f)
                | Schedule_Invalid \<Rightarrow> (Refused_With 400 ''Invalid schedule_seconds, must be an integer >= 60'', f)
                | Schedule sched \<Rightarrow>
                    if name_taken owner name wid f then (Server_Error, f)
                    else (Accepted wid, f\<lparr>f_workflows := f_workflows f @ [(wid, \<lparr>w_owner = owner,
                            w_def = \<lparr>d_name = name, d_schedule = sched, d_timezone = tz,
                              d_enabled = truthy (jget_or payload ''enabled'' (JBool True)), d_steps = steps\<rparr>,
                            w_last_run = None\<rparr>)]\<rparr>)))"

definition verify_workflow_owner :: "string \<Rightarrow> string \<Rightarrow> flow \<Rightarrow> reply + workflow" where
  "verify_workflow_owner wid owner f =
     (case map_of (f_workflows f) wid of
        None \<Rightarrow> Inl (Refused_With 404 ''Workflow not found'')
      | Some w \<Rightarrow>
          if w_owner w \<noteq> owner then Inl (Refused_With 403 ''You do not have access to this workflow'') else Inr w)"

definition store_definition :: "string \<Rightarrow> wf_def \<Rightarrow> flow \<Rightarrow> flow" where
  "store_definition wid d f =
     f\<lparr>f_workflows := map (\<lambda>(i, w). (i, if i = wid then w\<lparr>w_def := d\<rparr> else w)) (f_workflows f)\<rparr>"

text \<open>The changed columns of a PATCH: \<open>Inl\<close> is the answer of a check that fails, \<open>int(val)\<close> included.\<close>

definition patched_schedule :: "dict \<Rightarrow> wf_def \<Rightarrow> reply + wf_def" where
  "patched_schedule payload d =
     (case map_of payload ''schedule_seconds'' of
        None \<Rightarrow> Inr d
      | Some v \<Rightarrow>
          if \<not> truthy v then Inr (d\<lparr>d_schedule := None\<rparr>)
          else (case py_int_of v of None \<Rightarrow> Inl Server_Error | Some k \<Rightarrow> Inr (d\<lparr>d_schedule := Some k\<rparr>)))"

definition patched_timezone :: "flow_env \<Rightarrow> dict \<Rightarrow> wf_def \<Rightarrow> reply + wf_def" where
  "patched_timezone e payload d =
     (case map_of payload ''schedule_timezone'' of
        None \<Rightarrow> Inr d
      | Some v \<Rightarrow> (case timezone_of e v of Inl msg \<Rightarrow> Inl (Refused_With 400 msg)
                   | Inr tz \<Rightarrow> Inr (d\<lparr>d_timezone := tz\<rparr>)))"

definition patched :: "flow_env \<Rightarrow> dict \<Rightarrow> wf_def \<Rightarrow> reply + wf_def" where
  "patched e payload d =
     (let d1 = (case map_of payload ''name'' of None \<Rightarrow> d | Some v \<Rightarrow> d\<lparr>d_name := py_strip (fe_show e v)\<rparr>);
          d2 = (case map_of payload ''steps'' of None \<Rightarrow> d1 | Some v \<Rightarrow> d1\<lparr>d_steps := parse_workflow_steps e v\<rparr>)
      in case patched_schedule payload d2 of
           Inl r \<Rightarrow> Inl r
         | Inr d3 \<Rightarrow>
             (case patched_timezone e payload d3 of
                Inl r \<Rightarrow> Inl r
              | Inr d4 \<Rightarrow>
                  (case map_of payload ''enabled'' of None \<Rightarrow> Inr d4 | Some v \<Rightarrow> Inr (d4\<lparr>d_enabled := truthy v\<rparr>))))"

definition patch_fields :: "string list" where
  "patch_fields = [''name'', ''steps'', ''schedule_seconds'', ''schedule_timezone'', ''enabled'']"

definition audit_enabled :: "wf_def \<Rightarrow> wf_def \<Rightarrow> flow \<Rightarrow> flow" where
  "audit_enabled old new f =
     (if d_enabled new = d_enabled old then f
      else f\<lparr>f_work := (log_audit (if d_enabled new then ''workflow_enabled'' else ''workflow_disabled'') ''info'' None None
                         (fst (f_work f)), snd (f_work f))\<rparr>)"

text \<open>A PATCH without any known field makes an UPDATE without assignments, which is no SQL.\<close>

definition update_workflow :: "flow_env \<Rightarrow> dict \<Rightarrow> string \<Rightarrow> string \<Rightarrow> flow \<Rightarrow> reply \<times> flow" where
  "update_workflow e payload owner wid f =
     (case verify_workflow_owner wid owner f of
        Inl r \<Rightarrow> (r, f)
      | Inr w \<Rightarrow>
          if (case jget payload ''name'' of JNull \<Rightarrow> False | v \<Rightarrow> too_long (fe_show e v))
          then (Refused_With 400 ''Workflow name exceeds maximum length of 255 characters'', f)
          else (case patched e payload (w_def w) of
             Inl r \<Rightarrow> (r, f)
           | Inr d \<Rightarrow>
               if \<not> list_ex (\<lambda>k. k \<in> set (akeys payload)) patch_fields \<or> name_taken owner (d_name d) wid f
               then (Server_Error, f)
               else (Accepted wid,
                     audit_enabled (w_def w) d (snapshot_workflow_version wid d ''patch'' (store_definition wid d f)))))"

definition rollback_workflow :: "string \<Rightarrow> string \<Rightarrow> int \<Rightarrow> flow \<Rightarrow> reply \<times> flow" where
  "rollback_workflow owner wid n f =
     (case verify_workflow_owner wid owner f of
        Inl r \<Rightarrow> (r, f)
      | Inr w \<Rightarrow>
          (case get_workflow_version (f_versions f) wid n of
             None \<Rightarrow> (Refused_With 404 (''Version '' @ int_str n @ '' not found for this workflow''), f)
           | Some v \<Rightarrow>
               if name_taken owner (d_name (v_def v)) wid f then (Server_Error, f)
               else (Accepted wid, snapshot_workflow_version wid (v_def v) (''rollback_to_v'' @ int_str n)
                                     (store_definition wid (v_def v) f))))"

text \<open>\<open>ON DELETE CASCADE\<close> removes the versions and runs.\<close>

definition delete_workflow :: "string \<Rightarrow> string \<Rightarrow> flow \<Rightarrow> reply \<times> flow" where
  "delete_workflow owner wid f =
     (case verify_workflow_owner wid owner f of
        Inl r \<Rightarrow> (r, f)
      | Inr w \<Rightarrow> (Accepted wid, f\<lparr>f_workflows := adel wid (f_workflows f),
          f_versions := filter (\<lambda>v. v_workflow v \<noteq> wid) (f_versions f),
          f_runs := filter (\<lambda>r. n_workflow (snd r) \<noteq> wid) (f_runs f)\<rparr>))"

text \<open>\<open>run_workflow_once\<close>; the snapshot it takes of a workflow without versions leaves out the time zone.\<close>

definition run_workflow_once :: "flow_env \<Rightarrow> tick_env \<Rightarrow> string \<Rightarrow> string \<Rightarrow> flow \<Rightarrow> reply \<times> flow" where
  "run_workflow_once e t owner wid f =
     (case verify_workflow_owner wid owner f of
        Inl r \<Rightarrow> (r, f)
      | Inr w \<Rightarrow>
          (case check_workflow_rate_limit (tk_spacing t wid) wid (fe_min_interval e) (f_spacing f) of
             ((False, msg), m) \<Rightarrow> (Refused_With 429 msg, f\<lparr>f_spacing := m\<rparr>)
           | ((True, msg), m) \<Rightarrow>
               (let f0 = f\<lparr>f_spacing := m\<rparr>;
                    f1 = (if active_version (f_versions f0) wid = None
                          then snapshot_workflow_version wid ((w_def w)\<lparr>d_timezone := None\<rparr>) ''system'' f0 else f0)
                in case active_version (f_versions f1) wid of
                     None \<Rightarrow> (Server_Error, f1)
                   | Some v \<Rightarrow>
                       (case run_steps (manual_step (fe_admit e) owner) (tk_ids t wid) 0 (d_steps (w_def w)) (f_work f1) of
                          (None, work) \<Rightarrow> (Server_Error, f1\<lparr>f_work := work\<rparr>)
                        | (Some tids, work) \<Rightarrow>
                            (Accepted (tk_run t wid),
                             record_workflow_run (tk_run t wid) wid (v_number v) tids ''manual''
                               (set_last_run wid (tk_done t wid) (f1\<lparr>f_work := work\<rparr>)))))))"

subsection \<open>The end of a run\<close>

definition check_workflow_run_tasks :: "(string \<Rightarrow> task_status option) \<Rightarrow> string list \<Rightarrow> run_status option" where
  "check_workflow_run_tasks status tids =
     (let statuses = List.map_filter status tids in
      if tids = [] then Some Run_Completed
      else if statuses = [] then None
      else if \<exists>s \<in> set statuses. s \<in> {QUEUED, RUNNING} then None
      else if \<forall>s \<in> set statuses. s = COMPLETED then Some Run_Completed
      else if CANCELLED \<in> set statuses then Some Run_Cancelled
      else Some Run_Failed)"

text \<open>What a poll meets: an exception, or the statuses of the tasks (those that still exist).\<close>

datatype poll = Poll_Raises | Poll_Sees "string \<Rightarrow> task_status option"

fun finalize_polls :: "poll list \<Rightarrow> string list \<Rightarrow> (run_status \<times> string option) option" where
  "finalize_polls [] tids = Some (Run_Failed, Some ''Run finalization timed out - check individual task statuses'')"
| "finalize_polls (Poll_Raises # ps) tids = None"
| "finalize_polls (Poll_Sees status # ps) tids =
     (case check_workflow_run_tasks status tids of
        Some s \<Rightarrow> Some (s, None) | None \<Rightarrow> finalize_polls ps tids)"

definition finalize_workflow_run :: "string \<Rightarrow> (nat \<Rightarrow> poll) \<Rightarrow> flow \<Rightarrow> flow" where
  "finalize_workflow_run rid polls f =
     f\<lparr>f_runs := map (\<lambda>(i, r). (i,
         if i \<noteq> rid then r
         else (case finalize_polls (map polls [0..<720]) (n_tasks r) of
                 None \<Rightarrow> r | Some (s, err) \<Rightarrow> r\<lparr>n_status := s, n_error := err\<rparr>))) (f_runs f)\<rparr>"

subsection \<open>Version numbers\<close>

definition versions_of :: "version list \<Rightarrow> string \<Rightarrow> version list" where
  "versions_of vs wid = filter (\<lambda>v. v_workflow v = wid) vs"

definition numbered :: "version list \<Rightarrow> bool" where
  "numbered xs \<longleftrightarrow> map v_number xs = map (\<lambda>i. int i + 1) [0..<length xs]"

lemma fold_max_numbered: "numbered xs \<Longrightarrow> fold (\<lambda>v m. max m (v_number v)) xs 0 = int (length xs)"
proof -
  have "fold (\<lambda>n m. max m n) (map (\<lambda>i. int i + 1) [0..<k]) 0 = int k" for k
    by (induction k) simp_all
  moreover assume "numbered xs"
  ultimately have "fold (\<lambda>n m. max m n) (map v_number xs) 0 = int (length xs)"
    by (simp only: numbered_def)
  then show ?thesis by (simp add: fold_map o_def)
qed

lemma next_version_numbered:
  "numbered (versions_of vs wid) \<Longrightarrow> next_version vs wid = int (length (versions_of vs wid)) + 1"
  by (simp add: next_version_def versions_of_def [symmetric] fold_max_numbered)

lemma numbered_nth: "numbered xs \<Longrightarrow> i < length xs \<Longrightarrow> v_number (xs ! i) = int i + 1"
proof -
  assume "numbered xs" and i: "i < length xs"
  then have "map v_number xs ! i = map (\<lambda>i. int i + 1) [0..<length xs] ! i" by (simp add: numbered_def)
  then show ?thesis using i by simp
qed

lemma numbered_snoc: "numbered xs \<Longrightarrow> v_number v = int (length xs) + 1 \<Longrightarrow> numbered (xs @ [v])"
  by (simp add: numbered_def)

lemma get_version_of: "get_workflow_version vs wid n = find (\<lambda>v. v_number v = n) (versions_of vs wid)"
  by (induction vs) (auto simp: get_workflow_version_def versions_of_def)

lemma get_numbered:
  assumes "numbered (versions_of vs wid)" and "i < length (versions_of vs wid)"
  shows "get_workflow_version vs wid (int i + 1) = Some (versions_of vs wid ! i)"
proof -
  have "\<forall>j < i. v_number (versions_of vs wid ! j) \<noteq> int i + 1"
    using numbered_nth [OF assms(1)] assms(2) by simp
  then show ?thesis
    using numbered_nth [OF assms] assms(2) by (auto simp: get_version_of find_Some_iff)
qed

lemma active_version_last:
  assumes "numbered (versions_of vs wid)"
  shows "active_version vs wid = (if versions_of vs wid = [] then None else Some (last (versions_of vs wid)))"
proof (cases "versions_of vs wid = []")
  case True
  then show ?thesis by (simp add: active_version_def get_version_of)
next
  case False
  then have "next_version vs wid - 1 = int (length (versions_of vs wid) - 1) + 1"
    by (cases "length (versions_of vs wid)") (simp_all add: next_version_numbered [OF assms])
  then show ?thesis
    using get_numbered [OF assms, of "length (versions_of vs wid) - 1"] False
    by (simp add: active_version_def last_conv_nth add.commute)
qed

subsection \<open>Reachable states\<close>

datatype flow_op =
    Create_Flow dict string string
  | Update_Flow dict string string
  | Rollback_Flow string string int
  | Delete_Flow string string
  | Run_Flow tick_env string string
  | Tick_Flow tick_env
  | Finalize_Run string "nat \<Rightarrow> poll"
  | Other_Work "admission \<times> engine" \<comment> \<open>whatever the rest of the program does\<close>

fun flow_step :: "flow_env \<Rightarrow> flow_op \<Rightarrow> flow \<Rightarrow> flow" where
  "flow_step e (Create_Flow payload owner wid) f = snd (create_workflow e payload owner wid f)"
| "flow_step e (Update_Flow payload owner wid) f = snd (update_workflow e payload owner wid f)"
| "flow_step e (Rollback_Flow owner wid n) f = snd (rollback_workflow owner wid n f)"
| "flow_step e (Delete_Flow owner wid) f = snd (delete_workflow owner wid f)"
| "flow_step e (Run_Flow t owner wid) f = snd (run_workflow_once e t owner wid f)"
| "flow_step e (Tick_Flow t) f = snd (tick e t f)"
| "flow_step e (Finalize_Run rid polls) f = finalize_workflow_run rid polls f"
| "flow_step e (Other_Work w) f = f\<lparr>f_work := w\<rparr>"

definition empty_flow :: "admission \<times> engine \<Rightarrow> flow" where
  "empty_flow w = \<lparr>f_workflows = [], f_versions = [], f_runs = [], f_spacing = Map.empty, f_work = w\<rparr>"

text \<open>\<open>uuid4\<close> gives no id that a workflow has.\<close>

definition fresh_op :: "flow_op \<Rightarrow> flow \<Rightarrow> bool" where
  "fresh_op p f \<longleftrightarrow> (case p of Create_Flow _ _ wid \<Rightarrow> wid \<notin> set (akeys (f_workflows f)) | _ \<Rightarrow> True)"

inductive flow_reachable :: "flow_env \<Rightarrow> flow \<Rightarrow> bool" for e where
  flow_start: "flow_reachable e (empty_flow w)"
| flow_next: "flow_reachable e f \<Longrightarrow> fresh_op p f \<Longrightarrow> flow_reachable e (flow_step e p f)"

subsection \<open>Invariant: the versions follow the definition\<close>

text \<open>The newest version of a workflow is its definition; the snapshot of a first manual run may have
  lost the time zone.\<close>

definition tracks :: "version list \<Rightarrow> wf_def \<Rightarrow> bool" where
  "tracks vs d \<longleftrightarrow> (vs = [] \<or> v_def (last vs) = d \<or> (v_by (last vs) = ''system'' \<and> v_def (last vs) = d\<lparr>d_timezone := None\<rparr>))"

definition versions_ok :: "flow \<Rightarrow> bool" where
  "versions_ok f \<longleftrightarrow> distinct (akeys (f_workflows f))
     \<and> (\<forall>v \<in> set (f_versions f). v_workflow v \<in> set (akeys (f_workflows f)))
     \<and> (\<forall>wid. numbered (versions_of (f_versions f) wid))
     \<and> (\<forall>wid w. map_of (f_workflows f) wid = Some w \<longrightarrow> tracks (versions_of (f_versions f) wid) (w_def w))"

lemma versions_of_append [simp]:
  "versions_of (vs @ [v]) wid = versions_of vs wid @ (if v_workflow v = wid then [v] else [])"
  by (simp add: versions_of_def)

lemma akeys_map_snd [simp]: "akeys (map (\<lambda>(i, w). (i, g i w)) xs) = akeys xs"
  by (induction xs) (auto simp: akeys_def)

lemma snapshot_ok:
  assumes "distinct (akeys (f_workflows f))" "\<forall>v \<in> set (f_versions f). v_workflow v \<in> set (akeys (f_workflows f))"
    and "\<forall>k. numbered (versions_of (f_versions f) k)" and "wid \<in> set (akeys (f_workflows f))"
    and "\<forall>k w. k \<noteq> wid \<longrightarrow> map_of (f_workflows f) k = Some w \<longrightarrow> tracks (versions_of (f_versions f) k) (w_def w)"
    and "\<forall>w. map_of (f_workflows f) wid = Some w \<longrightarrow> d = w_def w \<or> by_whom = ''system'' \<and> d = (w_def w)\<lparr>d_timezone := None\<rparr>"
  shows "versions_ok (snapshot_workflow_version wid d by_whom f)"
  using assms
  by (auto simp: versions_ok_def snapshot_workflow_version_def tracks_def next_version_numbered intro!: numbered_snoc)

lemma versions_ok_frame:
  assumes "versions_ok f" and "f_workflows f' = f_workflows f" and "f_versions f' = f_versions f"
  shows "versions_ok f'"
  using assms by (simp add: versions_ok_def)

lemma versions_ok_last_run: "versions_ok f \<Longrightarrow> versions_ok (set_last_run wid t f)"
  by (auto simp: versions_ok_def set_last_run_def map_of_map_snd split: if_splits)

lemma store_then_snapshot_ok:
  assumes "versions_ok f" and "map_of (f_workflows f) wid \<noteq> None"
  shows "versions_ok (snapshot_workflow_version wid d by_whom (store_definition wid d f))"
proof (rule snapshot_ok)
  show "wid \<in> set (akeys (f_workflows (store_definition wid d f)))"
    using assms(2) by (simp add: store_definition_def map_of_eq_None_akeys)
qed (use assms in \<open>auto simp: versions_ok_def store_definition_def map_of_map_snd split: if_splits\<close>)

lemma create_ok:
  assumes "versions_ok f" and "wid \<notin> set (akeys (f_workflows f))"
  shows "versions_ok (f\<lparr>f_workflows := f_workflows f @ [(wid, w)]\<rparr>)"
proof -
  have "versions_of (f_versions f) wid = []"
    using assms by (auto simp: versions_ok_def versions_of_def filter_empty_conv)
  then show ?thesis
    using assms
    by (auto simp: versions_ok_def map_add_Some_iff akeys_def tracks_def split: option.splits if_splits)
qed

lemma delete_ok:
  assumes "versions_ok f"
  shows "versions_ok (f\<lparr>f_workflows := adel wid (f_workflows f), f_versions := filter (\<lambda>v. v_workflow v \<noteq> wid) (f_versions f), f_runs := rs\<rparr>)"
proof -
  have "versions_of (filter (\<lambda>v. v_workflow v \<noteq> wid) vs) k = (if k = wid then [] else versions_of vs k)" for vs k
    by (induction vs) (auto simp: versions_of_def)
  then show ?thesis
    using assms by (auto simp: versions_ok_def map_of_adel numbered_def tracks_def split: if_splits)
qed

lemma snapshot_live_ok:
  assumes "versions_ok f" and "map_of (f_workflows f) wid = Some w"
    and "d = w_def w \<or> by_whom = ''system'' \<and> d = (w_def w)\<lparr>d_timezone := None\<rparr>"
  shows "versions_ok (snapshot_workflow_version wid d by_whom f)"
proof (rule snapshot_ok)
  show "wid \<in> set (akeys (f_workflows f))"
    using assms(2) by (metis map_of_eq_None_akeys option.discI)
qed (use assms in \<open>auto simp: versions_ok_def\<close>)

lemma snapshot_workflows [simp]: "f_workflows (snapshot_workflow_version wid d by_whom f) = f_workflows f"
  by (simp add: snapshot_workflow_version_def)

text \<open>Both runners take a snapshot of a workflow that has none.\<close>

definition with_version :: "string \<Rightarrow> wf_def \<Rightarrow> flow \<Rightarrow> flow" where
  "with_version wid d f = (if active_version (f_versions f) wid = None then snapshot_workflow_version wid d ''system'' f else f)"

lemma with_version_ok:
  assumes "versions_ok f" and "map_of (f_workflows f) wid = Some w" and "d = w_def w \<or> d = (w_def w)\<lparr>d_timezone := None\<rparr>"
  shows "versions_ok (with_version wid d f)"
  using assms snapshot_live_ok by (auto simp: with_version_def)

lemma run_scheduled_eq:
  "run_scheduled e t wid w f =
     (case active_version (f_versions (with_version wid (w_def w) f)) wid of
        None \<Rightarrow> (False, with_version wid (w_def w) f)
      | Some v \<Rightarrow>
          (case run_steps (scheduled_step (fe_admit e) (w_owner w)) (tk_ids t wid) 0 (d_steps (w_def w)) (f_work (with_version wid (w_def w) f)) of
             (None, work) \<Rightarrow> (False, (with_version wid (w_def w) f)\<lparr>f_work := work\<rparr>)
           | (Some tids, work) \<Rightarrow> (True, record_workflow_run (tk_run t wid) wid (v_number v) tids ''scheduler''
                ((with_version wid (w_def w) f)\<lparr>f_work := work\<rparr>))))"
  unfolding run_scheduled_def with_version_def Let_def by (rule refl)

lemma run_once_eq:
  assumes "verify_workflow_owner wid owner f = Inr w"
    and "check_workflow_rate_limit (tk_spacing t wid) wid (fe_min_interval e) (f_spacing f) = ((True, msg), m)"
    and "g = with_version wid ((w_def w)\<lparr>d_timezone := None\<rparr>) (f\<lparr>f_spacing := m\<rparr>)"
  shows "run_workflow_once e t owner wid f =
     (case active_version (f_versions g) wid of
        None \<Rightarrow> (Server_Error, g)
      | Some v \<Rightarrow>
          (case run_steps (manual_step (fe_admit e) owner) (tk_ids t wid) 0 (d_steps (w_def w)) (f_work g) of
             (None, work) \<Rightarrow> (Server_Error, g\<lparr>f_work := work\<rparr>)
           | (Some tids, work) \<Rightarrow> (Accepted (tk_run t wid),
                record_workflow_run (tk_run t wid) wid (v_number v) tids ''manual''
                  (set_last_run wid (tk_done t wid) (g\<lparr>f_work := work\<rparr>)))))"
  unfolding run_workflow_once_def assms(1,3) sum.case assms(2) prod.case bool.case with_version_def Let_def by (rule refl)

lemma run_scheduled_frame:
  "f_workflows (snd (run_scheduled e t wid w f)) = f_workflows f"
  "f_versions (snd (run_scheduled e t wid w f)) = f_versions (with_version wid (w_def w) f)"
  by (auto simp: run_scheduled_def with_version_def Let_def record_workflow_run_def split: option.splits prod.splits)

definition live_def :: "flow \<Rightarrow> string \<Rightarrow> wf_def option" where
  "live_def f wid = map_option w_def (map_of (f_workflows f) wid)"

lemma run_scheduled_ok:
  assumes "versions_ok f" and "live_def f wid = Some (w_def w)"
  shows "versions_ok (snd (run_scheduled e t wid w f))"
proof -
  obtain w' where "map_of (f_workflows f) wid = Some w'" "w_def w' = w_def w"
    using assms(2) by (auto simp: live_def_def)
  then show ?thesis
    by (intro versions_ok_frame [OF with_version_ok [OF assms(1), of wid w' "w_def w"]])
       (simp_all add: run_scheduled_frame with_version_def)
qed

definition same_defs :: "flow \<Rightarrow> (string \<times> workflow) list \<Rightarrow> bool" where
  "same_defs f ws \<longleftrightarrow> (\<forall>(wid, w) \<in> set ws. live_def f wid = Some (w_def w))"

lemma live_def_last_run [simp]: "live_def (set_last_run wid t f) k = live_def f k"
  by (cases "map_of (f_workflows f) k") (simp_all add: live_def_def set_last_run_def map_of_map_snd)

lemma same_defs_frame:
  "same_defs f ws \<Longrightarrow> f_workflows f' = f_workflows f \<Longrightarrow> same_defs f' ws"
  "same_defs f ws \<Longrightarrow> same_defs (set_last_run wid t f) ws"
  "same_defs f (x # ws) \<Longrightarrow> same_defs f ws"
  "same_defs f ((wid, w) # ws) \<Longrightarrow> live_def f wid = Some (w_def w)"
  by (simp_all add: same_defs_def live_def_def [of f'] live_def_def [of f])

lemma tick_rows_ok: "versions_ok f \<Longrightarrow> same_defs f ws \<Longrightarrow> versions_ok (snd (tick_rows e t ws f))"
proof (induction e t ws f rule: tick_rows.induct)
  case (2 e t wid w ws f)
  obtain ok msg m where rate: "check_workflow_rate_limit (tk_spacing t wid) wid (fe_min_interval e) (f_spacing f) = ((ok, msg), m)"
    by (metis prod.exhaust)
  let ?f = "f\<lparr>f_spacing := m\<rparr>"
  have spaced: "versions_ok ?f" "same_defs ?f ((wid, w) # ws)"
    using "2.prems" same_defs_frame(1) [of f _ ?f] by (simp_all add: versions_ok_def)
  obtain fin f' where run: "run_scheduled e t wid w ?f = (fin, f')" by (metis prod.exhaust)
  have f': "versions_ok f'" "same_defs f' ws"
    using run_scheduled_ok [OF spaced(1) same_defs_frame(4) [OF spaced(2)], of e t] run
      same_defs_frame(1) [OF same_defs_frame(3) [OF spaced(2)], of f'] run_scheduled_frame(1) [of e t wid w ?f]
    by simp_all
  note after = versions_ok_last_run [OF f'(1)] same_defs_frame(2) [OF f'(2)]
  show ?case
    using "2.IH"(1) [OF _ "2.prems"(1) same_defs_frame(3) [OF "2.prems"(2)]]
      "2.IH"(2) [OF _ rate [symmetric]] "2.IH"(3) [OF _ rate [symmetric]] rate run spaced same_defs_frame(3) [OF spaced(2)] f' after
    by (cases ok; cases fin) auto
qed simp

lemma versions_ok_simps [simp]:
  "versions_ok (f\<lparr>f_work := wk\<rparr>) = versions_ok f" "versions_ok (f\<lparr>f_runs := rs\<rparr>) = versions_ok f"
  "versions_ok (f\<lparr>f_spacing := m\<rparr>) = versions_ok f" "versions_ok (record_workflow_run rid wid n tids trigger f) = versions_ok f"
  by (simp_all add: versions_ok_def record_workflow_run_def)

lemma run_once_ok:
  assumes "versions_ok f"
  shows "versions_ok (snd (run_workflow_once e t owner wid f))"
proof (cases "verify_workflow_owner wid owner f")
  case (Inl r)
  then show ?thesis using assms by (simp add: run_workflow_once_def)
next
  case (Inr w)
  then have w: "map_of (f_workflows f) wid = Some w"
    by (auto simp: verify_workflow_owner_def split: option.splits if_splits)
  then have "versions_ok (with_version wid ((w_def w)\<lparr>d_timezone := None\<rparr>) (f\<lparr>f_spacing := m\<rparr>))" for m
    using assms by (intro with_version_ok [where w = w]) simp_all
  then show ?thesis
    using assms by (auto simp: run_workflow_once_def with_version_def Inr Let_def versions_ok_last_run
        split: prod.splits bool.splits option.splits)
qed

lemma owner_live: "verify_workflow_owner wid owner f = Inr w \<Longrightarrow> map_of (f_workflows f) wid = Some w \<and> w_owner w = owner"
  by (auto simp: verify_workflow_owner_def split: option.splits if_splits)

lemma audit_enabled_ok [simp]: "versions_ok (audit_enabled old new f) = versions_ok f"
  by (simp add: audit_enabled_def)

lemma flow_reachable_ok: "flow_reachable e f \<Longrightarrow> versions_ok f"
proof (induction rule: flow_reachable.induct)
  case (flow_start w)
  then show ?case by (simp add: empty_flow_def versions_ok_def versions_of_def numbered_def akeys_def)
next
  case (flow_next f p)
  show ?case
  proof (cases p)
    case (Create_Flow payload owner wid)
    then show ?thesis using flow_next create_ok
      by (auto simp: create_workflow_def fresh_op_def Let_def split: sum.splits schedule_input.splits)
  next
    case (Update_Flow payload owner wid)
    then show ?thesis using flow_next store_then_snapshot_ok owner_live
      by (fastforce simp: update_workflow_def split: sum.splits)
  next
    case (Rollback_Flow owner wid n)
    then show ?thesis using flow_next store_then_snapshot_ok owner_live
      by (fastforce simp: rollback_workflow_def split: sum.splits option.splits)
  next
    case (Delete_Flow owner wid)
    then show ?thesis using flow_next delete_ok by (auto simp: delete_workflow_def split: sum.splits)
  next
    case (Tick_Flow t)
    have "same_defs f (f_workflows f)"
      using flow_next.IH by (force simp: same_defs_def live_def_def versions_ok_def akeys_def)
    then show ?thesis using flow_next.IH tick_rows_ok by (simp add: Tick_Flow tick_def)
  qed (use flow_next in \<open>simp_all add: run_once_ok finalize_workflow_run_def\<close>)
qed

subsection \<open>Versions are never lost\<close>

definition keeps :: "string \<Rightarrow> flow_op \<Rightarrow> bool" where
  "keeps wid p \<longleftrightarrow> (case p of Delete_Flow _ i \<Rightarrow> i \<noteq> wid | _ \<Rightarrow> True)"

definition extends :: "string \<Rightarrow> flow \<Rightarrow> flow \<Rightarrow> bool" where
  "extends wid f f' \<longleftrightarrow> (\<exists>more. versions_of (f_versions f') wid = versions_of (f_versions f) wid @ more)"

lemma extends_refl [simp]: "f_versions f' = f_versions f \<Longrightarrow> extends wid f f'"
  by (simp add: extends_def)

lemma extends_trans: "extends wid f g \<Longrightarrow> extends wid g h \<Longrightarrow> extends wid f h"
  by (auto simp: extends_def)

lemma extends_snapshot:
  "f_versions f' = f_versions (snapshot_workflow_version k d by_whom g) \<Longrightarrow> f_versions g = f_versions f \<Longrightarrow> extends wid f f'"
  by (simp add: extends_def snapshot_workflow_version_def)

lemma extends_with_version: "f_versions f' = f_versions (with_version k d f) \<Longrightarrow> extends wid f f'"
  by (auto simp: with_version_def intro: extends_snapshot split: if_splits)

lemma last_run_versions [simp]: "f_versions (set_last_run k t f) = f_versions f"
  by (simp add: set_last_run_def)

lemma tick_rows_extends: "extends wid f (snd (tick_rows e t ws f))"
proof (induction e t ws f rule: tick_rows.induct)
  case (2 e t k w ws f)
  obtain ok msg m where rate: "check_workflow_rate_limit (tk_spacing t k) k (fe_min_interval e) (f_spacing f) = ((ok, msg), m)"
    by (metis prod.exhaust)
  obtain fin f' where run: "run_scheduled e t k w (f\<lparr>f_spacing := m\<rparr>) = (fin, f')" by (metis prod.exhaust)
  have "f_versions f' = f_versions (with_version k (w_def w) (f\<lparr>f_spacing := m\<rparr>))"
    using run_scheduled_frame(2) [of e t k w "f\<lparr>f_spacing := m\<rparr>"] run by simp
  then have "extends wid (f\<lparr>f_spacing := m\<rparr>) f'" by (rule extends_with_version)
  then have f': "extends wid f f'" "extends wid f (set_last_run k (tk_done t k) f')"
    by (simp_all add: extends_def)
  have spaced: "extends wid f (f\<lparr>f_spacing := m\<rparr>)" by simp
  show ?case
    using "2.IH"(1) "2.IH"(2) [OF _ rate [symmetric]] "2.IH"(3) [OF _ rate [symmetric]] rate run
      extends_trans [OF f'(2)] extends_trans [OF spaced] f'(1)
    by (cases ok; cases fin) auto
qed simp

lemma run_once_extends: "extends wid f (snd (run_workflow_once e t owner k f))"
proof (cases "verify_workflow_owner k owner f")
  case (Inr w)
  have "extends wid f (with_version k ((w_def w)\<lparr>d_timezone := None\<rparr>) (f\<lparr>f_spacing := m\<rparr>))" for m
    using extends_with_version [OF refl, of wid "f\<lparr>f_spacing := m\<rparr>"] by (simp add: extends_def)
  then show ?thesis
    by (auto simp: run_workflow_once_def with_version_def Inr Let_def record_workflow_run_def extends_def
        split: prod.splits bool.splits option.splits)
qed (simp add: run_workflow_once_def)

lemma delete_extends:
  "k \<noteq> wid \<Longrightarrow> extends wid f (f\<lparr>f_workflows := ws, f_versions := filter (\<lambda>v. v_workflow v \<noteq> k) (f_versions f), f_runs := rs\<rparr>)"
proof -
  assume "k \<noteq> wid"
  then have "versions_of (filter (\<lambda>v. v_workflow v \<noteq> k) vs) wid = versions_of vs wid" for vs
    by (induction vs) (auto simp: versions_of_def)
  then show ?thesis by (simp add: extends_def)
qed

lemma audit_enabled_versions [simp]:
  "f_versions (audit_enabled old new f) = f_versions f" "live_def (audit_enabled old new f) wid = live_def f wid"
  by (simp_all add: audit_enabled_def live_def_def)

lemma store_versions [simp]: "f_versions (store_definition wid d f) = f_versions f"
  by (simp add: store_definition_def)

lemma flow_step_extends:
  assumes "keeps wid p"
  shows "extends wid f (flow_step e p f)"
proof (cases p)
  case (Create_Flow payload owner k)
  then show ?thesis by (auto simp: create_workflow_def Let_def split: sum.splits schedule_input.splits)
next
  case (Update_Flow payload owner k)
  then show ?thesis
    by (auto simp: update_workflow_def intro!: extends_snapshot [where g = "store_definition k _ f"] split: sum.splits)
next
  case (Rollback_Flow owner k n)
  then show ?thesis
    by (auto simp: rollback_workflow_def intro!: extends_snapshot [OF refl] split: sum.splits option.splits)
next
  case (Delete_Flow owner k)
  then show ?thesis using assms delete_extends by (auto simp: delete_workflow_def keeps_def split: sum.splits)
next
  case (Tick_Flow t)
  then show ?thesis using tick_rows_extends by (simp add: tick_def)
qed (simp_all add: run_once_extends finalize_workflow_run_def)

fun flow_run :: "flow_env \<Rightarrow> flow_op list \<Rightarrow> flow \<Rightarrow> flow" where
  "flow_run e [] f = f"
| "flow_run e (p # ps) f = flow_run e ps (flow_step e p f)"

fun fresh_run :: "flow_env \<Rightarrow> flow_op list \<Rightarrow> flow \<Rightarrow> bool" where
  "fresh_run e [] f \<longleftrightarrow> True"
| "fresh_run e (p # ps) f \<longleftrightarrow> fresh_op p f \<and> fresh_run e ps (flow_step e p f)"

lemma flow_run_reachable: "flow_reachable e f \<Longrightarrow> fresh_run e ps f \<Longrightarrow> flow_reachable e (flow_run e ps f)"
  by (induction ps arbitrary: f) (auto intro: flow_next)

lemma flow_run_extends: "list_all (keeps wid) ps \<Longrightarrow> extends wid f (flow_run e ps f)"
  by (induction ps arbitrary: f) (auto intro: extends_trans flow_step_extends)

lemma version_kept:
  assumes "versions_ok f" and "versions_ok f'" and "extends wid f f'" and "v \<in> set (f_versions f)" and "v_workflow v = wid"
  shows "get_workflow_version (f_versions f') wid (v_number v) = Some v"
proof -
  have ok: "numbered (versions_of (f_versions f) wid)" "numbered (versions_of (f_versions f') wid)"
    using assms(1,2) by (simp_all add: versions_ok_def)
  have "v \<in> set (versions_of (f_versions f) wid)" using assms(4,5) by (simp add: versions_of_def)
  then obtain i where i: "i < length (versions_of (f_versions f) wid)" "v = versions_of (f_versions f) wid ! i"
    by (auto simp: in_set_conv_nth)
  then have "i < length (versions_of (f_versions f') wid)" "versions_of (f_versions f') wid ! i = v"
    using assms(3) by (auto simp: extends_def nth_append)
  then show ?thesis using get_numbered [OF ok(2)] numbered_nth [OF ok(1) i(1)] i(2) by simp
qed

subsection \<open>What a run creates\<close>

text \<open>
  What both runners do with one step, seen from the state of the tasks: a step that is skipped adds
  nothing or a failed task, one that raises adds nothing, and one that is started adds a queued task
  that holds a slot and is scheduled. \<open>good\<close> is what the runner has checked for the row of a step.
\<close>

locale step_runner =
  fixes go :: "step \<Rightarrow> string \<Rightarrow> 'w \<Rightarrow> step_result \<times> 'w"
    and work :: "'w \<Rightarrow> admission"
    and inv :: "'w \<Rightarrow> bool"
    and good :: "step \<Rightarrow> task_row \<Rightarrow> bool"
  assumes keeps_inv: "inv w \<Longrightarrow> go s tid w = (r, w') \<Longrightarrow> inv w'"
    and skipped: "inv w \<Longrightarrow> tid \<notin> fst ` set (a_tasks (work w)) \<Longrightarrow> go s tid w = (Step_Skipped, w') \<Longrightarrow>
      a_scheduled (work w') = a_scheduled (work w) \<and> a_slots (work w') = a_slots (work w)
      \<and> (a_tasks (work w') = a_tasks (work w)
         \<or> (\<exists>row. a_tasks (work w') = a_tasks (work w) @ [(tid, row)] \<and> k_status row = FAILED \<and> good s row))"
    and raised: "inv w \<Longrightarrow> go s tid w = (Step_Raised, w') \<Longrightarrow>
      a_scheduled (work w') = a_scheduled (work w) \<and> a_slots (work w') = a_slots (work w) \<and> a_tasks (work w') = a_tasks (work w)"
    and started: "inv w \<Longrightarrow> go s tid w = (Step_Started, w') \<Longrightarrow>
      (\<exists>row. a_tasks (work w') = a_tasks (work w) @ [(tid, row)] \<and> k_status row = QUEUED \<and> good s row)
      \<and> a_scheduled (work w') = a_scheduled (work w) @ [tid]
      \<and> held_slots (a_slots (work w')) = add_mset tid (held_slots (a_slots (work w)))
      \<and> max_concurrent (a_slots (work w')) = max_concurrent (a_slots (work w))
      \<and> int (size (held_slots (a_slots (work w)))) < max_concurrent (a_slots (work w))"
begin

definition outcome :: "step list \<Rightarrow> 'w \<Rightarrow> 'w \<Rightarrow> (string \<times> task_row) list \<Rightarrow> string list \<Rightarrow> bool" where
  "outcome steps w w' new begun \<longleftrightarrow> a_tasks (work w') = a_tasks (work w) @ new
     \<and> a_scheduled (work w') = a_scheduled (work w) @ begun
     \<and> held_slots (a_slots (work w')) = held_slots (a_slots (work w)) + mset begun
     \<and> max_concurrent (a_slots (work w')) = max_concurrent (a_slots (work w))
     \<and> (int (size (held_slots (a_slots (work w)))) \<le> max_concurrent (a_slots (work w))
        \<longrightarrow> int (size (held_slots (a_slots (work w')))) \<le> max_concurrent (a_slots (work w)))
     \<and> begun = map fst (filter (\<lambda>(t, row). k_status row = QUEUED) new)
     \<and> (\<forall>(t, row) \<in> set new. k_status row \<in> {QUEUED, FAILED} \<and> (\<exists>s \<in> set steps. good s row))"

lemma outcome_same: "a_scheduled (work w') = a_scheduled (work w) \<Longrightarrow> a_slots (work w') = a_slots (work w)
   \<Longrightarrow> a_tasks (work w') = a_tasks (work w) \<Longrightarrow> outcome steps w w' [] []"
  by (simp add: outcome_def)

lemma outcome_trans:
  "outcome [s] w w1 n1 b1 \<Longrightarrow> outcome ss w1 w2 n2 b2 \<Longrightarrow> outcome (s # ss) w w2 (n1 @ n2) (b1 @ b2)"
  by (auto simp: outcome_def)

lemma one_step:
  assumes "inv w" and "tid \<notin> fst ` set (a_tasks (work w))" and "go s tid w = (r, w')"
  obtains new where "outcome [s] w w' new (if r = Step_Started then [tid] else [])" "fst ` set new \<subseteq> {tid}"
proof (cases r)
  case Step_Skipped
  then consider "outcome [s] w w' [] []"
    | row where "a_tasks (work w') = a_tasks (work w) @ [(tid, row)]" "k_status row = FAILED" "good s row"
        "a_scheduled (work w') = a_scheduled (work w)" "a_slots (work w') = a_slots (work w)"
    using skipped [OF assms(1,2)] assms(3) outcome_same by blast
  then show thesis
  proof cases
    case 1
    then show thesis using that [of "[]"] Step_Skipped by simp
  next
    case (2 row)
    then show thesis using that [of "[(tid, row)]"] Step_Skipped by (simp add: outcome_def)
  qed
next
  case Step_Started
  then obtain row where "a_tasks (work w') = a_tasks (work w) @ [(tid, row)]" "k_status row = QUEUED" "good s row"
    using started [OF assms(1)] assms(3) by blast
  then show thesis using started [OF assms(1), of s tid w'] assms(3) that [of "[(tid, row)]"] Step_Started
    by (simp add: outcome_def)
next
  case Step_Raised
  then show thesis using raised [OF assms(1)] assms(3) that [of "[]"] outcome_same by simp
qed

lemma run:
  assumes "inv w" and "inj ids" and "\<forall>k \<ge> i. ids k \<notin> fst ` set (a_tasks (work w))"
    and "run_steps go ids i steps w = (r, w')"
  shows "\<exists>new begun. outcome steps w w' new begun \<and> (case r of None \<Rightarrow> True | Some tids \<Rightarrow> tids = begun)"
  using assms(1,3,4)
proof (induction steps arbitrary: i w r)
  case Nil
  then show ?case using outcome_same [of w w "[]"] by auto
next
  case (Cons s ss)
  obtain r1 w1 where one: "go s (ids i) w = (r1, w1)" by (cases "go s (ids i) w")
  obtain new where n: "outcome [s] w w1 new (if r1 = Step_Started then [ids i] else [])" "fst ` set new \<subseteq> {ids i}"
    using one_step [OF Cons.prems(1) _ one] Cons.prems(2) by auto
  have fresh: "\<forall>k \<ge> i + 1. ids k \<notin> fst ` set (a_tasks (work w1))"
  proof (intro allI impI)
    fix k assume "i + 1 \<le> k"
    then have "ids k \<noteq> ids i" using assms(2) by (metis inj_eq Suc_eq_plus1 not_less_eq_eq order_refl)
    then show "ids k \<notin> fst ` set (a_tasks (work w1))"
      using n Cons.prems(2) \<open>i + 1 \<le> k\<close> by (auto simp: outcome_def image_Un)
  qed
  note IH = Cons.IH [OF keeps_inv [OF Cons.prems(1) one] fresh]
  show ?case
  proof (cases "r1 = Step_Raised")
    case True
    then have "w' = w1" "r = None" using Cons.prems(3) one by simp_all
    then show ?thesis using n(1) True by (auto simp: outcome_def)
  next
    case False
    obtain r2 w2 where run: "run_steps go ids (i + 1) ss w1 = (r2, w2)" by (metis prod.exhaust)
    then have "run_steps go ids i (s # ss) w = (map_option (\<lambda>ts. (if r1 = Step_Started then [ids i] else []) @ ts) r2, w2)"
      using one False by (cases r1; cases r2) simp_all
    then have rest: "run_steps go ids (i + 1) ss w1 = (r2, w')"
      and r: "r = map_option (\<lambda>ts. (if r1 = Step_Started then [ids i] else []) @ ts) r2"
      using Cons.prems(3) run by simp_all
    obtain n2 b2 where "outcome ss w1 w' n2 b2" "case r2 of None \<Rightarrow> True | Some tids \<Rightarrow> tids = b2"
      using IH [OF rest] by blast
    then show ?thesis using outcome_trans [OF n(1)] r by (fastforce split: option.splits)
  qed
qed

end

subsection \<open>The two runners\<close>

definition step_row :: "admit_env \<Rightarrow> string \<Rightarrow> step \<Rightarrow> task_row \<Rightarrow> bool" where
  "step_row a owner s row \<longleftrightarrow>
     k_owner row = owner \<and> k_plugin row = st_plugin s \<and> k_context row = st_context s
     \<and> (\<exists>p. map_of (le_plugins (ae_launch a)) (st_plugin s) = Some p
          \<and> (requires_exploit_policy p (st_context s)
             \<longrightarrow> permits (ae_store a) owner (c_target_policy_id (st_context s)) ''allow_exploit_validation''))
     \<and> (ae_safe_default a \<and> \<not> permits (ae_store a) owner (c_target_policy_id (st_context s)) ''allow_public_targets''
        \<longrightarrow> k_safe row \<and> jget (k_inputs row) ''safe_mode'' = JBool True)"

text \<open>The target of a scheduled step, unless its plugin is for code: accepted in the mode of the task,
  and with the policy enforced allowed by it.\<close>

definition step_target_ok :: "launch_env \<Rightarrow> engine \<Rightarrow> step \<Rightarrow> bool \<Rightarrow> bool" where
  "step_target_ok e eng s safe \<longleftrightarrow>
     (let t = show_json (le_repr e) (jget (st_inputs s) ''target'') in
      truthy (jget (st_inputs s) ''target'') \<longrightarrow> is_code_plugin e (st_plugin s)
      \<or> (\<exists>cache cache' msg. validate_target (le_net e) (dns_v (le_world e)) (now_v (le_world e)) (dns_v2 (le_world e))
            (now_v2 (le_world e)) safe t cache = Some ((True, msg), cache'))
        \<and> (enforce_network_policy (le_egress e) \<and> t \<noteq> [] \<longrightarrow> egress_allowed (le_world e) eng t))"

lemma launch_step_eq:
  "launch_step why p owner s safe tid st =
     (let row = new_task_row p owner (st_plugin s) (effective_inputs safe (st_inputs s)) safe (st_preset s) (st_context s) True;
          st1 = insert_task tid row st
      in if fst (try_acquire tid (a_slots st))
         then (Step_Started, st1\<lparr>a_slots := snd (try_acquire tid (a_slots st)), a_scheduled := a_scheduled st @ [tid]\<rparr>)
         else (Step_Skipped, mark_task_failed tid why st1))"
  by (auto simp: launch_step_def take_slot_def schedule_def try_acquire_def insert_task_def Let_def split: prod.splits bool.splits)

lemma take_slot_capacity: "max_concurrent (snd (try_acquire tid l)) = max_concurrent l"
  by (simp add: try_acquire_def acquire_slot_def)

lemma new_step_row:
  assumes "map_of (le_plugins (ae_launch a)) (st_plugin s) = Some p"
    and "requires_exploit_policy p (st_context s) \<longrightarrow> policy_allows (step_policy a owner s) ''allow_exploit_validation''"
    and "safe = effective_safe_mode (ae_safe_default a) (step_policy a owner s)"
    and "row = new_task_row p owner (st_plugin s) (effective_inputs safe (st_inputs s)) safe (st_preset s) (st_context s) True"
  shows "step_row a owner s row" and "k_safe row = safe" and "k_status row = QUEUED"
    and "step_row a owner s (row\<lparr>k_status := FAILED, k_error := er\<rparr>)"
  using assms policy_allows_permits
  by (auto simp: step_row_def step_policy_def new_task_row_def Let_def with_preset_safe_mode effective_safe_mode_def)

lemma launch_step_skipped:
  assumes "launch_step why p owner s safe tid st = (Step_Skipped, st')" and "tid \<notin> fst ` set (a_tasks st)"
    and "row = new_task_row p owner (st_plugin s) (effective_inputs safe (st_inputs s)) safe (st_preset s) (st_context s) True"
  shows "a_scheduled st' = a_scheduled st \<and> a_slots st' = a_slots st
     \<and> a_tasks st' = a_tasks st @ [(tid, row\<lparr>k_status := FAILED, k_error := Some why\<rparr>)]"
  using assms change_new_task [OF assms(2), of "insert_task tid row st" row]
  by (auto simp: launch_step_eq Let_def mark_task_failed_def insert_task_def split: if_splits)

lemma launch_step_started:
  assumes "launch_step why p owner s safe tid st = (Step_Started, st')"
    and "row = new_task_row p owner (st_plugin s) (effective_inputs safe (st_inputs s)) safe (st_preset s) (st_context s) True"
  shows "a_tasks st' = a_tasks st @ [(tid, row)] \<and> a_scheduled st' = a_scheduled st @ [tid]
     \<and> held_slots (a_slots st') = add_mset tid (held_slots (a_slots st))
     \<and> max_concurrent (a_slots st') = max_concurrent (a_slots st)
     \<and> int (size (held_slots (a_slots st))) < max_concurrent (a_slots st)"
  using assms take_slot_held [of tid "a_slots st"] take_slot_capacity [of tid "a_slots st"]
  by (auto simp: launch_step_eq Let_def insert_task_def split: if_splits)

lemma launch_step_not_raised: "launch_step why p owner s safe tid st \<noteq> (Step_Raised, st')"
  by (auto simp: launch_step_eq Let_def)

lemma manual_step_cases:
  assumes "manual_step a owner s tid w = (r, w')"
  obtains (none) "r = Step_Skipped" "w' = w"
  | (launch) p st' where "map_of (le_plugins (ae_launch a)) (st_plugin s) = Some p"
      "requires_exploit_policy p (st_context s) \<longrightarrow> policy_allows (step_policy a owner s) ''allow_exploit_validation''"
      "launch_step ''Concurrency limit reached; task was not started'' p owner s
         (effective_safe_mode (ae_safe_default a) (step_policy a owner s)) tid (fst w) = (r, st')" "w' = (st', snd w)"
proof (cases "map_of (le_plugins (ae_launch a)) (st_plugin s)")
  case None
  then show thesis using assms none by (simp add: manual_step_def)
next
  case (Some p)
  obtain r1 st1 where l: "launch_step ''Concurrency limit reached; task was not started'' p owner s
      (effective_safe_mode (ae_safe_default a) (step_policy a owner s)) tid (fst w) = (r1, st1)" by (metis prod.exhaust)
  show thesis
  proof (cases "requires_exploit_policy p (st_context s) \<and> \<not> policy_allows (step_policy a owner s) ''allow_exploit_validation''")
    case True
    then show thesis using assms Some none by (simp add: manual_step_def)
  next
    case False
    then have "r = r1" "w' = (st1, snd w)" using assms Some l by (auto simp: manual_step_def)
    then show thesis using launch [OF Some _ _ ] l False by blast
  qed
qed

interpretation manual: step_runner "manual_step a owner" fst "\<lambda>w. True" "step_row a owner" for a owner
proof unfold_locales
  fix w w' :: "admission \<times> engine" and s tid
  assume fresh: "tid \<notin> fst ` set (a_tasks (fst w))" and go: "manual_step a owner s tid w = (Step_Skipped, w')"
  from go show "a_scheduled (fst w') = a_scheduled (fst w) \<and> a_slots (fst w') = a_slots (fst w)
      \<and> (a_tasks (fst w') = a_tasks (fst w)
         \<or> (\<exists>row. a_tasks (fst w') = a_tasks (fst w) @ [(tid, row)] \<and> k_status row = FAILED \<and> step_row a owner s row))"
  proof (cases rule: manual_step_cases)
    case (launch p st')
    show ?thesis
      using launch_step_skipped [OF launch(3) fresh refl] new_step_row(4) [OF launch(1,2) refl refl] launch(4) by auto
  qed simp
next
  fix w w' :: "admission \<times> engine" and s tid
  assume "manual_step a owner s tid w = (Step_Raised, w')"
  then show "a_scheduled (fst w') = a_scheduled (fst w) \<and> a_slots (fst w') = a_slots (fst w) \<and> a_tasks (fst w') = a_tasks (fst w)"
    by (cases rule: manual_step_cases) (simp_all add: launch_step_not_raised)
next
  fix w w' :: "admission \<times> engine" and s tid
  assume "manual_step a owner s tid w = (Step_Started, w')"
  then show "(\<exists>row. a_tasks (fst w') = a_tasks (fst w) @ [(tid, row)] \<and> k_status row = QUEUED \<and> step_row a owner s row)
      \<and> a_scheduled (fst w') = a_scheduled (fst w) @ [tid]
      \<and> held_slots (a_slots (fst w')) = add_mset tid (held_slots (a_slots (fst w)))
      \<and> max_concurrent (a_slots (fst w')) = max_concurrent (a_slots (fst w))
      \<and> int (size (held_slots (a_slots (fst w)))) < max_concurrent (a_slots (fst w))"
  proof (cases rule: manual_step_cases)
    case (launch p st')
    show ?thesis
      using launch_step_started [OF launch(3) refl] new_step_row(1,3) [OF launch(1,2) refl refl] launch(4) by auto
  qed simp
qed simp

lemma scheduled_target_engine:
  assumes "scheduled_target e p s safe g = (v, dns, eng)" and "reachable_engine (snd g)"
  shows "reachable_engine eng \<and> denylist eng = denylist (snd g) \<and> allowlist eng = allowlist (snd g)"
  using assms reachable_engine.check
  by (auto simp: scheduled_target_def Let_def case_prod_beta split: option.splits if_splits)

lemma scheduled_target_ok:
  assumes "scheduled_target e p s safe g = (Step_Target_Ok, dns, eng)" and "reachable_engine (snd g)"
    and "map_of (le_plugins e) (st_plugin s) = Some p"
  shows "step_target_ok e (snd g) s safe"
proof (cases "truthy (jget (st_inputs s) ''target'') \<and> p_category p \<noteq> ''code''")
  case False
  then show ?thesis using assms(3) by (auto simp: step_target_ok_def is_code_plugin_def)
next
  case True
  let ?t = "show_json (le_repr e) (jget (st_inputs s) ''target'')" and ?w = "le_world e"
  obtain msg cache where v: "validate_target (le_net e) (dns_v ?w) (now_v ?w) (dns_v2 ?w) (now_v2 ?w) safe ?t (fst g) = Some ((True, msg), cache)"
    and c: "enforce_network_policy (le_egress e) \<and> ?t \<noteq> []
      \<longrightarrow> fst (fst (check_access (dns_p ?w) (now_p ?w) ?t 0 (st_plugin s) [] None (snd g)))"
    using assms(1) True by (auto simp: scheduled_target_def Let_def case_prod_beta split: option.splits if_splits)
  have "egress_allowed ?w (snd g) ?t" if "enforce_network_policy (le_egress e) \<and> ?t \<noteq> []"
    using c that egress_allowedI [OF assms(2)] unfolding check_access_decision by blast
  then show ?thesis using v unfolding step_target_ok_def Let_def by blast
qed

lemma step_target_ok_cong:
  "denylist eng = denylist eng' \<Longrightarrow> allowlist eng = allowlist eng' \<Longrightarrow> step_target_ok e eng s safe = step_target_ok e eng' s safe"
  by (simp add: step_target_ok_def egress_allowed_def)

lemma scheduled_step_cases:
  assumes "scheduled_step a owner s tid w = (r, w')"
  obtains (none) "r = Step_Skipped" "w' = w"
  | (stopped) v dns eng p safe h where "r \<noteq> Step_Started" "scheduled_target (ae_launch a) p s safe (a_dns (fst w), snd w) = (v, dns, eng)"
      "w' = ((fst w)\<lparr>a_dns := dns, a_history := h\<rparr>, eng)"
  | (launch) p dns eng h st' where "map_of (le_plugins (ae_launch a)) (st_plugin s) = Some p"
      "requires_exploit_policy p (st_context s) \<longrightarrow> policy_allows (step_policy a owner s) ''allow_exploit_validation''"
      "scheduled_target (ae_launch a) p s (effective_safe_mode (ae_safe_default a) (step_policy a owner s)) (a_dns (fst w), snd w)
         = (Step_Target_Ok, dns, eng)"
      "launch_step ''Concurrency limit reached'' p owner s
         (effective_safe_mode (ae_safe_default a) (step_policy a owner s)) tid ((fst w)\<lparr>a_dns := dns, a_history := h\<rparr>) = (r, st')"
      "w' = (st', eng)"
proof (cases "map_of (le_plugins (ae_launch a)) (st_plugin s)")
  case None
  then show thesis using assms none by (simp add: scheduled_step_def split: if_splits)
next
  case (Some p)
  let ?safe = "effective_safe_mode (ae_safe_default a) (step_policy a owner s)"
  obtain v dns eng where t: "scheduled_target (ae_launch a) p s ?safe (a_dns (fst w), snd w) = (v, dns, eng)"
    by (metis prod_cases3)
  obtain q h where q: "quota_check a p (st_plugin s) (''user:'' @ owner) (a_history (fst w)) = (q, h)" by (metis prod.exhaust)
  obtain r1 st1 where l: "launch_step ''Concurrency limit reached'' p owner s ?safe tid ((fst w)\<lparr>a_dns := dns, a_history := h\<rparr>) = (r1, st1)"
    by (metis prod.exhaust)
  show thesis
  proof (cases "st_plugin s = [] \<or> (requires_exploit_policy p (st_context s) \<and> \<not> policy_allows (step_policy a owner s) ''allow_exploit_validation'')")
    case True
    then have "r = Step_Skipped \<and> w' = w" using assms Some by (auto simp: scheduled_step_def split: if_splits)
    then show thesis using none by blast
  next
    case False
    show thesis
    proof (cases "v = Step_Target_Ok \<and> q = Quota_Ok")
      case True
      then have "r = r1" "w' = (st1, eng)" using assms Some False t q l by (auto simp: scheduled_step_def Let_def)
      then show thesis using launch [OF Some, of dns eng h st1] t l True False by simp
    next
      case no: False
      then have "r \<noteq> Step_Started \<and> (w' = ((fst w)\<lparr>a_dns := dns\<rparr>, eng) \<or> w' = ((fst w)\<lparr>a_dns := dns, a_history := h\<rparr>, eng))"
        using assms Some False t q by (cases v; cases q) (auto simp: scheduled_step_def Let_def)
      moreover have "(fst w)\<lparr>a_dns := dns\<rparr> = (fst w)\<lparr>a_dns := dns, a_history := a_history (fst w)\<rparr>" by simp
      ultimately show thesis using stopped [OF _ t] by metis
    qed
  qed
qed

text \<open>The engine never changes its rules while steps run.\<close>

definition rules_of :: "engine \<Rightarrow> admission \<times> engine \<Rightarrow> bool" where
  "rules_of eng w \<longleftrightarrow> reachable_engine (snd w) \<and> denylist (snd w) = denylist eng \<and> allowlist (snd w) = allowlist eng"

definition scheduled_row :: "admit_env \<Rightarrow> engine \<Rightarrow> string \<Rightarrow> step \<Rightarrow> task_row \<Rightarrow> bool" where
  "scheduled_row a eng owner s row \<longleftrightarrow> step_row a owner s row \<and> step_target_ok (ae_launch a) eng s (k_safe row)"

lemma scheduled_launch_row:
  assumes "map_of (le_plugins (ae_launch a)) (st_plugin s) = Some p"
    and "requires_exploit_policy p (st_context s) \<longrightarrow> policy_allows (step_policy a owner s) ''allow_exploit_validation''"
    and "scheduled_target (ae_launch a) p s (effective_safe_mode (ae_safe_default a) (step_policy a owner s)) (a_dns (fst w), snd w)
         = (Step_Target_Ok, dns, eng')"
    and "rules_of eng w"
    and "row = new_task_row p owner (st_plugin s)
           (effective_inputs (effective_safe_mode (ae_safe_default a) (step_policy a owner s)) (st_inputs s))
           (effective_safe_mode (ae_safe_default a) (step_policy a owner s)) (st_preset s) (st_context s) True"
  shows "scheduled_row a eng owner s row" and "scheduled_row a eng owner s (row\<lparr>k_status := FAILED, k_error := er\<rparr>)"
    and "k_status row = QUEUED"
  using new_step_row [OF assms(1,2) refl assms(5)] scheduled_target_ok [OF assms(3) _ assms(1)] assms(4)
    step_target_ok_cong [of "snd w" eng]
  by (auto simp: scheduled_row_def rules_of_def)

interpretation scheduled: step_runner "scheduled_step a owner" fst "rules_of eng" "scheduled_row a eng owner" for a owner eng
proof unfold_locales
  fix w w' :: "admission \<times> engine" and s tid r
  assume "rules_of eng w" and "scheduled_step a owner s tid w = (r, w')"
  from this(2,1) show "rules_of eng w'"
    by (cases rule: scheduled_step_cases) (auto simp: rules_of_def dest: scheduled_target_engine)
next
  fix w w' :: "admission \<times> engine" and s tid
  assume inv: "rules_of eng w" and fresh: "tid \<notin> fst ` set (a_tasks (fst w))"
    and go: "scheduled_step a owner s tid w = (Step_Skipped, w')"
  from go show "a_scheduled (fst w') = a_scheduled (fst w) \<and> a_slots (fst w') = a_slots (fst w)
      \<and> (a_tasks (fst w') = a_tasks (fst w)
         \<or> (\<exists>row. a_tasks (fst w') = a_tasks (fst w) @ [(tid, row)] \<and> k_status row = FAILED \<and> scheduled_row a eng owner s row))"
  proof (cases rule: scheduled_step_cases)
    case (launch p dns e' h st')
    show ?thesis
      using launch_step_skipped [OF launch(4) _ refl] fresh scheduled_launch_row(2) [OF launch(1-3) inv refl] launch(5) by auto
  qed simp_all
next
  fix w w' :: "admission \<times> engine" and s tid
  assume "scheduled_step a owner s tid w = (Step_Raised, w')"
  then show "a_scheduled (fst w') = a_scheduled (fst w) \<and> a_slots (fst w') = a_slots (fst w) \<and> a_tasks (fst w') = a_tasks (fst w)"
    by (cases rule: scheduled_step_cases) (simp_all add: launch_step_not_raised)
next
  fix w w' :: "admission \<times> engine" and s tid
  assume inv: "rules_of eng w" and go: "scheduled_step a owner s tid w = (Step_Started, w')"
  from go show "(\<exists>row. a_tasks (fst w') = a_tasks (fst w) @ [(tid, row)] \<and> k_status row = QUEUED \<and> scheduled_row a eng owner s row)
      \<and> a_scheduled (fst w') = a_scheduled (fst w) @ [tid]
      \<and> held_slots (a_slots (fst w')) = add_mset tid (held_slots (a_slots (fst w)))
      \<and> max_concurrent (a_slots (fst w')) = max_concurrent (a_slots (fst w))
      \<and> int (size (held_slots (a_slots (fst w)))) < max_concurrent (a_slots (fst w))"
  proof (cases rule: scheduled_step_cases)
    case (launch p dns e' h st')
    show ?thesis
      using launch_step_started [OF launch(4) refl] scheduled_launch_row(1,3) [OF launch(1-3) inv refl] launch(5) by auto
  qed simp_all
qed

subsection \<open>Properties\<close>

text \<open>C21: In every reachable state the versions of a workflow are numbered from 1 without a gap, and the
  newest is the definition of the workflow, except that the snapshot of a first manual run may lack its
  time zone.\<close>

theorem versions_follow_definition:
  assumes "flow_reachable e f"
  shows "map v_number (versions_of (f_versions f) wid) = map (\<lambda>i. int i + 1) [0..<length (versions_of (f_versions f) wid)]
     \<and> (\<forall>w. map_of (f_workflows f) wid = Some w \<longrightarrow>
          (case active_version (f_versions f) wid of
             None \<Rightarrow> versions_of (f_versions f) wid = []
           | Some v \<Rightarrow> v_def v = w_def w \<or> v_by v = ''system'' \<and> v_def v = (w_def w)\<lparr>d_timezone := None\<rparr>))"
proof -
  have ok: "numbered (versions_of (f_versions f) wid)"
    "map_of (f_workflows f) wid = Some w \<Longrightarrow> tracks (versions_of (f_versions f) wid) (w_def w)" for w
    using flow_reachable_ok [OF assms] by (simp_all add: versions_ok_def)
  then show ?thesis by (auto simp: active_version_last numbered_def tracks_def)
qed

text \<open>A version is never changed or lost while its workflow lives: whatever happens after it was made,
  a roll-back to it makes exactly its definition the definition of the workflow, and records that as
  the next version.\<close>

theorem rollback_restores_version:
  assumes "flow_reachable e f" and "v \<in> set (f_versions f)" and "v_workflow v = wid"
    and "fresh_run e ps f" and "list_all (keeps wid) ps"
    and "rollback_workflow owner wid (v_number v) (flow_run e ps f) = (Accepted k, f')"
  shows "live_def f' wid = Some (v_def v)
     \<and> map_option v_def (active_version (f_versions f') wid) = Some (v_def v)
     \<and> (\<forall>i. i \<noteq> wid \<longrightarrow> live_def f' i = live_def (flow_run e ps f) i)"
proof -
  let ?g = "flow_run e ps f"
  note ok = flow_reachable_ok [OF assms(1)] flow_reachable_ok [OF flow_run_reachable [OF assms(1,4)]]
  have got: "get_workflow_version (f_versions ?g) wid (v_number v) = Some v"
    using version_kept [OF ok flow_run_extends [OF assms(5)] assms(2,3)] .
  obtain w where w: "map_of (f_workflows ?g) wid = Some w"
    and f': "f' = snapshot_workflow_version wid (v_def v) (''rollback_to_v'' @ int_str (v_number v)) (store_definition wid (v_def v) ?g)"
  proof (cases "verify_workflow_owner wid owner ?g")
    case (Inl r)
    then have "r \<noteq> Accepted k" by (auto simp: verify_workflow_owner_def split: option.splits if_splits)
    then show thesis using assms(6) Inl by (simp add: rollback_workflow_def)
  next
    case (Inr w)
    then show thesis using that [of w] owner_live [OF Inr] assms(6) got
      by (auto simp: rollback_workflow_def split: if_splits)
  qed
  have "versions_ok f'" unfolding f' using store_then_snapshot_ok [OF ok(2)] w by simp
  then have "numbered (versions_of (f_versions f') wid)" by (simp add: versions_ok_def)
  then have "map_option v_def (active_version (f_versions f') wid) = Some (v_def v)"
    by (simp add: active_version_last f' snapshot_workflow_version_def)
  moreover have "live_def f' i = (if i = wid then Some (v_def v) else live_def ?g i)" for i
    using w by (cases "map_of (f_workflows ?g) i") (auto simp: f' live_def_def store_definition_def map_of_map_snd)
  ultimately show ?thesis by simp
qed

text \<open>The tasks of a run, and those of them that wait for their execution.\<close>

definition queued_ids :: "(string \<times> task_row) list \<Rightarrow> string list" where
  "queued_ids new = map fst (filter (\<lambda>(t, row). k_status row = QUEUED) new)"

definition run_added ::
  "(step \<Rightarrow> task_row \<Rightarrow> bool) \<Rightarrow> step list \<Rightarrow> admission \<Rightarrow> admission \<Rightarrow> (string \<times> task_row) list \<Rightarrow> bool" where
  "run_added good steps st st' new \<longleftrightarrow> a_tasks st' = a_tasks st @ new
     \<and> (\<forall>(t, row) \<in> set new. k_status row \<in> {QUEUED, FAILED} \<and> (\<exists>s \<in> set steps. good s row))
     \<and> a_scheduled st' = a_scheduled st @ queued_ids new
     \<and> held_slots (a_slots st') = held_slots (a_slots st) + mset (queued_ids new)
     \<and> (int (size (held_slots (a_slots st))) \<le> max_concurrent (a_slots st)
        \<longrightarrow> int (size (held_slots (a_slots st'))) \<le> max_concurrent (a_slots st))"

lemma manual_run_added:
  assumes "inj ids" and "\<forall>k. ids k \<notin> fst ` set (a_tasks (fst w))" and "run_steps (manual_step a owner) ids 0 steps w = (r, w')"
  shows "\<exists>new. run_added (step_row a owner) steps (fst w) (fst w') new \<and> (case r of None \<Rightarrow> True | Some tids \<Rightarrow> tids = queued_ids new)"
proof -
  obtain new begun where "manual.outcome a owner steps w w' new begun" "case r of None \<Rightarrow> True | Some tids \<Rightarrow> tids = begun"
    using manual.run [OF TrueI assms(1) _ assms(3)] assms(2) by auto
  then show ?thesis unfolding manual.outcome_def run_added_def queued_ids_def by blast
qed

lemma scheduled_run_added:
  assumes "reachable_engine (snd w)" and "inj ids" and "\<forall>k. ids k \<notin> fst ` set (a_tasks (fst w))"
    and "run_steps (scheduled_step a owner) ids 0 steps w = (r, w')"
  shows "\<exists>new. run_added (scheduled_row a (snd w) owner) steps (fst w) (fst w') new \<and> (case r of None \<Rightarrow> True | Some tids \<Rightarrow> tids = queued_ids new)"
proof -
  have "rules_of (snd w) w" using assms(1) by (simp add: rules_of_def)
  then obtain new begun where "scheduled.outcome a (snd w) owner steps w w' new begun" "case r of None \<Rightarrow> True | Some tids \<Rightarrow> tids = begun"
    using scheduled.run [of "snd w" w, OF _ assms(2) _ assms(4)] assms(3) by auto
  then show ?thesis unfolding scheduled.outcome_def run_added_def queued_ids_def by blast
qed

lemma version_steps:
  assumes "versions_ok f" and "map_of (f_workflows f) wid = Some w" and "active_version (f_versions f) wid = Some v"
  shows "get_workflow_version (f_versions f) wid (v_number v) = Some v \<and> d_steps (v_def v) = d_steps (w_def w)"
proof -
  have ok: "numbered (versions_of (f_versions f) wid)" "tracks (versions_of (f_versions f) wid) (w_def w)"
    using assms(1,2) by (simp_all add: versions_ok_def)
  then have "versions_of (f_versions f) wid \<noteq> []" "v = last (versions_of (f_versions f) wid)"
    using assms(3) by (simp_all add: active_version_last split: if_splits)
  then have "v \<in> set (f_versions f)" "v_workflow v = wid"
    using last_in_set [of "versions_of (f_versions f) wid"] by (simp_all add: versions_of_def)
  then have "get_workflow_version (f_versions f) wid (v_number v) = Some v"
    using version_kept [OF assms(1) assms(1)] by simp
  moreover have "d_steps (v_def v) = d_steps (w_def w)"
    using ok(2) \<open>v = last _\<close> \<open>versions_of _ _ \<noteq> []\<close> by (auto simp: tracks_def)
  ultimately show ?thesis by simp
qed

lemma with_version_active:
  assumes "versions_ok f" and "map_of (f_workflows f) wid = Some w" and "d = w_def w \<or> d = (w_def w)\<lparr>d_timezone := None\<rparr>"
  obtains v where "active_version (f_versions (with_version wid d f)) wid = Some v"
    "get_workflow_version (f_versions (with_version wid d f)) wid (v_number v) = Some v" "d_steps (v_def v) = d_steps (w_def w)"
proof -
  have ok: "versions_ok (with_version wid d f)" using with_version_ok [OF assms] .
  have "active_version (f_versions (with_version wid d f)) wid \<noteq> None"
  proof (cases "active_version (f_versions f) wid")
    case None
    then have "numbered (versions_of (f_versions (snapshot_workflow_version wid d ''system'' f)) wid)"
      using ok by (simp add: with_version_def versions_ok_def)
    then show ?thesis using None by (simp add: with_version_def active_version_last snapshot_workflow_version_def)
  qed (simp add: with_version_def)
  then obtain v where v: "active_version (f_versions (with_version wid d f)) wid = Some v" by blast
  have "map_of (f_workflows (with_version wid d f)) wid = Some w" using assms(2) by (simp add: with_version_def)
  then show thesis using that [OF v] version_steps [OF ok _ v] by blast
qed


text \<open>A manual run is made only by the owner of the workflow and adds tasks only for its steps, with a
  policy for offensive validation and safe mode as in a scheduled run (targets and quota are left to the
  execution); the recorded run has exactly the tasks that are scheduled, under a version whose steps are
  the ones executed. A refused one adds no task.\<close>

theorem manual_run_sound:
  assumes "flow_reachable e f" and "inj (tk_ids t wid)" and "\<forall>k. tk_ids t wid k \<notin> fst ` set (a_tasks (fst (f_work f)))"
    and "run_workflow_once e t owner wid f = (r, f')"
  shows "case r of
      Accepted rid \<Rightarrow>
        \<exists>w new v. map_of (f_workflows f) wid = Some w \<and> w_owner w = owner
          \<and> run_added (step_row (fe_admit e) owner) (d_steps (w_def w)) (fst (f_work f)) (fst (f_work f')) new
          \<and> f_runs f' = f_runs f @ [(rid, \<lparr>n_workflow = wid, n_version = v_number v, n_trigger = ''manual'',
               n_tasks = queued_ids new, n_status = Run_Queued, n_error = None\<rparr>)]
          \<and> get_workflow_version (f_versions f') wid (v_number v) = Some v \<and> d_steps (v_def v) = d_steps (w_def w)
    | Refused_With code msg \<Rightarrow> f_work f' = f_work f \<and> f_runs f' = f_runs f
    | Server_Error \<Rightarrow> f_runs f' = f_runs f"
proof (cases "verify_workflow_owner wid owner f")
  case (Inl q)
  then have "r = q" "f' = f" using assms(4) by (simp_all add: run_workflow_once_def)
  then show ?thesis using Inl by (auto simp: verify_workflow_owner_def split: option.splits if_splits)
next
  case (Inr w)
  note w = owner_live [OF Inr]
  obtain ok msg m where rate: "check_workflow_rate_limit (tk_spacing t wid) wid (fe_min_interval e) (f_spacing f) = ((ok, msg), m)"
    by (metis prod.exhaust)
  show ?thesis
  proof (cases ok)
    case False
    then show ?thesis using assms(4) Inr rate by (auto simp: run_workflow_once_def)
  next
    case True
    let ?d = "(w_def w)\<lparr>d_timezone := None\<rparr>" and ?f = "f\<lparr>f_spacing := m\<rparr>"
    let ?g = "with_version wid ?d ?f"
    have "versions_ok ?f" using flow_reachable_ok [OF assms(1)] by simp
    then obtain v where v: "active_version (f_versions ?g) wid = Some v"
      "get_workflow_version (f_versions ?g) wid (v_number v) = Some v" "d_steps (v_def v) = d_steps (w_def w)"
      using with_version_active [of ?f wid w ?d] w by auto
    have g: "f_work ?g = f_work f" "f_runs ?g = f_runs f"
      by (simp_all add: with_version_def snapshot_workflow_version_def)
    obtain q wk where run: "run_steps (manual_step (fe_admit e) owner) (tk_ids t wid) 0 (d_steps (w_def w)) (f_work f) = (q, wk)"
      by (metis prod.exhaust)
    obtain new where new: "run_added (step_row (fe_admit e) owner) (d_steps (w_def w)) (fst (f_work f)) (fst wk) new"
        "case q of None \<Rightarrow> True | Some tids \<Rightarrow> tids = queued_ids new"
      using manual_run_added [OF assms(2,3) run] by blast
    have "(r, f') = (case q of None \<Rightarrow> (Server_Error, ?g\<lparr>f_work := wk\<rparr>)
        | Some tids \<Rightarrow> (Accepted (tk_run t wid), record_workflow_run (tk_run t wid) wid (v_number v) tids ''manual''
              (set_last_run wid (tk_done t wid) (?g\<lparr>f_work := wk\<rparr>))))"
      using assms(4) run_once_eq [OF Inr _ refl] rate True v(1) run g(1) by (simp split: option.splits)
    then show ?thesis
      using new v(2,3) g(2) w by (cases q) (auto simp: record_workflow_run_def set_last_run_def)
  qed
qed

subsection \<open>The end of a run\<close>

text \<open>The statuses of the tasks of a run that still exist.\<close>

definition tasks_left :: "(string \<Rightarrow> task_status option) \<Rightarrow> string list \<Rightarrow> task_status set" where
  "tasks_left status tids = set (List.map_filter status tids)"

lemma check_run_cases:
  assumes "c = check_workflow_run_tasks status tids" and "L = tasks_left status tids"
  shows "c = None \<longleftrightarrow> tids \<noteq> [] \<and> (L = {} \<or> L \<inter> {QUEUED, RUNNING} \<noteq> {})"
    and "c = Some Run_Completed \<longleftrightarrow> tids = [] \<or> L = {COMPLETED}"
    and "c = Some Run_Cancelled \<longleftrightarrow> tids \<noteq> [] \<and> L \<inter> {QUEUED, RUNNING} = {} \<and> CANCELLED \<in> L"
    and "c = Some Run_Failed \<longleftrightarrow> tids \<noteq> [] \<and> L \<inter> {QUEUED, RUNNING, CANCELLED} = {} \<and> FAILED \<in> L"
    and "c \<noteq> Some Run_Queued"
proof -
  have nil: "tids = [] \<Longrightarrow> L = {}" by (simp add: assms(2) tasks_left_def)
  have mem: "\<exists>s. s \<in> L" if "L \<noteq> {}" using that by blast
  have vals: "s \<in> {QUEUED, RUNNING, COMPLETED, FAILED, CANCELLED}" for s :: task_status by (cases s) simp_all
  have c: "c = (if tids = [] then Some Run_Completed else if L = {} then None
      else if \<exists>s \<in> L. s \<in> {QUEUED, RUNNING} then None else if \<forall>s \<in> L. s = COMPLETED then Some Run_Completed
      else if CANCELLED \<in> L then Some Run_Cancelled else Some Run_Failed)"
    by (simp add: assms check_workflow_run_tasks_def tasks_left_def Let_def)
  show "c = None \<longleftrightarrow> tids \<noteq> [] \<and> (L = {} \<or> L \<inter> {QUEUED, RUNNING} \<noteq> {})" by (auto simp: c)
  show "c = Some Run_Completed \<longleftrightarrow> tids = [] \<or> L = {COMPLETED}" by (auto simp: c)
  show "c = Some Run_Cancelled \<longleftrightarrow> tids \<noteq> [] \<and> L \<inter> {QUEUED, RUNNING} = {} \<and> CANCELLED \<in> L" by (auto simp: c)
  show "c = Some Run_Failed \<longleftrightarrow> tids \<noteq> [] \<and> L \<inter> {QUEUED, RUNNING, CANCELLED} = {} \<and> FAILED \<in> L"
    using vals mem by (auto simp: c)
  show "c \<noteq> Some Run_Queued" by (simp add: c)
qed

definition sees :: "poll \<Rightarrow> string list \<Rightarrow> (task_status set \<Rightarrow> bool) \<Rightarrow> bool" where
  "sees p tids P \<longleftrightarrow> (case p of Poll_Raises \<Rightarrow> False | Poll_Sees status \<Rightarrow> P (tasks_left status tids))"

definition verdict_seen :: "string list \<Rightarrow> run_status \<Rightarrow> poll \<Rightarrow> bool" where
  "verdict_seen tids s p \<longleftrightarrow>
     (case s of
        Run_Completed \<Rightarrow> sees p tids (\<lambda>L. L = {COMPLETED})
      | Run_Cancelled \<Rightarrow> sees p tids (\<lambda>L. L \<inter> {QUEUED, RUNNING} = {} \<and> CANCELLED \<in> L)
      | Run_Failed \<Rightarrow> sees p tids (\<lambda>L. L \<inter> {QUEUED, RUNNING, CANCELLED} = {} \<and> FAILED \<in> L)
      | Run_Queued \<Rightarrow> False)"

definition unfinished_seen :: "string list \<Rightarrow> poll \<Rightarrow> bool" where
  "unfinished_seen tids p \<longleftrightarrow> sees p tids (\<lambda>L. L = {} \<or> L \<inter> {QUEUED, RUNNING} \<noteq> {})"

lemma finalize_polls_cases:
  assumes "Poll_Raises \<notin> set ps" and "tids \<noteq> []"
  shows "(\<exists>s. finalize_polls ps tids = Some (s, None) \<and> (\<exists>p \<in> set ps. verdict_seen tids s p))
    \<or> (\<exists>msg. finalize_polls ps tids = Some (Run_Failed, Some msg) \<and> (\<forall>p \<in> set ps. unfinished_seen tids p))"
  using assms(1)
proof (induction ps)
  case (Cons p ps)
  then obtain status where p: "p = Poll_Sees status" by (cases p) auto
  note chk = check_run_cases [OF refl refl, of status tids]
  show ?case
  proof (cases "check_workflow_run_tasks status tids")
    case (Some s)
    then have "finalize_polls (p # ps) tids = Some (s, None)" by (simp add: p)
    moreover have "verdict_seen tids s p"
      using Some chk(2-5) assms(2) by (cases s) (simp_all add: p sees_def verdict_seen_def)
    ultimately show ?thesis by auto
  next
    case None
    then have "finalize_polls (p # ps) tids = finalize_polls ps tids" "unfinished_seen tids p"
      using chk(1) by (simp_all add: p sees_def unfinished_seen_def)
    then show ?thesis using Cons by auto
  qed
qed simp

lemma finalize_no_tasks: "Poll_Raises \<notin> set ps \<Longrightarrow> ps \<noteq> [] \<Longrightarrow> finalize_polls ps [] = Some (Run_Completed, None)"
proof (cases ps)
  case (Cons p qs)
  moreover assume "Poll_Raises \<notin> set ps"
  ultimately show ?thesis by (cases p) (simp_all add: check_workflow_run_tasks_def)
qed simp

text \<open>C22: When no poll raises, a run ends: after at most 720 polls it is completed, failed or cancelled. It
  is completed only if it had no task or some poll found every task that was left completed (and one
  left); cancelled only if a poll found none in progress and one cancelled; failed without a message only
  if a poll found none in progress or cancelled and one failed; and failed with the time-out message only
  if at every poll a task was in progress or none was left. Other runs are not touched.\<close>

theorem finished_run_tells_its_tasks:
  assumes "map_of (f_runs f) rid = Some r" and "\<forall>k < 720. polls k \<noteq> Poll_Raises"
    and "f' = finalize_workflow_run rid polls f"
  shows "\<exists>r'. map_of (f_runs f') rid = Some r' \<and> n_tasks r' = n_tasks r \<and> n_status r' \<noteq> Run_Queued
     \<and> (case n_error r' of
          None \<Rightarrow> (n_tasks r = [] \<and> n_status r' = Run_Completed) \<or> (\<exists>k < 720. verdict_seen (n_tasks r) (n_status r') (polls k))
        | Some msg \<Rightarrow> n_status r' = Run_Failed \<and> (\<forall>k < 720. unfinished_seen (n_tasks r) (polls k)))
     \<and> (\<forall>i. i \<noteq> rid \<longrightarrow> map_of (f_runs f') i = map_of (f_runs f) i)"
proof -
  obtain ps where ps: "ps = map polls [0..<720]" by blast
  have "length ps = 720" and set_ps: "set ps = polls ` {k. k < 720}"
    unfolding ps set_map set_upt by (simp only: length_map length_upt diff_zero, simp only: atLeastLessThan_def lessThan_def atLeast_def, simp)
  then have nonempty: "ps \<noteq> []" by auto
  have nr: "Poll_Raises \<notin> set ps" using assms(2) unfolding set_ps by (metis (mono_tags) imageE mem_Collect_eq)
  have others: "map_of (f_runs f') i = (if i = rid then Some (case finalize_polls ps (n_tasks r) of
      None \<Rightarrow> r | Some (s, err) \<Rightarrow> r\<lparr>n_status := s, n_error := err\<rparr>) else map_of (f_runs f) i)" for i
    using assms(1) unfolding assms(3) finalize_workflow_run_def ps [symmetric]
    by (cases "map_of (f_runs f) i"; cases "i = rid") (simp_all add: map_of_map_snd)
  show ?thesis
  proof (cases "n_tasks r = []")
    case True
    then have "finalize_polls ps (n_tasks r) = Some (Run_Completed, None)"
      using finalize_no_tasks [OF nr nonempty] by simp
    then show ?thesis using others True by simp
  next
    case False
    have wf: "verdict_seen (n_tasks r) s p \<Longrightarrow> s \<noteq> Run_Queued" for s p by (auto simp: verdict_seen_def)
    from finalize_polls_cases [OF nr False] consider
        s where "finalize_polls ps (n_tasks r) = Some (s, None)" "\<exists>k < 720. verdict_seen (n_tasks r) s (polls k)"
      | msg where "finalize_polls ps (n_tasks r) = Some (Run_Failed, Some msg)" "\<forall>k < 720. unfinished_seen (n_tasks r) (polls k)"
      unfolding set_ps by auto
    then show ?thesis
    proof cases
      case (1 s)
      then show ?thesis using others wf by auto
    next
      case (2 msg)
      then show ?thesis using others by simp
    qed
  qed
qed

text \<open>An exception in a step ends the tick: later workflows do not run, and since \<open>last_run_at\<close> of this one
  is not set, the next tick begins with it again.\<close>

lemma exception_ends_tick:
  assumes "due t w" and "check_workflow_rate_limit (tk_spacing t wid) wid (fe_min_interval e) (f_spacing f) = ((True, msg), m)"
    and "run_scheduled e t wid w (f\<lparr>f_spacing := m\<rparr>) = (False, f')"
  shows "tick_rows e t ((wid, w) # ws) f = (False, f')"
  using assms by simp

text \<open>A PATCH may set any schedule, also one that \<open>create_workflow\<close> refuses.\<close>

lemma patched_short_schedule:
  "new_schedule (JInt 1) = Schedule_Invalid"
  "patched_schedule [(''schedule_seconds'', JInt 1)] d = Inr (d\<lparr>d_schedule := Some 1\<rparr>)"
  by (simp_all add: new_schedule_def patched_schedule_def py_int_of_def)

text \<open>A run with a failed and a cancelled task is reported as cancelled.\<close>

lemma failed_run_reported_cancelled:
  "check_workflow_run_tasks (\<lambda>t. if t = ''a'' then Some FAILED else Some CANCELLED) [''a'', ''b''] = Some Run_Cancelled"
  by (simp add: check_workflow_run_tasks_def map_filter_def)

subsection \<open>Witnesses\<close>

definition example_flow_env :: flow_env where
  "example_flow_env = \<lparr>fe_admit = example_admission\<lparr>ae_safe_default := False\<rparr>, fe_min_interval = 0,
     fe_loads = (\<lambda>s. None), fe_zone = (\<lambda>z. True)\<rparr>"

definition example_payload :: dict where
  "example_payload = [(''name'', JStr ''nightly''), (''schedule_seconds'', JInt 3600),
     (''steps'', JList [JObj [(''plugin_id'', JStr ''nmap''), (''inputs'', JObj [(''target'', JStr ''93.184.216.34'')])]])]"

definition example_tick :: tick_env where
  "example_tick = \<lparr>tk_now = 0, tk_spacing = (\<lambda>i. 0), tk_done = (\<lambda>i. 0), tk_ids = (\<lambda>i n. replicate n (CHR ''t'')),
     tk_run = (\<lambda>i. ''r1'')\<rparr>"

definition example_flow :: flow where
  "example_flow = flow_run example_flow_env [Create_Flow example_payload ''default'' ''w1''] (empty_flow (empty_admission 1, example_engine))"

definition example_workflow :: workflow where
  "example_workflow = \<lparr>w_owner = ''default'', w_def = \<lparr>d_name = ''nightly'', d_schedule = Some 3600, d_timezone = None,
     d_enabled = True, d_steps = [\<lparr>st_plugin = ''nmap'', st_inputs = [(''target'', JStr ''93.184.216.34'')], st_preset = None,
       st_context = default_context\<rparr>]\<rparr>, w_last_run = None\<rparr>"

lemma example_flow_reachable: "flow_reachable example_flow_env example_flow"
  unfolding example_flow_def
  by (rule flow_run_reachable [OF flow_start]) (simp add: fresh_op_def empty_flow_def akeys_def)

lemma example_created: "map_of (f_workflows (snd (create_workflow example_flow_env example_payload ''default'' ''w1'' (empty_flow wk)))) ''w1'' = Some example_workflow"
  by code_simp

lemma create_frame:
  "f_work (snd (create_workflow e payload owner wid f)) = f_work f" "f_versions (snd (create_workflow e payload owner wid f)) = f_versions f"
  "f_runs (snd (create_workflow e payload owner wid f)) = f_runs f"
  by (auto simp: create_workflow_def Let_def split: sum.splits schedule_input.splits)

lemma example_flow_facts:
  "map_of (f_workflows example_flow) ''w1'' = Some example_workflow" "f_work example_flow = (empty_admission 1, example_engine)"
  "f_runs example_flow = []" "f_versions example_flow = []"
  by (simp_all add: example_flow_def example_created create_frame) (simp_all add: empty_flow_def)

lemma example_ids: "inj (tk_ids example_tick ''w1'')" "\<forall>k. tk_ids example_tick ''w1'' k \<notin> fst ` set (a_tasks (fst (f_work example_flow)))"
  by (auto simp: example_tick_def inj_def example_flow_facts empty_admission_def)

lemma example_run_returns: "fst (run_scheduled example_flow_env example_tick ''w1'' example_workflow example_flow)"
  by code_simp


lemma example_manual:
  "fst (run_workflow_once example_flow_env example_tick ''default'' ''w1'' (snd (create_workflow example_flow_env example_payload ''default'' ''w1''
     (empty_flow (empty_admission 1, eng))))) = Accepted ''r1''"
  "f_versions (snd (run_workflow_once example_flow_env example_tick ''default'' ''w1'' (snd (create_workflow example_flow_env example_payload ''default'' ''w1''
     (empty_flow (empty_admission 1, eng)))))) = [\<lparr>v_workflow = ''w1'', v_number = 1, v_def = w_def example_workflow, v_by = ''system''\<rparr>]"
  "fst (rollback_workflow ''default'' ''w1'' 1 (flow_run example_flow_env [Update_Flow [(''enabled'', JBool False)] ''default'' ''w1'']
     (snd (run_workflow_once example_flow_env example_tick ''default'' ''w1'' (snd (create_workflow example_flow_env example_payload ''default'' ''w1''
        (empty_flow (empty_admission 1, eng)))))))) = Accepted ''w1''"
  by code_simp+

lemma example_manual_flow:
  "fst (run_workflow_once example_flow_env example_tick ''default'' ''w1'' example_flow) = Accepted ''r1''"
  "f_versions (flow_step example_flow_env (Run_Flow example_tick ''default'' ''w1'') example_flow)
     = [\<lparr>v_workflow = ''w1'', v_number = 1, v_def = w_def example_workflow, v_by = ''system''\<rparr>]"
  by (simp_all add: example_flow_def example_manual)

theorem manual_run_sound_witness:
  "\<exists>new (v :: version). f_runs (snd (run_workflow_once example_flow_env example_tick ''default'' ''w1'' example_flow))
      = [(''r1'', \<lparr>n_workflow = ''w1'', n_version = v_number v, n_trigger = ''manual'', n_tasks = queued_ids new,
           n_status = Run_Queued, n_error = None\<rparr>)]"
proof -
  have "run_workflow_once example_flow_env example_tick ''default'' ''w1'' example_flow
      = (Accepted ''r1'', snd (run_workflow_once example_flow_env example_tick ''default'' ''w1'' example_flow))"
    using example_manual_flow(1) by (metis prod.collapse)
  from manual_run_sound [OF example_flow_reachable example_ids this, unfolded reply.case]
  show ?thesis unfolding example_flow_facts append_Nil by blast
qed

definition example_history :: flow where
  "example_history = flow_step example_flow_env (Run_Flow example_tick ''default'' ''w1'') example_flow"

lemma example_history_reachable: "flow_reachable example_flow_env example_history"
  unfolding example_history_def by (rule flow_next [OF example_flow_reachable]) (simp add: fresh_op_def)

theorem versions_follow_definition_witness:
  "map v_number (versions_of (f_versions example_history) ''w1'') = [1]"
  using versions_follow_definition [OF example_history_reachable, of "''w1''"] example_manual_flow(2)
  by (simp add: example_history_def versions_of_def)

definition example_later :: flow where
  "example_later = flow_run example_flow_env [Update_Flow [(''enabled'', JBool False)] ''default'' ''w1''] example_history"

lemma example_rollback: "fst (rollback_workflow ''default'' ''w1'' 1 example_later) = Accepted ''w1''"
  using example_manual(3) by (simp add: example_later_def example_history_def example_flow_def)

theorem rollback_restores_version_witness:
  "live_def (snd (rollback_workflow ''default'' ''w1'' 1 example_later)) ''w1'' = Some (w_def example_workflow)"
proof -
  let ?v = "\<lparr>v_workflow = ''w1'', v_number = 1, v_def = w_def example_workflow, v_by = ''system''\<rparr>"
  have v: "?v \<in> set (f_versions example_history)" "v_workflow ?v = ''w1''"
    using example_manual_flow(2) by (simp_all add: example_history_def)
  have run: "rollback_workflow ''default'' ''w1'' (v_number ?v) (flow_run example_flow_env
        [Update_Flow [(''enabled'', JBool False)] ''default'' ''w1''] example_history)
      = (Accepted ''w1'', snd (rollback_workflow ''default'' ''w1'' 1 example_later))"
    using example_rollback by (simp add: example_later_def) (metis prod.collapse)
  show ?thesis
    using rollback_restores_version [OF example_history_reachable v _ _ run] by (simp add: fresh_op_def keeps_def)
qed

theorem finished_run_tells_its_tasks_witness:
  "\<forall>wk. \<exists>r'. map_of (f_runs (finalize_workflow_run ''r1'' (\<lambda>k. Poll_Sees (\<lambda>t. Some COMPLETED))
       ((empty_flow wk)\<lparr>f_runs := [(''r1'', \<lparr>n_workflow = ''w1'', n_version = 1, n_trigger = ''manual'', n_tasks = [''t''],
          n_status = Run_Queued, n_error = None\<rparr>)]\<rparr>))) ''r1'' = Some r' \<and> n_status r' \<noteq> Run_Queued"
proof
  fix wk
  show "\<exists>r'. map_of (f_runs (finalize_workflow_run ''r1'' (\<lambda>k. Poll_Sees (\<lambda>t. Some COMPLETED))
       ((empty_flow wk)\<lparr>f_runs := [(''r1'', \<lparr>n_workflow = ''w1'', n_version = 1, n_trigger = ''manual'', n_tasks = [''t''],
          n_status = Run_Queued, n_error = None\<rparr>)]\<rparr>))) ''r1'' = Some r' \<and> n_status r' \<noteq> Run_Queued"
    using finished_run_tells_its_tasks [OF _ _ refl, where rid = "''r1''" and polls = "\<lambda>k. Poll_Sees (\<lambda>t. Some COMPLETED)"
        and f = "(empty_flow wk)\<lparr>f_runs := [(''r1'', \<lparr>n_workflow = ''w1'', n_version = 1, n_trigger = ''manual'', n_tasks = [''t''],
            n_status = Run_Queued, n_error = None\<rparr>)]\<rparr>"]
    by auto
qed

end
