(* ===== verification/Json_Text.thy ===== *)
theory Json_Text
  imports Json_Value
begin

text \<open>
  The JSON texts the backend exchanges with its parser processes, its session cookies and its database:
  \<open>json.dumps\<close> with \<open>ensure_ascii\<close> (the separators and the \<open>repr\<close> of floats are arguments) and
  \<open>json.loads\<close> (\<open>fl\<close> rounds a decimal to the nearest float). A character is a code point below 256.
  \<open>None\<close> of \<open>loads\<close> is the decoding error; it also stands for what the texts of the model cannot
  hold (an escape above 255, \<open>NaN\<close>, \<open>Infinity\<close>) and for the \<open>ValueError\<close> of an integer of more
  than 4300 digits. The nesting limit of the interpreter is not modelled. The round trip is
  \<open>loads_dumps\<close>.
\<close>

subsection \<open>Writing\<close>

definition hex_nat :: "nat \<Rightarrow> char" where
  "hex_nat n = (if n < 10 then char_of (48 + n) else char_of (87 + n))"

definition esc_char :: "char \<Rightarrow> string" where
  "esc_char c =
     (let n = char_nat c in
      if n = 34 then [CHR 0x5C, CHR 0x22] else if n = 92 then [CHR 0x5C, CHR 0x5C]
      else if n = 10 then [CHR 0x5C, CHR ''n''] else if n = 13 then [CHR 0x5C, CHR ''r'']
      else if n = 9 then [CHR 0x5C, CHR ''t''] else if n = 12 then [CHR 0x5C, CHR ''f'']
      else if n = 8 then [CHR 0x5C, CHR ''b'']
      else if 32 \<le> n \<and> n \<le> 126 then [c]
      else [CHR 0x5C, CHR ''u'', CHR ''0'', CHR ''0'', hex_nat (n div 16), hex_nat (n mod 16)])"

definition dumps_str :: "string \<Rightarrow> string" where
  "dumps_str s = CHR 0x22 # concat (map esc_char s) @ [CHR 0x22]"

record separators =
  item_sep :: string
  key_sep :: string

definition default_seps :: separators where
  "default_seps = \<lparr>item_sep = '', '', key_sep = '': ''\<rparr>"

definition compact_seps :: separators where
  "compact_seps = \<lparr>item_sep = '','', key_sep = '':''\<rparr>"

fun dumps :: "(rat \<Rightarrow> string) \<Rightarrow> separators \<Rightarrow> json \<Rightarrow> string" where
  "dumps repr sp JNull = ''null''"
| "dumps repr sp (JBool b) = (if b then ''true'' else ''false'')"
| "dumps repr sp (JInt i) = int_str i"
| "dumps repr sp (JFloat r) = repr r"
| "dumps repr sp (JStr s) = dumps_str s"
| "dumps repr sp (JList vs) = CHR ''['' # join_with (item_sep sp) (map (dumps repr sp) vs) @ '']''"
| "dumps repr sp (JObj kvs) =
     CHR 0x7B # join_with (item_sep sp) (map (\<lambda>kv. dumps_str (fst kv) @ key_sep sp @ dumps repr sp (snd kv)) kvs)
     @ [CHR 0x7D]"

subsection \<open>Reading\<close>

definition json_ws :: "char \<Rightarrow> bool" where
  "json_ws c = (let n = char_nat c in n = 32 \<or> n = 9 \<or> n = 10 \<or> n = 13)"

abbreviation skip_ws :: "string \<Rightarrow> string" where
  "skip_ws \<equiv> dropWhile json_ws"

definition hex_digit_val :: "char \<Rightarrow> nat option" where
  "hex_digit_val c =
     (let n = char_nat c in
      if 48 \<le> n \<and> n \<le> 57 then Some (n - 48) else if 97 \<le> n \<and> n \<le> 102 then Some (n - 87)
      else if 65 \<le> n \<and> n \<le> 70 then Some (n - 55) else None)"

definition plain_escape :: "char \<Rightarrow> char option" where
  "plain_escape c =
     (let n = char_nat c in
      if n = 34 \<or> n = 92 \<or> n = 47 then Some c
      else if n = 98 then Some (char_of (8 :: nat)) else if n = 102 then Some (char_of (12 :: nat))
      else if n = 110 then Some (char_of (10 :: nat)) else if n = 114 then Some (char_of (13 :: nat))
      else if n = 116 then Some (char_of (9 :: nat)) else None)"

text \<open>The body of a string, after its opening quote.\<close>

fun p_string :: "string \<Rightarrow> (string \<times> string) option" where
  "p_string [] = None"
| "p_string (c # cs) =
     (if char_nat c = 34 then Some ([], cs)
      else if char_nat c < 32 then None
      else if char_nat c \<noteq> 92 then map_option (\<lambda>(t, r). (c # t, r)) (p_string cs)
      else (case cs of
          [] \<Rightarrow> None
        | e # es \<Rightarrow>
            if char_nat e \<noteq> 117 then
              (case plain_escape e of None \<Rightarrow> None | Some d \<Rightarrow> map_option (\<lambda>(t, r). (d # t, r)) (p_string es))
            else (case es of
                a # b # h # l # rest \<Rightarrow>
                  (case (hex_digit_val a, hex_digit_val b, hex_digit_val h, hex_digit_val l) of
                     (Some 0, Some 0, Some x, Some y) \<Rightarrow>
                       map_option (\<lambda>(t, r). (char_of (16 * x + y) # t, r)) (p_string rest)
                   | _ \<Rightarrow> None)
              | _ \<Rightarrow> None)))"

text \<open>\<open>-?(0|[1-9]\d*)(\.\d+)?([eE][-+]?\d+)?\<close>, each part taken only when it is complete.\<close>

definition p_int_part :: "string \<Rightarrow> (nat \<times> string) option" where
  "p_int_part s =
     (case s of
        [] \<Rightarrow> None
      | c # cs \<Rightarrow>
          if c = CHR ''0'' then Some (0, cs)
          else if is_digit c then
            if length (takeWhile is_digit s) \<le> 4300 then Some (digits_val (takeWhile is_digit s), dropWhile is_digit s)
            else None
          else None)"

definition p_frac :: "string \<Rightarrow> string \<times> string" where
  "p_frac s =
     (case s of
        c # d # ds \<Rightarrow> if c = CHR ''.'' \<and> is_digit d then (takeWhile is_digit (d # ds), dropWhile is_digit (d # ds)) else ([], s)
      | _ \<Rightarrow> ([], s))"

definition p_exp :: "string \<Rightarrow> int option \<times> string" where
  "p_exp s =
     (case s of
        e # rest \<Rightarrow>
          if e = CHR ''e'' \<or> e = CHR ''E'' then
            let neg = (rest \<noteq> [] \<and> hd rest = CHR ''-'');
                ds = (if rest \<noteq> [] \<and> (hd rest = CHR ''-'' \<or> hd rest = CHR ''+'') then tl rest else rest)
            in if ds \<noteq> [] \<and> is_digit (hd ds)
               then (Some ((if neg then -1 else 1) * int (digits_val (takeWhile is_digit ds))), dropWhile is_digit ds)
               else (None, s)
          else (None, s)
      | [] \<Rightarrow> (None, s))"

definition pow10 :: "int \<Rightarrow> rat" where
  "pow10 e = (if 0 \<le> e then 10 ^ nat e else 1 / 10 ^ nat (- e))"

definition p_number :: "(rat \<Rightarrow> rat) \<Rightarrow> string \<Rightarrow> (json \<times> string) option" where
  "p_number fl s =
     (let neg = (s \<noteq> [] \<and> hd s = CHR ''-'') in
      case p_int_part (if neg then tl s else s) of
        None \<Rightarrow> None
      | Some (n, r) \<Rightarrow>
          let (frac, r') = p_frac r; (ex, r'') = p_exp r' in
          if frac = [] \<and> ex = None then Some (JInt (if neg then - int n else int n), r'')
          else
            let m = (of_nat n + of_nat (digits_val frac) / 10 ^ length frac) * pow10 (case ex of None \<Rightarrow> 0 | Some e \<Rightarrow> e)
            in Some (JFloat (fl (if neg then - m else m)), r''))"

text \<open>A later pair of a key replaces an earlier one, in the place of the first.\<close>

definition dict_of_pairs :: "(string \<times> json) list \<Rightarrow> dict" where
  "dict_of_pairs kvs = foldl (\<lambda>d kv. aput (fst kv) (snd kv) d) [] kvs"

fun p_value :: "(rat \<Rightarrow> rat) \<Rightarrow> nat \<Rightarrow> string \<Rightarrow> (json \<times> string) option"
  and p_items :: "(rat \<Rightarrow> rat) \<Rightarrow> nat \<Rightarrow> string \<Rightarrow> (json list \<times> string) option"
  and p_pairs :: "(rat \<Rightarrow> rat) \<Rightarrow> nat \<Rightarrow> string \<Rightarrow> ((string \<times> json) list \<times> string) option" where
  "p_value fl 0 s = None"
| "p_value fl (Suc n) s =
     (case s of
        [] \<Rightarrow> None
      | c # cs \<Rightarrow>
          if char_nat c = 34 then map_option (\<lambda>(t, r). (JStr t, r)) (p_string cs)
          else if char_nat c = 123 then
            if skip_ws cs \<noteq> [] \<and> char_nat (hd (skip_ws cs)) = 125 then Some (JObj [], tl (skip_ws cs))
            else map_option (\<lambda>(kvs, r). (JObj (dict_of_pairs kvs), r)) (p_pairs fl n (skip_ws cs))
          else if char_nat c = 91 then
            if skip_ws cs \<noteq> [] \<and> char_nat (hd (skip_ws cs)) = 93 then Some (JList [], tl (skip_ws cs))
            else map_option (\<lambda>(vs, r). (JList vs, r)) (p_items fl n (skip_ws cs))
          else if starts_with s ''null'' then Some (JNull, drop 4 s)
          else if starts_with s ''true'' then Some (JBool True, drop 4 s)
          else if starts_with s ''false'' then Some (JBool False, drop 5 s)
          else p_number fl s)"
| "p_items fl 0 s = None"
| "p_items fl (Suc n) s =
     (case p_value fl n s of
        None \<Rightarrow> None
      | Some (v, r) \<Rightarrow>
          (case skip_ws r of
             [] \<Rightarrow> None
           | c # cs \<Rightarrow>
               if char_nat c = 44 then map_option (\<lambda>(vs, q). (v # vs, q)) (p_items fl n (skip_ws cs))
               else if char_nat c = 93 then Some ([v], cs) else None))"
| "p_pairs fl 0 s = None"
| "p_pairs fl (Suc n) s =
     (case s of
        [] \<Rightarrow> None
      | c # cs \<Rightarrow>
          if char_nat c \<noteq> 34 then None
          else (case p_string cs of
              None \<Rightarrow> None
            | Some (k, r) \<Rightarrow>
                (case skip_ws r of
                   [] \<Rightarrow> None
                 | d # ds \<Rightarrow>
                     if char_nat d \<noteq> 58 then None
                     else (case p_value fl n (skip_ws ds) of
                         None \<Rightarrow> None
                       | Some (v, q) \<Rightarrow>
                           (case skip_ws q of
                              [] \<Rightarrow> None
                            | e # es \<Rightarrow>
                                if char_nat e = 44
                                then map_option (\<lambda>(kvs, z). ((k, v) # kvs, z)) (p_pairs fl n (skip_ws es))
                                else if char_nat e = 125 then Some ([(k, v)], es) else None)))))"

text \<open>Each nesting level takes two steps and at least one character, so the fuel cannot run out first.\<close>

definition loads :: "(rat \<Rightarrow> rat) \<Rightarrow> string \<Rightarrow> json option" where
  "loads fl s =
     (case p_value fl (2 * length s + 2) (skip_ws s) of
        None \<Rightarrow> None
      | Some (v, r) \<Rightarrow> if skip_ws r = [] then Some v else None)"

subsection \<open>Round trip\<close>

text \<open>The values that survive: no floats, no key twice, integers the interpreter converts.\<close>

fun plain :: "json \<Rightarrow> bool" where
  "plain (JFloat r) = False"
| "plain (JInt i) = (length (nat_str (nat \<bar>i\<bar>)) \<le> 4300)"
| "plain (JList vs) = list_all plain vs"
| "plain (JObj kvs) = (distinct (map fst kvs) \<and> list_all (\<lambda>kv. plain (snd kv)) kvs)"
| "plain v = True"

definition seps_ok :: "separators \<Rightarrow> bool" where
  "seps_ok sp \<longleftrightarrow> (\<exists>w. item_sep sp = CHR '','' # w \<and> list_all json_ws w) \<and> (\<exists>w. key_sep sp = CHR '':'' # w \<and> list_all json_ws w)"

lemma seps_ok_default [simp]: "seps_ok default_seps" "seps_ok compact_seps"
  by (simp_all add: seps_ok_def default_seps_def compact_seps_def json_ws_def char_nat_def)

lemma char_nat_char_of [simp]: "n < 256 \<Longrightarrow> char_nat (char_of (n :: nat)) = n"
  by (simp add: char_nat_def take_bit_eq_mod)

lemma char_of_char_nat [simp]: "char_of (char_nat c) = c"
  by (simp add: char_nat_def)

lemma hex_digit_val_hex_nat [simp]: "n < 16 \<Longrightarrow> hex_digit_val (hex_nat n) = Some n"
  by (auto simp: hex_digit_val_def hex_nat_def Let_def)


lemma p_string_esc: "p_string (esc_char c @ r) = map_option (\<lambda>(t, q). (c # t, q)) (p_string r)"
proof -
  obtain n where n: "char_nat c = n" by blast
  have c: "char_of n = c" and "n < 256" unfolding n [symmetric] by (simp_all add: char_nat_less)
  have lit: "char_nat (CHR 0x5C) = 92" "char_nat (CHR 0x22) = 34" "char_nat (CHR ''n'') = 110" "char_nat (CHR ''r'') = 114"
      "char_nat (CHR ''t'') = 116" "char_nat (CHR ''f'') = 102" "char_nat (CHR ''b'') = 98" "char_nat (CHR ''u'') = 117"
      "hex_digit_val (CHR ''0'') = Some 0"
    by (simp_all add: char_nat_def hex_digit_val_def)
  have parts: "n div 16 < 16" "n mod 16 < 16" "16 * (n div 16) + n mod 16 = n" using \<open>n < 256\<close> by simp_all
  have cases: "n = 34 \<or> n = 92 \<or> n = 10 \<or> n = 13 \<or> n = 9 \<or> n = 12 \<or> n = 8 \<or> (32 \<le> n \<and> n \<le> 126 \<and> n \<noteq> 34 \<and> n \<noteq> 92)
      \<or> (n \<noteq> 34 \<and> n \<noteq> 92 \<and> n \<noteq> 10 \<and> n \<noteq> 13 \<and> n \<noteq> 9 \<and> n \<noteq> 12 \<and> n \<noteq> 8 \<and> \<not> (32 \<le> n \<and> n \<le> 126))" by blast
  have k: "n = k \<Longrightarrow> char_of k = c" for k using c by simp
  have q: "n = 34 \<Longrightarrow> CHR 0x22 = c" "n = 92 \<Longrightarrow> CHR 0x5C = c"
    using lit n by (simp_all add: char_nat_inject [symmetric])
  note s = esc_char_def n lit plain_escape_def parts k q Let_def
  show ?thesis
    using \<open>n < 256\<close> cases by (elim disjE conjE) (simp_all add: s)
qed

lemma p_string_dumps: "p_string (concat (map esc_char s) @ CHR 0x22 # r) = Some (s, r)"
proof (induction s)
  case Nil
  then show ?case by (simp add: char_nat_def)
next
  case (Cons c s)
  then show ?case by (simp add: p_string_esc)
qed

definition delim :: "string \<Rightarrow> bool" where
  "delim r = (r = [] \<or> \<not> is_digit (hd r) \<and> hd r \<noteq> CHR ''.'' \<and> hd r \<noteq> CHR ''e'' \<and> hd r \<noteq> CHR ''E'')"

lemma takeWhile_nat_str:
  assumes "delim r"
  shows "takeWhile is_digit (nat_str n @ r) = nat_str n" and "dropWhile is_digit (nat_str n @ r) = r"
proof -
  have "\<forall>c \<in> set (nat_str n). is_digit c" using nat_str_digits [of n] by (simp add: list_all_iff)
  moreover have "takeWhile is_digit r = []" "dropWhile is_digit r = r"
    using assms by (cases r; simp add: delim_def)+
  ultimately show "takeWhile is_digit (nat_str n @ r) = nat_str n" "dropWhile is_digit (nat_str n @ r) = r"
    by (simp_all add: takeWhile_append2 dropWhile_append2)
qed

lemma p_int_part_nat_str:
  assumes "delim r" and "length (nat_str n) \<le> 4300"
  shows "p_int_part (nat_str n @ r) = Some (n, r)"
proof (cases "n = 0")
  case True
  then show ?thesis by (simp add: nat_str_0 p_int_part_def)
next
  case False
  obtain c cs where s: "nat_str n = c # cs" by (cases "nat_str n") auto
  have "is_digit c" using nat_str_digits [of n] s by simp
  moreover have "c \<noteq> CHR ''0''" using hd_nat_str [of n] s False by simp
  ultimately show ?thesis
    using takeWhile_nat_str [OF assms(1), of n] assms(2) s digits_val_nat_str [of n]
    by (auto simp: p_int_part_def)
qed

lemma number_tail:
  assumes "delim r"
  shows "p_frac r = ([], r)" and "p_exp r = (None, r)"
  using assms by (auto simp: delim_def p_frac_def p_exp_def split: list.splits)

lemma p_number_int_str:
  assumes "delim r" and "length (nat_str (nat \<bar>i\<bar>)) \<le> 4300"
  shows "p_number fl (int_str i @ r) = Some (JInt i, r)"
proof (cases "i < 0")
  case True
  then have "p_int_part (nat_str (nat (- i)) @ r) = Some (nat (- i), r)"
    using p_int_part_nat_str [OF assms(1), of "nat (- i)"] assms(2) by simp
  then show ?thesis using True number_tail [OF assms(1)] by (simp add: p_number_def int_str_def Let_def)
next
  case False
  then have p: "p_int_part (nat_str (nat i) @ r) = Some (nat i, r)"
    using p_int_part_nat_str [OF assms(1), of "nat i"] assms(2) by simp
  have "hd (nat_str (nat i) @ r) \<noteq> CHR ''-''"
    using nat_str_digits [of "nat i"] by (cases "nat_str (nat i)") (auto dest: is_digit_props)
  then show ?thesis using p False number_tail [OF assms(1)] by (simp add: p_number_def int_str_def Let_def)
qed

lemma char_lits [simp]:
  "char_nat (CHR '','') = 44" "char_nat (CHR '':'') = 58" "char_nat (CHR ''['') = 91" "char_nat (CHR '']'') = 93"
  "char_nat (CHR 0x7B) = 123" "char_nat (CHR 0x7D) = 125" "char_nat (CHR 0x22) = 34" "char_nat (CHR ''n'') = 110"
  "char_nat (CHR ''t'') = 116" "char_nat (CHR ''f'') = 102" "char_nat (CHR ''-'') = 45"
  by (simp_all add: char_nat_def)

lemma int_str_hd: "\<exists>c cs. int_str i = c # cs \<and> (c = CHR ''-'' \<or> is_digit c)"
proof -
  obtain c cs where s: "nat_str (nat i) = c # cs" by (cases "nat_str (nat i)") auto
  then have "is_digit c" using nat_str_digits [of "nat i"] by simp
  then show ?thesis using s by (auto simp: int_str_def)
qed

lemma is_digit_nat: "is_digit c \<Longrightarrow> 48 \<le> char_nat c \<and> char_nat c \<le> 57"
  by (simp add: is_digit_def Let_def)

lemma dumps_hd:
  assumes "plain v"
  obtains c cs where "dumps repr sp v = c # cs" and "\<not> json_ws c" and "char_nat c \<noteq> 93"
proof (cases v)
  case (JInt i)
  obtain c cs where s: "int_str i = c # cs" and c: "c = CHR ''-'' \<or> is_digit c" using int_str_hd [of i] by blast
  have "\<not> json_ws c \<and> char_nat c \<noteq> 93" using c is_digit_nat [of c] by (auto simp: json_ws_def Let_def)
  then show ?thesis using that JInt s by simp
next
  case (JBool b)
  then show ?thesis using that by (cases b) (simp_all add: json_ws_def)
qed (use assms that in \<open>simp_all add: json_ws_def dumps_str_def\<close>)

lemma skip_ws_sep: "list_all json_ws w \<Longrightarrow> \<not> json_ws c \<Longrightarrow> skip_ws (w @ c # cs) = c # cs"
  by (induction w) auto

lemma delim_simps [simp]: "delim (CHR '','' # r)" "delim (CHR '']'' # r)" "delim (CHR 0x7D # r)" "delim []"
  by (simp_all add: delim_def is_digit_def)

definition reads_back :: "(rat \<Rightarrow> rat) \<Rightarrow> (rat \<Rightarrow> string) \<Rightarrow> separators \<Rightarrow> json \<Rightarrow> bool" where
  "reads_back fl repr sp v \<longleftrightarrow>
     (\<forall>n r. delim r \<longrightarrow> 2 * length (dumps repr sp v) \<le> n \<longrightarrow> p_value fl n (dumps repr sp v @ r) = Some (v, r))"

lemma p_items_dumps:
  assumes sp: "seps_ok sp"
  shows "vs \<noteq> [] \<Longrightarrow> \<forall>v \<in> set vs. plain v \<and> reads_back fl repr sp v
    \<Longrightarrow> 2 * length (join_with (item_sep sp) (map (dumps repr sp) vs)) + 1 \<le> n
    \<Longrightarrow> p_items fl n (join_with (item_sep sp) (map (dumps repr sp) vs) @ CHR '']'' # r) = Some (vs, r)"
proof (induction vs arbitrary: n)
  case Nil
  then show ?case by simp
next
  case (Cons v vs)
  obtain w where w: "item_sep sp = CHR '','' # w" "list_all json_ws w" using sp unfolding seps_ok_def by blast
  obtain m where n: "n = Suc m" using Cons.prems(3) by (cases n) auto
  have rb: "delim q \<Longrightarrow> 2 * length (dumps repr sp v) \<le> m \<Longrightarrow> p_value fl m (dumps repr sp v @ q) = Some (v, q)" for q
    using Cons.prems(2) by (simp add: reads_back_def)
  show ?case
  proof (cases vs)
    case Nil
    then show ?thesis using rb [of "CHR '']'' # r"] Cons.prems(3) by (simp add: n json_ws_def)
  next
    case (Cons v' vs')
    let ?rest = "join_with (item_sep sp) (map (dumps repr sp) vs)"
    have "plain v'" using Cons.prems(2) Cons by simp
    then obtain c cs where c: "dumps repr sp v' = c # cs" "\<not> json_ws c" by (rule dumps_hd)
    have "\<exists>ds. ?rest = c # ds" using Cons c by (cases vs') auto
    then obtain ds where ds: "?rest = c # ds" by blast
    have len: "length (dumps repr sp v) + 1 + length w + length ?rest \<le> length (join_with (item_sep sp) (map (dumps repr sp) (v # vs)))"
      using Cons by (simp add: w)
    have m1: "2 * length (dumps repr sp v) \<le> m" and m2: "2 * length ?rest + 1 \<le> m"
      using Cons.prems(3) len unfolding n by linarith+
    have "p_items fl m (?rest @ CHR '']'' # r) = Some (vs, r)"
      using Cons.prems(2) Cons by (intro Cons.IH [OF _ _ m2]) auto
    then have ih: "p_items fl m (c # ds @ CHR '']'' # r) = Some (vs, r)" by (simp only: ds append_Cons)
    have whole: "join_with (item_sep sp) (map (dumps repr sp) (v # vs)) @ CHR '']'' # r
        = dumps repr sp v @ CHR '','' # w @ c # ds @ CHR '']'' # r"
      using Cons ds by (simp add: w)
    show ?thesis
      unfolding whole n using rb [OF _ m1, of "CHR '','' # w @ c # ds @ CHR '']'' # r"] ih
      by (simp add: json_ws_def [of "CHR '',''"] skip_ws_sep [OF w(2) c(2)])
  qed
qed

abbreviation pair_text :: "(rat \<Rightarrow> string) \<Rightarrow> separators \<Rightarrow> string \<times> json \<Rightarrow> string" where
  "pair_text repr sp kv \<equiv> dumps_str (fst kv) @ key_sep sp @ dumps repr sp (snd kv)"

lemma p_pairs_dumps:
  assumes sp: "seps_ok sp"
  shows "kvs \<noteq> [] \<Longrightarrow> \<forall>kv \<in> set kvs. plain (snd kv) \<and> reads_back fl repr sp (snd kv)
    \<Longrightarrow> 2 * length (join_with (item_sep sp) (map (pair_text repr sp) kvs)) + 1 \<le> n
    \<Longrightarrow> p_pairs fl n (join_with (item_sep sp) (map (pair_text repr sp) kvs) @ CHR 0x7D # r) = Some (kvs, r)"
proof (induction kvs arbitrary: n)
  case Nil
  then show ?case by simp
next
  case (Cons kv kvs)
  obtain k v where kv: "kv = (k, v)" by (cases kv)
  obtain w where w: "item_sep sp = CHR '','' # w" "list_all json_ws w" using sp unfolding seps_ok_def by blast
  obtain u where u: "key_sep sp = CHR '':'' # u" "list_all json_ws u" using sp unfolding seps_ok_def by blast
  obtain m where n: "n = Suc m" using Cons.prems(3) by (cases n) auto
  have rb: "delim q \<Longrightarrow> 2 * length (dumps repr sp v) \<le> m \<Longrightarrow> p_value fl m (dumps repr sp v @ q) = Some (v, q)" for q
    using Cons.prems(2) by (simp add: reads_back_def kv)
  have "plain v" using Cons.prems(2) kv by simp
  then obtain c cs where c: "dumps repr sp v = c # cs" "\<not> json_ws c" by (rule dumps_hd)
  have sk: "skip_ws (u @ dumps repr sp v @ q) = dumps repr sp v @ q" for q
    unfolding c(1) append_Cons by (rule skip_ws_sep [OF u(2) c(2)])
  have head: "p_pairs fl n (dumps_str k @ key_sep sp @ dumps repr sp v @ q)
      = (case skip_ws q of [] \<Rightarrow> None | e # es \<Rightarrow>
           if char_nat e = 44 then map_option (\<lambda>(kvs, z). ((k, v) # kvs, z)) (p_pairs fl m (skip_ws es))
           else if char_nat e = 125 then Some ([(k, v)], es) else None)"
    if "delim q" "2 * length (dumps repr sp v) \<le> m" for q
    using rb [OF that] by (simp add: n dumps_str_def p_string_dumps u json_ws_def [of "CHR '':''"] sk)
  show ?case
  proof (cases kvs)
    case Nil
    then show ?thesis using head [of "CHR 0x7D # r"] Cons.prems(3) by (simp add: n kv json_ws_def)
  next
    case (Cons kv' kvs')
    let ?rest = "join_with (item_sep sp) (map (pair_text repr sp) kvs)"
    have "\<exists>ds. ?rest = CHR 0x22 # ds" using Cons by (cases kvs') (simp_all add: dumps_str_def)
    then obtain ds where ds: "?rest = CHR 0x22 # ds" by blast
    have len: "length (dumps repr sp v) + 1 + length w + length ?rest
        \<le> length (join_with (item_sep sp) (map (pair_text repr sp) (kv # kvs)))"
      using Cons by (simp add: w kv)
    have m1: "2 * length (dumps repr sp v) \<le> m" and m2: "2 * length ?rest + 1 \<le> m"
      using Cons.prems(3) len unfolding n by linarith+
    have "p_pairs fl m (?rest @ CHR 0x7D # r) = Some (kvs, r)"
      using Cons.prems(2) Cons by (intro Cons.IH [OF _ _ m2]) auto
    then have ih: "p_pairs fl m (CHR 0x22 # ds @ CHR 0x7D # r) = Some (kvs, r)" by (simp only: ds append_Cons)
    have quote: "\<not> json_ws (CHR 0x22)" "\<not> json_ws (CHR '','')" by (simp_all add: json_ws_def)
    have whole: "join_with (item_sep sp) (map (pair_text repr sp) (kv # kvs)) @ CHR 0x7D # r
        = dumps_str k @ key_sep sp @ dumps repr sp v @ CHR '','' # w @ CHR 0x22 # ds @ CHR 0x7D # r"
      using Cons ds by (simp add: w kv)
    show ?thesis
      unfolding whole head [OF _ m1, OF delim_simps(1)] using ih quote
      by (simp add: skip_ws_sep [OF w(2)] kv)
  qed
qed

lemma aput_fresh: "k \<notin> fst ` set d \<Longrightarrow> aput k v d = d @ [(k, v)]"
  by (induction d) auto

lemma foldl_aput_distinct:
  "distinct (map fst (d @ kvs)) \<Longrightarrow> foldl (\<lambda>d kv. aput (fst kv) (snd kv) d) d kvs = d @ kvs"
  by (induction kvs arbitrary: d) (simp_all add: aput_fresh)

lemma dict_of_distinct: "distinct (map fst kvs) \<Longrightarrow> dict_of_pairs kvs = kvs"
  using foldl_aput_distinct [of "[]" kvs] by (simp add: dict_of_pairs_def)

lemma fuel_SucE:
  assumes "2 * Suc k \<le> n"
  obtains m where "n = Suc m" and "2 * k + 1 \<le> m"
  using assms by (cases n) auto

lemma reads_back_list:
  assumes "seps_ok sp" and "list_all plain vs" and "\<forall>v \<in> set vs. reads_back fl repr sp v"
  shows "reads_back fl repr sp (JList vs)"
  unfolding reads_back_def
proof (intro allI impI)
  fix n r
  assume d: "delim r" and n: "2 * length (dumps repr sp (JList vs)) \<le> n"
  let ?body = "join_with (item_sep sp) (map (dumps repr sp) vs)"
  have "2 * Suc (length ?body) \<le> n" using n by simp
  then obtain m where m: "n = Suc m" "2 * length ?body + 1 \<le> m" by (rule fuel_SucE)
  show "p_value fl n (dumps repr sp (JList vs) @ r) = Some (JList vs, r)"
  proof (cases vs)
    case Nil
    then show ?thesis by (simp add: m json_ws_def [of "CHR '']''"])
  next
    case (Cons v vs')
    then have "plain v" using assms(2) by simp
    then obtain c cs where c: "dumps repr sp v = c # cs" "\<not> json_ws c" "char_nat c \<noteq> 93" by (rule dumps_hd)
    have "\<exists>ds. ?body = c # ds" using Cons c by (cases vs') auto
    then obtain ds where ds: "?body = c # ds" by blast
    have "p_items fl m (?body @ CHR '']'' # r) = Some (vs, r)"
      using Cons assms m(2) by (intro p_items_dumps) (auto simp: list_all_iff)
    then show ?thesis using c by (simp add: m ds)
  qed
qed

lemma reads_back_obj:
  assumes "seps_ok sp" and "distinct (map fst kvs)" and "list_all (\<lambda>kv. plain (snd kv)) kvs"
    and "\<forall>kv \<in> set kvs. reads_back fl repr sp (snd kv)"
  shows "reads_back fl repr sp (JObj kvs)"
  unfolding reads_back_def
proof (intro allI impI)
  fix n r
  assume d: "delim r" and n: "2 * length (dumps repr sp (JObj kvs)) \<le> n"
  let ?body = "join_with (item_sep sp) (map (pair_text repr sp) kvs)"
  have "2 * Suc (length ?body) \<le> n" using n by simp
  then obtain m where m: "n = Suc m" "2 * length ?body + 1 \<le> m" by (rule fuel_SucE)
  show "p_value fl n (dumps repr sp (JObj kvs) @ r) = Some (JObj kvs, r)"
  proof (cases kvs)
    case Nil
    then show ?thesis by (simp add: m json_ws_def [of "CHR 0x7D"] dict_of_pairs_def)
  next
    case (Cons kv kvs')
    have "\<exists>ds. ?body = CHR 0x22 # ds" using Cons by (cases kvs') (simp_all add: dumps_str_def)
    then obtain ds where ds: "?body = CHR 0x22 # ds" by blast
    have "p_pairs fl m (?body @ CHR 0x7D # r) = Some (kvs, r)"
      using Cons assms m(2) by (intro p_pairs_dumps) (auto simp: list_all_iff)
    then show ?thesis
      by (simp add: m ds json_ws_def [of "CHR 0x22"] dict_of_distinct [OF assms(2)])
  qed
qed

lemma reads_back_plain:
  assumes "seps_ok sp"
  shows "plain v \<Longrightarrow> reads_back fl repr sp v"
proof (induction v)
  case (JList vs)
  then show ?case by (intro reads_back_list [OF assms]) (auto simp: list_all_iff)
next
  case (JObj kvs)
  have "reads_back fl repr sp (snd kv)" if "kv \<in> set kvs" for kv
    using JObj.IH [OF that, of "snd kv"] JObj.prems that by (cases kv) (auto simp: list_all_iff)
  then show ?case using JObj.prems by (intro reads_back_obj [OF assms]) auto
next
  case (JStr s)
  show ?case unfolding reads_back_def
  proof (intro allI impI)
    fix n r
    assume "2 * length (dumps repr sp (JStr s)) \<le> n"
    then obtain m where "n = Suc m" by (cases n) (auto simp: dumps_str_def)
    then show "p_value fl n (dumps repr sp (JStr s) @ r) = Some (JStr s, r)"
      by (simp add: dumps_str_def p_string_dumps)
  qed
next
  case (JInt i)
  show ?case unfolding reads_back_def
  proof (intro allI impI)
    fix n r
    assume d: "delim r" and n: "2 * length (dumps repr sp (JInt i)) \<le> n"
    obtain c cs where s: "int_str i = c # cs" and c: "c = CHR ''-'' \<or> is_digit c" using int_str_hd [of i] by blast
    have nc: "char_nat c = 45 \<or> 48 \<le> char_nat c \<and> char_nat c \<le> 57" using c is_digit_nat [of c] by auto
    then have "c \<noteq> CHR ''n''" "c \<noteq> CHR ''t''" "c \<noteq> CHR ''f''" by auto
    moreover obtain m where "n = Suc m" using n s by (cases n) auto
    ultimately show "p_value fl n (dumps repr sp (JInt i) @ r) = Some (JInt i, r)"
      using p_number_int_str [OF d, of i fl] JInt.prems s nc by auto
  qed
next
  case (JBool b)
  show ?case unfolding reads_back_def
  proof (intro allI impI)
    fix n r
    assume "2 * length (dumps repr sp (JBool b)) \<le> n"
    then obtain m where "n = Suc m" by (cases n; cases b) auto
    then show "p_value fl n (dumps repr sp (JBool b) @ r) = Some (JBool b, r)" by (cases b) auto
  qed
next
  case JNull
  show ?case unfolding reads_back_def
  proof (intro allI impI)
    fix n r
    assume "2 * length (dumps repr sp JNull) \<le> n"
    then obtain m where "n = Suc m" by (cases n) auto
    then show "p_value fl n (dumps repr sp JNull @ r) = Some (JNull, r)" by auto
  qed
qed auto

theorem loads_dumps:
  assumes "plain v" and "seps_ok sp"
  shows "loads fl (dumps repr sp v) = Some v"
proof -
  obtain c cs where c: "dumps repr sp v = c # cs" "\<not> json_ws c" using assms(1) by (rule dumps_hd)
  have "p_value fl (2 * length (dumps repr sp v) + 2) (dumps repr sp v @ []) = Some (v, [])"
    using reads_back_plain [OF assms(2,1), of fl repr, unfolded reads_back_def, rule_format, OF delim_simps(4)]
    using le_add1 by blast
  moreover have "skip_ws (dumps repr sp v) = dumps repr sp v" using c by simp
  ultimately show ?thesis unfolding loads_def by (simp only: append_Nil2 option.case prod.case dropWhile.simps refl if_True)
qed

end
