(* ===== verification/Parser_Sandbox.thy ===== *)
theory Parser_Sandbox
  imports Json_Text Result_Contract
begin

text \<open>
  \<open>backend/secuscan/parser_sandbox.py\<close>: a plugin's \<open>parser.py\<close> runs in a child process that gets a JSON
  envelope on its standard input and answers with a JSON text. \<open>bootstrap\<close> is the script the child
  runs, \<open>read_stdout\<close> and \<open>read_stderr\<close> are the reader threads, \<open>run_parser_in_sandbox\<close> is the parent.
  The operating system is the parameter \<open>spawn\<close>: what comes out of a process with an argument
  vector, an environment and an input. The parser of the plugin is the parameter \<open>parser_file\<close>.
  Byte streams are ASCII (\<open>json.dumps\<close> writes nothing else); the input text has code points below
  256. That the child cannot reach the memory or the files of the parent is a matter of the operating
  system and is not modelled.
\<close>

subsection \<open>The child\<close>

datatype 'a py_result = Returned 'a | Raised_Exception | Exited int

text \<open>Each step of a parser file prints a text and ends in some way; \<open>module_load\<close> tells whether there is a \<open>parse\<close>.\<close>

record parser_file =
  has_loader :: bool
  module_load :: "string \<times> bool py_result"
  parse_call :: "json \<Rightarrow> string \<times> json py_result"
  traceback_text :: string
  envelope_error :: string \<comment> \<open>the text of the exception for an unreadable envelope\<close>

definition exit_status :: "int \<Rightarrow> int" where
  "exit_status n = n mod 256"

definition newline :: string where
  "newline = [CHR 0x0A]"

text \<open>Exit code, standard output and standard error of the script.\<close>

definition bootstrap ::
  "(rat \<Rightarrow> rat) \<Rightarrow> (rat \<Rightarrow> string) \<Rightarrow> parser_file \<Rightarrow> nat \<Rightarrow> string \<Rightarrow> int \<times> string \<times> string" where
  "bootstrap fl repr pf max_input stdin =
     (let raw = take (max_input + 1) stdin in
      if length raw > max_input then (2, [], ''Parser input exceeded size limit'' @ newline)
      else (case (case loads fl raw of Some (JObj envelope) \<Rightarrow> map_of envelope ''input'' | _ \<Rightarrow> None) of
          None \<Rightarrow> (3, [], ''Failed to decode envelope: '' @ envelope_error pf @ newline)
        | Some parser_input \<Rightarrow>
            if \<not> has_loader pf then (4, [], ''Cannot load parser'' @ newline)
            else (case module_load pf of
                (out, Raised_Exception) \<Rightarrow> (1, out, traceback_text pf)
              | (out, Exited n) \<Rightarrow> (exit_status n, out, [])
              | (out, Returned has_parse) \<Rightarrow>
                  if \<not> has_parse then (5, out, ''Parser module missing 'parse' function'' @ newline)
                  else (case parse_call pf parser_input of
                      (out', Raised_Exception) \<Rightarrow> (1, out @ out', traceback_text pf)
                    | (out', Exited n) \<Rightarrow> (exit_status n, out @ out', [])
                    | (out', Returned v) \<Rightarrow> (0, out @ out' @ dumps repr default_seps v, [])))))"

subsection \<open>The process and its environment\<close>

datatype arg = Word string | Bootstrap nat string

text \<open>What the pipes deliver read by read, whether the process ends before the timeout, its return code.\<close>

record process =
  out_reads :: "string list"
  err_reads :: "string list"
  in_time :: bool
  return_code :: int

record host =
  on_linux :: bool
  unshare_found :: "string option"
  unshare_probe :: "int option" \<comment> \<open>the return code, \<open>None\<close> if running it raises\<close>
  environ :: "(string \<times> string) list"
  python :: string
  spawn :: "arg list \<Rightarrow> (string \<times> string) list \<Rightarrow> string \<Rightarrow> process"
  decode_message :: "string \<Rightarrow> string" \<comment> \<open>the text of a \<open>JSONDecodeError\<close>\<close>
  float_repr :: "rat \<Rightarrow> string"
  float_round :: "rat \<Rightarrow> rat"

record unshare_state =
  capability_checked :: bool
  unshare_available :: bool
  warning_logged :: bool

definition unshare_fresh :: unshare_state where
  "unshare_fresh = \<lparr>capability_checked = False, unshare_available = False, warning_logged = False\<rparr>"

definition keep_keys :: "string list" where
  "keep_keys = [''PATH'', ''PYTHONPATH'', ''HOME'', ''TMPDIR'', ''TEMP'', ''TMP'', ''LANG'', ''LC_ALL'']"

definition sanitised_env :: "host \<Rightarrow> (string \<times> string) list" where
  "sanitised_env h = filter (\<lambda>kv. fst kv \<in> set keep_keys) (environ h)"

definition unshare_net_supported :: "host \<Rightarrow> unshare_state \<Rightarrow> bool \<times> unshare_state" where
  "unshare_net_supported h u =
     (if capability_checked u then (unshare_available u, u)
      else
        let u' = u\<lparr>capability_checked := True\<rparr> in
        if \<not> on_linux h then (False, u')
        else if unshare_found h = None \<or> unshare_found h = Some [] then (False, u')
        else let ok = (unshare_probe h = Some 0) in (ok, u'\<lparr>unshare_available := ok\<rparr>))"

definition sandbox_argv :: "host \<Rightarrow> arg \<Rightarrow> unshare_state \<Rightarrow> arg list \<times> unshare_state" where
  "sandbox_argv h code u =
     (let base = [Word (python h), Word ''-c'', code]; (ok, u') = unshare_net_supported h u in
      if ok then ([Word ''unshare'', Word ''--user'', Word ''--net'', Word ''--''] @ base, u')
      else (base, u'\<lparr>warning_logged := True\<rparr>))"

subsection \<open>The readers\<close>

fun read_stdout :: "nat \<Rightarrow> nat \<Rightarrow> string list \<Rightarrow> string list \<times> bool" where
  "read_stdout cap seen [] = ([], False)"
| "read_stdout cap seen (chunk # chunks) =
     (if chunk = [] then ([], False)
      else if seen + length chunk > cap then ([], True)
      else let (kept, overflow) = read_stdout cap (seen + length chunk) chunks in (chunk # kept, overflow))"

definition MAX_STDERR_BYTES :: nat where
  "MAX_STDERR_BYTES = 65536"

fun read_stderr :: "nat \<Rightarrow> string list \<Rightarrow> string list" where
  "read_stderr seen [] = []"
| "read_stderr seen (chunk # chunks) =
     (if chunk = [] then []
      else if seen + length chunk \<le> MAX_STDERR_BYTES
      then chunk # read_stderr (seen + length chunk) chunks
      else read_stderr (seen + length chunk) chunks)"

subsection \<open>The parent\<close>

text \<open>\<open>len(s.encode("utf-8"))\<close> for code points below 256.\<close>

definition utf8_length :: "string \<Rightarrow> nat" where
  "utf8_length s = sum_list (map (\<lambda>c. if char_nat c < 128 then 1 else 2) s)"

definition max_input_bytes :: "string \<Rightarrow> nat" where
  "max_input_bytes parser_input = max (utf8_length parser_input + 128) (64 * 1024)"

definition envelope :: "(rat \<Rightarrow> string) \<Rightarrow> string \<Rightarrow> string" where
  "envelope repr parser_input = dumps repr default_seps (JObj [(''input'', JStr parser_input)])"

text \<open>\<open>ParserSandboxError\<close>: the public message is built from the plugin and the reason.\<close>

record sandbox_error =
  err_plugin :: string
  reason :: string
  stderr_diagnostic :: string

definition sandbox_message :: "sandbox_error \<Rightarrow> string" where
  "sandbox_message e = ''Parser sandbox failed for '' @ [CHR 0x27] @ err_plugin e @ [CHR 0x27] @ '' ('' @ reason e @ '')''"

definition stderr_excerpt :: "sandbox_error \<Rightarrow> string" where
  "stderr_excerpt e = take 2000 (stderr_diagnostic e)"

definition type_name :: "json \<Rightarrow> string" where
  "type_name v = (case v of JNull \<Rightarrow> ''NoneType'' | JBool b \<Rightarrow> ''bool'' | JInt i \<Rightarrow> ''int'' | JFloat r \<Rightarrow> ''float''
     | JStr s \<Rightarrow> ''str'' | JList vs \<Rightarrow> ''list'' | JObj kvs \<Rightarrow> ''dict'')"

text \<open>What \<open>bytes.strip\<close> drops.\<close>

definition bytes_ws :: "char \<Rightarrow> bool" where
  "bytes_ws c = (let n = char_nat c in n = 32 \<or> (9 \<le> n \<and> n \<le> 13))"

definition judge_output :: "host \<Rightarrow> string \<Rightarrow> int \<Rightarrow> nat \<Rightarrow> process \<Rightarrow> sandbox_error + dict" where
  "judge_output h plugin_id timeout_seconds max_output p =
     (let (kept, overflow) = read_stdout max_output 0 (out_reads p);
          stderr_text = concat (read_stderr 0 (err_reads p));
          stdout_bytes = concat kept;
          fail = (\<lambda>why diag. Inl \<lparr>err_plugin = plugin_id, reason = why, stderr_diagnostic = diag\<rparr>)
      in if overflow then fail (''output exceeded '' @ nat_str (max_output div (1024 * 1024)) @ '' MB limit'') []
         else if \<not> in_time p then fail (''timed out after '' @ int_str timeout_seconds @ ''s'') stderr_text
         else if return_code p \<noteq> 0
         then fail (''subprocess exited with code '' @ int_str (return_code p)) stderr_text
         else if strip_by bytes_ws stdout_bytes = [] then Inr []
         else (case loads (float_round h) stdout_bytes of
             None \<Rightarrow> fail (''parser returned non-JSON output: '' @ decode_message h stdout_bytes) stderr_text
           | Some (JObj d) \<Rightarrow> Inr d
           | Some (JList vs) \<Rightarrow> Inr [(''findings'', JList vs)]
           | Some v \<Rightarrow> fail (''parser returned unexpected type '' @ type_name v @ ''; expected dict or list'') []))"

definition run_parser_in_sandbox ::
  "host \<Rightarrow> bool \<Rightarrow> string \<Rightarrow> string \<Rightarrow> string \<Rightarrow> int \<Rightarrow> nat \<Rightarrow> unshare_state
     \<Rightarrow> (sandbox_error + dict) \<times> unshare_state" where
  "run_parser_in_sandbox h file_exists parser_path plugin_id parser_input timeout_seconds max_output u =
     (if \<not> file_exists
      then (Inl \<lparr>err_plugin = plugin_id, reason = ''parser.py not found'', stderr_diagnostic = []\<rparr>, u)
      else
        let (argv, u') = sandbox_argv h (Bootstrap (max_input_bytes parser_input) parser_path) u;
            p = spawn h argv (sanitised_env h) (envelope (float_repr h) parser_input)
        in (judge_output h plugin_id timeout_seconds max_output p, u'))"

text \<open>The process the parent starts, and the contract of an operating system that runs the script in it.\<close>

definition child_process :: "host \<Rightarrow> string \<Rightarrow> string \<Rightarrow> unshare_state \<Rightarrow> process" where
  "child_process h parser_path parser_input u =
     spawn h (fst (sandbox_argv h (Bootstrap (max_input_bytes parser_input) parser_path) u)) (sanitised_env h)
       (envelope (float_repr h) parser_input)"

definition runs_script :: "host \<Rightarrow> parser_file \<Rightarrow> string \<Rightarrow> bool" where
  "runs_script h pf parser_path \<longleftrightarrow>
     (\<forall>prefix max_input env stdin p.
        p = spawn h (prefix @ [Word (python h), Word ''-c'', Bootstrap max_input parser_path]) env stdin \<longrightarrow>
        in_time p \<longrightarrow>
          [] \<notin> set (out_reads p) \<and> [] \<notin> set (err_reads p) \<and>
          (return_code p, concat (out_reads p), concat (err_reads p))
            = bootstrap (float_round h) (float_repr h) pf max_input stdin)"

subsection \<open>Lemmas\<close>

lemma sandbox_argv_prefix: "\<exists>prefix. fst (sandbox_argv h code u) = prefix @ [Word (python h), Word ''-c'', code]"
  by (auto simp: sandbox_argv_def Let_def split: prod.splits)

lemma child_runs_script:
  assumes "runs_script h pf path" and "in_time (child_process h path input u)"
  shows "(return_code (child_process h path input u), concat (out_reads (child_process h path input u)),
      concat (err_reads (child_process h path input u)))
      = bootstrap (float_round h) (float_repr h) pf (max_input_bytes input) (envelope (float_repr h) input)"
    and "[] \<notin> set (out_reads (child_process h path input u))"
proof -
  obtain prefix where p: "fst (sandbox_argv h (Bootstrap (max_input_bytes input) path) u)
      = prefix @ [Word (python h), Word ''-c'', Bootstrap (max_input_bytes input) path]"
    using sandbox_argv_prefix by blast
  show "(return_code (child_process h path input u), concat (out_reads (child_process h path input u)),
      concat (err_reads (child_process h path input u)))
      = bootstrap (float_round h) (float_repr h) pf (max_input_bytes input) (envelope (float_repr h) input)"
    and "[] \<notin> set (out_reads (child_process h path input u))"
    using assms unfolding runs_script_def child_process_def p by blast+
qed

lemma run_as_judgement:
  "fst (run_parser_in_sandbox h True path pid input t cap u) = judge_output h pid t cap (child_process h path input u)"
  by (simp add: run_parser_in_sandbox_def child_process_def Let_def split: prod.splits)

text \<open>The reader keeps everything exactly when it fits, and never keeps more than the cap.\<close>

lemma read_stdout_total:
  "[] \<notin> set chunks \<Longrightarrow> seen \<le> cap \<Longrightarrow>
     (seen + length (concat chunks) \<le> cap \<longrightarrow> read_stdout cap seen chunks = (chunks, False))
     \<and> (cap < seen + length (concat chunks) \<longrightarrow> snd (read_stdout cap seen chunks))"
proof (induction chunks arbitrary: seen)
  case (Cons c cs)
  show ?case
  proof (cases "seen + length c > cap")
    case False
    then show ?thesis using Cons.IH [of "seen + length c"] Cons.prems by (auto simp: split_def)
  qed (use Cons.prems in auto)
qed simp

lemma read_stdout_bounded: "seen \<le> cap \<Longrightarrow> seen + length (concat (fst (read_stdout cap seen chunks))) \<le> cap"
proof (induction chunks arbitrary: seen)
  case (Cons c cs)
  show ?case
  proof (cases "seen + length c > cap")
    case False
    then show ?thesis using Cons.IH [of "seen + length c"] Cons.prems by (simp add: split_def Let_def)
  qed (use Cons.prems in auto)
qed simp

lemma read_stderr_bounded:
  "length (concat (read_stderr seen chunks)) \<le> MAX_STDERR_BYTES - seen"
proof (induction chunks arbitrary: seen)
  case (Cons c cs)
  have ih: "length (concat (read_stderr (seen + length c) cs)) \<le> MAX_STDERR_BYTES - (seen + length c)" by (rule Cons.IH)
  show ?case
  proof (cases "c \<noteq> [] \<and> seen + length c \<le> MAX_STDERR_BYTES")
    case True
    then have c: "seen + length c \<le> MAX_STDERR_BYTES" "c \<noteq> []" by simp_all
    have "length c + length (concat (read_stderr (seen + length c) cs)) \<le> MAX_STDERR_BYTES - seen"
      using ih c(1) by linarith
    then show ?thesis using c by simp
  next
    case False
    moreover have "length (concat (read_stderr (seen + length c) cs)) \<le> MAX_STDERR_BYTES - seen" using ih by linarith
    ultimately show ?thesis by (cases "c = []") simp_all
  qed
qed simp

subsection \<open>The envelope\<close>

lemma envelope_length: "length (envelope repr input) = 13 + length (concat (map esc_char input))"
  by (simp add: envelope_def dumps_str_def default_seps_def esc_char_def Let_def char_nat_def)

lemma envelope_read: "loads fl (envelope repr input) = Some (JObj [(''input'', JStr input)])"
  unfolding envelope_def by (intro loads_dumps) simp_all

lemma bootstrap_envelope:
  assumes "length (envelope repr input) \<le> max_input"
  shows "bootstrap fl repr pf max_input (envelope repr input)
    = (if \<not> has_loader pf then (4, [], ''Cannot load parser'' @ newline)
       else (case module_load pf of
           (out, Raised_Exception) \<Rightarrow> (1, out, traceback_text pf)
         | (out, Exited n) \<Rightarrow> (exit_status n, out, [])
         | (out, Returned has_parse) \<Rightarrow>
             if \<not> has_parse then (5, out, ''Parser module missing 'parse' function'' @ newline)
             else (case parse_call pf (JStr input) of
                 (out', Raised_Exception) \<Rightarrow> (1, out @ out', traceback_text pf)
               | (out', Exited n) \<Rightarrow> (exit_status n, out @ out', [])
               | (out', Returned v) \<Rightarrow> (0, out @ out' @ dumps repr default_seps v, []))))"
  using assms by (simp add: bootstrap_def envelope_read Let_def)

lemma bootstrap_too_long:
  assumes "max_input < length stdin"
  shows "bootstrap fl repr pf max_input stdin = (2, [], ''Parser input exceeded size limit'' @ newline)"
  using assms by (simp add: bootstrap_def Let_def)

lemma dumps_first:
  assumes "plain v"
  obtains c cs where "dumps repr sp v = c # cs" and "\<not> bytes_ws c"
proof (cases v)
  case (JInt i)
  obtain c cs where s: "int_str i = c # cs" and c: "c = CHR ''-'' \<or> is_digit c" using int_str_hd [of i] by blast
  have "\<not> bytes_ws c" using c is_digit_nat [of c] by (auto simp: bytes_ws_def Let_def)
  then show ?thesis using that JInt s by simp
next
  case (JBool b)
  then show ?thesis using that by (cases b) (simp_all add: bytes_ws_def)
qed (use assms that in \<open>simp_all add: bytes_ws_def dumps_str_def\<close>)

lemma strip_bytes_nonempty:
  assumes "plain v"
  shows "strip_by bytes_ws (dumps repr default_seps v) \<noteq> []"
proof -
  obtain c cs where c: "dumps repr default_seps v = c # cs" "\<not> bytes_ws c"
    by (rule dumps_first [OF assms])
  then show ?thesis by (auto simp: strip_by_def lstrip_by_def rstrip_by_def)
qed

definition as_result :: "string \<Rightarrow> json \<Rightarrow> sandbox_error + dict" where
  "as_result plugin_id v =
     (case v of
        JObj d \<Rightarrow> Inr d
      | JList vs \<Rightarrow> Inr [(''findings'', JList vs)]
      | _ \<Rightarrow> Inl \<lparr>err_plugin = plugin_id,
                 reason = ''parser returned unexpected type '' @ type_name v @ ''; expected dict or list'',
                 stderr_diagnostic = []\<rparr>)"

lemma judge_answer:
  assumes "plain v" and "in_time p" and "return_code p = 0" and "[] \<notin> set (out_reads p)"
    and "concat (out_reads p) = dumps repr default_seps v" and "length (dumps repr default_seps v) \<le> cap"
  shows "judge_output h pid t cap p = as_result pid v"
proof -
  have "read_stdout cap 0 (out_reads p) = (out_reads p, False)"
    using read_stdout_total [OF assms(4), of 0 cap] assms(5,6) by simp
  then show ?thesis
    using assms(2,3) loads_dumps [OF assms(1) seps_ok_default(1), of "float_round h" repr] strip_bytes_nonempty [OF assms(1), of repr]
    by (cases v) (simp_all add: judge_output_def assms(5) as_result_def Let_def)
qed

lemma judge_failure:
  assumes "in_time p" and "return_code p \<noteq> 0" and "[] \<notin> set (out_reads p)" and "length (concat (out_reads p)) \<le> cap"
  shows "\<exists>diag. judge_output h pid t cap p
    = Inl \<lparr>err_plugin = pid, reason = ''subprocess exited with code '' @ int_str (return_code p), stderr_diagnostic = diag\<rparr>"
proof -
  have "read_stdout cap 0 (out_reads p) = (out_reads p, False)"
    using read_stdout_total [OF assms(3), of 0 cap] assms(4) by simp
  then show ?thesis using assms(1,2) by (simp add: judge_output_def Let_def)
qed

lemma esc_char_nonempty: "esc_char c \<noteq> []"
  by (simp add: esc_char_def Let_def)

text \<open>The characters the encoder writes as more than one.\<close>

definition escaped :: "char \<Rightarrow> bool" where
  "escaped c = (1 < length (esc_char c))"

lemma escaped_length: "length s + length (filter escaped s) \<le> length (concat (map esc_char s))"
proof (induction s)
  case (Cons c s)
  have "1 \<le> length (esc_char c)" using esc_char_nonempty [of c] by (simp add: Suc_le_eq)
  then show ?case using Cons by (auto simp: escaped_def)
qed simp

lemma utf8_length_ascii: "\<forall>c \<in> set s. char_nat c < 128 \<Longrightarrow> utf8_length s = length s"
  by (induction s) (simp_all add: utf8_length_def)

lemma too_long_is_refused:
  assumes "runs_script h pf path" and "in_time (child_process h path input u)"
    and "max_input_bytes input < length (envelope (float_repr h) input)"
  shows "\<exists>diag. fst (run_parser_in_sandbox h True path pid input t cap u)
    = Inl \<lparr>err_plugin = pid, reason = ''subprocess exited with code 2'', stderr_diagnostic = diag\<rparr>"
proof -
  note c = child_runs_script [OF assms(1,2)]
  have b: "return_code (child_process h path input u) = 2" "concat (out_reads (child_process h path input u)) = []"
    using c(1) unfolding bootstrap_too_long [OF assms(3)] by simp_all
  have "int_str 2 = ''2''" by code_simp
  then show ?thesis
    using judge_failure [OF assms(2) _ c(2), where cap = cap and pid = pid and t = t] b by (simp add: run_as_judgement)
qed

text \<open>The isolation the host can give, and the invariant of the cached probe.\<close>

definition can_isolate :: "host \<Rightarrow> bool" where
  "can_isolate h \<longleftrightarrow> on_linux h \<and> unshare_found h \<noteq> None \<and> unshare_found h \<noteq> Some [] \<and> unshare_probe h = Some 0"

definition probe_cached :: "host \<Rightarrow> unshare_state \<Rightarrow> bool" where
  "probe_cached h u \<longleftrightarrow> (if capability_checked u then unshare_available u = can_isolate h else \<not> unshare_available u)"

lemma unshare_net_supported_iff:
  "probe_cached h u \<Longrightarrow> fst (unshare_net_supported h u) = can_isolate h \<and> probe_cached h (snd (unshare_net_supported h u))"
  by (auto simp: probe_cached_def unshare_net_supported_def can_isolate_def Let_def split: if_splits)

lemma sandbox_argv_isolated:
  assumes "probe_cached h u"
  shows "fst (sandbox_argv h code u)
      = (if can_isolate h then [Word ''unshare'', Word ''--user'', Word ''--net'', Word ''--''] else [])
        @ [Word (python h), Word ''-c'', code]"
    and "probe_cached h (snd (sandbox_argv h code u))"
  using unshare_net_supported_iff [OF assms]
  by (auto simp: sandbox_argv_def Let_def probe_cached_def split: prod.splits if_splits)

text \<open>A history of parser runs: whether the file exists, its path, plugin and input, the limits.\<close>

type_synonym parser_run = "bool \<times> string \<times> string \<times> string \<times> int \<times> nat"

definition after_runs :: "host \<Rightarrow> parser_run list \<Rightarrow> unshare_state" where
  "after_runs h history = fold (\<lambda>(ex, path, pid, input, t, cap) u. snd (run_parser_in_sandbox h ex path pid input t cap u))
     history unshare_fresh"

lemma probe_cached_after: "probe_cached h (after_runs h history)"
proof -
  have "probe_cached h (snd (run_parser_in_sandbox h ex path pid input t cap u))" if "probe_cached h u" for ex path pid input t cap u
    using sandbox_argv_isolated(2) [OF that] that by (auto simp: run_parser_in_sandbox_def Let_def split: prod.splits) (metis snd_conv)
  then have "probe_cached h u \<Longrightarrow> probe_cached h (fold (\<lambda>(ex, path, pid, input, t, cap) u.
      snd (run_parser_in_sandbox h ex path pid input t cap u)) history u)" for u
    by (induction history arbitrary: u) auto
  moreover have "probe_cached h unshare_fresh" by (simp add: probe_cached_def unshare_fresh_def)
  ultimately show ?thesis by (simp add: after_runs_def)
qed

text \<open>The list a result wraps.\<close>

definition raw_list :: "dict \<Rightarrow> json list" where
  "raw_list d = (case d of [(k, JList vs)] \<Rightarrow> if k = ''findings'' then vs else [] | _ \<Rightarrow> [])"

subsection \<open>Properties\<close>

text \<open>The plugin directory of \<open>_parse_results\<close> with this sandbox behind it.\<close>

definition sandbox_env ::
  "host \<Rightarrow> string \<Rightarrow> string \<Rightarrow> int \<Rightarrow> nat \<Rightarrow> unshare_state \<Rightarrow> (string \<Rightarrow> string option) \<Rightarrow> parser_env" where
  "sandbox_env h path pid t cap u report = \<lparr>parser_exists = True, parser_verified = True,
     sandboxed = (\<lambda>input. map_sum reason JObj (fst (run_parser_in_sandbox h True path pid input t cap u))),
     report_file = report\<rparr>"


text \<open>The child refuses more bytes than the length of the raw input plus 128 (at least 64 KB), but what it
  is sent is the escaped JSON form. So an ASCII scanner output of 64 KB or more with 116 line breaks,
  quotes, backslashes or control characters is always refused (exit code 2), whatever the parser
  does: its result is an error.\<close>

theorem long_report_is_lost:
  assumes "runs_script h pf path" and "in_time (child_process h path input u)"
    and "\<forall>c \<in> set input. char_nat c < 128" and "65408 \<le> length input" and "116 \<le> length (filter escaped input)"
  shows "\<exists>diag. fst (run_parser_in_sandbox h True path pid input t cap u)
    = Inl \<lparr>err_plugin = pid, reason = ''subprocess exited with code 2'', stderr_diagnostic = diag\<rparr>"
proof (rule too_long_is_refused [OF assms(1,2)])
  show "max_input_bytes input < length (envelope (float_repr h) input)"
    using escaped_length [of input] assms(4,5)
    by (simp add: max_input_bytes_def utf8_length_ascii [OF assms(3)] envelope_length)
qed

text \<open>Every way a child can go wrong is an error of the sandbox with a fixed reason; nothing a misbehaving
  child writes is kept beyond the caps.\<close>

theorem sandbox_failures_reported:
  assumes "p = child_process h path input u" and "[] \<notin> set (out_reads p)"
    and "res = fst (run_parser_in_sandbox h True path pid input t cap u)"
  shows "(cap < length (concat (out_reads p)) \<longrightarrow>
           res = Inl \<lparr>err_plugin = pid, reason = ''output exceeded '' @ nat_str (cap div (1024 * 1024)) @ '' MB limit'', stderr_diagnostic = []\<rparr>)
     \<and> (length (concat (out_reads p)) \<le> cap \<longrightarrow> \<not> in_time p \<longrightarrow>
           (\<exists>diag. res = Inl \<lparr>err_plugin = pid, reason = ''timed out after '' @ int_str t @ ''s'', stderr_diagnostic = diag\<rparr>))
     \<and> (length (concat (out_reads p)) \<le> cap \<longrightarrow> in_time p \<longrightarrow> return_code p \<noteq> 0 \<longrightarrow>
           (\<exists>diag. res = Inl \<lparr>err_plugin = pid, reason = ''subprocess exited with code '' @ int_str (return_code p), stderr_diagnostic = diag\<rparr>))
     \<and> (\<forall>d. res = Inr d \<longrightarrow> length (concat (out_reads p)) \<le> cap \<and> in_time p \<and> return_code p = 0
           \<and> (strip_by bytes_ws (concat (out_reads p)) = [] \<and> d = [] \<or>
              loads (float_round h) (concat (out_reads p)) \<in> {Some (JObj d), Some (JList (raw_list d))}))
     \<and> (\<forall>e. res = Inl e \<longrightarrow> length (stderr_diagnostic e) \<le> MAX_STDERR_BYTES)"
proof -
  have res: "res = judge_output h pid t cap p" unfolding assms(1,3) by (rule run_as_judgement)
  have "length (concat (read_stderr 0 (err_reads p))) \<le> MAX_STDERR_BYTES"
    using read_stderr_bounded [of 0 "err_reads p"] by simp
  then have diag: "\<forall>e. res = Inl e \<longrightarrow> length (stderr_diagnostic e) \<le> MAX_STDERR_BYTES"
    unfolding res judge_output_def by (auto simp: Let_def split: prod.splits option.splits json.splits)
  show ?thesis
  proof (cases "length (concat (out_reads p)) \<le> cap")
    case True
    then have "read_stdout cap 0 (out_reads p) = (out_reads p, False)"
      using read_stdout_total [OF assms(2), of 0 cap] by simp
    then show ?thesis using True diag unfolding res
      by (simp add: judge_output_def Let_def) (auto simp: raw_list_def split: option.splits json.splits if_splits)
  next
    case False
    then have "snd (read_stdout cap 0 (out_reads p))" using read_stdout_total [OF assms(2), of 0 cap] by simp
    then show ?thesis using False diag unfolding res by (simp add: judge_output_def Let_def split_def)
  qed
qed

text \<open>Two runs that differ only in what the child writes to standard error, and in environment variables
  outside the eight that are kept, have the same result or the same public error message: neither the
  diagnostics of a parser nor the secrets in the environment of the backend can show in it.\<close>

theorem sandbox_public_result_isolated:
  assumes "\<forall>argv env stdin. spawn h' argv env stdin = (spawn h argv env stdin)\<lparr>err_reads := noise argv env stdin\<rparr>"
    and "h' = h\<lparr>environ := environ', spawn := spawn h'\<rparr>"
    and "filter (\<lambda>kv. fst kv \<in> set keep_keys) environ' = filter (\<lambda>kv. fst kv \<in> set keep_keys) (environ h)"
  shows "map_sum sandbox_message id (fst (run_parser_in_sandbox h' ex path pid input t cap u))
    = map_sum sandbox_message id (fst (run_parser_in_sandbox h ex path pid input t cap u))"
proof -
  have same: "on_linux h' = on_linux h" "unshare_found h' = unshare_found h" "unshare_probe h' = unshare_probe h"
      "python h' = python h" "float_repr h' = float_repr h" "float_round h' = float_round h"
      "decode_message h' = decode_message h" "sanitised_env h' = sanitised_env h"
    by (subst assms(2), simp add: sanitised_env_def assms(3))+
  have "sandbox_argv h' = sandbox_argv h"
    unfolding fun_eq_iff sandbox_argv_def unshare_net_supported_def same by simp
  moreover have "map_sum sandbox_message id (judge_output h' pid t cap (q\<lparr>err_reads := n\<rparr>))
      = map_sum sandbox_message id (judge_output h pid t cap q)" for q n
    by (auto simp: judge_output_def same sandbox_message_def Let_def split: prod.splits option.splits json.splits)
  ultimately show ?thesis
    by (simp add: run_parser_in_sandbox_def same assms(1) Let_def split: prod.splits)
qed

text \<open>After any history of parser runs (the probe of the host is made at most once and cached), the next
  parser is started in a network namespace of its own exactly when the host supports it.\<close>

theorem parsers_run_isolated:
  "fst (sandbox_argv h (Bootstrap n path) (after_runs h history))
     = (if can_isolate h then [Word ''unshare'', Word ''--user'', Word ''--net'', Word ''--''] else [])
       @ [Word (python h), Word ''-c'', Bootstrap n path]"
  by (rule sandbox_argv_isolated(1) [OF probe_cached_after])

subsection \<open>Witnesses\<close>

text \<open>A host that runs the script, and a parser that returns its input under a key.\<close>

definition script_host :: "parser_file \<Rightarrow> host" where
  "script_host pf = \<lparr>on_linux = True, unshare_found = Some ''/usr/bin/unshare'', unshare_probe = Some 0,
     environ = [(''PATH'', ''/bin''), (''SECUSCAN_VAULT_KEY'', ''k'')], python = ''python3'',
     spawn = (\<lambda>argv env stdin. case last argv of
         Word w \<Rightarrow> \<lparr>out_reads = [], err_reads = [], in_time = True, return_code = 0\<rparr>
       | Bootstrap n path \<Rightarrow>
           let (code, out, err) = bootstrap (\<lambda>r. r) (\<lambda>r. ''0.0'') pf n stdin
           in \<lparr>out_reads = (if out = [] then [] else [out]), err_reads = (if err = [] then [] else [err]),
               in_time = True, return_code = code\<rparr>),
     decode_message = (\<lambda>s. ''Expecting value''), float_repr = (\<lambda>r. ''0.0''), float_round = (\<lambda>r. r)\<rparr>"

definition echo_parser :: parser_file where
  "echo_parser = \<lparr>has_loader = True, module_load = ([], Returned True),
     parse_call = (\<lambda>v. ([], Returned (JObj [(''raw'', v)]))), traceback_text = ''Traceback'', envelope_error = ''unreadable''\<rparr>"

lemma script_host_runs: "runs_script (script_host pf) pf path"
  by (auto simp: runs_script_def script_host_def split: prod.splits)

lemma script_host_in_time: "in_time (child_process (script_host pf) path input u)"
proof -
  obtain prefix where "fst (sandbox_argv (script_host pf) (Bootstrap (max_input_bytes input) path) u)
      = prefix @ [Word (python (script_host pf)), Word ''-c'', Bootstrap (max_input_bytes input) path]"
    using sandbox_argv_prefix by blast
  then show ?thesis by (simp add: child_process_def) (simp add: script_host_def split: prod.splits)
qed


theorem long_report_is_lost_witness:
  "\<exists>diag. fst (run_parser_in_sandbox (script_host echo_parser) True ''parser.py'' ''nmap''
      (replicate 66000 (CHR 0x0A)) 30 8388608 unshare_fresh)
    = Inl \<lparr>err_plugin = ''nmap'', reason = ''subprocess exited with code 2'', stderr_diagnostic = diag\<rparr>"
proof -
  have "escaped (CHR 0x0A)" "char_nat (CHR 0x0A) < 128"
    by (simp_all add: escaped_def esc_char_def char_nat_def Let_def)
  then show ?thesis
    by (intro long_report_is_lost [OF script_host_runs script_host_in_time]) (simp_all add: filter_replicate)
qed

theorem sandbox_failures_reported_witness:
  "\<exists>diag. fst (run_parser_in_sandbox (script_host (echo_parser\<lparr>has_loader := False\<rparr>)) True ''parser.py'' ''nmap'' ''x'' 30 1000 unshare_fresh)
    = Inl \<lparr>err_plugin = ''nmap'', reason = ''subprocess exited with code 4'', stderr_diagnostic = diag\<rparr>"
proof -
  let ?h = "script_host (echo_parser\<lparr>has_loader := False\<rparr>)"
  let ?p = "child_process ?h ''parser.py'' ''x'' unshare_fresh"
  have p: "out_reads ?p = []" "in_time ?p" "return_code ?p = 4" "int_str 4 = ''4''" by (code_simp, code_simp, code_simp, code_simp)
  then show ?thesis
    using sandbox_failures_reported [OF refl _ refl, where h = ?h and path = "''parser.py''" and input = "''x''"
        and u = unshare_fresh and pid = "''nmap''" and t = 30 and cap = 1000] by simp
qed

theorem sandbox_public_result_isolated_witness:
  "map_sum sandbox_message id (fst (run_parser_in_sandbox
      ((script_host echo_parser)\<lparr>environ := [(''PATH'', ''/bin''), (''SECUSCAN_API_KEY'', ''other'')],
         spawn := (\<lambda>argv env stdin. (spawn (script_host echo_parser) argv env stdin)\<lparr>err_reads := [stdin]\<rparr>)\<rparr>)
      True ''parser.py'' ''nmap'' ''x'' 30 1000 unshare_fresh))
   = map_sum sandbox_message id (fst (run_parser_in_sandbox (script_host echo_parser) True ''parser.py'' ''nmap'' ''x'' 30 1000 unshare_fresh))"
  by (rule sandbox_public_result_isolated [where noise = "\<lambda>argv env stdin. [stdin]"
        and environ' = "[(''PATH'', ''/bin''), (''SECUSCAN_API_KEY'', ''other'')]"])
    (simp_all add: script_host_def keep_keys_def)

end
