(* ===== verification/Auth.thy ===== *)
theory Auth
  imports Json_Text Vault
begin

text \<open>
  \<open>backend/secuscan/auth.py\<close> and the admin dependency of \<open>routes.py\<close>: the deployment key, signed
  session cookies, the checks in front of every route, and the owner of a request. The headers of a
  request are a function of the lower-case name. HMAC-SHA256 (as hexadecimal text), the random key and
  the random session identifier are parameters, as are the values FastAPI's bearer and key schemes
  read from the headers. Times are microseconds. A key comparison is equality (texts are ASCII, on
  which \<open>compare_digest\<close> does not raise).
\<close>

subsection \<open>State and requests\<close>

record auth_state =
  api_key :: "string option"
  signing_key :: "bytes option"

record request =
  req_path :: string
  req_scheme :: string
  req_headers :: "string \<Rightarrow> string option"
  req_cookies :: "string \<Rightarrow> string option"

type_synonym hmac = "bytes \<Rightarrow> bytes \<Rightarrow> string"

definition SESSION_TTL_SECONDS :: int where
  "SESSION_TTL_SECONDS = 3600"

definition COOKIE_NAME :: string where
  "COOKIE_NAME = ''secuscan_session''"

subsection \<open>Session tokens\<close>

definition init_signing_key :: "bytes \<Rightarrow> auth_state \<Rightarrow> bytes \<times> auth_state" where
  "init_signing_key fresh st =
     (case signing_key st of
        None \<Rightarrow> (fresh, st\<lparr>signing_key := Some fresh\<rparr>)
      | Some k \<Rightarrow> (k, st))"

definition session_payload :: "string \<Rightarrow> usec \<Rightarrow> bytes" where
  "session_payload sid now =
     utf8_encode (dumps (\<lambda>r. []) compact_seps
       (JObj [(''s'', JStr sid), (''e'', JInt (now div 1000000 + SESSION_TTL_SECONDS))]))"

definition rstrip_pad :: "string \<Rightarrow> string" where
  "rstrip_pad s = rstrip_by (\<lambda>c. c = CHR ''='') s"

definition make_signed_token :: "hmac \<Rightarrow> bytes \<Rightarrow> string \<Rightarrow> usec \<Rightarrow> auth_state \<Rightarrow> string \<times> auth_state" where
  "make_signed_token hm fresh sid now st =
     (let (key, st') = init_signing_key fresh st; payload = session_payload sid now
      in (rstrip_pad (b64_encode payload) @ ''.'' @ hm key payload, st'))"

definition pad_b64 :: "string \<Rightarrow> string" where
  "pad_b64 s = (let padding = 4 - length s mod 4 in if padding \<noteq> 4 then s @ replicate padding (CHR ''='') else s)"

text \<open>\<open>time.time() > data["e"]\<close>; \<open>None\<close> is the exception of a value that is no number, or is missing.\<close>

definition past_expiry :: "usec \<Rightarrow> json \<Rightarrow> bool option" where
  "past_expiry now data =
     (case data of
        JObj d \<Rightarrow>
          (case map_of d ''e'' of
             Some (JInt e) \<Rightarrow> Some (e * 1000000 < now)
           | Some (JFloat r) \<Rightarrow> Some (r * 1000000 < of_int now)
           | Some (JBool b) \<Rightarrow> Some ((if b then 1000000 else 0) < now)
           | _ \<Rightarrow> None)
      | _ \<Rightarrow> None)"

definition token_parts :: "string \<Rightarrow> (bytes \<times> string) option" where
  "token_parts token =
     (case split_on (CHR ''.'') token of
        [payload_b64, sig] \<Rightarrow> map_option (\<lambda>payload. (payload, sig)) (b64_decode (pad_b64 payload_b64))
      | _ \<Rightarrow> None)"

definition payload_valid :: "(rat \<Rightarrow> rat) \<Rightarrow> usec \<Rightarrow> bytes \<Rightarrow> bool" where
  "payload_valid fl now payload =
     (case utf8_decode payload of
        None \<Rightarrow> False
      | Some text \<Rightarrow> (case loads fl text of None \<Rightarrow> False | Some data \<Rightarrow> past_expiry now data = Some False))"

definition verify_signed_token ::
  "hmac \<Rightarrow> (rat \<Rightarrow> rat) \<Rightarrow> bytes \<Rightarrow> usec \<Rightarrow> string \<Rightarrow> auth_state \<Rightarrow> bool \<times> auth_state" where
  "verify_signed_token hm fl fresh now token st =
     (let (key, st') = init_signing_key fresh st in
      ((case token_parts token of
          None \<Rightarrow> False
        | Some (payload, sig) \<Rightarrow> hm key payload = sig \<and> payload_valid fl now payload), st'))"

subsection \<open>The session endpoints\<close>

definition cookie_secure :: "request \<Rightarrow> bool" where
  "cookie_secure r =
     ((case req_headers r ''x-forwarded-proto'' of None \<Rightarrow> False | Some p \<Rightarrow> py_lower p = ''https'')
      \<or> req_scheme r = ''https'')"

text \<open>Status 401 and 503 are errors; a new session carries the cookie value and its \<open>Secure\<close> flag.\<close>

datatype session_response = Session_Created string bool | Session_Refused nat

definition bearer_value :: "request \<Rightarrow> string option" where
  "bearer_value r =
     (let bearer = (case req_headers r ''authorization'' of None \<Rightarrow> [] | Some a \<Rightarrow> a)
      in if starts_with (py_lower bearer) ''bearer '' then Some (drop 7 bearer) else None)"

definition session_candidate :: "request \<Rightarrow> string option" where
  "session_candidate r =
     (let x = req_headers r ''x-api-key'' in
      if x = None \<or> x = Some [] then (if bearer_value r = None then x else bearer_value r) else x)"

definition create_session ::
  "hmac \<Rightarrow> bytes \<Rightarrow> string \<Rightarrow> usec \<Rightarrow> request \<Rightarrow> auth_state \<Rightarrow> session_response \<times> auth_state" where
  "create_session hm fresh sid now r st =
     (case api_key st of
        None \<Rightarrow> (Session_Refused 503, st)
      | Some key \<Rightarrow>
          (let candidate = session_candidate r in
           if candidate = None \<or> candidate = Some [] \<or> candidate \<noteq> Some key then (Session_Refused 401, st)
           else let (token, st') = make_signed_token hm fresh sid now st
                in (Session_Created token (cookie_secure r), st')))"

definition is_authenticated_by_session ::
  "hmac \<Rightarrow> (rat \<Rightarrow> rat) \<Rightarrow> bytes \<Rightarrow> usec \<Rightarrow> request \<Rightarrow> auth_state \<Rightarrow> bool \<times> auth_state" where
  "is_authenticated_by_session hm fl fresh now r st =
     (case req_cookies r COOKIE_NAME of
        None \<Rightarrow> (False, st)
      | Some token \<Rightarrow> if token = [] then (False, st) else verify_signed_token hm fl fresh now token st)"

definition check_session ::
  "hmac \<Rightarrow> (rat \<Rightarrow> rat) \<Rightarrow> bytes \<Rightarrow> usec \<Rightarrow> request \<Rightarrow> auth_state \<Rightarrow> bool \<times> auth_state" where
  "check_session hm fl fresh now r st =
     (case req_cookies r COOKIE_NAME of
        None \<Rightarrow> (False, st)
      | Some token \<Rightarrow>
          if token = [] then (False, st)
          else let (ok, st') = verify_signed_token hm fl fresh now token st in (if ok then (True, st') else (False, st')))"

text \<open>Logging out only tells the client to drop the cookie.\<close>

definition logout_session :: "(string \<Rightarrow> string option) \<Rightarrow> auth_state \<Rightarrow> (string \<Rightarrow> string option) \<times> auth_state" where
  "logout_session cookies st = (cookies(COOKIE_NAME := None), st)"

subsection \<open>The key of the deployment\<close>

text \<open>Files by path; a key file that exists is read, otherwise a fresh key is written (mode 600).\<close>

definition init_api_key ::
  "string option \<Rightarrow> string \<Rightarrow> string \<Rightarrow> (string \<Rightarrow> string option) \<Rightarrow> auth_state
     \<Rightarrow> string \<times> (string \<Rightarrow> string option) \<times> auth_state" where
  "init_api_key key_file_var data_dir fresh files st =
     (let custom_path = py_strip (case key_file_var of None \<Rightarrow> [] | Some p \<Rightarrow> p);
          key_file = (if custom_path \<noteq> [] then custom_path else data_dir @ ''/.api_key'')
      in case files key_file of
           Some txt \<Rightarrow> (py_strip txt, files, st\<lparr>api_key := Some (py_strip txt)\<rparr>)
         | None \<Rightarrow> (fresh, files(key_file \<mapsto> fresh), st\<lparr>api_key := Some fresh\<rparr>))"

subsection \<open>The checks in front of the routes\<close>

definition require_api_key ::
  "hmac \<Rightarrow> (rat \<Rightarrow> rat) \<Rightarrow> bytes \<Rightarrow> usec \<Rightarrow> request \<Rightarrow> string option \<Rightarrow> string option \<Rightarrow> auth_state
     \<Rightarrow> (nat + string) \<times> auth_state" where
  "require_api_key hm fl fresh now r bearer x_api_key st =
     (if starts_with (req_path r) ''/api/v1/admin'' then (Inr [], st)
      else
        let (by_session, st') = is_authenticated_by_session hm fl fresh now r st in
        if by_session then (Inr ''session-authenticated'', st')
        else case api_key st' of
            None \<Rightarrow> (Inl 503, st')
          | Some key \<Rightarrow>
              (let candidate = (if bearer \<noteq> None then bearer else x_api_key) in
               if candidate = None \<or> candidate \<noteq> Some key then (Inl 401, st') else (Inr (the candidate), st')))"

definition verify_admin_access :: "string option \<Rightarrow> string option \<Rightarrow> request \<Rightarrow> nat + string" where
  "verify_admin_access admin_key x_api_key r =
     (case admin_key of
        None \<Rightarrow> Inl 500
      | Some key \<Rightarrow>
          if key = [] then Inl 500
          else if length key < 16 then Inl 500
          else
            (let given = (\<lambda>c. c \<noteq> None \<and> c \<noteq> Some []);
                 auth_header = req_headers r ''authorization'';
                 candidate =
                   (if \<not> given auth_header then x_api_key
                    else
                      let h = the auth_header;
                          token = (if starts_with (py_lower h) ''bearer '' then drop 7 h else h)
                      in if token = key then Some token else if \<not> given x_api_key then Some token else x_api_key)
             in if \<not> given candidate \<or> candidate \<noteq> Some key then Inl 401 else Inr (the candidate)))"

subsection \<open>Owners\<close>

definition DEFAULT_OWNER_ID :: string where
  "DEFAULT_OWNER_ID = ''default''"

definition resolve_owner_id :: "request option \<Rightarrow> string" where
  "resolve_owner_id r =
     (case r of
        None \<Rightarrow> DEFAULT_OWNER_ID
      | Some req \<Rightarrow>
          (case req_headers req ''x-user-id'' of
             None \<Rightarrow> DEFAULT_OWNER_ID
           | Some u \<Rightarrow> if u \<noteq> [] \<and> py_strip u \<noteq> [] then ''user:'' @ py_strip u else DEFAULT_OWNER_ID))"

subsection \<open>Tokens are read back\<close>

lemma sextet_char_not [simp]:
  assumes "n < 64"
  shows "CHR ''.'' \<noteq> sextet_char n" and "CHR ''='' \<noteq> sextet_char n"
proof -
  have "char_sextet (CHR ''.'') = None" by code_simp
  then show "CHR ''.'' \<noteq> sextet_char n" using char_sextet_char(1) [OF assms] by auto
  show "CHR ''='' \<noteq> sextet_char n" using char_sextet_char(2) [OF assms] by metis
qed

lemma b64_encode_shape:
  "\<exists>core k. b64_encode bs = core @ replicate k (CHR ''='') \<and> k \<le> 2 \<and> CHR ''='' \<notin> set core \<and> CHR ''.'' \<notin> set core
     \<and> (length core + k) mod 4 = 0"
proof (induction bs rule: b64_encode.induct)
  case (1 a b c bs)
  then obtain core k where core: "b64_encode bs = core @ replicate k (CHR ''='')" "k \<le> 2" "CHR ''='' \<notin> set core"
      "CHR ''.'' \<notin> set core" "(length core + k) mod 4 = 0" by (elim exE conjE)
  let ?q = "[sextet_char (unat a div 4), sextet_char ((unat a mod 4) * 16 + unat b div 16),
     sextet_char ((unat b mod 16) * 4 + unat c div 64), sextet_char (unat c mod 64)]"
  have "CHR ''='' \<notin> set ?q" "CHR ''.'' \<notin> set ?q" by simp_all
  moreover have "(length (?q @ core) + k) mod 4 = 0" using core(5) by simp
  ultimately show ?case using core by (intro exI [of _ "?q @ core"] exI [of _ k]) auto
next
  case (2 a b)
  let ?q = "[sextet_char (unat a div 4), sextet_char ((unat a mod 4) * 16 + unat b div 16), sextet_char ((unat b mod 16) * 4)]"
  have "CHR ''='' \<notin> set ?q" "CHR ''.'' \<notin> set ?q" by simp_all
  then show ?case by (intro exI [of _ ?q] exI [of _ 1]) auto
next
  case (3 a)
  let ?q = "[sextet_char (unat a div 4), sextet_char ((unat a mod 4) * 16)]"
  have "CHR ''='' \<notin> set ?q" "CHR ''.'' \<notin> set ?q" by simp_all
  then show ?case by (intro exI [of _ ?q] exI [of _ 2]) (auto simp: numeral_2_eq_2)
next
  case 4
  show ?case by (intro exI [of _ "[]"] exI [of _ 0]) simp
qed

lemma rstrip_pad_core:
  assumes "CHR ''='' \<notin> set core"
  shows "rstrip_pad (core @ replicate k (CHR ''='')) = core"
proof -
  have "dropWhile (\<lambda>c. c = CHR ''='') (rev core) = rev core"
    using assms by (cases core rule: rev_cases) auto
  moreover have "dropWhile (\<lambda>c. c = CHR ''='') (replicate k (CHR ''='') @ rev core) = dropWhile (\<lambda>c. c = CHR ''='') (rev core)"
    by (induction k) simp_all
  ultimately show ?thesis by (simp add: rstrip_pad_def rstrip_by_def)
qed

lemma pad_rstrip:
  "pad_b64 (rstrip_pad (b64_encode bs)) = b64_encode bs" "CHR ''.'' \<notin> set (rstrip_pad (b64_encode bs))"
proof -
  obtain core k where core: "b64_encode bs = core @ replicate k (CHR ''='')" "k \<le> 2" "CHR ''='' \<notin> set core"
      "CHR ''.'' \<notin> set core" "(length core + k) mod 4 = 0"
    using b64_encode_shape [of bs] by (elim exE conjE)
  have ar: "k \<le> 2 \<Longrightarrow> (l + k) mod 4 = 0 \<Longrightarrow> k = 0 \<and> l mod 4 = 0 \<or> 0 < k \<and> 4 - l mod 4 = k" for k l :: nat
    by presburger
  have "k = 0 \<and> length core mod 4 = 0 \<or> 0 < k \<and> 4 - length core mod 4 = k" by (rule ar [OF core(2,5)])
  then show "pad_b64 (rstrip_pad (b64_encode bs)) = b64_encode bs"
    using core(2) unfolding core(1) rstrip_pad_core [OF core(3)] by (auto simp: pad_b64_def Let_def)
  show "CHR ''.'' \<notin> set (rstrip_pad (b64_encode bs))" unfolding core(1) rstrip_pad_core [OF core(3)] by (rule core(4))
qed

lemma token_parts_made:
  assumes "CHR ''.'' \<notin> set sig"
  shows "token_parts (rstrip_pad (b64_encode payload) @ ''.'' @ sig) = Some (payload, sig)"
  using assms pad_rstrip [of payload]
  by (simp add: token_parts_def split_on_append split_on_single b64_roundtrip)

lemma length_nat_str: "n < 10 ^ Suc k \<Longrightarrow> length (nat_str n) \<le> Suc k"
proof (induction k arbitrary: n)
  case 0
  then show ?case by (subst nat_str.simps) simp
next
  case (Suc k)
  have "n div 10 < 10 ^ Suc k" using Suc.prems by (simp add: less_mult_imp_div_less)
  then have "length (nat_str (n div 10)) \<le> Suc k" by (rule Suc.IH)
  then show ?case by (subst nat_str.simps) simp
qed

lemma ascii_char: "char_nat c < 128 \<longleftrightarrow> (of_char c :: nat) < 128"
  by (simp add: char_nat_def)

lemma esc_char_ascii: "x \<in> set (esc_char c) \<Longrightarrow> char_nat x < 128"
proof -
  have "char_nat c div 16 < 16" "char_nat c mod 16 < 16" using char_nat_less [of c] by simp_all
  moreover have "char_nat (hex_nat n) < 128" if "n < 16" for n using that by (simp add: hex_nat_def)
  moreover have "char_nat (CHR 0x5C) < 128" "char_nat (CHR ''b'') < 128" "char_nat (CHR ''r'') < 128" "char_nat (CHR ''u'') < 128"
      "char_nat (CHR ''0'') < 128"
    by (simp_all add: char_nat_def)
  moreover assume "x \<in> set (esc_char c)"
  ultimately show ?thesis by (auto simp: esc_char_def Let_def split: if_splits)
qed

lemma int_str_ascii: "x \<in> set (int_str i) \<Longrightarrow> char_nat x < 128"
  using nat_str_digits [of "nat i"] nat_str_digits [of "nat (- i)"] is_digit_nat [of x]
  by (force simp: int_str_def list_all_iff split: if_splits)

lemma session_payload_text:
  "utf8_decode (session_payload sid now)
    = Some (dumps (\<lambda>r. []) compact_seps (JObj [(''s'', JStr sid), (''e'', JInt (now div 1000000 + SESSION_TTL_SECONDS))]))"
  unfolding session_payload_def
proof (rule utf8_roundtrip, rule ballI)
  fix x
  assume "x \<in> set (dumps (\<lambda>r. []) compact_seps (JObj [(''s'', JStr sid), (''e'', JInt (now div 1000000 + SESSION_TTL_SECONDS))]))"
  then have "x \<in> {CHR 0x7B, CHR 0x22, CHR ''s'', CHR '':'', CHR '','', CHR ''e'', CHR 0x7D}
      \<or> (\<exists>c. x \<in> set (esc_char c)) \<or> x \<in> set (int_str (now div 1000000 + SESSION_TTL_SECONDS))"
    by (auto simp: compact_seps_def dumps_str_def)
  moreover have "char_nat (CHR ''s'') < 128" "char_nat (CHR ''e'') < 128" by (simp_all add: char_nat_def)
  ultimately show "char_nat x < 128" using esc_char_ascii int_str_ascii by fastforce
qed

lemma payload_valid_session:
  assumes "0 \<le> now" and "now < 10 ^ 30"
  shows "payload_valid fl later (session_payload sid now) \<longleftrightarrow> later \<le> (now div 1000000 + SESSION_TTL_SECONDS) * 1000000"
proof -
  let ?e = "now div 1000000 + SESSION_TTL_SECONDS"
  have "nat \<bar>?e\<bar> < 10 ^ Suc 30" using assms by (simp add: SESSION_TTL_SECONDS_def nat_less_iff)
  then have "length (nat_str (nat \<bar>?e\<bar>)) \<le> Suc 30" by (rule length_nat_str)
  then have "plain (JObj [(''s'', JStr sid), (''e'', JInt ?e)])" by simp
  note l = loads_dumps [OF this seps_ok_default(2)]
  show ?thesis unfolding payload_valid_def session_payload_text option.case l by (auto simp: past_expiry_def)
qed

subsection \<open>Histories of sessions\<close>

text \<open>The clock, the state of the module, and the logins so far: request, session identifier and time.\<close>

record session_world =
  clock :: usec
  auth :: auth_state
  logins :: "(request \<times> string \<times> usec) list"

definition current_key :: "bytes \<Rightarrow> session_world \<Rightarrow> bytes" where
  "current_key fresh w = fst (init_signing_key fresh (auth w))"

inductive session_reach :: "hmac \<Rightarrow> (rat \<Rightarrow> rat) \<Rightarrow> string option \<Rightarrow> session_world \<Rightarrow> bool"
  for hm :: hmac and fl :: "rat \<Rightarrow> rat" and key :: "string option" where
  start: "0 \<le> t \<Longrightarrow> session_reach hm fl key \<lparr>clock = t, auth = \<lparr>api_key = key, signing_key = None\<rparr>, logins = []\<rparr>"
| pass: "session_reach hm fl key w \<Longrightarrow> clock w \<le> t \<Longrightarrow> t < 10 ^ 30 \<Longrightarrow> session_reach hm fl key (w\<lparr>clock := t\<rparr>)"
| login: "session_reach hm fl key w \<Longrightarrow> create_session hm fresh sid (clock w) r (auth w) = (Session_Created token sec, st')
    \<Longrightarrow> session_reach hm fl key (w\<lparr>auth := st', logins := (r, sid, clock w) # logins w\<rparr>)"
| refused: "session_reach hm fl key w \<Longrightarrow> create_session hm fresh sid (clock w) r (auth w) = (Session_Refused n, st')
    \<Longrightarrow> session_reach hm fl key (w\<lparr>auth := st'\<rparr>)"
| call: "session_reach hm fl key w
    \<Longrightarrow> session_reach hm fl key (w\<lparr>auth := snd (require_api_key hm fl fresh (clock w) r b x (auth w))\<rparr>)"

text \<open>
  A session identifier is fresh for every login, and HMAC is unforgeable: a client can present a pair of a
  payload and its code under the signing key only if a login has issued it.
\<close>

definition unforged :: "hmac \<Rightarrow> bytes \<Rightarrow> session_world \<Rightarrow> request \<Rightarrow> bool" where
  "unforged hm fresh w r \<longleftrightarrow>
     (\<forall>token payload. req_cookies r COOKIE_NAME = Some token \<longrightarrow> token_parts token = Some (payload, hm (current_key fresh w) payload)
        \<longrightarrow> (\<exists>(r', sid, t) \<in> set (logins w). payload = session_payload sid t))"

lemma verify_state [simp]:
  "api_key (snd (verify_signed_token hm fl fresh now token st)) = api_key st"
  by (simp add: verify_signed_token_def init_signing_key_def split: option.splits)

lemma by_session_state [simp]: "api_key (snd (is_authenticated_by_session hm fl fresh now r st)) = api_key st"
  by (simp add: is_authenticated_by_session_def split: option.splits)

lemma require_state [simp]: "api_key (snd (require_api_key hm fl fresh now r b x st)) = api_key st"
  using by_session_state [of hm fl fresh now r st]
  by (cases "is_authenticated_by_session hm fl fresh now r st")
    (simp add: require_api_key_def Let_def split: option.splits)

lemma create_session_cases:
  "create_session hm fresh sid now r st = (Session_Created token sec, st')
    \<Longrightarrow> session_candidate r = api_key st \<and> session_candidate r \<noteq> None \<and> session_candidate r \<noteq> Some [] \<and> api_key st' = api_key st
      \<and> signing_key st' = Some (fst (init_signing_key fresh st))
      \<and> token = rstrip_pad (b64_encode (session_payload sid now)) @ ''.'' @ hm (fst (init_signing_key fresh st)) (session_payload sid now)"
  "create_session hm fresh sid now r st = (Session_Refused n, st') \<Longrightarrow> st' = st"
  by (auto simp: create_session_def make_signed_token_def init_signing_key_def Let_def split: option.splits if_splits)

lemma session_reach_inv:
  "session_reach hm fl key w \<Longrightarrow> 0 \<le> clock w \<and> api_key (auth w) = key
     \<and> (\<forall>(r, sid, t) \<in> set (logins w). 0 \<le> t \<and> t \<le> clock w \<and> key \<noteq> None \<and> session_candidate r = key)"
proof (induction rule: session_reach.induct)
  case (login w fresh sid r token sec st')
  then show ?case using create_session_cases(1) [OF login.hyps(2)] by auto
next
  case (refused w fresh sid r n st')
  then show ?case using create_session_cases(2) [OF refused.hyps(2)] by auto
qed auto

subsection \<open>Properties\<close>



text \<open>The admin dependency answers 500 unless an admin key of at least 16 characters is configured, and then
  lets a request through exactly when \<open>X-API-Key\<close> or the \<open>Authorization\<close> header (with or
  without \<open>Bearer\<close>) is that key; either header may carry another key beside it.\<close>

theorem admin_needs_admin_key:
  "verify_admin_access admin_key x r =
     (if admin_key = None \<or> length (the admin_key) < 16 then Inl 500
      else if x = admin_key \<or> bearer_value r = admin_key \<or> (bearer_value r = None \<and> req_headers r ''authorization'' = admin_key)
      then Inr (the admin_key) else Inl 401)"
proof (cases admin_key)
  case (Some key)
  show ?thesis
  proof (cases "length key < 16")
    case False
    then show ?thesis using Some
      by (cases "req_headers r ''authorization''"; cases x) (auto simp: verify_admin_access_def bearer_value_def Let_def)
  qed (simp add: verify_admin_access_def Some)
qed (simp add: verify_admin_access_def)

subsection \<open>Witnesses\<close>

definition example_call :: request where
  "example_call = \<lparr>req_path = ''/api/v1/tasks'', req_scheme = ''https'',
     req_headers = (\<lambda>n. if n = ''x-api-key'' then Some ''k1'' else None), req_cookies = (\<lambda>n. None)\<rparr>"

definition toy_hmac :: hmac where
  "toy_hmac k m = concat (map hex_byte (take 2 k))"

definition example_token :: string where
  "example_token = rstrip_pad (b64_encode (session_payload ''id'' 5000000)) @ ''.'' @ toy_hmac [7] (session_payload ''id'' 5000000)"

lemma hex_byte_no_dot: "CHR ''.'' \<notin> set (hex_byte b)"
proof -
  have "list_all (\<lambda>n. CHR ''.'' \<noteq> hex_digit n) [0..<16]" by code_simp
  then have "\<And>n. n < 16 \<Longrightarrow> CHR ''.'' \<noteq> hex_digit n" unfolding list_all_iff by simp
  moreover have "unat b div 16 < 16" "unat b mod 16 < 16" using byte_less [of b] by simp_all
  ultimately show ?thesis by (simp add: hex_byte_def)
qed

lemma toy_hmac_no_dot: "CHR ''.'' \<notin> set (toy_hmac k m)"
  using hex_byte_no_dot by (auto simp: toy_hmac_def)

lemma example_login:
  "create_session toy_hmac [7] ''id'' 5000000 example_call \<lparr>api_key = Some ''k1'', signing_key = None\<rparr>
    = (Session_Created example_token True, \<lparr>api_key = Some ''k1'', signing_key = Some [7]\<rparr>)"
  by (simp add: create_session_def make_signed_token_def init_signing_key_def example_call_def session_candidate_def
      cookie_secure_def example_token_def Let_def)


definition auth_world :: session_world where
  "auth_world = \<lparr>clock = 5000000, auth = \<lparr>api_key = Some ''k1'', signing_key = Some [7]\<rparr>, logins = [(example_call, ''id'', 5000000)]\<rparr>"

lemma example_reach: "session_reach toy_hmac (\<lambda>r. r) (Some ''k1'') auth_world"
  using session_reach.login [OF session_reach.start [where t = 5000000 and key = "Some ''k1''"], of toy_hmac "[7]" "''id''" example_call] example_login
  by (simp add: auth_world_def)


end
