(* ===== verification/Regex_Match.thy ===== *)
theory Regex_Match
  imports Prelude
begin

text \<open>
  The part of Python's \<open>re\<close> the backend uses: a backtracking matcher with ordered choice, greedy and
  lazy repetition, groups and word boundaries, and the left-to-right search behind \<open>re.search\<close>,
  \<open>re.match\<close>, \<open>re.findall\<close> and \<open>re.sub\<close>. Characters are ASCII; a class under \<open>IGNORECASE\<close> is
  closed with \<open>ci\<close>.
\<close>

datatype regex =
    Cls "char \<Rightarrow> bool"
  | Emp
  | Seq regex regex
  | Alt regex regex
  | Rep bool nat "nat option" regex \<comment> \<open>greedy, least and greatest number of repetitions\<close>
  | Grp nat regex
  | Bound \<comment> \<open>\<open>\b\<close>\<close>
  | End_Of_Text \<comment> \<open>\<open>$\<close> at the very end\<close>

record cursor =
  prev_char :: "char option"
  ahead :: string
  groups :: "(nat \<times> string) list"

definition at_bound :: "cursor \<Rightarrow> bool" where
  "at_bound s = ((case prev_char s of None \<Rightarrow> False | Some c \<Rightarrow> is_word c)
     \<noteq> (case ahead s of [] \<Rightarrow> False | c # cs \<Rightarrow> is_word c))"

type_synonym matcher = "(cursor \<Rightarrow> cursor option) \<Rightarrow> cursor \<Rightarrow> cursor option"

text \<open>Repetition of a matcher; the fuel is the text ahead, since a round beyond the least number must consume.\<close>

fun repeat :: "nat \<Rightarrow> matcher \<Rightarrow> bool \<Rightarrow> nat \<Rightarrow> nat option \<Rightarrow> matcher" where
  "repeat 0 f greedy lo hi k s = (if lo = 0 then k s else None)"
| "repeat (Suc n) f greedy lo hi k s =
     (if 0 < lo then f (repeat n f greedy (lo - 1) (map_option (\<lambda>h. h - 1) hi) k) s
      else
        let again = (\<lambda>s'. if length (ahead s') < length (ahead s)
                         then repeat n f greedy 0 (map_option (\<lambda>h. h - 1) hi) k s' else None);
            more = (if hi = Some 0 then None else f again s)
        in if greedy then (case more of None \<Rightarrow> k s | Some r \<Rightarrow> Some r)
           else (case k s of None \<Rightarrow> more | Some r \<Rightarrow> Some r))"

primrec run_regex :: "regex \<Rightarrow> matcher" where
  "run_regex (Cls p) = (\<lambda>k s. case ahead s of
       [] \<Rightarrow> None
     | c # cs \<Rightarrow> if p c then k (s\<lparr>prev_char := Some c, ahead := cs\<rparr>) else None)"
| "run_regex Emp = (\<lambda>k s. k s)"
| "run_regex (Seq a b) = (\<lambda>k s. run_regex a (run_regex b k) s)"
| "run_regex (Alt a b) = (\<lambda>k s. case run_regex a k s of None \<Rightarrow> run_regex b k s | Some r \<Rightarrow> Some r)"
| "run_regex (Rep greedy lo hi a) = (\<lambda>k s. repeat (length (ahead s) + lo + 1) (run_regex a) greedy lo hi k s)"
| "run_regex (Grp i a) = (\<lambda>k s. run_regex a (\<lambda>s'. k (s'\<lparr>groups :=
       aput i (take (length (ahead s) - length (ahead s')) (ahead s)) (groups s')\<rparr>)) s)"
| "run_regex Bound = (\<lambda>k s. if at_bound s then k s else None)"
| "run_regex End_Of_Text = (\<lambda>k s. if ahead s = [] then k s else None)"

definition match_here :: "regex \<Rightarrow> char option \<Rightarrow> string \<Rightarrow> cursor option" where
  "match_here re prev s = run_regex re Some \<lparr>prev_char = prev, ahead = s, groups = []\<rparr>"

definition group :: "cursor \<Rightarrow> nat \<Rightarrow> string" where
  "group m i = (case map_of (groups m) i of None \<Rightarrow> [] | Some g \<Rightarrow> g)"

fun search_from :: "regex \<Rightarrow> char option \<Rightarrow> string \<Rightarrow> cursor option" where
  "search_from re prev [] = match_here re prev []"
| "search_from re prev (c # cs) =
     (case match_here re prev (c # cs) of None \<Rightarrow> search_from re (Some c) cs | Some m \<Rightarrow> Some m)"

definition re_search :: "regex \<Rightarrow> string \<Rightarrow> cursor option" where
  "re_search re s = search_from re None s"

text \<open>
  \<open>re.sub\<close> with a function of the match, for expressions that match no empty text; \<open>skip\<close> counts the
  characters of a match that are still to be passed over.
\<close>

fun sub_from :: "regex \<Rightarrow> (cursor \<Rightarrow> string) \<Rightarrow> char option \<Rightarrow> nat \<Rightarrow> string \<Rightarrow> string" where
  "sub_from re f prev skip [] = []"
| "sub_from re f prev 0 (c # cs) =
     (case match_here re prev (c # cs) of
        None \<Rightarrow> c # sub_from re f (Some c) 0 cs
      | Some m \<Rightarrow>
          if length (ahead m) < length (c # cs)
          then f m @ sub_from re f (Some c) (length cs - length (ahead m)) cs
          else c # sub_from re f (Some c) 0 cs)"
| "sub_from re f prev (Suc n) (c # cs) = sub_from re f (Some c) n cs"

definition re_sub :: "regex \<Rightarrow> (cursor \<Rightarrow> string) \<Rightarrow> string \<Rightarrow> string" where
  "re_sub re f s = sub_from re f None 0 s"

fun findall_from :: "regex \<Rightarrow> char option \<Rightarrow> nat \<Rightarrow> string \<Rightarrow> cursor list" where
  "findall_from re prev skip [] = []"
| "findall_from re prev 0 (c # cs) =
     (case match_here re prev (c # cs) of
        None \<Rightarrow> findall_from re (Some c) 0 cs
      | Some m \<Rightarrow>
          if length (ahead m) < length (c # cs)
          then m # findall_from re (Some c) (length cs - length (ahead m)) cs
          else findall_from re (Some c) 0 cs)"
| "findall_from re prev (Suc n) (c # cs) = findall_from re (Some c) n cs"

definition re_findall :: "regex \<Rightarrow> string \<Rightarrow> cursor list" where
  "re_findall re s = findall_from re None 0 s"

subsection \<open>Building expressions\<close>

definition ci :: "(char \<Rightarrow> bool) \<Rightarrow> char \<Rightarrow> bool" where
  "ci p c = (p c \<or> p (lower_char c) \<or> p (upper_char c))"

definition any_of :: "string \<Rightarrow> char \<Rightarrow> bool" where
  "any_of s c = (c \<in> set s)"

primrec lit :: "string \<Rightarrow> regex" where
  "lit [] = Emp"
| "lit (c # cs) = Seq (Cls (\<lambda>d. d = c)) (lit cs)"

primrec lit_ci :: "string \<Rightarrow> regex" where
  "lit_ci [] = Emp"
| "lit_ci (c # cs) = Seq (Cls (\<lambda>d. lower_char d = lower_char c)) (lit_ci cs)"

declare lit.simps [simp del] lit_ci.simps [simp del]

fun alts :: "regex list \<Rightarrow> regex" where
  "alts [] = Cls (\<lambda>c. False)"
| "alts [r] = r"
| "alts (r # rs) = Alt r (alts rs)"

fun seqs :: "regex list \<Rightarrow> regex" where
  "seqs [] = Emp"
| "seqs [r] = r"
| "seqs (r # rs) = Seq r (seqs rs)"

abbreviation many :: "(char \<Rightarrow> bool) \<Rightarrow> regex" where
  "many p \<equiv> Rep True 0 None (Cls p)"

abbreviation many1 :: "(char \<Rightarrow> bool) \<Rightarrow> regex" where
  "many1 p \<equiv> Rep True 1 None (Cls p)"

abbreviation opt :: "regex \<Rightarrow> regex" where
  "opt r \<equiv> Rep True 0 (Some 1) r"

text \<open>A greedy run over a class stops at the first character outside it, if what follows accepts there.\<close>

lemma repeat_class_stop:
  assumes "ahead s = t @ r" and "list_all p t" and "r = [] \<or> \<not> p (hd r)" and "length t \<le> n"
    and "lo \<le> length t" and "k (s\<lparr>prev_char := (if t = [] then prev_char s else Some (last t)), ahead := r\<rparr>) = Some m"
  shows "repeat n (run_regex (Cls p)) True lo None k s = Some m"
  using assms
proof (induction t arbitrary: n lo s)
  case Nil
  have s: "s\<lparr>ahead := r\<rparr> = s" using Nil.prems(1) by (cases s) simp
  show ?case
  proof (cases n)
    case 0
    then show ?thesis using Nil.prems s by simp
  next
    case (Suc n')
    have "r = [] \<or> (\<exists>c cs. r = c # cs \<and> \<not> p c)" using Nil.prems(3) by (cases r) auto
    then show ?thesis using Nil.prems s Suc by auto
  qed
next
  case (Cons c t)
  obtain n' where n: "n = Suc n'" using Cons.prems(4) by (cases n) auto
  let ?s = "s\<lparr>prev_char := Some c, ahead := t @ r\<rparr>"
  have pc: "p c" "list_all p t" using Cons.prems(2) by simp_all
  have fin: "k (?s\<lparr>prev_char := (if t = [] then prev_char ?s else Some (last t)), ahead := r\<rparr>) = Some m"
    using Cons.prems(6) by (cases "t = []") simp_all
  have ih: "repeat n' (run_regex (Cls p)) True lo' None k ?s = Some m" if "lo' \<le> length t" for lo'
    using Cons.prems(4) n that by (intro Cons.IH [OF _ pc(2) Cons.prems(3) _ _ fin]) simp_all
  show ?case
  proof (cases "0 < lo")
    case True
    then show ?thesis using ih [of "lo - 1"] Cons.prems(1,5) pc n by simp
  next
    case False
    then show ?thesis using ih [of 0] Cons.prems(1) pc n by simp
  qed
qed

lemma run_class_stop:
  assumes "list_all p t" and "r = [] \<or> \<not> p (hd r)" and "lo \<le> length t"
    and "k \<lparr>prev_char = (if t = [] then b else Some (last t)), ahead = r, groups = g\<rparr> = Some m"
  shows "run_regex (Rep True lo None (Cls p)) k \<lparr>prev_char = b, ahead = t @ r, groups = g\<rparr> = Some m"
  unfolding run_regex.simps(5)
  by (rule repeat_class_stop [OF _ assms(1,2) _ assms(3)]) (use assms(4) in \<open>cases "t = []"; simp\<close>)+

subsection \<open>Expressions that cannot match\<close>

definition dead :: "regex \<Rightarrow> cursor \<Rightarrow> bool" where
  "dead re s \<longleftrightarrow> (\<forall>k. run_regex re k s = None)"

lemma dead_Seq: "dead a s \<Longrightarrow> dead (Seq a b) s"
  by (simp add: dead_def)

lemma dead_Alt: "dead a s \<Longrightarrow> dead b s \<Longrightarrow> dead (Alt a b) s"
  by (simp add: dead_def)

lemma dead_Grp: "dead a s \<Longrightarrow> dead (Grp i a) s"
  by (simp add: dead_def)

lemma dead_lit_ci: "\<not> starts_with (py_lower (ahead s)) (py_lower w) \<Longrightarrow> dead (lit_ci w) s"
proof (induction w arbitrary: s)
  case (Cons c w)
  then show ?case
    by (cases "ahead s") (auto simp: dead_def py_lower_def lit_ci.simps)
qed (simp add: py_lower_def)

lemma dead_lit: "\<not> starts_with (py_lower (ahead s)) (py_lower w) \<Longrightarrow> dead (lit w) s"
proof (induction w arbitrary: s)
  case (Cons c w)
  then show ?case
    by (cases "ahead s") (auto simp: dead_def py_lower_def lit.simps)
qed (simp add: py_lower_def)

lemma dead_alts: "rs \<noteq> [] \<Longrightarrow> \<forall>r \<in> set rs. dead r s \<Longrightarrow> dead (alts rs) s"
  by (induction rs rule: alts.induct) (auto intro: dead_Alt)

lemma dead_seqs: "rs \<noteq> [] \<Longrightarrow> dead (hd rs) s \<Longrightarrow> dead (seqs rs) s"
  by (cases rs rule: seqs.cases) (auto intro: dead_Seq)

text \<open>Whether one of some lower-case words starts at some place of a text, whatever its case.\<close>

fun occurs_ci :: "string list \<Rightarrow> string \<Rightarrow> bool" where
  "occurs_ci ws [] = list_ex (\<lambda>w. w = []) ws"
| "occurs_ci ws (c # cs) = (list_ex (starts_with (py_lower (c # cs))) ws \<or> occurs_ci ws cs)"

definition headed :: "string list \<Rightarrow> regex \<Rightarrow> bool" where
  "headed ws re \<longleftrightarrow> (\<forall>s. \<not> list_ex (starts_with (py_lower (ahead s))) ws \<longrightarrow> dead re s)"

lemma sub_unheaded:
  assumes "headed ws re"
  shows "\<not> occurs_ci ws t \<Longrightarrow> sub_from re f b 0 t = t"
proof (induction t arbitrary: b)
  case (Cons c cs)
  have "match_here re b (c # cs) = None"
    using assms Cons.prems unfolding headed_def dead_def match_here_def
    by (metis (no_types, lifting) cursor.select_convs(2) occurs_ci.simps(2))
  then show ?case using Cons by simp
qed simp

lemma repeat_class_none:
  assumes "ahead s = t @ r" and "list_all p t" and "r = [] \<or> \<not> p (hd r)"
    and "\<And>s' i. lo \<le> i \<Longrightarrow> i \<le> length t \<Longrightarrow> ahead s' = drop i t @ r \<Longrightarrow> k s' = None"
  shows "repeat n (run_regex (Cls p)) True lo None k s = None"
  using assms
proof (induction n arbitrary: t lo s)
  case 0
  then show ?case using "0.prems"(4) [of 0 s] by simp
next
  case (Suc n)
  have stop: "lo = 0 \<Longrightarrow> k s = None" using Suc.prems(1) Suc.prems(4) [of 0 s] by simp
  show ?case
  proof (cases t)
    case Nil
    then have "r = [] \<or> (\<exists>c cs. r = c # cs \<and> \<not> p c)" using Suc.prems(3) by (cases r) auto
    then show ?thesis using Nil Suc.prems(1) stop by auto
  next
    case (Cons c t')
    let ?s = "s\<lparr>prev_char := Some c, ahead := t' @ r\<rparr>"
    have rest: "repeat n (run_regex (Cls p)) True (lo - 1) None k ?s = None"
    proof (rule Suc.IH [OF _ _ Suc.prems(3)])
      show "list_all p t'" using Suc.prems(2) Cons by simp
      fix s' :: cursor and i
      assume "lo - 1 \<le> i" "i \<le> length t'" "ahead s' = drop i t' @ r"
      then show "k s' = None" using Suc.prems(4) [of "Suc i" s'] Cons by simp
    qed simp
    have pc: "p c" using Suc.prems(2) Cons by simp
    show ?thesis
    proof (cases "0 < lo")
      case True
      then show ?thesis using rest pc Suc.prems(1) Cons by simp
    next
      case False
      then show ?thesis using rest pc Suc.prems(1) Cons stop by simp
    qed
  qed
qed

lemma run_class_fails:
  assumes "list_all p t" and "r = [] \<or> \<not> p (hd r)"
    and "\<And>s' i. lo \<le> i \<Longrightarrow> i \<le> length t \<Longrightarrow> ahead s' = drop i t @ r \<Longrightarrow> k s' = None"
  shows "ahead s = t @ r \<Longrightarrow> run_regex (Rep True lo None (Cls p)) k s = None"
  unfolding run_regex.simps(5) by (rule repeat_class_none [OF _ assms])

lemma run_lit_ci_none:
  "(\<And>s'. ahead s' = r \<Longrightarrow> k s' = None) \<Longrightarrow> ahead s = v @ r \<Longrightarrow> py_lower v = py_lower w \<Longrightarrow> run_regex (lit_ci w) k s = None"
proof (induction w arbitrary: s v)
  case Nil
  then show ?case by (simp add: lit_ci.simps py_lower_def)
next
  case (Cons c w)
  then obtain d v' where "v = d # v'" "lower_char d = lower_char c" "py_lower v' = py_lower w"
    by (auto simp: py_lower_def)
  then show ?case using Cons by (simp add: lit_ci.simps)
qed

lemma run_lit_none:
  "(\<And>s'. ahead s' = r \<Longrightarrow> k s' = None) \<Longrightarrow> ahead s = w @ r \<Longrightarrow> run_regex (lit w) k s = None"
  by (induction w arbitrary: s) (simp_all add: lit.simps)

subsection \<open>Following a match\<close>

lemma run_class_end:
  assumes "list_all p t" and "lo \<le> length t" and "k \<lparr>prev_char = (if t = [] then b else Some (last t)), ahead = [], groups = g\<rparr> = Some m"
  shows "run_regex (Rep True lo None (Cls p)) k \<lparr>prev_char = b, ahead = t, groups = g\<rparr> = Some m"
  using run_class_stop [OF assms(1) _ assms(2), of "[]" k b g m] assms(3) by simp

lemma run_class_one:
  assumes "p c" and "r = [] \<or> \<not> p (hd r)" and "lo \<le> 1" and "k \<lparr>prev_char = Some c, ahead = r, groups = g\<rparr> = Some m"
  shows "run_regex (Rep True lo None (Cls p)) k \<lparr>prev_char = b, ahead = c # r, groups = g\<rparr> = Some m"
  using run_class_stop [of p "[c]" r lo k b g m] assms by simp

lemma run_class_none:
  assumes "r = [] \<or> \<not> p (hd r)" and "k \<lparr>prev_char = b, ahead = r, groups = g\<rparr> = Some m"
  shows "run_regex (Rep True 0 None (Cls p)) k \<lparr>prev_char = b, ahead = r, groups = g\<rparr> = Some m"
  using run_class_stop [of p "[]" r 0 k b g m] assms by simp

lemma run_lit_exact:
  "w \<noteq> [] \<Longrightarrow> k \<lparr>prev_char = Some (last w), ahead = r, groups = g\<rparr> = Some m
    \<Longrightarrow> run_regex (lit_ci w) k \<lparr>prev_char = b, ahead = w @ r, groups = g\<rparr> = Some m"
  "w \<noteq> [] \<Longrightarrow> k \<lparr>prev_char = Some (last w), ahead = r, groups = g\<rparr> = Some m
    \<Longrightarrow> run_regex (lit w) k \<lparr>prev_char = b, ahead = w @ r, groups = g\<rparr> = Some m"
proof (induction w arbitrary: b)
  case (Cons c w)
  { case 1 then show ?case using Cons.IH(1) [of "Some c"] by (cases "w = []") (simp_all add: lit_ci.simps) }
  { case 2 then show ?case using Cons.IH(2) [of "Some c"] by (cases "w = []") (simp_all add: lit.simps) }
qed simp_all

lemma run_Seq_rule: "run_regex a (run_regex b k) s = Some m \<Longrightarrow> run_regex (Seq a b) k s = Some m"
  by simp

lemma run_Alt_left: "run_regex a k s = Some m \<Longrightarrow> run_regex (Alt a b) k s = Some m"
  by simp

lemma run_Grp_rule:
  "run_regex a (\<lambda>s'. k (s'\<lparr>groups := aput i (take (length (ahead s) - length (ahead s')) (ahead s)) (groups s')\<rparr>)) s = Some m
    \<Longrightarrow> run_regex (Grp i a) k s = Some m"
  by simp

lemma run_Seq_none: "run_regex a (run_regex b k) s = None \<Longrightarrow> run_regex (Seq a b) k s = None"
  by simp

lemma run_Alt_none: "run_regex a k s = None \<Longrightarrow> run_regex b k s = None \<Longrightarrow> run_regex (Alt a b) k s = None"
  by simp

lemma run_Grp_none:
  "run_regex a (\<lambda>s'. k (s'\<lparr>groups := aput i (take (length (ahead s) - length (ahead s')) (ahead s)) (groups s')\<rparr>)) s = None
    \<Longrightarrow> run_regex (Grp i a) k s = None"
  by simp

text \<open>The suffixes of a text at which one of the words starts.\<close>

fun spots :: "string list \<Rightarrow> string \<Rightarrow> string list" where
  "spots ws [] = []"
| "spots ws (c # cs) = (if list_ex (starts_with (py_lower (c # cs))) ws then [c # cs] else []) @ spots ws cs"

lemma sub_candidates:
  assumes "headed ws re" and "\<And>v b. v \<in> set (spots ws t) \<Longrightarrow> match_here re b v = None"
  shows "sub_from re f b 0 t = t"
  using assms(2)
proof (induction t arbitrary: b)
  case (Cons c cs)
  have "match_here re b (c # cs) = None"
  proof (cases "list_ex (starts_with (py_lower (c # cs))) ws")
    case True
    then show ?thesis using Cons.prems [of "c # cs"] by simp
  next
    case False
    then show ?thesis using assms(1) unfolding headed_def dead_def match_here_def
      by (metis (no_types, lifting) cursor.select_convs(2))
  qed
  moreover have "sub_from re f (Some c) 0 cs = cs"
    using Cons.prems by (intro Cons.IH) simp
  ultimately show ?case by simp
qed simp

end
