(* ===== verification/Redaction.thy ===== *)
theory Redaction
  imports Regex_Match Json_Value
begin

text \<open>
  \<open>backend/secuscan/redaction.py\<close>: the table of secret patterns, \<open>redact\<close> for texts, \<open>redact_dict\<close> for
  findings and payloads, \<open>redact_inputs\<close> for task inputs. The patterns are those of the code, run by
  the matcher of Regex_Match; each keeps its label group and replaces the value.
\<close>

definition REDACTED :: string where
  "REDACTED = ''[REDACTED]''"

subsection \<open>The patterns\<close>

definition alnum_or :: "string \<Rightarrow> char \<Rightarrow> bool" where
  "alnum_or s c = (is_alnum c \<or> c \<in> set s)"

abbreviation blank :: regex where
  "blank \<equiv> many is_ws"

definition quote_chars :: string where
  "quote_chars = [CHR 0x22, CHR 0x27]"

text \<open>\<open>[=:"'\s]{1,4}\<close>\<close>

definition assign_sep :: regex where
  "assign_sep = Rep True 1 (Some 4) (Cls (\<lambda>c. c \<in> set (''=:'' @ quote_chars) \<or> is_ws c))"

definition token_chars :: string where
  "token_chars = ''-._~+/''"

definition padding_re :: regex where
  "padding_re = Rep True 0 (Some 2) (Cls (\<lambda>c. c = CHR ''=''))"

record secret_pattern =
  pat_name :: string
  pat_groups :: nat
  pat_re :: regex

definition two_groups :: "string \<Rightarrow> regex \<Rightarrow> regex \<Rightarrow> secret_pattern" where
  "two_groups name label val = \<lparr>pat_name = name, pat_groups = 2, pat_re = Seq (Grp 1 label) (Grp 2 val)\<rparr>"

definition one_group :: "string \<Rightarrow> regex \<Rightarrow> secret_pattern" where
  "one_group name val = \<lparr>pat_name = name, pat_groups = 1, pat_re = Grp 1 val\<rparr>"

definition bearer_token :: secret_pattern where
  "bearer_token = two_groups ''bearer_token''
     (seqs [alts [lit_ci ''Authorization'', lit_ci ''authorization''], blank, lit '':'', blank, lit_ci ''Bearer'', many1 is_ws])
     (Seq (Rep True 16 None (Cls (alnum_or token_chars))) padding_re)"

definition basic_auth :: secret_pattern where
  "basic_auth = two_groups ''basic_auth''
     (seqs [alts [lit_ci ''Authorization'', lit_ci ''authorization''], blank, lit '':'', blank, lit_ci ''Basic'', many1 is_ws])
     (Seq (Rep True 8 None (Cls (alnum_or ''+/''))) padding_re)"

definition auth_header :: secret_pattern where
  "auth_header = two_groups ''auth_header''
     (seqs [alts [lit_ci ''Authorization'', lit_ci ''X-Auth-Token'', lit_ci ''X-Api-Key'', lit_ci ''X-Access-Token''],
            blank, lit '':'', blank])
     (Rep True 8 None (Cls (\<lambda>c. \<not> is_ws c)))"

definition bearer_inline :: secret_pattern where
  "bearer_inline = two_groups ''bearer_inline''
     (Seq (alts [lit_ci ''bearer'', lit_ci ''token'']) (many1 (\<lambda>c. c \<in> set (CHR 0x22 # '':='') \<or> is_ws c)))
     (Seq (Rep True 20 None (Cls (alnum_or token_chars))) padding_re)"

definition aws_access_key :: secret_pattern where
  "aws_access_key = one_group ''aws_access_key'' (Seq (lit_ci ''AKIA'') (Rep True 16 (Some 16) (Cls is_alnum)))"

definition aws_secret_key :: secret_pattern where
  "aws_secret_key = two_groups ''aws_secret_key''
     (seqs [lit_ci ''aws_secret_access_key'', blank, Cls (any_of ''=:''), blank])
     (Rep True 40 (Some 40) (Cls (alnum_or ''/+'')))"

definition key_kind :: regex where
  "key_kind = opt (alts [lit ''RSA '', lit ''EC ''])"

definition gcp_private_key :: secret_pattern where
  "gcp_private_key = \<lparr>pat_name = ''gcp_private_key'', pat_groups = 3, pat_re = seqs
     [Grp 1 (seqs [lit ''-----BEGIN '', key_kind, lit ''PRIVATE KEY-----'']),
      Grp 2 (Rep False 1 None (Cls (\<lambda>c. True))),
      Grp 3 (seqs [lit ''-----END '', key_kind, lit ''PRIVATE KEY-----''])]\<rparr>"

definition dash_opt :: regex where
  "dash_opt = opt (Cls (any_of ''_-''))"

definition api_key_pattern :: secret_pattern where
  "api_key_pattern = two_groups ''api_key''
     (Seq (alts [seqs [lit_ci ''api'', dash_opt, lit_ci ''key''], lit_ci ''apikey'',
                 seqs [lit_ci ''api'', dash_opt, lit_ci ''secret''], seqs [lit_ci ''secret'', dash_opt, lit_ci ''key''],
                 seqs [lit_ci ''client'', dash_opt, lit_ci ''secret''], seqs [lit_ci ''app'', dash_opt, lit_ci ''secret'']])
          (Seq blank assign_sep))
     (Rep True 8 None (Cls (alnum_or (token_chars @ ''!@#%^&*''))))"

definition password_pattern :: secret_pattern where
  "password_pattern = two_groups ''password''
     (Seq (alts [lit_ci ''password'', lit_ci ''passwd'', lit_ci ''pass'', lit_ci ''pwd'']) (Seq blank assign_sep))
     (Rep True 6 None (Cls (\<lambda>c. \<not> is_ws c \<and> c \<notin> set (quote_chars @ ''&;,''))))"

definition session_cookie :: secret_pattern where
  "session_cookie = two_groups ''session_cookie''
     (seqs [alts [seqs [lit_ci ''Set-Cookie'', blank, lit '':'', blank], seqs [lit_ci ''Cookie'', blank, lit '':'', blank]],
            Rep True 0 None (seqs [many1 (alnum_or ''_-''), blank, lit ''='', blank]),
            alts [Seq (lit_ci ''session'') (opt (lit_ci ''id'')), lit_ci ''PHPSESSID'', lit_ci ''auth_token'',
                  lit_ci ''access_token'', lit_ci ''refresh_token'', seqs [lit_ci ''csrf'', dash_opt, lit_ci ''token''],
                  seqs [lit_ci ''remember'', dash_opt, lit_ci ''token'']],
            blank, lit ''='', blank])
     (Rep True 8 None (Cls (alnum_or (token_chars @ ''%''))))"

definition vcs_token :: secret_pattern where
  "vcs_token = one_group ''vcs_token''
     (Alt (Seq (lit_ci ''glpat-'') (Rep True 20 None (Cls (alnum_or ''_-''))))
          (seqs [lit_ci ''gh'', Cls (ci (any_of ''pousr'')), lit ''_'', Rep True 36 None (Cls is_alnum)]))"

definition slack_token :: secret_pattern where
  "slack_token = one_group ''slack_token''
     (seqs [lit_ci ''xox'', Cls (ci (any_of ''bpas'')), lit ''-'', Rep True 16 None (Cls (alnum_or ''-''))])"

definition stripe_key :: secret_pattern where
  "stripe_key = one_group ''stripe_key''
     (seqs [lit_ci ''sk_'', alts [lit_ci ''live'', lit_ci ''test''], lit ''_'', Rep True 24 None (Cls is_alnum)])"

definition vault_ref :: secret_pattern where
  "vault_ref = two_groups ''vault_ref''
     (Seq (Alt (lit_ci ''vault://'') (seqs [lit_ci ''vault'', blank, lit '':'', blank])) blank)
     (many1 (alnum_or ''_-./''))"

definition hex_secret :: secret_pattern where
  "hex_secret = two_groups ''hex_secret''
     (Seq (alts [lit_ci ''token'', lit_ci ''secret'', lit_ci ''key'', lit_ci ''hash'', lit_ci ''salt'']) (Seq blank assign_sep))
     (Rep True 32 None (Cls (ci (any_of ''0123456789abcdef''))))"

definition secret_patterns :: "secret_pattern list" where
  "secret_patterns = [bearer_token, basic_auth, auth_header, bearer_inline, aws_access_key, aws_secret_key, gcp_private_key,
     api_key_pattern, password_pattern, session_cookie, vcs_token, slack_token, stripe_key, vault_ref, hex_secret]"

subsection \<open>Redaction\<close>

text \<open>What replaces a match: by the number of groups, the value alone, after its label, or between its markers.\<close>

definition replacement :: "nat \<Rightarrow> cursor \<Rightarrow> string" where
  "replacement n m =
     (if n = 2 then group m 1 @ REDACTED else if n = 3 then group m 1 @ REDACTED @ group m 3 else REDACTED)"

definition apply_pattern :: "secret_pattern \<Rightarrow> string \<Rightarrow> string" where
  "apply_pattern p text = re_sub (pat_re p) (replacement (pat_groups p)) text"

definition redact :: "string \<Rightarrow> string" where
  "redact text = (if text = [] then text else fold apply_pattern secret_patterns text)"

fun redact_value :: "json \<Rightarrow> json" where
  "redact_value (JStr s) = JStr (redact s)"
| "redact_value (JObj d) = JObj (map (\<lambda>kv. (fst kv, redact_value (snd kv))) d)"
| "redact_value (JList vs) = JList (map redact_value vs)"
| "redact_value v = v"

definition redact_dict :: "dict \<Rightarrow> dict" where
  "redact_dict d = map (\<lambda>kv. (fst kv, redact_value (snd kv))) d"

definition sensitive_input_keys :: "string list" where
  "sensitive_input_keys = [''api_key'', ''apikey'', ''api_secret'', ''secret'', ''secret_key'', ''password'', ''passwd'',
     ''pass'', ''pwd'', ''token'', ''access_token'', ''refresh_token'', ''auth'', ''auth_token'', ''authorization'',
     ''credentials'', ''private_key'', ''client_secret'', ''webhook_secret'', ''signing_key'', ''encryption_key'']"

definition redact_inputs :: "dict \<Rightarrow> dict" where
  "redact_inputs inputs =
     map (\<lambda>kv. (fst kv, if py_lower (fst kv) \<in> set sensitive_input_keys then JStr REDACTED else redact_value (snd kv))) inputs"

subsection \<open>Texts without a trigger\<close>

text \<open>The lower-case words one of which every match starts with: of the first four patterns, and of the others.\<close>

definition header_triggers :: "string list" where
  "header_triggers = [''authorization'', ''x-auth-token'', ''x-api-key'', ''x-access-token'', ''bearer'', ''token'']"

definition other_triggers :: "string list" where
  "other_triggers = [''akia'', ''aws_secret_access_key'', ''-----begin '', ''api'', ''secret'', ''client'', ''app'', ''password'',
     ''passwd'', ''pass'', ''pwd'', ''set-cookie'', ''cookie'', ''glpat-'', ''gh'', ''xox'', ''sk_'', ''vault'', ''token'', ''key'',
     ''hash'', ''salt'', ''apikey'', ''vault://'']"

definition triggers :: "string list" where
  "triggers = header_triggers @ other_triggers"

lemma headedI:
  assumes "\<And>s. \<forall>w \<in> set ws. \<not> starts_with (py_lower (ahead s)) w \<Longrightarrow> dead re s"
  shows "headed ws re"
  using assms by (simp add: headed_def list_ex_iff)

lemma words_dead:
  assumes "\<forall>w \<in> set ws. \<not> starts_with (py_lower (ahead s)) w" and "list_all (\<lambda>w. py_lower w = w) ws"
  shows "list_all (\<lambda>w. dead (lit_ci w) s \<and> dead (lit w) s) ws"
  using assms by (simp add: list_all_iff dead_lit_ci dead_lit)

lemma capital_words:
  "py_lower ''authorization'' = ''authorization''" "py_lower ''Authorization'' = ''authorization''" "py_lower ''X-Auth-Token'' = ''x-auth-token''"
  "py_lower ''X-Api-Key'' = ''x-api-key''" "py_lower ''X-Access-Token'' = ''x-access-token''" "py_lower ''AKIA'' = ''akia''"
  "py_lower ''-----BEGIN '' = ''-----begin ''" "py_lower ''Set-Cookie'' = ''set-cookie''" "py_lower ''Cookie'' = ''cookie''"
  "list_all (\<lambda>w. py_lower w = w) header_triggers" "list_all (\<lambda>w. py_lower w = w) other_triggers"
  by code_simp+

lemmas pattern_defs = bearer_token_def basic_auth_def auth_header_def bearer_inline_def aws_access_key_def
  aws_secret_key_def gcp_private_key_def api_key_pattern_def password_pattern_def session_cookie_def vcs_token_def
  slack_token_def stripe_key_def vault_ref_def hex_secret_def two_groups_def one_group_def

lemma other_patterns_dead:
  assumes w: "\<forall>w \<in> set other_triggers. \<not> starts_with (py_lower (ahead (s :: cursor))) w" and "p \<in> set (drop 4 secret_patterns)"
  shows "dead (pat_re p) s"
proof -
  note dl = words_dead [OF w capital_words(11), unfolded other_triggers_def list.pred_inject]
  have "dead (lit_ci ''AKIA'') s" "dead (lit ''-----BEGIN '') s" "dead (lit_ci ''Set-Cookie'') s" "dead (lit_ci ''Cookie'') s"
    using w by (simp_all add: dead_lit_ci dead_lit capital_words other_triggers_def)
  note ds = this
  have "list_all (\<lambda>p. dead (pat_re p) s) (drop 4 secret_patterns)"
    unfolding secret_patterns_def pattern_defs by (simp add: dead_Seq dead_Alt dead_Grp ds dl)
  then show ?thesis using assms(2) by (simp add: list_all_iff)
qed

lemma header_patterns_dead:
  assumes w: "\<forall>w \<in> set header_triggers. \<not> starts_with (py_lower (ahead (s :: cursor))) w" and "p \<in> set (take 4 secret_patterns)"
  shows "dead (pat_re p) s"
proof -
  note dl = words_dead [OF w capital_words(10), unfolded header_triggers_def list.pred_inject]
  have "dead (lit_ci ''Authorization'') s" "dead (lit_ci ''X-Auth-Token'') s" "dead (lit_ci ''X-Api-Key'') s" "dead (lit_ci ''X-Access-Token'') s"
    using w by (simp_all add: dead_lit_ci capital_words header_triggers_def)
  note ds = this
  have "list_all (\<lambda>p. dead (pat_re p) s) (take 4 secret_patterns)"
    unfolding secret_patterns_def pattern_defs by (simp add: dead_Seq dead_Alt dead_Grp ds dl)
  then show ?thesis using assms(2) by (simp add: list_all_iff)
qed

lemma all_patterns_headed: "p \<in> set secret_patterns \<Longrightarrow> headed triggers (pat_re p)"
proof (rule headedI)
  fix s :: cursor
  assume p: "p \<in> set secret_patterns" and w: "\<forall>w \<in> set triggers. \<not> starts_with (py_lower (ahead s)) w"
  have "set secret_patterns = set (take 4 secret_patterns) \<union> set (drop 4 secret_patterns)"
    by (metis append_take_drop_id set_append)
  then show "dead (pat_re p) s"
    using p w header_patterns_dead [of s p] other_patterns_dead [of s p] by (auto simp: triggers_def)
qed

lemma fold_unheaded: "\<forall>p \<in> set ps. headed ws (pat_re p) \<Longrightarrow> \<not> occurs_ci ws t \<Longrightarrow> fold apply_pattern ps t = t"
proof (induction ps)
  case (Cons p ps)
  have "apply_pattern p t = t"
    using Cons.prems sub_unheaded [of ws "pat_re p"] by (simp add: apply_pattern_def re_sub_def)
  then show ?case using Cons by simp
qed simp

lemma padding_at_end: "run_regex padding_re k \<lparr>prev_char = b, ahead = [], groups = g\<rparr> = k \<lparr>prev_char = b, ahead = [], groups = g\<rparr>"
  by (cases "k \<lparr>prev_char = b, ahead = [], groups = g\<rparr>") (simp_all add: padding_re_def)

lemma token_char_no_ws: "alnum_or token_chars c \<Longrightarrow> \<not> is_ws c"
  by (auto simp: alnum_or_def token_chars_def is_alnum_def is_ws_def is_digit_def is_upper_def is_lower_def char_nat_def Let_def)

lemma bearer_matches:
  assumes "list_all (alnum_or token_chars) t" and "16 \<le> length t"
  shows "match_here (pat_re bearer_token) None (''Authorization'' @ '':'' @ CHR '' '' # ''Bearer'' @ CHR '' '' # t)
    = Some \<lparr>prev_char = Some (last t), ahead = [], groups = [(1, ''Authorization: Bearer ''), (2, t)]\<rparr>"
proof -
  have ne: "t \<noteq> []" using assms(2) by auto
  then have hd: "t = [] \<or> \<not> is_ws (hd t)" using assms(1) token_char_no_ws by (cases t) auto
  have ws: "is_ws (CHR '' '')" "'':'' @ r = [] \<or> \<not> is_ws (hd ('':'' @ r))" "''Bearer'' @ r = [] \<or> \<not> is_ws (hd (''Bearer'' @ r))" for r
    by (simp_all add: is_ws_def char_nat_def)
  show ?thesis
    unfolding match_here_def bearer_token_def two_groups_def secret_pattern.simps seqs.simps alts.simps
    apply (intro run_Seq_rule run_Grp_rule run_Alt_left)
    apply (rule run_lit_exact(1), simp, rule run_Seq_rule, rule run_class_none, rule ws)
    apply (rule run_Seq_rule, rule run_lit_exact(2), simp, rule run_Seq_rule, rule run_class_one [OF ws(1) ws(3)], simp)
    apply (rule run_Seq_rule, rule run_lit_exact(1), simp, rule run_class_one [OF ws(1) hd], simp)
    apply (simp del: run_regex.simps)
    apply (rule run_Grp_rule, rule run_Seq_rule, rule run_class_end [OF assms])
    apply (simp add: ne padding_at_end)
    done
qed

text \<open>No expression matches the redacted header again: three patterns start with one of its words but go on differently.\<close>

definition redacted_header :: string where
  "redacted_header = ''Authorization: Bearer [REDACTED]''"

lemma bearer_redacted:
  assumes "list_all (alnum_or token_chars) t" and "16 \<le> length t"
  shows "apply_pattern bearer_token (''Authorization: Bearer '' @ t) = redacted_header"
proof -
  have m: "match_here (pat_re bearer_token) None (CHR ''A'' # ''uthorization: Bearer '' @ t)
    = Some \<lparr>prev_char = Some (last t), ahead = [], groups = [(1, ''Authorization: Bearer ''), (2, t)]\<rparr>"
    using bearer_matches [OF assms] by simp
  have skip: "sub_from re f b (length cs) cs = []" for re f b and cs :: string
    by (induction cs arbitrary: b) simp_all
  show ?thesis
    using m skip [of "pat_re bearer_token" "replacement 2" "Some (CHR ''A'')" "''uthorization: Bearer '' @ t"]
    by (simp add: apply_pattern_def re_sub_def bearer_token_def two_groups_def replacement_def group_def REDACTED_def redacted_header_def)
qed

lemma blank_chars: "is_ws (CHR '' '')" "\<not> is_ws (CHR '':'')" "\<not> is_ws (CHR ''B'')" "\<not> is_ws (CHR ''['')"
  by (simp_all add: is_ws_def char_nat_def)

lemma colon_none:
  assumes k: "\<And>s'. ahead s' = ''Bearer [REDACTED]'' \<or> ahead s' = '' Bearer [REDACTED]'' \<Longrightarrow> k s' = None"
    and s: "ahead s = '': Bearer [REDACTED]''"
  shows "run_regex blank (run_regex (lit '':'') (run_regex blank k)) s = None"
proof (rule run_class_fails [of is_ws "[]" "'': Bearer [REDACTED]''"])
  have inner: "run_regex blank k s2 = None" if "ahead s2 = '' Bearer [REDACTED]''" for s2
  proof (rule run_class_fails [of is_ws "'' ''" "''Bearer [REDACTED]''"])
    fix s' :: cursor and i
    assume "i \<le> length '' ''" "ahead s' = drop i '' '' @ ''Bearer [REDACTED]''"
    then show "k s' = None" using k [of s'] by (cases i) simp_all
  qed (simp_all add: blank_chars that)
  fix s' :: cursor and i
  assume "i \<le> length []" "ahead s' = drop i [] @ '': Bearer [REDACTED]''"
  then have "ahead s' = '':'' @ '' Bearer [REDACTED]''" by simp
  then show "run_regex (lit '':'') (run_regex blank k) s' = None"
    by (intro run_lit_none [where r = "'' Bearer [REDACTED]''" and k = "run_regex blank k" and w = "'':''"] inner)
qed (simp_all add: blank_chars s)

lemma header_none:
  assumes k: "\<And>s'. ahead s' = ''Bearer [REDACTED]'' \<or> ahead s' = '' Bearer [REDACTED]'' \<Longrightarrow> k s' = None"
    and s: "ahead s = redacted_header" and w: "py_lower w = ''authorization''"
  shows "run_regex (lit_ci w) (run_regex blank (run_regex (lit '':'') (run_regex blank k))) s = None"
  by (rule run_lit_ci_none [OF colon_none [OF k], where r = "'': Bearer [REDACTED]''" and v = "''Authorization''"])
    (simp_all add: s w capital_words redacted_header_def)

lemma short_word: "run_regex (Rep True 8 None (Cls (\<lambda>c. \<not> is_ws c))) k s = None"
  if "ahead s = ''Bearer [REDACTED]'' \<or> ahead s = '' Bearer [REDACTED]''"
  using that
proof
  assume "ahead s = ''Bearer [REDACTED]''"
  then show ?thesis
    by (intro run_class_fails [of _ "''Bearer''" "'' [REDACTED]''"]) (simp_all add: is_ws_def char_nat_def)
next
  assume "ahead s = '' Bearer [REDACTED]''"
  then show ?thesis by (intro run_class_fails [of _ "[]" "'' Bearer [REDACTED]''"]) (simp_all add: blank_chars)
qed

lemma basic_none: "match_here (pat_re basic_auth) b redacted_header = None"
proof -
  have d: "run_regex (lit_ci ''Basic'') k s = None" if "ahead s = ''Bearer [REDACTED]'' \<or> ahead s = '' Bearer [REDACTED]''" for k s
  proof -
    have "\<not> starts_with (py_lower (ahead s)) (py_lower ''Basic'')"
      using that by (elim disjE) (simp_all only:, code_simp+)
    then show ?thesis using dead_lit_ci [of s "''Basic''"] by (simp add: dead_def)
  qed
  show ?thesis
    unfolding match_here_def basic_auth_def two_groups_def secret_pattern.simps seqs.simps alts.simps
    by (rule run_Seq_none, rule run_Grp_none, rule run_Seq_none, unfold run_regex.simps(3), rule run_Alt_none)
      (rule header_none, simp add: d, simp, simp add: capital_words)+
qed

lemma auth_header_none: "match_here (pat_re auth_header) b redacted_header = None"
proof -
  have d: "run_regex (lit_ci w) k \<lparr>prev_char = b, ahead = redacted_header, groups = []\<rparr> = None"
    if "w \<in> {''X-Auth-Token'', ''X-Api-Key'', ''X-Access-Token''}" for w k
  proof -
    have "list_all (\<lambda>w. \<not> starts_with (py_lower redacted_header) (py_lower w)) [''X-Auth-Token'', ''X-Api-Key'', ''X-Access-Token'']"
      by code_simp
    then show ?thesis using that dead_lit_ci [of "\<lparr>prev_char = b, ahead = redacted_header, groups = []\<rparr>" w]
      by (auto simp: dead_def)
  qed
  show ?thesis
    unfolding match_here_def auth_header_def two_groups_def secret_pattern.simps seqs.simps alts.simps
    by (rule run_Seq_none, rule run_Grp_none, rule run_Seq_none, unfold run_regex.simps(3), rule run_Alt_none, rule header_none,
        rule run_Grp_none, rule short_word, simp, simp, simp add: capital_words, simp add: d)
qed

lemma inline_none: "match_here (pat_re bearer_inline) b ''Bearer [REDACTED]'' = None"
proof -
  let ?s = "\<lparr>prev_char = b, ahead = ''Bearer [REDACTED]'', groups = []\<rparr>"
  have t: "run_regex (lit_ci ''token'') k ?s = None" for k
  proof -
    have "\<not> starts_with (py_lower ''Bearer [REDACTED]'') (py_lower ''token'')" by code_simp
    then show ?thesis using dead_lit_ci [of ?s "''token''"] by (simp add: dead_def)
  qed
  have value_none: "run_regex (Seq (Rep True 20 None (Cls (alnum_or token_chars))) padding_re) k s = None"
    if "ahead s = ''[REDACTED]''" for k s
    by (rule run_Seq_none, rule run_class_fails [of _ "[]" "''[REDACTED]''"])
      (simp_all add: that alnum_or_def token_chars_def is_alnum_def is_digit_def is_upper_def is_lower_def char_nat_def)
  have sep: "run_regex (many1 (\<lambda>c. c \<in> set (CHR 0x22 # '':='') \<or> is_ws c)) k s = None"
    if "\<And>s'. ahead s' = ''[REDACTED]'' \<Longrightarrow> k s' = None" "ahead s = '' [REDACTED]''" for k s
  proof (rule run_class_fails [of _ "'' ''" "''[REDACTED]''"])
    fix s' :: cursor and i
    assume "1 \<le> i" "i \<le> length '' ''" "ahead s' = drop i '' '' @ ''[REDACTED]''"
    then show "k s' = None" using that(1) [of s'] by (cases i) simp_all
  qed (simp_all add: that(2) blank_chars)
  have low: "py_lower ''Bearer'' = py_lower ''bearer''" by code_simp
  show ?thesis
    unfolding match_here_def bearer_inline_def two_groups_def secret_pattern.simps seqs.simps alts.simps
    by (rule run_Seq_none, rule run_Grp_none, rule run_Seq_none, rule run_Alt_none,
        rule run_lit_ci_none [OF sep, where r = "'' [REDACTED]''" and v = "''Bearer''"], rule run_Grp_none, rule value_none)
      (simp_all add: low t)
qed

definition auth_words :: "string list" where
  "auth_words = [''authorization'', ''x-auth-token'', ''x-api-key'', ''x-access-token'']"

lemma inline_words: "py_lower ''bearer'' = ''bearer''" "py_lower ''token'' = ''token''"
  by code_simp+

lemma header_unchanged: "p \<in> set (tl secret_patterns) \<Longrightarrow> apply_pattern p redacted_header = redacted_header"
proof -
  have words: "\<not> occurs_ci other_triggers redacted_header" by code_simp
  have at: "spots auth_words redacted_header = [redacted_header]"
    "spots [''bearer'', ''token''] redacted_header = [''Bearer [REDACTED]'']"
    by code_simp+
  have three: "apply_pattern p redacted_header = redacted_header" if "p \<in> {basic_auth, auth_header, bearer_inline}"
  proof -
    have "headed auth_words (pat_re basic_auth)" "headed auth_words (pat_re auth_header)" "headed [''bearer'', ''token''] (pat_re bearer_inline)"
      by (rule headedI, simp add: pattern_defs auth_words_def dead_Seq dead_Alt dead_Grp dead_lit_ci capital_words inline_words)+
    note h = this
    have "apply_pattern basic_auth redacted_header = redacted_header"
      unfolding apply_pattern_def re_sub_def using at(1) basic_none by (intro sub_candidates [OF h(1)]) simp
    moreover have "apply_pattern auth_header redacted_header = redacted_header"
      unfolding apply_pattern_def re_sub_def using at(1) auth_header_none by (intro sub_candidates [OF h(2)]) simp
    moreover have "apply_pattern bearer_inline redacted_header = redacted_header"
      unfolding apply_pattern_def re_sub_def using at(2) inline_none by (intro sub_candidates [OF h(3)]) simp
    ultimately show ?thesis using that by auto
  qed
  assume "p \<in> set (tl secret_patterns)"
  then have "p \<in> {basic_auth, auth_header, bearer_inline} \<or> p \<in> set (drop 4 secret_patterns)"
    by (auto simp: secret_patterns_def)
  then show ?thesis
  proof
    assume "p \<in> set (drop 4 secret_patterns)"
    then have "headed other_triggers (pat_re p)" by (intro headedI other_patterns_dead)
    then show ?thesis using words by (simp add: apply_pattern_def re_sub_def sub_unheaded)
  qed (rule three)
qed

lemma fold_unchanged: "\<forall>p \<in> set ps. apply_pattern p t = t \<Longrightarrow> fold apply_pattern ps t = t"
  by (induction ps) simp_all

lemma redact_ordinary: "\<not> occurs_ci triggers t \<Longrightarrow> redact t = t"
  using fold_unheaded [of secret_patterns triggers t] all_patterns_headed by (simp add: redact_def)

subsection \<open>Properties\<close>

text \<open>A text in which no trigger word of a pattern occurs, in any case, is left as it is, and a bearer token
  after an \<open>Authorization\<close> header is replaced as a whole, whatever its characters and its length
  (at least 16): nothing of the token is left, and the other fourteen patterns leave the result alone.\<close>

theorem redaction_exact:
  "(\<not> occurs_ci triggers t \<longrightarrow> redact t = t)
   \<and> (list_all (alnum_or token_chars) secret \<and> 16 \<le> length secret
      \<longrightarrow> redact (''Authorization: Bearer '' @ secret) = ''Authorization: Bearer [REDACTED]'')"
proof (intro conjI impI)
  assume "\<not> occurs_ci triggers t"
  then show "redact t = t" by (rule redact_ordinary)
next
  assume t: "list_all (alnum_or token_chars) secret \<and> 16 \<le> length secret"
  have "redact (''Authorization: Bearer '' @ secret)
      = fold apply_pattern (tl secret_patterns) (apply_pattern bearer_token (''Authorization: Bearer '' @ secret))"
    by (simp add: redact_def secret_patterns_def)
  also have "\<dots> = redacted_header"
    using bearer_redacted t header_unchanged by (simp add: fold_unchanged)
  finally show "redact (''Authorization: Bearer '' @ secret) = ''Authorization: Bearer [REDACTED]''"
    by (simp add: redacted_header_def)
qed

theorem redaction_exact_witness:
  "redact ''open port 22'' = ''open port 22'' \<and> redact (''Authorization: Bearer '' @ replicate 20 (CHR ''x'')) = ''Authorization: Bearer [REDACTED]''"
proof -
  have "\<not> occurs_ci triggers ''open port 22''" by code_simp
  moreover have "list_all (alnum_or token_chars) (replicate 20 (CHR ''x''))" by code_simp
  ultimately show ?thesis
    using redaction_exact [of "''open port 22''" "replicate 20 (CHR ''x'')"] by simp
qed

text \<open>C26: The shown inputs of a task do not depend on the values of its sensitive inputs: two inputs with the
  same keys whose values differ only under keys of the list (in any case) are shown the same, every
  such value is the placeholder, keys and their order are kept, and a value that is no text,
  mapping or list is kept as it is.\<close>

theorem sensitive_inputs_hidden:
  assumes "list_all2 (\<lambda>kv kv'. fst kv = fst kv' \<and> (py_lower (fst kv) \<notin> set sensitive_input_keys \<longrightarrow> snd kv = snd kv')) d d'"
  shows "redact_inputs d = redact_inputs d' \<and> map fst (redact_inputs d) = map fst d
    \<and> (\<forall>(k, v) \<in> set (redact_inputs d). py_lower k \<in> set sensitive_input_keys \<longrightarrow> v = JStr REDACTED)
    \<and> (\<forall>(k, v) \<in> set d. py_lower k \<notin> set sensitive_input_keys \<longrightarrow> (k, redact_value v) \<in> set (redact_inputs d)
         \<and> (v \<in> {JNull, JBool True, JBool False} \<union> range JInt \<union> range JFloat \<longrightarrow> (k, v) \<in> set (redact_inputs d)))"
proof -
  have "redact_inputs d = redact_inputs d'"
    using assms by (induction rule: list_all2_induct) (auto simp: redact_inputs_def)
  moreover have "map fst (redact_inputs d) = map fst d"
    by (simp add: redact_inputs_def)
  moreover have kept: "(k, v) \<in> set d \<Longrightarrow> py_lower k \<notin> set sensitive_input_keys \<Longrightarrow> (k, redact_value v) \<in> set (redact_inputs d)" for k v
    by (force simp: redact_inputs_def)
  moreover have "v \<in> {JNull, JBool True, JBool False} \<union> range JInt \<union> range JFloat \<Longrightarrow> redact_value v = v" for v
    by auto
  ultimately show ?thesis by (fastforce simp: redact_inputs_def)
qed

theorem sensitive_inputs_hidden_witness:
  "redact_inputs [(''Password'', JStr ''a1''), (''port'', JInt 80)] = redact_inputs [(''Password'', JStr ''b2''), (''port'', JInt 80)]
   \<and> (''Password'', JStr REDACTED) \<in> set (redact_inputs [(''Password'', JStr ''a1''), (''port'', JInt 80)])"
proof -
  have "py_lower ''Password'' \<in> set sensitive_input_keys" by code_simp
  then show ?thesis
    using sensitive_inputs_hidden [of "[(''Password'', JStr ''a1''), (''port'', JInt 80)]" "[(''Password'', JStr ''b2''), (''port'', JInt 80)]"]
    by (simp add: redact_inputs_def)
qed

text \<open>Only the keys of the outermost mapping are compared: a password one level down is shown.\<close>

lemma nested_secret_shown:
  "redact_inputs [(''config'', JObj [(''password'', JStr ''hunter2'')])] = [(''config'', JObj [(''password'', JStr ''hunter2'')])]"
proof -
  have "\<not> occurs_ci triggers ''hunter2''" by code_simp
  then have "redact ''hunter2'' = ''hunter2''" by (rule redact_ordinary)
  moreover have "py_lower ''config'' \<notin> set sensitive_input_keys" by code_simp
  ultimately show ?thesis by (simp add: redact_inputs_def)
qed

end
