(* ===== verification/Webhook_Delivery.thy ===== *)
theory Webhook_Delivery
  imports Redaction Json_Text Target_Validation
begin

text \<open>
  The outbound half of \<open>backend/secuscan/notification_service.py\<close>: alert payloads (\<open>build_alert_payload\<close>),
  the webhook sender with its address checks (\<open>send_webhook\<close>) and the mail sender (\<open>send_email\<close>).
  Name resolution, the HTTP client and the SMTP server are parameters; an argument \<open>n\<close> numbers their uses, so
  they may answer differently each time. Every connection made is recorded as a \<open>contact\<close>.
  \<open>None\<close> of a sender is an exception that leaves it (a port that is no number, a value without
  \<open>upper\<close>).
\<close>

subsection \<open>Payloads\<close>

definition notify_rank :: "string \<rightharpoonup> nat" where
  "notify_rank = map_of [(''critical'', 0), (''high'', 1), (''medium'', 2), (''low'', 3), (''info'', 4)]"

definition severity_meets_threshold :: "string \<Rightarrow> string \<Rightarrow> bool" where
  "severity_meets_threshold finding_severity rule_threshold =
     (case (notify_rank (py_lower finding_severity), notify_rank (py_lower rule_threshold)) of
        (Some f, Some t) \<Rightarrow> f \<le> t
      | _ \<Rightarrow> False)"

record notification_rule =
  rule_id :: string
  rule_name :: string
  rule_owner :: string
  severity_threshold :: string
  channel_type :: string
  target_address :: string
  is_active :: bool
  created_at :: int
  updated_at :: int

definition alert_metadata :: "(rat \<Rightarrow> rat) \<Rightarrow> (json \<Rightarrow> string) \<Rightarrow> json \<Rightarrow> dict" where
  "alert_metadata fl show raw =
     (if \<not> truthy raw then []
      else case raw of
          JStr txt \<Rightarrow> (case loads fl txt of
              Some (JObj d) \<Rightarrow> redact_inputs d
            | Some other \<Rightarrow> []
            | None \<Rightarrow> [(''raw'', JStr txt)])
        | other \<Rightarrow> [(''raw'', JStr (show other))])"

text \<open>\<open>redact(value or "")\<close>; a value that is no text is returned unchanged.\<close>

definition redact_or_empty :: "json \<Rightarrow> json" where
  "redact_or_empty v = (case jor v (JStr []) of JStr s \<Rightarrow> JStr (redact s) | other \<Rightarrow> other)"

definition build_alert_payload ::
  "(rat \<Rightarrow> rat) \<Rightarrow> (json \<Rightarrow> string) \<Rightarrow> dict \<Rightarrow> notification_rule \<Rightarrow> dict" where
  "build_alert_payload fl show finding rule = redact_dict
     [(''event'', JStr ''finding.alert''),
      (''rule'', JObj [(''id'', JStr (rule_id rule)), (''name'', JStr (rule_name rule)),
          (''severity_threshold'', JStr (severity_threshold rule)), (''channel_type'', JStr (channel_type rule))]),
      (''finding'', JObj [(''id'', jget finding ''id''), (''task_id'', jget finding ''task_id''),
          (''plugin_id'', jget finding ''plugin_id''), (''title'', jget finding ''title''),
          (''category'', jget finding ''category''), (''severity'', jget finding ''severity''),
          (''target'', redact_or_empty (jget finding ''target'')), (''description'', jget finding ''description''),
          (''remediation'', jget finding ''remediation''),
          (''metadata'', JObj (alert_metadata fl show (jget finding ''metadata_json'')))])]"

subsection \<open>Webhooks\<close>

text \<open>An answer with its status and \<open>Location\<close>, or an \<open>HTTPError\<close> or \<open>OSError\<close> of the client.\<close>

datatype http_reply = Http_Status int "string option" | Http_Failed string

text \<open>The address connected to, the name presented (as \<open>Host\<close> or for TLS), the scheme and what is sent.\<close>

record contact =
  contact_ip :: string
  contact_host :: string
  contact_scheme :: string
  contact_body :: dict

record mail =
  mail_to :: string
  mail_subject :: string
  mail_fields :: "string list"

text \<open>The outside world: resolver (host and port), HTTP client, SMTP; the settings that matter here.\<close>

record outside =
  resolve :: "nat \<Rightarrow> string \<Rightarrow> int \<Rightarrow> string list option"
  http_post :: "nat \<Rightarrow> contact \<Rightarrow> http_reply"
  smtp_send :: "nat \<Rightarrow> mail \<Rightarrow> string option"
  smtp_configured :: bool
  blocked_ranges :: "string list"

text \<open>The first blocked address decides; otherwise the valid addresses in order.\<close>

fun validate_addrs :: "string list \<Rightarrow> string list \<Rightarrow> string + string list" where
  "validate_addrs ranges [] = Inr []"
| "validate_addrs ranges (a # addrs) =
     (case ip_address a of
        None \<Rightarrow> validate_addrs ranges addrs
      | Some ip \<Rightarrow>
          (case covering_range ranges ip of
             Some r \<Rightarrow> Inl r
           | None \<Rightarrow> map_sum id ((#) a) (validate_addrs ranges addrs)))"

text \<open>The addresses of a redirect: \<open>None\<close> if one is malformed before a blocked one, else the blocked range, if any.\<close>

fun redirect_addrs :: "string list \<Rightarrow> string list \<Rightarrow> string option option" where
  "redirect_addrs ranges [] = Some None"
| "redirect_addrs ranges (a # addrs) =
     (case ip_address a of
        None \<Rightarrow> None
      | Some ip \<Rightarrow>
          (case covering_range ranges ip of
             Some r \<Rightarrow> Some (Some r)
           | None \<Rightarrow> redirect_addrs ranges addrs))"

definition redirect_codes :: "int list" where
  "redirect_codes = [301, 302, 303, 307, 308]"

text \<open>The checks on a redirect answer; every outcome is a failed delivery, \<open>None\<close> an exception.\<close>

definition judge_redirect :: "outside \<Rightarrow> nat \<Rightarrow> int \<Rightarrow> string option \<Rightarrow> string option" where
  "judge_redirect w n code location =
     (let redirect_url = (case location of None \<Rightarrow> [] | Some l \<Rightarrow> l);
          answered = ''Webhook returned HTTP '' @ int_str code
      in if redirect_url = [] then Some (answered @ '' with no Location header, payload not delivered'')
         else case urlsplit redirect_url of
             None \<Rightarrow> None
           | Some (scheme, netloc) \<Rightarrow>
               (case url_hostname netloc of
                  None \<Rightarrow> Some (answered @ '' redirect with no hostname: '' @ redirect_url @ '', payload not delivered'')
                | Some h \<Rightarrow>
                    (case url_port netloc of
                       Inl e \<Rightarrow> None
                     | Inr port \<Rightarrow>
                         (case resolve w n h (case port of None \<Rightarrow> 443 | Some p \<Rightarrow> if p = 0 then 443 else p) of
                            None \<Rightarrow> Some (''Could not resolve redirect target: '' @ redirect_url)
                          | Some addrs \<Rightarrow>
                              (case redirect_addrs (blocked_ranges w) addrs of
                                 None \<Rightarrow> None
                               | Some (Some r) \<Rightarrow> Some (''Redirect to blocked IP range: '' @ r)
                               | Some None \<Rightarrow> Some (answered @ '' redirect to '' @ redirect_url @ '', payload not delivered''))))))"

definition judge_reply :: "outside \<Rightarrow> nat \<Rightarrow> http_reply \<Rightarrow> (bool \<times> string option) option" where
  "judge_reply w n reply =
     (case reply of
        Http_Failed msg \<Rightarrow> Some (False, Some msg)
      | Http_Status code location \<Rightarrow>
          if 400 \<le> code then Some (False, Some (''Webhook returned HTTP '' @ int_str code))
          else if code \<in> set redirect_codes
          then map_option (\<lambda>why. (False, Some why)) (judge_redirect w n code location)
          else Some (True, None))"

definition send_webhook :: "outside \<Rightarrow> nat \<Rightarrow> string \<Rightarrow> dict \<Rightarrow> (bool \<times> string option) option \<times> contact list" where
  "send_webhook w n target_url payload =
     (case urlsplit target_url of
        None \<Rightarrow> (None, [])
      | Some (scheme, netloc) \<Rightarrow>
          (case url_hostname netloc of
             None \<Rightarrow> (Some (False, Some ''Webhook URL has no hostname''), [])
           | Some hostname \<Rightarrow>
               (case url_port netloc of
                  Inl e \<Rightarrow> (None, [])
                | Inr port \<Rightarrow>
                    (case resolve w n hostname (case port of None \<Rightarrow> 443 | Some p \<Rightarrow> if p = 0 then 443 else p) of
                       None \<Rightarrow> (Some (False, Some ''Webhook URL hostname could not be resolved''), [])
                     | Some addrs \<Rightarrow>
                         (case validate_addrs (blocked_ranges w) addrs of
                            Inl r \<Rightarrow> (Some (False, Some (''Webhook target resolves to blocked IP range: '' @ r)), [])
                          | Inr [] \<Rightarrow> (Some (False, Some ''Webhook URL did not resolve to any valid IP addresses''), [])
                          | Inr (ip # ips) \<Rightarrow>
                              (let c = \<lparr>contact_ip = ip, contact_host = hostname, contact_scheme = scheme, contact_body = payload\<rparr>
                               in (judge_reply w (n + 1) (http_post w n c), [c])))))))"

subsection \<open>Mail\<close>

text \<open>\<open>html.escape\<close> of a text, and of the text of a payload value.\<close>

definition html_escape :: "string \<Rightarrow> string" where
  "html_escape s = concat (map (\<lambda>c. if c = CHR ''&'' then ''&amp;'' else if c = CHR ''<'' then ''&lt;''
     else if c = CHR ''>'' then ''&gt;'' else if c = CHR 0x22 then ''&quot;'' else if c = CHR 0x27 then ''&#x27;'' else [c]) s)"

definition break_lines :: "string \<Rightarrow> string" where
  "break_lines s = concat (map (\<lambda>c. if char_nat c = 10 then ''<br>'' else [c]) s)"

text \<open>The values put into the HTML body, in their order.\<close>

definition html_fields :: "(json \<Rightarrow> string) \<Rightarrow> dict \<Rightarrow> string list" where
  "html_fields show finding =
     (let esc = (\<lambda>k. html_escape (show (jor (jget finding k) (JStr []))))
      in [esc ''title'', esc ''category'', esc ''severity'', esc ''target'',
          break_lines (esc ''description''), break_lines (esc ''remediation'')])"

definition send_email ::
  "outside \<Rightarrow> (json \<Rightarrow> string) \<Rightarrow> nat \<Rightarrow> string \<Rightarrow> dict \<Rightarrow> (bool \<times> string option) option \<times> mail list" where
  "send_email w show n target_email payload =
     (let finding = (case jget_or payload ''finding'' (JObj []) of JObj d \<Rightarrow> d | _ \<Rightarrow> []) in
      if \<not> smtp_configured w then (Some (True, None), [])
      else case jget_or finding ''severity'' (JStr ''INFO'') of
          JStr sev \<Rightarrow>
            (let m = \<lparr>mail_to = target_email,
                      mail_subject = ''[SecuScan Alert] '' @ py_upper sev @ '' vulnerability detected on '' @ show (jget finding ''target''),
                      mail_fields = html_fields show finding\<rparr>
             in (Some (case smtp_send w n m of None \<Rightarrow> (True, None) | Some e \<Rightarrow> (False, Some e)), [m]))
        | _ \<Rightarrow> (None, []))"

subsection \<open>Lemmas\<close>

lemma validate_addrs_ok:
  "validate_addrs ranges addrs = Inr ips \<Longrightarrow>
     (\<forall>a \<in> set ips. a \<in> set addrs \<and> ip_address a \<noteq> None) \<and> (\<forall>a \<in> set addrs. \<forall>ip. ip_address a = Some ip \<longrightarrow> covering_range ranges ip = None)"
proof (induction addrs arbitrary: ips)
  case (Cons a addrs)
  show ?case
  proof (cases "ip_address a")
    case None
    then show ?thesis using Cons by auto
  next
    case (Some ip)
    then have c: "covering_range ranges ip = None" using Cons.prems by (auto split: option.splits)
    then obtain ips' where "validate_addrs ranges addrs = Inr ips'" "ips = a # ips'"
      using Cons.prems Some by (cases "validate_addrs ranges addrs") auto
    then show ?thesis using Cons.IH Some c by auto
  qed
qed simp

text \<open>An address no range of a list covers.\<close>

definition unblocked :: "string list \<Rightarrow> string \<Rightarrow> bool" where
  "unblocked ranges a \<longleftrightarrow> (\<exists>ip. ip_address a = Some ip
     \<and> (\<forall>r \<in> set ranges. \<forall>net. ip_network r = Some net \<longrightarrow> \<not> net_contains net ip))"

lemma send_webhook_contact:
  assumes "send_webhook w n url payload = (res, cs)" and "c \<in> set cs"
  shows "unblocked (blocked_ranges w) (contact_ip c) \<and> contact_body c = payload
     \<and> (\<exists>netloc port addrs. urlsplit url = Some (contact_scheme c, netloc) \<and> url_hostname netloc = Some (contact_host c)
          \<and> resolve w n (contact_host c) port = Some addrs \<and> contact_ip c \<in> set addrs
          \<and> (\<forall>a \<in> set addrs. ip_address a \<noteq> None \<longrightarrow> unblocked (blocked_ranges w) a))
     \<and> cs = [c]"
proof -
  obtain scheme netloc h port p addrs ip ips where s: "urlsplit url = Some (scheme, netloc)" "url_hostname netloc = Some h"
      "url_port netloc = Inr port" "p = (case port of None \<Rightarrow> 443 | Some p \<Rightarrow> if p = 0 then 443 else p)"
      "resolve w n h p = Some addrs" "validate_addrs (blocked_ranges w) addrs = Inr (ip # ips)"
      "c = \<lparr>contact_ip = ip, contact_host = h, contact_scheme = scheme, contact_body = payload\<rparr>" "cs = [c]"
    using assms by (auto simp: send_webhook_def Let_def split: option.splits prod.splits sum.splits list.splits if_splits)
  have "\<forall>a \<in> set addrs. ip_address a \<noteq> None \<longrightarrow> unblocked (blocked_ranges w) a"
    using validate_addrs_ok [OF s(6)] by (auto simp: unblocked_def covering_range_None)
  moreover have "ip \<in> set addrs" "ip_address ip \<noteq> None" using validate_addrs_ok [OF s(6)] by auto
  ultimately show ?thesis using s by auto
qed

lemma send_webhook_delivered:
  assumes "send_webhook w n url payload = (Some (True, e), cs)"
  shows "\<exists>c code location. cs = [c] \<and> http_post w n c = Http_Status code location \<and> code < 400 \<and> code \<notin> set redirect_codes"
  using assms
  by (auto simp: send_webhook_def judge_reply_def Let_def split: option.splits prod.splits sum.splits list.splits if_splits http_reply.splits)

subsection \<open>Properties\<close>

text \<open>Whatever a resolver and a server answer, a webhook is sent to at most one address, which is one the
  host name of its URL resolved to and lies in no blocked range, as does every well-formed address the
  name resolved to; what is sent is the payload. A delivery counts as done only when the server
  answered below 400 and with no redirect, and no redirect is ever followed.\<close>

theorem webhooks_avoid_blocked_ranges:
  "case send_webhook w n url payload of (res, cs) \<Rightarrow>
     length cs \<le> 1
     \<and> (\<forall>c \<in> set cs. unblocked (blocked_ranges w) (contact_ip c) \<and> contact_body c = payload
          \<and> (\<exists>netloc port addrs. urlsplit url = Some (contact_scheme c, netloc) \<and> url_hostname netloc = Some (contact_host c)
               \<and> resolve w n (contact_host c) port = Some addrs \<and> contact_ip c \<in> set addrs
               \<and> (\<forall>a \<in> set addrs. ip_address a \<noteq> None \<longrightarrow> unblocked (blocked_ranges w) a)))
     \<and> (\<forall>e. res = Some (True, e) \<longrightarrow> (\<exists>c code location. cs = [c] \<and> http_post w n c = Http_Status code location
          \<and> code < 400 \<and> code \<notin> set redirect_codes))"
proof -
  obtain res cs where s: "send_webhook w n url payload = (res, cs)" by (cases "send_webhook w n url payload")
  have "length cs \<le> 1"
    using send_webhook_contact [OF s] by (cases cs) auto
  moreover have "\<exists>c code location. cs = [c] \<and> http_post w n c = Http_Status code location
          \<and> code < 400 \<and> code \<notin> set redirect_codes" if "res = Some (True, e)" for e
    using send_webhook_delivered s that by blast
  ultimately show ?thesis
    using send_webhook_contact [OF s] unfolding s prod.case by blast
qed

text \<open>The default ranges do not cover the addresses that map IPv4 into IPv6: a name that resolves to the
  mapped form of the metadata address is contacted.\<close>

definition default_blocked_ranges :: "string list" where
  "default_blocked_ranges = [''169.254.169.254/32'', ''169.254.0.0/16'', ''127.0.0.0/8'', ''10.0.0.0/8'', ''172.16.0.0/12'',
     ''192.168.0.0/16'', ''100.64.0.0/10'', ''fc00::/7'', ''fe80::/10'', ''::1/128'', ''224.0.0.0/4'', ''ff00::/8'', ''0.0.0.0/8'']"

lemma mapped_addresses_pass:
  "validate_addrs default_blocked_ranges [''::ffff:169.254.169.254''] = Inr [''::ffff:169.254.169.254'']
   \<and> validate_addrs default_blocked_ranges [''169.254.169.254''] = Inl ''169.254.169.254/32''"
  by code_simp

text \<open>What the HTML body shows of a finding cannot open a tag: no field contains a quote, and the only angle
  brackets are those of the line breaks.\<close>

lemma html_escape_safe: "CHR ''<'' \<notin> set (html_escape s) \<and> CHR ''>'' \<notin> set (html_escape s) \<and> CHR 0x22 \<notin> set (html_escape s)"
  by (auto simp: html_escape_def)

theorem webhooks_avoid_blocked_ranges_witness:
  "\<forall>payload. \<exists>c. snd (send_webhook \<lparr>resolve = (\<lambda>n h p. Some [''93.184.216.34'']), http_post = (\<lambda>n c. Http_Status 200 None),
       smtp_send = (\<lambda>n m. None), smtp_configured = True, blocked_ranges = default_blocked_ranges\<rparr> 0 ''https://hooks.example/in'' payload) = [c]
     \<and> unblocked default_blocked_ranges (contact_ip c)"
proof
  fix payload
  let ?w = "\<lparr>resolve = (\<lambda>n h p. Some [''93.184.216.34'']), http_post = (\<lambda>n c. Http_Status 200 None),
       smtp_send = (\<lambda>n m. None), smtp_configured = True, blocked_ranges = default_blocked_ranges\<rparr>"
  have u: "urlsplit ''https://hooks.example/in'' = Some (''https'', ''hooks.example'')" "url_hostname ''hooks.example'' = Some ''hooks.example''"
    "url_port ''hooks.example'' = Inr None" "validate_addrs default_blocked_ranges [''93.184.216.34''] = Inr [''93.184.216.34'']"
    by (code_simp, code_simp, code_simp, code_simp)
  obtain res c where s: "send_webhook ?w 0 ''https://hooks.example/in'' payload = (res, [c])"
    by (simp only: send_webhook_def u option.case sum.case) (simp add: u Let_def del: validate_addrs.simps)
  show "\<exists>c. snd (send_webhook ?w 0 ''https://hooks.example/in'' payload) = [c] \<and> unblocked default_blocked_ranges (contact_ip c)"
    using webhooks_avoid_blocked_ranges [where w = ?w and n = 0 and url = "''https://hooks.example/in''" and payload = payload] unfolding s by simp
qed

end
