(* ===== verification/Notifications.thy ===== *)
theory Notifications
  imports Webhook_Delivery
begin

text \<open>
  The rules and deliveries of \<open>backend/secuscan/notification_service.py\<close> and the notification routes of
  \<open>routes.py\<close>. The tables are lists of rows: rules in order of insertion, history rows newest last,
  findings as mappings of their columns. Time stamps are milliseconds (the resolution of
  \<open>strftime('%f')\<close>). Deliveries run one after the other, as \<open>process_task_notifications\<close> awaits them;
  the contacts and mails made so far number the uses of the outside world.
\<close>

subsection \<open>Deliveries\<close>

datatype delivery_status = Delivery_Success | Delivery_Failed

record history_row =
  h_rule :: string
  h_finding :: string
  h_status :: delivery_status
  h_error :: "string option"

record delivery_result =
  d_rule :: string
  d_finding :: string
  d_status :: delivery_status
  d_skipped :: bool
  d_error :: "string option"

record notify_state =
  n_rules :: "notification_rule list"
  n_findings :: "dict list"
  n_history :: "history_row list"
  n_contacts :: "contact list"
  n_mails :: "mail list"

definition uses :: "notify_state \<Rightarrow> nat" where
  "uses s = length (n_contacts s) + length (n_mails s)"

definition was_already_delivered :: "notify_state \<Rightarrow> string \<Rightarrow> string \<Rightarrow> bool" where
  "was_already_delivered s r f = list_ex (\<lambda>h. h_rule h = r \<and> h_finding h = f \<and> h_status h = Delivery_Success) (n_history s)"

definition record_delivery :: "string \<Rightarrow> string \<Rightarrow> delivery_status \<Rightarrow> string option \<Rightarrow> notify_state \<Rightarrow> notify_state" where
  "record_delivery r f status err s =
     s\<lparr>n_history := n_history s @ [\<lparr>h_rule = r, h_finding = f, h_status = status, h_error = err\<rparr>]\<rparr>"

text \<open>\<open>get_delivery_configuration\<close>\<close>

definition max_retries :: nat where
  "max_retries = 0"

definition send_once ::
  "outside \<Rightarrow> (json \<Rightarrow> string) \<Rightarrow> string \<Rightarrow> string \<Rightarrow> dict \<Rightarrow> notify_state \<Rightarrow> (bool \<times> string option) option \<times> notify_state" where
  "send_once w show channel target payload s =
     (if channel = ''webhook''
      then let (res, cs) = send_webhook w (uses s) target payload in (res, s\<lparr>n_contacts := n_contacts s @ cs\<rparr>)
      else if channel = ''email''
      then let (res, ms) = send_email w show (uses s) target payload in (res, s\<lparr>n_mails := n_mails s @ ms\<rparr>)
      else (Some (False, Some (''Unsupported channel type: '' @ channel)), s))"

text \<open>The retry loop: one attempt and as many more as are left while it fails.\<close>

fun attempts ::
  "nat \<Rightarrow> outside \<Rightarrow> (json \<Rightarrow> string) \<Rightarrow> string \<Rightarrow> string \<Rightarrow> dict \<Rightarrow> notify_state
     \<Rightarrow> (bool \<times> string option) option \<times> notify_state" where
  "attempts 0 w show channel target payload s = send_once w show channel target payload s"
| "attempts (Suc left) w show channel target payload s =
     (case send_once w show channel target payload s of
        (Some (False, err), s') \<Rightarrow> attempts left w show channel target payload s'
      | other \<Rightarrow> other)"

text \<open>\<open>str(finding["id"])\<close> and \<open>str(finding.get("severity", "info"))\<close>.\<close>

definition finding_key :: "(json \<Rightarrow> string) \<Rightarrow> dict \<Rightarrow> string" where
  "finding_key show f = show (jget f ''id'')"

definition finding_severity :: "(json \<Rightarrow> string) \<Rightarrow> dict \<Rightarrow> string" where
  "finding_severity show f = show (jget_or f ''severity'' (JStr ''info''))"

definition deliver_via_rule ::
  "outside \<Rightarrow> (rat \<Rightarrow> rat) \<Rightarrow> (json \<Rightarrow> string) \<Rightarrow> notification_rule \<Rightarrow> dict \<Rightarrow> notify_state
     \<Rightarrow> delivery_result option \<times> notify_state" where
  "deliver_via_rule w fl show r f s =
     (let rid = rule_id r; fid = finding_key show f;
          result = (\<lambda>status skipped err. \<lparr>d_rule = rid, d_finding = fid, d_status = status, d_skipped = skipped, d_error = err\<rparr>)
      in if \<not> is_active r then (Some (result Delivery_Failed True (Some ''Rule is inactive'')), s)
         else if \<not> severity_meets_threshold (finding_severity show f) (severity_threshold r)
         then (Some (result Delivery_Failed True (Some ''Finding severity below rule threshold'')), s)
         else if was_already_delivered s rid fid
         then (Some (result Delivery_Success True (Some ''Already delivered'')), s)
         else
           (case attempts max_retries w show (py_lower (channel_type r)) (target_address r) (build_alert_payload fl show f r) s of
              (None, s') \<Rightarrow> (None, s')
            | (Some (ok, err), s') \<Rightarrow>
                let status = (if ok then Delivery_Success else Delivery_Failed)
                in (Some (result status False err), record_delivery rid fid status err s')))"

text \<open>A loop of deliveries; an exception ends it and drops the results so far, not what was done.\<close>

fun deliver_all ::
  "('a \<Rightarrow> notify_state \<Rightarrow> 'b list option \<times> notify_state) \<Rightarrow> 'a list \<Rightarrow> notify_state \<Rightarrow> 'b list option \<times> notify_state" where
  "deliver_all f [] s = (Some [], s)"
| "deliver_all f (x # xs) s =
     (case f x s of
        (None, s') \<Rightarrow> (None, s')
      | (Some res, s') \<Rightarrow>
          (case deliver_all f xs s' of
             (None, s'') \<Rightarrow> (None, s'')
           | (Some later, s'') \<Rightarrow> (Some (res @ later), s'')))"

text \<open>\<open>WHERE is_active = 1 ORDER BY created_at ASC\<close>: of every owner.\<close>

definition active_rules :: "notify_state \<Rightarrow> notification_rule list" where
  "active_rules s = sort_key created_at (filter is_active (n_rules s))"

definition process_finding_notifications ::
  "outside \<Rightarrow> (rat \<Rightarrow> rat) \<Rightarrow> (json \<Rightarrow> string) \<Rightarrow> string \<Rightarrow> notify_state
     \<Rightarrow> delivery_result list option \<times> notify_state" where
  "process_finding_notifications w fl show fid s =
     (case find (\<lambda>f. finding_key show f = fid) (n_findings s) of
        None \<Rightarrow> (Some [], s)
      | Some f \<Rightarrow>
          deliver_all (\<lambda>r s. case deliver_via_rule w fl show r f s of (res, s') \<Rightarrow> (map_option (\<lambda>d. [d]) res, s'))
            (active_rules s) s)"

definition process_task_notifications ::
  "outside \<Rightarrow> (rat \<Rightarrow> rat) \<Rightarrow> (json \<Rightarrow> string) \<Rightarrow> (dict \<Rightarrow> int) \<Rightarrow> string \<Rightarrow> notify_state
     \<Rightarrow> delivery_result list option \<times> notify_state" where
  "process_task_notifications w fl show discovered task s =
     deliver_all (\<lambda>f. process_finding_notifications w fl show (finding_key show f))
       (sort_key discovered (filter (\<lambda>f. jget f ''task_id'' = JStr task) (n_findings s))) s"

subsection \<open>Lemmas on deliveries\<close>

text \<open>A rule that is due for a finding: active, and the finding at or above its threshold.\<close>

definition meets_rule :: "(json \<Rightarrow> string) \<Rightarrow> notify_state \<Rightarrow> notification_rule \<Rightarrow> dict \<Rightarrow> bool" where
  "meets_rule show s r f \<longleftrightarrow> r \<in> set (n_rules s) \<and> f \<in> set (n_findings s) \<and> is_active r
     \<and> severity_meets_threshold (finding_severity show f) (severity_threshold r)"

text \<open>One delivery of the program, between stored rows.\<close>

definition delivers :: "outside \<Rightarrow> (rat \<Rightarrow> rat) \<Rightarrow> (json \<Rightarrow> string) \<Rightarrow> notify_state \<Rightarrow> notify_state \<Rightarrow> bool" where
  "delivers w fl show s s' \<longleftrightarrow> (\<exists>r f. r \<in> set (n_rules s) \<and> f \<in> set (n_findings s) \<and> s' = snd (deliver_via_rule w fl show r f s))"

lemma deliver_via_rule_cases:
  assumes "deliver_via_rule w fl show r f s = (res, s')"
  obtains (skipped) "s' = s" "res \<noteq> None"
      "\<not> is_active r \<or> \<not> severity_meets_threshold (finding_severity show f) (severity_threshold r) \<or> was_already_delivered s (rule_id r) (finding_key show f)"
    | (raised) "is_active r" "severity_meets_threshold (finding_severity show f) (severity_threshold r)"
      "\<not> was_already_delivered s (rule_id r) (finding_key show f)" "res = None"
      "send_once w show (py_lower (channel_type r)) (target_address r) (build_alert_payload fl show f r) s = (None, s')"
    | (sent) ok err s1 where "is_active r" "severity_meets_threshold (finding_severity show f) (severity_threshold r)"
      "\<not> was_already_delivered s (rule_id r) (finding_key show f)" "res \<noteq> None"
      "send_once w show (py_lower (channel_type r)) (target_address r) (build_alert_payload fl show f r) s = (Some (ok, err), s1)"
      "s' = record_delivery (rule_id r) (finding_key show f) (if ok then Delivery_Success else Delivery_Failed) err s1"
proof -
  consider "\<not> is_active r \<or> \<not> severity_meets_threshold (finding_severity show f) (severity_threshold r) \<or> was_already_delivered s (rule_id r) (finding_key show f)"
    | "is_active r" "severity_meets_threshold (finding_severity show f) (severity_threshold r)" "\<not> was_already_delivered s (rule_id r) (finding_key show f)"
    by blast
  then show thesis
  proof cases
    case 1
    then have "s' = s" "res \<noteq> None" using assms by (auto simp: deliver_via_rule_def Let_def split: if_splits)
    then show thesis using 1 skipped by blast
  next
    case 2
    show thesis
    proof (cases "send_once w show (py_lower (channel_type r)) (target_address r) (build_alert_payload fl show f r) s")
      case (Pair o1 s1)
      show thesis
      proof (cases o1)
        case None
        then have "s' = s1" "res = None" using assms 2 Pair by (simp_all add: deliver_via_rule_def max_retries_def)
        then show thesis using raised 2 Pair None by blast
      next
        case (Some p)
        obtain ok err where p: "p = (ok, err)" by (cases p)
        have "res \<noteq> None" "s' = record_delivery (rule_id r) (finding_key show f) (if ok then Delivery_Success else Delivery_Failed) err s1"
          using assms 2 Pair Some p by (auto simp: deliver_via_rule_def max_retries_def Let_def split: if_splits)
        then show thesis using sent 2 Pair Some p by blast
      qed
    qed
  qed
qed

lemma send_once_state:
  assumes "send_once w show ch target payload s = (res, s')"
  shows "n_rules s' = n_rules s \<and> n_findings s' = n_findings s \<and> n_history s' = n_history s
     \<and> (\<exists>cs. n_contacts s' = n_contacts s @ cs \<and> (\<forall>c \<in> set cs. unblocked (blocked_ranges w) (contact_ip c) \<and> contact_body c = payload)
          \<and> (cs \<noteq> [] \<longrightarrow> ch = ''webhook''))
     \<and> (\<exists>ms. n_mails s' = n_mails s @ ms \<and> (\<forall>m \<in> set ms. mail_to m = target) \<and> (ms \<noteq> [] \<longrightarrow> ch = ''email''))"
proof -
  have m: "\<forall>m \<in> set ms. mail_to m = target" if "send_email w show n target payload = (r, ms)" for n r ms
    using that by (auto simp: send_email_def Let_def split: json.splits if_splits)
  have c: "\<forall>c \<in> set cs. unblocked (blocked_ranges w) (contact_ip c) \<and> contact_body c = payload"
    if "send_webhook w n target payload = (r, cs)" for n r cs
    using send_webhook_contact [OF that] by blast
  show ?thesis using assms m c by (auto simp: send_once_def Let_def split: if_splits prod.splits)
qed

lemma deliver_state:
  assumes "deliver_via_rule w fl show r f s = (res, s')"
  shows "n_rules s' = n_rules s \<and> n_findings s' = n_findings s \<and> (\<exists>hs. n_history s' = n_history s @ hs)"
  using assms
proof (cases rule: deliver_via_rule_cases)
  case raised
  then show ?thesis using send_once_state [OF raised(5)] by simp
next
  case (sent ok err s1)
  then show ?thesis using send_once_state [OF sent(5)] by (simp add: record_delivery_def)
qed simp

lemma deliver_all_steps:
  assumes "\<And>x s res s'. x \<in> set xs \<Longrightarrow> P s \<Longrightarrow> f x s = (res, s') \<Longrightarrow> R\<^sup>*\<^sup>* s s' \<and> P s'" and "P s"
    and "deliver_all f xs s = (res, s')"
  shows "R\<^sup>*\<^sup>* s s' \<and> P s'"
  using assms
proof (induction xs arbitrary: s res s')
  case (Cons x xs)
  obtain r1 s1 where f: "f x s = (r1, s1)" by (cases "f x s")
  then have s1: "R\<^sup>*\<^sup>* s s1" "P s1" using Cons.prems(1) [of x s r1 s1] Cons.prems(2) by simp_all
  show ?case
  proof (cases r1)
    case None
    then show ?thesis using Cons.prems(3) f s1 by simp
  next
    case (Some a)
    obtain r2 s2 where g: "deliver_all f xs s1 = (r2, s2)" by (cases "deliver_all f xs s1")
    have "R\<^sup>*\<^sup>* s1 s2 \<and> P s2"
      by (rule Cons.IH [OF _ s1(2) g]) (rule Cons.prems(1), simp_all)
    moreover have "s' = s2" using Cons.prems(3) f Some g by (auto split: option.splits)
    ultimately show ?thesis using s1(1) by auto
  qed
qed simp

lemma process_finding_steps:
  assumes "process_finding_notifications w fl show fid s = (res, s')"
  shows "(delivers w fl show)\<^sup>*\<^sup>* s s' \<and> n_rules s' = n_rules s \<and> n_findings s' = n_findings s"
proof (cases "find (\<lambda>f. finding_key show f = fid) (n_findings s)")
  case None
  then show ?thesis using assms by (simp add: process_finding_notifications_def)
next
  case (Some f)
  then have f: "f \<in> set (n_findings s)" by (auto simp: find_Some_iff)
  have one: "(delivers w fl show)\<^sup>*\<^sup>* s1 s2 \<and> n_rules s2 = n_rules s \<and> n_findings s2 = n_findings s"
    if "r \<in> set (active_rules s)" "n_rules s1 = n_rules s \<and> n_findings s1 = n_findings s"
      "(case deliver_via_rule w fl show r f s1 of (res, s') \<Rightarrow> (map_option (\<lambda>d. [d]) res, s')) = (res1, s2)" for r s1 res1 s2
  proof -
    note h = that
    obtain d where d: "deliver_via_rule w fl show r f s1 = (d, s2)" using h(3) by (cases "deliver_via_rule w fl show r f s1") auto
    have "r \<in> set (n_rules s1)" "f \<in> set (n_findings s1)" using h(1,2) f by (auto simp: active_rules_def)
    then have "delivers w fl show s1 s2" unfolding delivers_def using d by (metis snd_conv)
    then show ?thesis using deliver_state [OF d] h(2) by auto
  qed
  have all: "deliver_all (\<lambda>r s. case deliver_via_rule w fl show r f s of (res, s') \<Rightarrow> (map_option (\<lambda>d. [d]) res, s'))
      (active_rules s) s = (res, s')"
    using assms Some by (simp add: process_finding_notifications_def)
  show ?thesis
    by (rule deliver_all_steps [where P = "\<lambda>s1. n_rules s1 = n_rules s \<and> n_findings s1 = n_findings s", OF one _ all]) simp_all
qed

lemma process_task_steps:
  assumes "process_task_notifications w fl show discovered task s = (res, s')"
  shows "(delivers w fl show)\<^sup>*\<^sup>* s s' \<and> n_rules s' = n_rules s \<and> n_findings s' = n_findings s"
  using deliver_all_steps [where R = "delivers w fl show" and P = "\<lambda>s1. n_rules s1 = n_rules s \<and> n_findings s1 = n_findings s",
      OF _ _ assms [unfolded process_task_notifications_def]] process_finding_steps by metis

text \<open>What every history of deliveries keeps: no pair succeeds twice, and everything sent was due.\<close>

definition success_pairs :: "notify_state \<Rightarrow> (string \<times> string) list" where
  "success_pairs s = map (\<lambda>h. (h_rule h, h_finding h)) (filter (\<lambda>h. h_status h = Delivery_Success) (n_history s))"

lemma already_iff: "was_already_delivered s r f \<longleftrightarrow> (r, f) \<in> set (success_pairs s)"
  by (auto simp: was_already_delivered_def success_pairs_def list_ex_iff)

definition sent_for :: "outside \<Rightarrow> (rat \<Rightarrow> rat) \<Rightarrow> (json \<Rightarrow> string) \<Rightarrow> notify_state \<Rightarrow> contact \<Rightarrow> bool" where
  "sent_for w fl show s c \<longleftrightarrow> unblocked (blocked_ranges w) (contact_ip c)
     \<and> (\<exists>r f. meets_rule show s r f \<and> py_lower (channel_type r) = ''webhook'' \<and> contact_body c = build_alert_payload fl show f r)"

definition mailed_for :: "(json \<Rightarrow> string) \<Rightarrow> notify_state \<Rightarrow> mail \<Rightarrow> bool" where
  "mailed_for show s m \<longleftrightarrow> (\<exists>r f. meets_rule show s r f \<and> py_lower (channel_type r) = ''email'' \<and> mail_to m = target_address r)"

definition delivery_inv :: "outside \<Rightarrow> (rat \<Rightarrow> rat) \<Rightarrow> (json \<Rightarrow> string) \<Rightarrow> notify_state \<Rightarrow> bool" where
  "delivery_inv w fl show s \<longleftrightarrow> distinct (success_pairs s) \<and> (\<forall>c \<in> set (n_contacts s). sent_for w fl show s c)
     \<and> (\<forall>m \<in> set (n_mails s). mailed_for show s m)
     \<and> (\<forall>(r, f) \<in> set (success_pairs s). \<exists>rule finding. meets_rule show s rule finding \<and> rule_id rule = r \<and> finding_key show finding = f)"

lemma delivers_inv:
  assumes "delivers w fl show s s'" and "delivery_inv w fl show s"
  shows "delivery_inv w fl show s'"
proof -
  obtain r f where rf: "r \<in> set (n_rules s)" "f \<in> set (n_findings s)" and s': "s' = snd (deliver_via_rule w fl show r f s)"
    using assms(1) by (auto simp: delivers_def)
  obtain res where d: "deliver_via_rule w fl show r f s = (res, s')" using s' by (cases "deliver_via_rule w fl show r f s") simp
  have attempt: "delivery_inv w fl show s1 \<and> n_history s1 = n_history s \<and> meets_rule show s1 = meets_rule show s"
    if "is_active r" "severity_meets_threshold (finding_severity show f) (severity_threshold r)"
      "send_once w show (py_lower (channel_type r)) (target_address r) (build_alert_payload fl show f r) s = (o1, s1)" for o1 s1
  proof -
    note st = send_once_state [OF that(3)]
    have eq: "meets_rule show s1 = meets_rule show s" using st by (simp add: meets_rule_def fun_eq_iff)
    have "meets_rule show s r f" using that(1,2) rf by (simp add: meets_rule_def)
    note df = this
    obtain cs where cs: "n_contacts s1 = n_contacts s @ cs"
        "\<forall>c \<in> set cs. unblocked (blocked_ranges w) (contact_ip c) \<and> contact_body c = build_alert_payload fl show f r"
        "cs \<noteq> [] \<longrightarrow> py_lower (channel_type r) = ''webhook''" using st by blast
    obtain ms where ms: "n_mails s1 = n_mails s @ ms" "\<forall>m \<in> set ms. mail_to m = target_address r"
        "ms \<noteq> [] \<longrightarrow> py_lower (channel_type r) = ''email''" using st by blast
    have "sent_for w fl show s c" if "c \<in> set cs" for c
      using that cs(2,3) df unfolding sent_for_def by (metis empty_iff list.set(1))
    moreover have "mailed_for show s m" if "m \<in> set ms" for m
      using that ms(2,3) df unfolding mailed_for_def by (metis empty_iff list.set(1))
    moreover have "sent_for w fl show s1 = sent_for w fl show s" "mailed_for show s1 = mailed_for show s"
      unfolding sent_for_def mailed_for_def fun_eq_iff eq by simp_all
    ultimately have "\<forall>c \<in> set (n_contacts s1). sent_for w fl show s1 c" "\<forall>m \<in> set (n_mails s1). mailed_for show s1 m"
      using assms(2) cs(1) ms(1) unfolding delivery_inv_def by auto
    then show ?thesis using assms(2) st eq by (simp add: delivery_inv_def success_pairs_def)
  qed
  show ?thesis
    using d
  proof (cases rule: deliver_via_rule_cases)
    case skipped
    then show ?thesis using assms(2) by simp
  next
    case raised
    then show ?thesis using attempt [OF raised(1,2,5)] by simp
  next
    case (sent ok err s1)
    note s1 = attempt [OF sent(1,2,5)]
    have eq: "meets_rule show s' = meets_rule show s" "meets_rule show s1 = meets_rule show s"
      using sent(6) s1 by (simp_all add: meets_rule_def record_delivery_def fun_eq_iff)
    have new: "(rule_id r, finding_key show f) \<notin> set (success_pairs s1)"
      using sent(3) s1 by (simp add: already_iff [symmetric] was_already_delivered_def)
    have "meets_rule show s r f" using sent(1,2) rf by (simp add: meets_rule_def)
    moreover have "success_pairs s' = success_pairs s1 @ (if ok then [(rule_id r, finding_key show f)] else [])"
      using sent(6) by (simp add: success_pairs_def record_delivery_def)
    moreover have "n_contacts s' = n_contacts s1" "n_mails s' = n_mails s1" using sent(6) by (simp_all add: record_delivery_def)
    ultimately show ?thesis using s1 new unfolding delivery_inv_def sent_for_def mailed_for_def eq by auto
  qed
qed

lemma delivers_star_inv: "(delivers w fl show)\<^sup>*\<^sup>* s s' \<Longrightarrow> delivery_inv w fl show s \<Longrightarrow> delivery_inv w fl show s'"
  by (induction rule: rtranclp_induct) (auto intro: delivers_inv)

text \<open>A pair has been attempted when the history has a row for it.\<close>

definition attempted :: "notify_state \<Rightarrow> string \<Rightarrow> string \<Rightarrow> bool" where
  "attempted s r f \<longleftrightarrow> (\<exists>h \<in> set (n_history s). h_rule h = r \<and> h_finding h = f)"

lemma delivers_history: "(delivers w fl show)\<^sup>*\<^sup>* s s' \<Longrightarrow> attempted s r f \<Longrightarrow> attempted s' r f"
proof (induction rule: rtranclp_induct)
  case (step s1 s2)
  then obtain rule finding where "s2 = snd (deliver_via_rule w fl show rule finding s1)" by (auto simp: delivers_def)
  then obtain res where "deliver_via_rule w fl show rule finding s1 = (res, s2)"
    by (cases "deliver_via_rule w fl show rule finding s1") simp
  from deliver_state [OF this] step show ?case by (auto simp: attempted_def)
qed

lemma deliver_attempts:
  assumes "deliver_via_rule w fl show r f s = (Some d, s')" and "meets_rule show s r f"
  shows "attempted s' (rule_id r) (finding_key show f)"
  using assms(1)
proof (cases rule: deliver_via_rule_cases)
  case skipped
  then show ?thesis using assms(2) by (auto simp: meets_rule_def was_already_delivered_def attempted_def list_ex_iff)
next
  case (sent ok err s1)
  then show ?thesis by (simp add: attempted_def record_delivery_def)
qed simp

lemma deliver_all_complete:
  assumes "\<And>x s res s'. x \<in> set xs \<Longrightarrow> P s \<Longrightarrow> f x s = (res, s') \<Longrightarrow> R\<^sup>*\<^sup>* s s' \<and> P s'" and "P s"
    and "\<And>x s res s'. x \<in> set xs \<Longrightarrow> P s \<Longrightarrow> f x s = (Some res, s') \<Longrightarrow> Q x s'"
    and "\<And>x s s'. Q x s \<Longrightarrow> R\<^sup>*\<^sup>* s s' \<Longrightarrow> Q x s'"
    and "deliver_all f xs s = (Some res, s')" and "x \<in> set xs"
  shows "Q x s'"
  using assms
proof (induction xs arbitrary: s res s')
  case (Cons y ys)
  obtain a s1 where f: "f y s = (Some a, s1)" using Cons.prems(5) by (auto split: prod.splits option.splits)
  then obtain b where g: "deliver_all f ys s1 = (Some b, s')" using Cons.prems(5) by (auto split: prod.splits option.splits)
  have s1: "R\<^sup>*\<^sup>* s s1" "P s1" using Cons.prems(1) [OF _ Cons.prems(2) f] by simp_all
  show ?case
  proof (cases "x \<in> set ys")
    case True
    show ?thesis
      by (rule Cons.IH [OF _ s1(2) _ Cons.prems(4) g True]) (rule Cons.prems(1,3); simp)+
  next
    case False
    then have "Q x s1" using Cons.prems(3) [OF _ Cons.prems(2) f] Cons.prems(6) by simp
    moreover have "R\<^sup>*\<^sup>* s1 s' \<and> P s'"
      by (rule deliver_all_steps [where P = P, OF _ s1(2) g]) (rule Cons.prems(1), simp_all)
    ultimately show ?thesis using Cons.prems(4) by blast
  qed
qed simp

lemma process_finding_complete:
  assumes "process_finding_notifications w fl show (finding_key show f) s = (Some res, s')"
    and "distinct (map (finding_key show) (n_findings s))" and "meets_rule show s r f"
  shows "attempted s' (rule_id r) (finding_key show f)"
proof -
  have f: "f \<in> set (n_findings s)" using assms(3) by (simp add: meets_rule_def)
  obtain f0 where f0: "find (\<lambda>g. finding_key show g = finding_key show f) (n_findings s) = Some f0"
    using f by (cases "find (\<lambda>g. finding_key show g = finding_key show f) (n_findings s)") (auto simp: find_None_iff)
  then have "f0 \<in> set (n_findings s)" "finding_key show f0 = finding_key show f" by (auto simp: find_Some_iff)
  then have "f0 = f" using assms(2) f by (metis distinct_map inj_onD)
  then have all: "deliver_all (\<lambda>r s. case deliver_via_rule w fl show r f s of (res, s') \<Rightarrow> (map_option (\<lambda>d. [d]) res, s'))
      (active_rules s) s = (Some res, s')"
    using assms(1) f0 by (simp add: process_finding_notifications_def)
  let ?P = "\<lambda>s1. n_rules s1 = n_rules s \<and> n_findings s1 = n_findings s"
  have one: "(delivers w fl show)\<^sup>*\<^sup>* s1 s2 \<and> ?P s2" and att: "res1 \<noteq> None \<longrightarrow> meets_rule show s q f \<longrightarrow> attempted s2 (rule_id q) (finding_key show f)"
    if "q \<in> set (active_rules s)" "?P s1"
      "(case deliver_via_rule w fl show q f s1 of (res, s') \<Rightarrow> (map_option (\<lambda>d. [d]) res, s')) = (res1, s2)" for q s1 res1 s2
  proof -
    note h = that
    obtain d where d: "deliver_via_rule w fl show q f s1 = (d, s2)" "res1 = map_option (\<lambda>d. [d]) d"
      using h(3) by (cases "deliver_via_rule w fl show q f s1") auto
    have "q \<in> set (n_rules s1)" "f \<in> set (n_findings s1)" using h(1,2) f by (auto simp: active_rules_def)
    then have "delivers w fl show s1 s2" unfolding delivers_def using d(1) by (metis snd_conv)
    then show "(delivers w fl show)\<^sup>*\<^sup>* s1 s2 \<and> ?P s2" using deliver_state [OF d(1)] h(2) by auto
    have "meets_rule show s1 q f = meets_rule show s q f" using h(2) by (simp add: meets_rule_def)
    then show "res1 \<noteq> None \<longrightarrow> meets_rule show s q f \<longrightarrow> attempted s2 (rule_id q) (finding_key show f)"
      using d deliver_attempts by (cases d) auto
  qed
  have r: "r \<in> set (active_rules s)" using assms(3) by (simp add: meets_rule_def active_rules_def)
  have "meets_rule show s r f \<longrightarrow> attempted s' (rule_id r) (finding_key show f)"
    by (rule deliver_all_complete [where P = ?P and Q = "\<lambda>q s2. meets_rule show s q f \<longrightarrow> attempted s2 (rule_id q) (finding_key show f)",
          OF one _ _ _ all r]) (use att delivers_history in blast)+
  then show ?thesis using assms(3) by blast
qed

subsection \<open>The routes of the rules\<close>

datatype channel_kind = Webhook | Email

definition channel_value :: "channel_kind \<Rightarrow> string" where
  "channel_value c = (case c of Webhook \<Rightarrow> ''webhook'' | Email \<Rightarrow> ''email'')"

definition channel_of :: "string \<Rightarrow> channel_kind option" where
  "channel_of s = (if s = ''webhook'' then Some Webhook else if s = ''email'' then Some Email else None)"

text \<open>Settings of target validation; \<open>lookup\<close> is the name resolution at that time.\<close>

record target_env =
  ssrf_enabled :: bool
  hook_settings :: webhook_settings
  lookup :: "string \<Rightarrow> string list option"

datatype route_error = Http_Error nat string | Rule_Conflict notification_rule | Route_Raises

text \<open>\<open>^[^@\s]+@[^@\s]+\.[^@\s]+$\<close>; the text is stripped, so \<open>$\<close> is its end.\<close>

definition email_re :: regex where
  "email_re = (let part = many1 (\<lambda>c. c \<noteq> CHR ''@'' \<and> \<not> is_ws c)
     in seqs [part, lit ''@'', part, lit ''.'', part, End_Of_Text])"

definition validate_notification_target :: "target_env \<Rightarrow> channel_kind \<Rightarrow> string \<Rightarrow> route_error + string" where
  "validate_notification_target e ch target =
     (let cleaned = py_strip target in
      if cleaned = [] then Inl (Http_Error 400 ''Notification target is required'')
      else if ch = Webhook
      then (case validate_url cleaned of
          None \<Rightarrow> Inl Route_Raises
        | Some (False, err) \<Rightarrow> Inl (Http_Error 400 (if err = [] then ''Invalid webhook URL'' else err))
        | Some (True, m) \<Rightarrow>
            if \<not> ssrf_enabled e then Inr cleaned
            else (case resolve_and_validate_target (hook_settings e) (lookup e) cleaned of
                None \<Rightarrow> Inl Route_Raises
              | Some (False, err) \<Rightarrow> Inl (Http_Error 400 (''Webhook target blocked by SSRF protection: '' @ err))
              | Some (True, m') \<Rightarrow>
                  (case validate_webhook_target (hook_settings e) (lookup e) cleaned of
                     None \<Rightarrow> Inl Route_Raises
                   | Some (False, err) \<Rightarrow>
                       Inl (Http_Error 400 (''Webhook target blocked by SSRF protection: '' @ (case err of None \<Rightarrow> ''None'' | Some x \<Rightarrow> x)))
                   | Some (True, err) \<Rightarrow> Inr cleaned)))
      else if match_here email_re None cleaned = None then Inl (Http_Error 400 ''Invalid email address'')
      else Inr cleaned)"

record rule_create =
  c_name :: string
  c_threshold :: string
  c_channel :: channel_kind
  c_target :: string
  c_active :: bool

definition create_notification_rule ::
  "target_env \<Rightarrow> string \<Rightarrow> string \<Rightarrow> int \<Rightarrow> rule_create \<Rightarrow> notify_state \<Rightarrow> (route_error + notification_rule) \<times> notify_state" where
  "create_notification_rule e owner uid now p s =
     (let name = py_strip (c_name p) in
      if name = [] then (Inl (Http_Error 400 ''Rule name is required''), s)
      else case validate_notification_target e (c_channel p) (c_target p) of
          Inl err \<Rightarrow> (Inl err, s)
        | Inr target \<Rightarrow>
            (let row = \<lparr>rule_id = uid, rule_name = name, rule_owner = owner, severity_threshold = c_threshold p,
                        channel_type = channel_value (c_channel p), target_address = target, is_active = c_active p,
                        created_at = now, updated_at = now\<rparr>
             in (Inr row, s\<lparr>n_rules := n_rules s @ [row]\<rparr>)))"

definition verify_notification_rule_owner :: "string \<Rightarrow> string \<Rightarrow> notify_state \<Rightarrow> route_error + notification_rule" where
  "verify_notification_rule_owner rid owner s =
     (case find (\<lambda>r. rule_id r = rid) (n_rules s) of
        None \<Rightarrow> Inl (Http_Error 404 ''Notification rule not found'')
      | Some r \<Rightarrow>
          if rule_owner r \<noteq> owner then Inl (Http_Error 403 ''You do not have access to this notification rule'')
          else Inr r)"

record rule_update =
  u_name :: "string option"
  u_threshold :: "string option"
  u_channel :: "channel_kind option"
  u_target :: "string option"
  u_active :: "bool option"

definition or_kept :: "'a option \<Rightarrow> 'a \<Rightarrow> 'a" where
  "or_kept v old = (case v of None \<Rightarrow> old | Some x \<Rightarrow> x)"

text \<open>The checks of the patch route: the row as read and the columns to be written.\<close>

definition prepare_rule_update ::
  "target_env \<Rightarrow> string \<Rightarrow> string \<Rightarrow> rule_update \<Rightarrow> notify_state \<Rightarrow> route_error + notification_rule \<times> rule_update" where
  "prepare_rule_update e owner rid p s =
     (case verify_notification_rule_owner rid owner s of
        Inl err \<Rightarrow> Inl err
      | Inr row \<Rightarrow>
          if u_name p \<noteq> None \<and> py_strip (the (u_name p)) = [] then Inl (Http_Error 400 ''Rule name is required'')
          else (case (case u_channel p of Some c \<Rightarrow> Some c | None \<Rightarrow> channel_of (channel_type row)) of
              None \<Rightarrow> Inl Route_Raises
            | Some effective \<Rightarrow>
                (case (case u_target p of
                         Some t \<Rightarrow> map_sum id Some (validate_notification_target e effective t)
                       | None \<Rightarrow> if u_channel p \<noteq> None
                                then map_sum id Some (validate_notification_target e effective (target_address row))
                                else Inr None) of
                   Inl err \<Rightarrow> Inl err
                 | Inr target \<Rightarrow>
                     let changes = p\<lparr>u_name := map_option py_strip (u_name p), u_target := target\<rparr>
                     in if u_name changes = None \<and> u_threshold changes = None \<and> u_channel changes = None
                           \<and> u_target changes = None \<and> u_active changes = None
                        then Inl (Http_Error 400 ''No update fields provided'')
                        else Inr (row, changes))))"

definition apply_changes :: "rule_update \<Rightarrow> int \<Rightarrow> notification_rule \<Rightarrow> notification_rule" where
  "apply_changes c now r = r\<lparr>rule_name := or_kept (u_name c) (rule_name r),
     severity_threshold := or_kept (u_threshold c) (severity_threshold r),
     channel_type := (case u_channel c of None \<Rightarrow> channel_type r | Some k \<Rightarrow> channel_value k),
     target_address := or_kept (u_target c) (target_address r), is_active := or_kept (u_active c) (is_active r),
     updated_at := now\<rparr>"

text \<open>\<open>notification_service.update_notification_rule\<close>: the row is written only if its time stamp is still the one read.\<close>

definition commit_rule_update ::
  "int \<Rightarrow> notification_rule \<Rightarrow> rule_update \<Rightarrow> notify_state \<Rightarrow> (route_error + notification_rule) \<times> notify_state" where
  "commit_rule_update now current changes s =
     (let hit = (\<lambda>r. rule_id r = rule_id current \<and> updated_at r = updated_at current);
          latest = find (\<lambda>r. rule_id r = rule_id current) (n_rules s)
      in if list_ex hit (n_rules s)
         then (let s' = s\<lparr>n_rules := map (\<lambda>r. if hit r then apply_changes changes now r else r) (n_rules s)\<rparr>
               in case find (\<lambda>r. rule_id r = rule_id current) (n_rules s') of
                    None \<Rightarrow> (Inl (Http_Error 404 ''Notification rule not found''), s')
                  | Some r \<Rightarrow> (Inr r, s'))
         else case latest of
             None \<Rightarrow> (Inl (Http_Error 404 ''Notification rule not found''), s)
           | Some r \<Rightarrow> (Inl (Rule_Conflict r), s))"

definition update_notification_rule ::
  "target_env \<Rightarrow> string \<Rightarrow> int \<Rightarrow> string \<Rightarrow> rule_update \<Rightarrow> notify_state \<Rightarrow> (route_error + notification_rule) \<times> notify_state" where
  "update_notification_rule e owner now rid p s =
     (case prepare_rule_update e owner rid p s of
        Inl err \<Rightarrow> (Inl err, s)
      | Inr (row, changes) \<Rightarrow> commit_rule_update now row changes s)"

text \<open>The history rows of a rule go with it.\<close>

definition delete_notification_rule :: "string \<Rightarrow> string \<Rightarrow> notify_state \<Rightarrow> route_error option \<times> notify_state" where
  "delete_notification_rule rid owner s =
     (case verify_notification_rule_owner rid owner s of
        Inl err \<Rightarrow> (Some err, s)
      | Inr r \<Rightarrow> (None, s\<lparr>n_rules := filter (\<lambda>r. rule_id r \<noteq> rid) (n_rules s),
                       n_history := filter (\<lambda>h. h_rule h \<noteq> rid) (n_history s)\<rparr>))"

definition list_notification_rules :: "string \<Rightarrow> notify_state \<Rightarrow> notification_rule list" where
  "list_notification_rules owner s = rev (sort_key created_at (filter (\<lambda>r. rule_owner r = owner) (n_rules s)))"

definition list_notification_history ::
  "string \<Rightarrow> string option \<Rightarrow> int \<Rightarrow> int \<Rightarrow> notify_state \<Rightarrow> route_error + history_row list \<times> nat" where
  "list_notification_history owner rid limit offset s =
     (if limit < 1 \<or> limit > 200 then Inl (Http_Error 400 ''Limit must be between 1 and 200'')
      else if offset < 0 then Inl (Http_Error 400 ''Offset must be non-negative'')
      else
        let mine = filter (\<lambda>h. list_ex (\<lambda>r. rule_id r = h_rule h \<and> rule_owner r = owner) (n_rules s)
               \<and> (rid = None \<or> rid = Some [] \<or> rid = Some (h_rule h))) (rev (n_history s))
        in Inr (take (nat limit) (drop (nat offset) mine), length mine))"

subsection \<open>Histories of the rule table\<close>

text \<open>Requests and deliveries in any order; every request sees its own resolver, every new rule a fresh identifier.\<close>

inductive notify_reach :: "webhook_settings \<Rightarrow> bool \<Rightarrow> notify_state \<Rightarrow> bool" for cfg :: webhook_settings and ssrf :: bool where
  start: "notify_reach cfg ssrf \<lparr>n_rules = [], n_findings = fs, n_history = [], n_contacts = [], n_mails = []\<rparr>"
| create: "notify_reach cfg ssrf s \<Longrightarrow> uid \<notin> rule_id ` set (n_rules s) \<Longrightarrow>
    notify_reach cfg ssrf (snd (create_notification_rule \<lparr>ssrf_enabled = ssrf, hook_settings = cfg, lookup = dns\<rparr> owner uid now p s))"
| update: "notify_reach cfg ssrf s \<Longrightarrow>
    notify_reach cfg ssrf (snd (update_notification_rule \<lparr>ssrf_enabled = ssrf, hook_settings = cfg, lookup = dns\<rparr> owner now rid u s))"
| delete: "notify_reach cfg ssrf s \<Longrightarrow> notify_reach cfg ssrf (snd (delete_notification_rule rid owner s))"
| findings: "notify_reach cfg ssrf s \<Longrightarrow> notify_reach cfg ssrf (s\<lparr>n_findings := fs\<rparr>)"
| deliver: "notify_reach cfg ssrf s \<Longrightarrow> notify_reach cfg ssrf (snd (process_task_notifications w fl show discovered task s))"

text \<open>A rule whose target passed the validation for its channel, under some answer of the resolver.\<close>

definition target_checked :: "webhook_settings \<Rightarrow> bool \<Rightarrow> notification_rule \<Rightarrow> bool" where
  "target_checked cfg ssrf r \<longleftrightarrow> (\<exists>dns raw ch. channel_type r = channel_value ch
     \<and> validate_notification_target \<lparr>ssrf_enabled = ssrf, hook_settings = cfg, lookup = dns\<rparr> ch raw = Inr (target_address r))"

lemma channel_of_value [simp]: "channel_of (channel_value c) = Some c"
  by (cases c) (simp_all add: channel_of_def channel_value_def)

lemma map_sum_iff: "map_sum f g x = Inr y \<longleftrightarrow> (\<exists>z. x = Inr z \<and> y = g z)" "map_sum f g x = Inl y' \<longleftrightarrow> (\<exists>z. x = Inl z \<and> y' = f z)"
  by (cases x; auto)+

lemma prepared_target:
  assumes "prepare_rule_update \<lparr>ssrf_enabled = ssrf, hook_settings = cfg, lookup = dns\<rparr> owner rid p s = Inr (row, changes)"
    and "target_checked cfg ssrf row"
  shows "target_checked cfg ssrf (apply_changes changes now row)"
proof -
  let ?e = "\<lparr>ssrf_enabled = ssrf, hook_settings = cfg, lookup = dns\<rparr>"
  obtain ch0 where ch0: "channel_type row = channel_value ch0" using assms(2) by (auto simp: target_checked_def)
  have eff: "(case u_channel p of Some c \<Rightarrow> Some c | None \<Rightarrow> channel_of (channel_type row)) = Some (case u_channel p of Some c \<Rightarrow> c | None \<Rightarrow> ch0)"
    using ch0 by (simp split: option.splits)
  have new: "channel_type (apply_changes changes now row) = channel_value (case u_channel p of Some c \<Rightarrow> c | None \<Rightarrow> ch0)"
      "changes = p\<lparr>u_name := u_name changes, u_target := u_target changes\<rparr>"
    using assms(1) ch0 eff
    by (auto simp: prepare_rule_update_def apply_changes_def Let_def split: sum.splits option.splits if_splits)
  consider t raw where "u_target changes = Some t" "validate_notification_target ?e (case u_channel p of Some c \<Rightarrow> c | None \<Rightarrow> ch0) raw = Inr t"
    | "u_target changes = None" "u_channel p = None"
    using assms(1) eff
    by (cases "u_target p"; cases "u_channel p")
      (auto simp: prepare_rule_update_def Let_def map_sum_iff split: sum.splits option.splits if_splits)
  then show ?thesis
  proof cases
    case 1
    then show ?thesis using new(1) by (auto simp: target_checked_def apply_changes_def or_kept_def)
  next
    case 2
    then show ?thesis using assms(2) new(1) ch0 by (auto simp: target_checked_def apply_changes_def or_kept_def)
  qed
qed

definition rules_inv :: "webhook_settings \<Rightarrow> bool \<Rightarrow> notify_state \<Rightarrow> bool" where
  "rules_inv cfg ssrf s \<longleftrightarrow> distinct (map rule_id (n_rules s)) \<and> (\<forall>r \<in> set (n_rules s). target_checked cfg ssrf r)"

lemma find_mapped: "(\<And>q. P (f q) = P q) \<Longrightarrow> find P (map f xs) = map_option f (find P xs)"
  by (induction xs) simp_all

lemma find_by_id:
  assumes "find (\<lambda>r. rule_id r = rid) rs = Some r"
  shows "r \<in> set rs" and "rule_id r = rid"
  using assms by (auto simp: find_Some_iff)

lemma verify_Inr: "verify_notification_rule_owner rid owner s = Inr r \<Longrightarrow> r \<in> set (n_rules s) \<and> rule_id r = rid \<and> rule_owner r = owner"
  using find_by_id by (auto simp: verify_notification_rule_owner_def split: option.splits if_splits)

lemma prepared_row:
  "prepare_rule_update e owner rid p s = Inr (row, changes) \<Longrightarrow> verify_notification_rule_owner rid owner s = Inr row"
  by (auto simp: prepare_rule_update_def Let_def split: sum.splits option.splits if_splits)

lemma commit_rules:
  "n_rules (snd (commit_rule_update now row changes s))
    = map (\<lambda>r. if rule_id r = rule_id row \<and> updated_at r = updated_at row then apply_changes changes now r else r) (n_rules s)"
proof (cases "list_ex (\<lambda>r. rule_id r = rule_id row \<and> updated_at r = updated_at row) (n_rules s)")
  case True
  then show ?thesis by (simp add: commit_rule_update_def Let_def split: option.splits)
next
  case False
  then have "map (\<lambda>r. if rule_id r = rule_id row \<and> updated_at r = updated_at row then apply_changes changes now r else r) (n_rules s) = n_rules s"
    by (intro map_idI) (auto simp: list_ex_iff)
  then show ?thesis using False by (simp add: commit_rule_update_def Let_def split: option.splits)
qed

lemma apply_changes_id [simp]:
  "rule_id (apply_changes c now r) = rule_id r" "rule_owner (apply_changes c now r) = rule_owner r"
  "updated_at (apply_changes c now r) = now"
  by (simp_all add: apply_changes_def)

lemma map_rule_id_update:
  "map rule_id (map (\<lambda>r. if P r then apply_changes c now r else r) rs) = map rule_id rs"
  by (induction rs) simp_all

lemma rules_inv_update:
  assumes "rules_inv cfg ssrf s"
  shows "rules_inv cfg ssrf (snd (update_notification_rule \<lparr>ssrf_enabled = ssrf, hook_settings = cfg, lookup = dns\<rparr> owner now rid u s))"
proof (cases "prepare_rule_update \<lparr>ssrf_enabled = ssrf, hook_settings = cfg, lookup = dns\<rparr> owner rid u s")
  case (Inl err)
  then show ?thesis using assms by (simp add: update_notification_rule_def)
next
  case (Inr rc)
  obtain row changes where rc: "rc = (row, changes)" by (cases rc)
  note p = Inr [unfolded rc]
  note v = verify_Inr [OF prepared_row [OF p]]
  have "target_checked cfg ssrf (apply_changes changes now row)"
    using prepared_target [OF p] assms v by (simp add: rules_inv_def)
  moreover have "r = row" if "r \<in> set (n_rules s)" "rule_id r = rule_id row" for r
    using assms v that by (metis distinct_map inj_onD rules_inv_def)
  ultimately have "\<forall>r \<in> set (n_rules s). target_checked cfg ssrf
      (if rule_id r = rule_id row \<and> updated_at r = updated_at row then apply_changes changes now r else r)"
    using assms by (auto simp: rules_inv_def)
  then have "\<forall>r \<in> set (n_rules (snd (commit_rule_update now row changes s))). target_checked cfg ssrf r"
    unfolding commit_rules set_map by blast
  moreover have "distinct (map rule_id (n_rules (snd (commit_rule_update now row changes s))))"
    using assms unfolding commit_rules map_rule_id_update by (simp add: rules_inv_def)
  ultimately show ?thesis using p by (simp add: update_notification_rule_def rules_inv_def)
qed

lemma notify_reach_inv: "notify_reach cfg ssrf s \<Longrightarrow> rules_inv cfg ssrf s"
proof (induction rule: notify_reach.induct)
  case (start fs)
  show ?case by (simp add: rules_inv_def)
next
  case (create s uid dns owner now p)
  let ?e = "\<lparr>ssrf_enabled = ssrf, hook_settings = cfg, lookup = dns\<rparr>"
  show ?case
  proof (cases "py_strip (c_name p) = [] \<or> (\<exists>err. validate_notification_target ?e (c_channel p) (c_target p) = Inl err)")
    case True
    then show ?thesis using create.IH by (auto simp: create_notification_rule_def Let_def)
  next
    case False
    then obtain t where "validate_notification_target ?e (c_channel p) (c_target p) = Inr t"
      by (cases "validate_notification_target ?e (c_channel p) (c_target p)") auto
    then show ?thesis using False create
      by (auto simp: create_notification_rule_def Let_def rules_inv_def target_checked_def)
  qed
next
  case (update s dns owner now rid u)
  then show ?case by (intro rules_inv_update)
next
  case (delete s rid owner)
  then show ?case
    by (auto simp: delete_notification_rule_def rules_inv_def distinct_map_filter split: sum.splits)
next
  case (findings s fs)
  then show ?case by (simp add: rules_inv_def)
next
  case (deliver s w fl sh discovered task)
  obtain res s' where d: "process_task_notifications w fl sh discovered task s = (res, s')"
    by (cases "process_task_notifications w fl sh discovered task s")
  from process_task_steps [OF d] have "n_rules s' = n_rules s" by blast
  then show ?case using deliver.IH unfolding d by (simp add: rules_inv_def)
qed

subsection \<open>Properties\<close>


text \<open>C28: When the notifications of a task have been processed without an exception, the history holds an
  attempt for every finding of the task and every active rule whose threshold it meets. The owner of
  the rule plays no part in that: a rule of any owner is served with the findings of everyone.\<close>

theorem every_due_rule_is_attempted:
  assumes "process_task_notifications w fl show discovered task s = (Some res, s')"
    and "distinct (map (finding_key show) (n_findings s))" and "jget f ''task_id'' = JStr task" and "meets_rule show s r f"
  shows "attempted s' (rule_id r) (finding_key show f)"
proof -
  let ?P = "\<lambda>s1. n_rules s1 = n_rules s \<and> n_findings s1 = n_findings s"
  let ?Q = "\<lambda>g s2. meets_rule show s r g \<longrightarrow> attempted s2 (rule_id r) (finding_key show g)"
  have f: "f \<in> set (sort_key discovered (filter (\<lambda>f. jget f ''task_id'' = JStr task) (n_findings s)))"
    using assms(3,4) by (simp add: meets_rule_def)
  have step: "(delivers w fl show)\<^sup>*\<^sup>* s1 s2 \<and> ?P s2"
    if "?P s1" "process_finding_notifications w fl show (finding_key show g) s1 = (res1, s2)" for g s1 res1 s2
    using process_finding_steps [OF that(2)] that(1) by simp
  have att: "?Q g s2" if "?P s1" "process_finding_notifications w fl show (finding_key show g) s1 = (Some res1, s2)" for g s1 res1 s2
    using process_finding_complete [OF that(2)] that(1) assms(2) by (simp add: meets_rule_def)
  have "?Q f s'"
    by (rule deliver_all_complete [where P = ?P and Q = ?Q, OF step _ _ _ assms(1) [unfolded process_task_notifications_def] f])
      (use att delivers_history in blast)+
  then show ?thesis using assms(4) by blast
qed

text \<open>In every history of requests and deliveries, with the protection enabled, the target of a webhook rule
  is a URL that passed the checks when it was stored: its host resolved, at that time, to addresses in
  no blocked range. Changing only the channel of a rule checks its old target again.\<close>

theorem rule_targets_validated:
  assumes "notify_reach cfg True s" and "r \<in> set (n_rules s)" and "channel_type r = ''webhook''"
  shows "\<exists>dns scheme netloc h addrs m. urlsplit (target_address r) = Some (scheme, netloc) \<and> url_hostname netloc = Some h
     \<and> resolve_and_validate_target cfg dns (target_address r) = Some (True, m) \<and> dns h = Some addrs
     \<and> (\<forall>a \<in> set addrs. ip_address a \<noteq> None \<longrightarrow> unblocked (notification_blocked_ip_ranges cfg) a)"
proof -
  obtain dns raw ch where ch: "channel_type r = channel_value ch"
      "validate_notification_target \<lparr>ssrf_enabled = True, hook_settings = cfg, lookup = dns\<rparr> ch raw = Inr (target_address r)"
    using notify_reach_inv [OF assms(1)] assms(2) by (auto simp: rules_inv_def target_checked_def)
  then have "ch = Webhook" using assms(3) by (cases ch) (simp_all add: channel_value_def)
  then obtain m where m: "resolve_and_validate_target cfg dns (target_address r) = Some (True, m)"
    using ch(2) by (auto simp: validate_notification_target_def Let_def split: if_splits option.splits prod.splits bool.splits)
  obtain scheme netloc h port addrs where s: "urlsplit (target_address r) = Some (scheme, netloc)" "url_hostname netloc = Some h"
      "dns h = Some addrs" "first_rejection (webhook_ip_check cfg) addrs = (True, m)"
    using m by (auto simp: resolve_and_validate_target_def split: option.splits if_splits sum.splits)
  have "unblocked (notification_blocked_ip_ranges cfg) a" if "a \<in> set addrs" "ip_address a \<noteq> None" for a
  proof -
    have "fst (webhook_ip_check cfg a)" using s(4) first_rejection_True [of "webhook_ip_check cfg" addrs] that(1) by simp
    then show ?thesis using that(2)
      by (auto simp: webhook_ip_check_def unblocked_def covering_range_None split: option.splits if_splits)
  qed
  then show ?thesis using s m by blast
qed

text \<open>C29: A prepared edit of a rule is written only if the time stamp of the row is still the one that was read;
  then exactly that row changes, and it gets a new time stamp. Otherwise nothing changes and the caller
  gets the current row as a conflict.\<close>

theorem concurrent_edit_detected:
  assumes "prepare_rule_update e owner rid p s0 = Inr (row, changes)" and "r \<in> set (n_rules s)" and "rule_id r = rid"
    and "distinct (map rule_id (n_rules s))"
  shows "if updated_at r = updated_at row
     then commit_rule_update now row changes s = (Inr (apply_changes changes now r),
            s\<lparr>n_rules := map (\<lambda>q. if rule_id q = rid then apply_changes changes now q else q) (n_rules s)\<rparr>)
     else commit_rule_update now row changes s = (Inl (Rule_Conflict r), s)"
proof -
  have row: "rule_id row = rid" "rule_owner row = owner" using verify_Inr [OF prepared_row [OF assms(1)]] by simp_all
  have only: "q = r" if "q \<in> set (n_rules s)" "rule_id q = rid" for q
    using assms(2,3,4) that by (metis distinct_map inj_onD)
  have found: "find (\<lambda>r. rule_id r = rid) (n_rules s) = Some r"
  proof (cases "find (\<lambda>r. rule_id r = rid) (n_rules s)")
    case None
    then show ?thesis using assms(2,3) by (auto simp: find_None_iff)
  next
    case (Some q)
    then show ?thesis using find_by_id [OF Some] only by simp
  qed
  show ?thesis
  proof (cases "updated_at r = updated_at row")
    case True
    let ?new = "map (\<lambda>q. if rule_id q = rid then apply_changes changes now q else q) (n_rules s)"
    have "map (\<lambda>q. if rule_id q = rule_id row \<and> updated_at q = updated_at row then apply_changes changes now q else q) (n_rules s) = ?new"
      using only True row by (intro map_cong) auto
    moreover have "find (\<lambda>r. rule_id r = rid) ?new = Some (apply_changes changes now r)"
      using found row only [OF assms(2,3)] assms(3) by (subst find_mapped) simp_all
    moreover have "list_ex (\<lambda>q. rule_id q = rule_id row \<and> updated_at q = updated_at row) (n_rules s)"
      using assms(2,3) True row by (auto simp: list_ex_iff)
    ultimately show ?thesis
      using True unfolding commit_rule_update_def Let_def by (simp only: row refl if_True) simp
  next
    case False
    then have "\<not> list_ex (\<lambda>q. rule_id q = rule_id row \<and> updated_at q = updated_at row) (n_rules s)"
      using only row by (auto simp: list_ex_iff)
    then show ?thesis using False found row by (simp add: commit_rule_update_def Let_def)
  qed
qed

subsection \<open>Witnesses\<close>

text \<open>A finding of one owner and a webhook rule of another.\<close>

definition example_rule :: notification_rule where
  "example_rule = \<lparr>rule_id = ''r1'', rule_name = ''n'', rule_owner = ''user:b'', severity_threshold = ''high'',
     channel_type = ''webhook'', target_address = ''https://hooks.example.com/in'', is_active = True, created_at = 1, updated_at = 1\<rparr>"

definition example_finding :: dict where
  "example_finding = [(''id'', JStr ''f1''), (''task_id'', JStr ''t1''), (''severity'', JStr ''critical''), (''owner_id'', JStr ''user:a'')]"

definition example_notify :: notify_state where
  "example_notify = \<lparr>n_rules = [example_rule], n_findings = [example_finding], n_history = [], n_contacts = [], n_mails = []\<rparr>"

definition example_outside :: outside where
  "example_outside = \<lparr>resolve = (\<lambda>n h p. Some [''93.184.216.34'']), http_post = (\<lambda>n c. Http_Status 200 None),
     smtp_send = (\<lambda>n m. None), smtp_configured = True, blocked_ranges = default_blocked_ranges\<rparr>"

definition shown_text :: "json \<Rightarrow> string" where
  "shown_text v = (case v of JStr s \<Rightarrow> s | _ \<Rightarrow> [])"

lemma example_sent:
  "send_webhook example_outside n ''https://hooks.example.com/in'' payload
    = (Some (True, None), [\<lparr>contact_ip = ''93.184.216.34'', contact_host = ''hooks.example.com'', contact_scheme = ''https'', contact_body = payload\<rparr>])"
proof -
  have u: "urlsplit ''https://hooks.example.com/in'' = Some (''https'', ''hooks.example.com'')" "url_hostname ''hooks.example.com'' = Some ''hooks.example.com''"
    "url_port ''hooks.example.com'' = Inr None" "validate_addrs default_blocked_ranges [''93.184.216.34''] = Inr [''93.184.216.34'']"
    by (code_simp, code_simp, code_simp, code_simp)
  show ?thesis by (simp only: send_webhook_def u option.case sum.case) (simp add: example_outside_def u judge_reply_def redirect_codes_def del: validate_addrs.simps)
qed

lemma example_due: "meets_rule shown_text example_notify example_rule example_finding"
proof -
  have "severity_meets_threshold ''critical'' ''high''" by code_simp
  then show ?thesis
    by (simp add: meets_rule_def example_notify_def example_rule_def finding_severity_def shown_text_def example_finding_def jget_or_def)
qed

lemma example_run:
  "\<exists>res s'. process_task_notifications example_outside (\<lambda>r. r) shown_text (\<lambda>f. 0) ''t1'' example_notify = (Some res, s') \<and> n_contacts s' \<noteq> []"
proof -
  have k: "finding_key shown_text example_finding = ''f1''" "jget example_finding ''task_id'' = JStr ''t1''"
    by (simp_all add: finding_key_def shown_text_def example_finding_def jget_def)
  have sev: "severity_meets_threshold (finding_severity shown_text example_finding) (severity_threshold example_rule)" "is_active example_rule"
    using example_due by (simp_all add: meets_rule_def)
  have ch: "py_lower (channel_type example_rule) = ''webhook''" "target_address example_rule = ''https://hooks.example.com/in''"
    by (simp_all add: example_rule_def) (code_simp)
  have act: "active_rules example_notify = [example_rule]"
    using sev(2) by (simp add: active_rules_def example_notify_def)
  have found: "find (\<lambda>f. finding_key shown_text f = ''f1'') (n_findings example_notify) = Some example_finding"
    and only: "filter (\<lambda>f. jget f ''task_id'' = JStr ''t1'') (n_findings example_notify) = [example_finding]"
    using k by (simp_all add: example_notify_def)
  have fresh: "\<not> was_already_delivered example_notify r f" for r f
    by (simp add: was_already_delivered_def example_notify_def)
  have at: "attempts max_retries example_outside shown_text (py_lower (channel_type example_rule)) (target_address example_rule) payload example_notify
      = (Some (True, None), example_notify\<lparr>n_contacts := n_contacts example_notify @
          [\<lparr>contact_ip = ''93.184.216.34'', contact_host = ''hooks.example.com'', contact_scheme = ''https'', contact_body = payload\<rparr>]\<rparr>)" for payload
    by (simp add: max_retries_def ch send_once_def example_sent)
  obtain d s1 where d: "deliver_via_rule example_outside (\<lambda>r. r) shown_text example_rule example_finding example_notify = (Some d, s1)"
      "n_contacts s1 \<noteq> []"
    by (simp add: deliver_via_rule_def sev at fresh Let_def record_delivery_def)
  have "process_finding_notifications example_outside (\<lambda>r. r) shown_text ''f1'' example_notify = (Some [d], s1)"
    by (simp add: process_finding_notifications_def found act d)
  then have "process_task_notifications example_outside (\<lambda>r. r) shown_text (\<lambda>f. 0) ''t1'' example_notify = (Some [d], s1)"
    by (simp add: process_task_notifications_def only k)
  then show ?thesis using d(2) by blast
qed


theorem every_due_rule_is_attempted_witness:
  "\<exists>res s'. process_task_notifications example_outside (\<lambda>r. r) shown_text (\<lambda>f. 0) ''t1'' example_notify = (Some res, s')
     \<and> rule_owner example_rule = ''user:b'' \<and> jget example_finding ''owner_id'' = JStr ''user:a'' \<and> attempted s' ''r1'' ''f1''"
proof -
  obtain res s' where r: "process_task_notifications example_outside (\<lambda>r. r) shown_text (\<lambda>f. 0) ''t1'' example_notify = (Some res, s')"
    using example_run by blast
  have f: "distinct (map (finding_key shown_text) (n_findings example_notify))" "jget example_finding ''task_id'' = JStr ''t1''"
    "jget example_finding ''owner_id'' = JStr ''user:a''" "rule_id example_rule = ''r1''" "rule_owner example_rule = ''user:b''"
    "finding_key shown_text example_finding = ''f1''"
    by (simp_all add: example_notify_def example_finding_def example_rule_def finding_key_def shown_text_def jget_def)
  from every_due_rule_is_attempted [OF r f(1,2) example_due] r f show ?thesis by auto
qed

definition example_create :: rule_create where
  "example_create = \<lparr>c_name = ''n'', c_threshold = ''high'', c_channel = Webhook, c_target = ''https://hooks.example.com/in'', c_active = True\<rparr>"

definition created_state :: notify_state where
  "created_state = snd (create_notification_rule \<lparr>ssrf_enabled = True, hook_settings = example_webhooks, lookup = (\<lambda>h. Some [''93.184.216.34''])\<rparr>
     ''user:b'' ''r1'' 1 example_create \<lparr>n_rules = [], n_findings = [], n_history = [], n_contacts = [], n_mails = []\<rparr>)"

lemma created_rules: "n_rules created_state = [example_rule]"
  by code_simp

theorem rule_targets_validated_witness:
  "\<exists>dns m. resolve_and_validate_target example_webhooks dns ''https://hooks.example.com/in'' = Some (True, m)"
proof -
  have "notify_reach example_webhooks True created_state"
    unfolding created_state_def by (intro notify_reach.create notify_reach.start) simp
  moreover have "channel_type example_rule = ''webhook''" "target_address example_rule = ''https://hooks.example.com/in''"
    by (simp_all add: example_rule_def)
  ultimately show ?thesis
    using rule_targets_validated [of example_webhooks created_state example_rule] created_rules by fastforce
qed

theorem concurrent_edit_detected_witness:
  "let u = \<lparr>u_name = Some ''m'', u_threshold = None, u_channel = None, u_target = None, u_active = None\<rparr>;
       e = \<lparr>ssrf_enabled = True, hook_settings = example_webhooks, lookup = (\<lambda>h. None)\<rparr>;
       later = example_notify\<lparr>n_rules := [example_rule\<lparr>is_active := False, updated_at := 2\<rparr>]\<rparr>
   in prepare_rule_update e ''user:b'' ''r1'' u example_notify = Inr (example_rule, u)
      \<and> commit_rule_update 3 example_rule u later = (Inl (Rule_Conflict (example_rule\<lparr>is_active := False, updated_at := 2\<rparr>)), later)"
proof -
  let ?u = "\<lparr>u_name = Some ''m'', u_threshold = None, u_channel = None, u_target = None, u_active = None\<rparr>"
  let ?e = "\<lparr>ssrf_enabled = True, hook_settings = example_webhooks, lookup = (\<lambda>h. None)\<rparr>"
  let ?later = "example_notify\<lparr>n_rules := [example_rule\<lparr>is_active := False, updated_at := 2\<rparr>]\<rparr>"
  have p: "prepare_rule_update ?e ''user:b'' ''r1'' ?u example_notify = Inr (example_rule, ?u)" by code_simp
  show ?thesis
    using concurrent_edit_detected [OF p, of "example_rule\<lparr>is_active := False, updated_at := 2\<rparr>" ?later 3] p
    by (simp add: example_rule_def)
qed

end
