(* ===== verification/Sql_Tables.thy ===== *)
theory Sql_Tables
  imports Task_Launch Json_Text
begin

text \<open>
  What the resource tables of the database share: the statements the handlers run on a table (a list
  of rows), the conversion of values bound to a TEXT column, the keys of \<open>_json_payload\<close> columns, and
  the contract of a table whose rows belong to owners. \<open>owned_table\<close>: a request of an owner reads and
  changes the rows of that owner only, so his rows are what his own requests made of them;
  \<open>private_table\<close> adds that its answers depend on his rows only, so the answers an owner gets
  are those he would get alone. Identifiers are fresh (\<open>uuid4\<close>).
\<close>

subsection \<open>Statements\<close>

definition sql_update :: "('r \<Rightarrow> bool) \<Rightarrow> ('r \<Rightarrow> 'r) \<Rightarrow> 'r list \<Rightarrow> 'r list" where
  "sql_update P f rows = map (\<lambda>r. if P r then f r else r) rows"

definition sql_delete :: "('r \<Rightarrow> bool) \<Rightarrow> 'r list \<Rightarrow> 'r list" where
  "sql_delete P rows = filter (\<lambda>r. \<not> P r) rows"

lemma filter_sql_update:
  assumes "\<And>r. P r \<Longrightarrow> Q (f r) = Q r"
  shows "filter Q (sql_update P f rows) = sql_update P f (filter Q rows)"
  using assms by (induction rows) (auto simp: sql_update_def)

lemma filter_sql_update_foreign:
  assumes "\<And>r. P r \<Longrightarrow> \<not> Q r \<and> \<not> Q (f r)"
  shows "filter Q (sql_update P f rows) = filter Q rows"
  using assms by (induction rows) (auto simp: sql_update_def)

lemma filter_sql_delete: "filter Q (sql_delete P rows) = sql_delete P (filter Q rows)"
  unfolding sql_delete_def filter_filter by (rule filter_cong) auto

lemma filter_sql_delete_foreign: "(\<And>r. P r \<Longrightarrow> \<not> Q r) \<Longrightarrow> filter Q (sql_delete P rows) = filter Q rows"
  unfolding sql_delete_def filter_filter by (rule filter_cong) auto

lemma map_sql_update: "(\<And>r. P r \<Longrightarrow> g (f r) = g r) \<Longrightarrow> map g (sql_update P f rows) = map g rows"
  by (induction rows) (auto simp: sql_update_def)

lemma bex_sql_update: "(\<exists>r \<in> set (sql_update P f rows). Q r) \<longleftrightarrow> (\<exists>r \<in> set rows. Q (if P r then f r else r))"
  and ball_sql_update: "(\<forall>r \<in> set (sql_update P f rows). Q r) \<longleftrightarrow> (\<forall>r \<in> set rows. Q (if P r then f r else r))"
  unfolding sql_update_def set_map by blast+

lemma distinct_sql_delete: "distinct (map g rows) \<Longrightarrow> distinct (map g (sql_delete P rows))"
  by (simp add: sql_delete_def distinct_map_filter)

lemma set_sql_delete [simp]: "set (sql_delete P rows) = {r \<in> set rows. \<not> P r}"
  by (simp add: sql_delete_def)

lemma find_filter: "(\<And>r. r \<in> set rows \<Longrightarrow> P r \<Longrightarrow> Q r) \<Longrightarrow> find P (filter Q rows) = find P rows"
  by (induction rows) auto

lemma find_set: "find P xs = Some r \<Longrightarrow> r \<in> set xs \<and> P r"
  by (auto simp: find_Some_iff)

lemma find_same_key:
  assumes "distinct (map g rows)" and "r \<in> set rows"
  shows "find (\<lambda>q. g q = g r) rows = Some r"
  using assms by (induction rows) (auto intro: rev_image_eqI)

subsection \<open>Tables with owners\<close>

text \<open>The requests of a history with the identifiers they create, each fresh when it is made.\<close>

fun fresh_history ::
  "('row \<Rightarrow> 'id) \<Rightarrow> ('q \<Rightarrow> 'id option) \<Rightarrow> (string \<Rightarrow> 'q \<Rightarrow> 'row list \<Rightarrow> 'row list) \<Rightarrow> (string \<times> 'q) list \<Rightarrow> 'row list \<Rightarrow> bool" where
  "fresh_history ident new_id step [] rows = True"
| "fresh_history ident new_id step ((o1, q) # reqs) rows =
     ((\<forall>i. new_id q = Some i \<longrightarrow> i \<notin> ident ` set rows) \<and> fresh_history ident new_id step reqs (step o1 q rows))"

definition run_requests :: "(string \<Rightarrow> 'q \<Rightarrow> 'row list \<Rightarrow> 'row list) \<Rightarrow> (string \<times> 'q) list \<Rightarrow> 'row list \<Rightarrow> 'row list" where
  "run_requests step reqs rows = fold (\<lambda>(o1, q). step o1 q) reqs rows"

definition requests_of :: "string \<Rightarrow> (string \<times> 'q) list \<Rightarrow> (string \<times> 'q) list" where
  "requests_of me reqs = filter (\<lambda>(o1, q). o1 = me) reqs"

lemma fresh_history_append:
  "fresh_history ident new_id step (before @ later) rows \<longleftrightarrow> fresh_history ident new_id step before rows
     \<and> fresh_history ident new_id step later (run_requests step before rows)"
  by (induction before arbitrary: rows) (simp_all add: run_requests_def split_paired_all conj_assoc)

lemma fresh_history_snoc:
  "fresh_history ident new_id step (reqs @ [(me, q)]) rows \<longleftrightarrow> fresh_history ident new_id step reqs rows
     \<and> (\<forall>i. new_id q = Some i \<longrightarrow> i \<notin> ident ` set (run_requests step reqs rows))"
  by (induction reqs arbitrary: rows) (simp_all add: run_requests_def split_paired_all)

locale owned_table =
  fixes own :: "string \<Rightarrow> 'row \<Rightarrow> bool"
    and ident :: "'row \<Rightarrow> 'id"
    and new_id :: "'q \<Rightarrow> 'id option"
    and step :: "string \<Rightarrow> 'q \<Rightarrow> 'row list \<Rightarrow> 'row list"
  assumes step_distinct: "distinct (map ident rows) \<Longrightarrow> (\<forall>i. new_id q = Some i \<longrightarrow> i \<notin> ident ` set rows)
      \<Longrightarrow> distinct (map ident (step me q rows))"
    and step_own: "distinct (map ident rows) \<Longrightarrow> (\<forall>i. new_id q = Some i \<longrightarrow> i \<notin> ident ` set rows)
      \<Longrightarrow> filter (own me) (step me q rows) = step me q (filter (own me) rows)"
    and step_foreign: "distinct (map ident rows) \<Longrightarrow> (\<forall>i. new_id q = Some i \<longrightarrow> i \<notin> ident ` set rows)
      \<Longrightarrow> me \<noteq> you \<Longrightarrow> filter (own you) (step me q rows) = filter (own you) rows"
begin

lemma history_distinct:
  "fresh_history ident new_id step reqs rows \<Longrightarrow> distinct (map ident rows) \<Longrightarrow> distinct (map ident (run_requests step reqs rows))"
  by (induction reqs arbitrary: rows) (auto simp: run_requests_def step_distinct)

text \<open>The rows of an owner are those his own requests alone would have made.\<close>

lemma rows_of_own_requests:
  "fresh_history ident new_id step reqs rows \<Longrightarrow> distinct (map ident rows)
    \<Longrightarrow> filter (own me) (run_requests step reqs rows) = run_requests step (requests_of me reqs) (filter (own me) rows)"
proof (induction reqs arbitrary: rows)
  case (Cons oq reqs)
  obtain o1 q where oq: "oq = (o1, q)" by (cases oq)
  from Cons.prems have f: "\<forall>i. new_id q = Some i \<longrightarrow> i \<notin> ident ` set rows" and t: "fresh_history ident new_id step reqs (step o1 q rows)"
    by (auto simp: oq)
  have ih: "filter (own me) (run_requests step reqs (step o1 q rows))
      = run_requests step (requests_of me reqs) (filter (own me) (step o1 q rows))"
    using Cons.IH [OF t step_distinct [OF Cons.prems(2) f]] .
  have unfold: "run_requests step (oq # reqs) rows = run_requests step reqs (step o1 q rows)" for rows
    by (simp add: run_requests_def oq)
  show ?case
  proof (cases "o1 = me")
    case True
    have "filter (own me) (step o1 q rows) = step me q (filter (own me) rows)"
      using step_own [OF Cons.prems(2) f] True by simp
    then show ?thesis unfolding unfold ih by (simp add: requests_of_def run_requests_def oq True)
  next
    case False
    then show ?thesis unfolding unfold ih step_foreign [OF Cons.prems(2) f False]
      by (simp add: requests_of_def oq)
  qed
qed (simp add: run_requests_def requests_of_def)

end

locale private_table = owned_table own ident new_id step
  for own :: "string \<Rightarrow> 'row \<Rightarrow> bool" and ident :: "'row \<Rightarrow> 'id" and new_id :: "'q \<Rightarrow> 'id option"
    and step :: "string \<Rightarrow> 'q \<Rightarrow> 'row list \<Rightarrow> 'row list" +
  fixes answer :: "string \<Rightarrow> 'q \<Rightarrow> 'row list \<Rightarrow> 'a"
  assumes answer_own: "distinct (map ident rows) \<Longrightarrow> (\<forall>i. new_id q = Some i \<longrightarrow> i \<notin> ident ` set rows)
      \<Longrightarrow> answer me q rows = answer me q (filter (own me) rows)"
begin

lemma answers_of_own_requests:
  assumes "fresh_history ident new_id step (reqs @ [(me, q)]) rows" and "distinct (map ident rows)"
  shows "answer me q (run_requests step reqs rows) = answer me q (run_requests step (requests_of me reqs) (filter (own me) rows))"
  using assms answer_own history_distinct rows_of_own_requests unfolding fresh_history_snoc by metis

end

subsection \<open>Values and columns\<close>

text \<open>The environment: the text of floats and containers, the text of a float in JSON, the rounding of decimals.\<close>

record sql_env =
  shown :: "json \<Rightarrow> string"
  float_text :: "rat \<Rightarrow> string"
  float_of :: "rat \<Rightarrow> rat"

text \<open>The driver binds no lists and mappings and no integer beyond 64 bits.\<close>

definition bindable :: "json \<Rightarrow> bool" where
  "bindable v = (case v of JList vs \<Rightarrow> False | JObj d \<Rightarrow> False | JInt i \<Rightarrow> - (2 ^ 63) \<le> i \<and> i < 2 ^ 63 | _ \<Rightarrow> True)"

text \<open>A TEXT column stores numbers as texts.\<close>

definition text_affinity :: "sql_env \<Rightarrow> json \<Rightarrow> json" where
  "text_affinity e v = (case v of JInt i \<Rightarrow> JStr (int_str i) | JBool b \<Rightarrow> JStr (if b then ''1'' else ''0'')
     | JFloat r \<Rightarrow> JStr (float_text e r) | _ \<Rightarrow> v)"

text \<open>\<open>_json_payload\<close>\<close>

definition json_payload :: "sql_env \<Rightarrow> json \<Rightarrow> json \<Rightarrow> json" where
  "json_payload e v fallback = JStr (dumps (float_text e) default_seps (if v \<noteq> JNull then v else fallback))"

text \<open>The answers of the handlers; \<open>Server_Error\<close> is an exception of the driver or of the vault.\<close>

datatype table_reply = Row dict | Rows "dict list" | Deleted string | Refused nat string | Server_Error

end
