(* ===== verification/Saved_Views.thy ===== *)
theory Saved_Views
  imports Sql_Tables
begin

text \<open>
  \<open>backend/secuscan/saved_views.py\<close>: the named filters of the findings page, with the checks of the
  request models (pydantic) and the handlers. The table has the constraint \<open>UNIQUE(owner_id, name)\<close>
  and a primary key. A handler is atomic here, except that creation is also given in its two halves,
  the check and the insert, between which another request can run.
\<close>

subsection \<open>Request bodies\<close>

definition valid_sort_modes :: "string list" where
  "valid_sort_modes = [''severity'', ''newest'', ''oldest'', ''target'']"

definition valid_severities :: "string list" where
  "valid_severities = [''all'', ''critical'', ''high'', ''medium'', ''low'', ''info'']"

definition preset_fields :: "string list" where
  "preset_fields = [''severity'', ''target'', ''scanner'', ''sortMode'', ''dateFrom'', ''dateTo'', ''searchQuery'']"

text \<open>\<open>FilterPreset(**data)\<close> of a mapping: the known fields are texts, two of them from a list; others are ignored.\<close>

definition filter_preset_ok :: "dict \<Rightarrow> bool" where
  "filter_preset_ok d =
     (list_all (\<lambda>k. case map_of d k of None \<Rightarrow> True | Some (JStr s) \<Rightarrow> True | Some v \<Rightarrow> False) preset_fields
      \<and> (case map_of d ''sortMode'' of Some (JStr s) \<Rightarrow> s \<in> set valid_sort_modes | _ \<Rightarrow> True)
      \<and> (case map_of d ''severity'' of Some (JStr s) \<Rightarrow> s \<in> set valid_severities | _ \<Rightarrow> True))"

text \<open>The outcome of the validators: a body that is refused (422), or a \<open>TypeError\<close>, which is no validation error.\<close>

datatype body_check = Body_Ok | Body_Refused | Body_Raises

definition validate_filter_json :: "(rat \<Rightarrow> rat) \<Rightarrow> string \<Rightarrow> body_check" where
  "validate_filter_json fl v =
     (case loads fl v of
        None \<Rightarrow> Body_Refused
      | Some (JObj d) \<Rightarrow> if filter_preset_ok d then Body_Ok else Body_Refused
      | Some other \<Rightarrow> Body_Raises)"

text \<open>The length bounds are checked before the name is stripped.\<close>

definition strip_name :: "string \<Rightarrow> string option" where
  "strip_name v = (if 1 \<le> length v \<and> length v \<le> 60 \<and> py_strip v \<noteq> [] then Some (py_strip v) else None)"

record view_body =
  b_name :: "string option"
  b_filter :: "string option"

text \<open>The checked body: \<open>None\<close> of a field that is not given stays; a name is checked before the filter.\<close>

definition check_body :: "(rat \<Rightarrow> rat) \<Rightarrow> view_body \<Rightarrow> body_check \<times> view_body" where
  "check_body fl b =
     (let name_ok = (case b_name b of None \<Rightarrow> True | Some n \<Rightarrow> strip_name n \<noteq> None);
          filter_check = (case b_filter b of None \<Rightarrow> Body_Ok | Some v \<Rightarrow> validate_filter_json fl v)
      in (if filter_check = Body_Raises then Body_Raises
          else if name_ok \<and> filter_check = Body_Ok then Body_Ok else Body_Refused,
          b\<lparr>b_name := (case b_name b of None \<Rightarrow> None | Some n \<Rightarrow> strip_name n)\<rparr>))"

subsection \<open>The table and its handlers\<close>

record saved_view =
  v_id :: string
  v_owner :: string
  v_name :: string
  v_filter :: string
  v_created :: string
  v_updated :: string

definition same_name :: "string \<Rightarrow> string \<Rightarrow> saved_view \<Rightarrow> bool" where
  "same_name owner name r = (py_lower (v_name r) = py_lower name \<and> v_owner r = owner)"

datatype view_reply = View_List "saved_view list" | View_Created string string | View_Updated string | View_Deleted string
  | View_Error nat | View_Raises

definition list_saved_views :: "string \<Rightarrow> saved_view list \<Rightarrow> saved_view list" where
  "list_saved_views owner rows = sort_key v_created (filter (\<lambda>r. v_owner r = owner) rows)"

text \<open>\<open>POST\<close>: both fields are required. The check, then the insert with its constraints.\<close>

definition create_check :: "(rat \<Rightarrow> rat) \<Rightarrow> string \<Rightarrow> view_body \<Rightarrow> saved_view list \<Rightarrow> view_reply + string \<times> string" where
  "create_check fl owner body rows =
     (case check_body fl body of
        (Body_Raises, b) \<Rightarrow> Inl View_Raises
      | (Body_Refused, b) \<Rightarrow> Inl (View_Error 422)
      | (Body_Ok, b) \<Rightarrow>
          (case (b_name b, b_filter b) of
             (Some name, Some flt) \<Rightarrow> if list_ex (same_name owner name) rows then Inl (View_Error 409) else Inr (name, flt)
           | _ \<Rightarrow> Inl (View_Error 422)))"

definition create_insert :: "string \<Rightarrow> string \<Rightarrow> string \<Rightarrow> string \<Rightarrow> string \<Rightarrow> saved_view list \<Rightarrow> view_reply \<times> saved_view list" where
  "create_insert owner uid now name flt rows =
     (if list_ex (\<lambda>r. v_id r = uid \<or> v_owner r = owner \<and> v_name r = name) rows then (View_Raises, rows)
      else (View_Created uid name,
            rows @ [\<lparr>v_id = uid, v_owner = owner, v_name = name, v_filter = flt, v_created = now, v_updated = now\<rparr>]))"

definition create_saved_view ::
  "(rat \<Rightarrow> rat) \<Rightarrow> string \<Rightarrow> string \<Rightarrow> string \<Rightarrow> view_body \<Rightarrow> saved_view list \<Rightarrow> view_reply \<times> saved_view list" where
  "create_saved_view fl owner uid now body rows =
     (case create_check fl owner body rows of
        Inl err \<Rightarrow> (err, rows)
      | Inr (name, flt) \<Rightarrow> create_insert owner uid now name flt rows)"

definition require_owned_saved_view :: "string \<Rightarrow> string \<Rightarrow> saved_view list \<Rightarrow> nat option" where
  "require_owned_saved_view vid owner rows =
     (case find (\<lambda>r. v_id r = vid) rows of
        None \<Rightarrow> Some 404
      | Some r \<Rightarrow> if v_owner r \<noteq> owner then Some 403 else None)"

definition update_saved_view ::
  "(rat \<Rightarrow> rat) \<Rightarrow> string \<Rightarrow> string \<Rightarrow> string \<Rightarrow> view_body \<Rightarrow> saved_view list \<Rightarrow> view_reply \<times> saved_view list" where
  "update_saved_view fl owner vid now body rows =
     (case check_body fl body of
        (Body_Raises, b) \<Rightarrow> (View_Raises, rows)
      | (Body_Refused, b) \<Rightarrow> (View_Error 422, rows)
      | (Body_Ok, b) \<Rightarrow>
          (case require_owned_saved_view vid owner rows of
             Some code \<Rightarrow> (View_Error code, rows)
           | None \<Rightarrow>
               if (case b_name b of None \<Rightarrow> False | Some name \<Rightarrow> list_ex (\<lambda>r. same_name owner name r \<and> v_id r \<noteq> vid) rows)
               then (View_Error 409, rows)
               else if b_name b = None \<and> b_filter b = None then (View_Error 400, rows)
               else (View_Updated vid,
                     sql_update (\<lambda>r. v_id r = vid \<and> v_owner r = owner)
                       (\<lambda>r. r\<lparr>v_name := (case b_name b of None \<Rightarrow> v_name r | Some n \<Rightarrow> n),
                             v_filter := (case b_filter b of None \<Rightarrow> v_filter r | Some f \<Rightarrow> f), v_updated := now\<rparr>) rows)))"

definition delete_saved_view :: "string \<Rightarrow> string \<Rightarrow> saved_view list \<Rightarrow> view_reply \<times> saved_view list" where
  "delete_saved_view owner vid rows =
     (if (case find (\<lambda>r. v_id r = vid) rows of None \<Rightarrow> False | Some r \<Rightarrow> v_owner r \<noteq> owner) then (View_Error 403, rows)
      else (View_Deleted vid, sql_delete (\<lambda>r. v_id r = vid \<and> v_owner r = owner) rows))"

datatype view_request = List_Views | Create_View string string view_body | Update_View string string view_body | Delete_View string

fun view_handler :: "(rat \<Rightarrow> rat) \<Rightarrow> string \<Rightarrow> view_request \<Rightarrow> saved_view list \<Rightarrow> view_reply \<times> saved_view list" where
  "view_handler fl owner List_Views rows = (View_List (list_saved_views owner rows), rows)"
| "view_handler fl owner (Create_View uid now b) rows = create_saved_view fl owner uid now b rows"
| "view_handler fl owner (Update_View vid now b) rows = update_saved_view fl owner vid now b rows"
| "view_handler fl owner (Delete_View vid) rows = delete_saved_view owner vid rows"

fun view_new_id :: "view_request \<Rightarrow> string option" where
  "view_new_id (Create_View uid now b) = Some uid"
| "view_new_id q = None"

definition view_step :: "(rat \<Rightarrow> rat) \<Rightarrow> string \<Rightarrow> view_request \<Rightarrow> saved_view list \<Rightarrow> saved_view list" where
  "view_step fl owner q rows = snd (view_handler fl owner q rows)"

subsection \<open>What a request does to the table\<close>

lemma list_ex_filter: "(\<And>r. P r \<Longrightarrow> Q r) \<Longrightarrow> list_ex P (filter Q rows) = list_ex P rows"
  by (induction rows) auto

lemma check_body_ok:
  assumes "check_body fl b = (Body_Ok, b')"
  shows "b_name b' = Some n \<Longrightarrow> \<exists>raw. strip_name raw = Some n" and "b_filter b' = Some f \<Longrightarrow> validate_filter_json fl f = Body_Ok"
proof -
  have c: "b' = b\<lparr>b_name := (case b_name b of None \<Rightarrow> None | Some n \<Rightarrow> strip_name n)\<rparr>"
    "(case b_filter b of None \<Rightarrow> Body_Ok | Some v \<Rightarrow> validate_filter_json fl v) = Body_Ok"
    using assms by (simp_all add: check_body_def Let_def split: if_splits)
  show "b_name b' = Some n \<Longrightarrow> \<exists>raw. strip_name raw = Some n" using c(1) by (auto split: option.splits)
  show "b_filter b' = Some f \<Longrightarrow> validate_filter_json fl f = Body_Ok" using c by simp
qed

lemma create_check_ok:
  assumes "create_check fl me b rows = Inr (name, flt)"
  shows "\<exists>raw. strip_name raw = Some name" and "validate_filter_json fl flt = Body_Ok" and "\<not> list_ex (same_name me name) rows"
proof -
  obtain c b' where cb: "check_body fl b = (c, b')" by (cases "check_body fl b")
  then have "c = Body_Ok" "b_name b' = Some name" "b_filter b' = Some flt" "\<not> list_ex (same_name me name) rows"
    using assms by (cases c; cases "b_name b'"; cases "b_filter b'"; simp add: create_check_def split: if_splits)+
  then show "\<exists>raw. strip_name raw = Some name" "validate_filter_json fl flt = Body_Ok" "\<not> list_ex (same_name me name) rows"
    using check_body_ok [of fl b b'] cb by blast+
qed

text \<open>Every request leaves the table, appends a checked row, changes an owned row or removes owned rows.\<close>

lemma view_step_cases:
  obtains (same) "view_step fl me q rows = rows"
  | (created) uid now name flt where "view_new_id q = Some uid" "view_step fl me q rows
      = rows @ [\<lparr>v_id = uid, v_owner = me, v_name = name, v_filter = flt, v_created = now, v_updated = now\<rparr>]"
      "\<not> list_ex (same_name me name) rows" "uid \<notin> v_id ` set rows" "\<exists>raw. strip_name raw = Some name" "validate_filter_json fl flt = Body_Ok"
  | (updated) vid now name flt where "view_step fl me q rows = sql_update (\<lambda>r. v_id r = vid \<and> v_owner r = me)
        (\<lambda>r. r\<lparr>v_name := (case name of None \<Rightarrow> v_name r | Some n \<Rightarrow> n),
              v_filter := (case flt of None \<Rightarrow> v_filter r | Some f \<Rightarrow> f), v_updated := now\<rparr>) rows"
      "\<forall>n. name = Some n \<longrightarrow> (\<exists>raw. strip_name raw = Some n) \<and> \<not> list_ex (\<lambda>r. same_name me n r \<and> v_id r \<noteq> vid) rows"
      "\<forall>f. flt = Some f \<longrightarrow> validate_filter_json fl f = Body_Ok"
  | (deleted) vid where "view_step fl me q rows = sql_delete (\<lambda>r. v_id r = vid \<and> v_owner r = me) rows"
proof (cases q)
  case List_Views
  then show ?thesis using same by (simp add: view_step_def)
next
  case (Create_View uid now b)
  then have st: "view_step fl me q rows = snd (create_saved_view fl me uid now b rows)" by (simp add: view_step_def)
  show ?thesis
  proof (cases "create_check fl me b rows")
    case (Inl err)
    then show ?thesis using same st by (simp add: create_saved_view_def)
  next
    case (Inr nf)
    obtain name flt where nf: "nf = (name, flt)" by (cases nf)
    note c = create_check_ok [OF Inr [unfolded nf]]
    show ?thesis
    proof (cases "list_ex (\<lambda>r. v_id r = uid \<or> v_owner r = me \<and> v_name r = name) rows")
      case True
      then show ?thesis using same st Inr nf by (simp add: create_saved_view_def create_insert_def)
    next
      case False
      then have "uid \<notin> v_id ` set rows" by (auto simp: list_ex_iff)
      moreover have "view_step fl me q rows
          = rows @ [\<lparr>v_id = uid, v_owner = me, v_name = name, v_filter = flt, v_created = now, v_updated = now\<rparr>]"
        unfolding st create_saved_view_def create_insert_def Inr nf using False by (simp only: sum.case prod.case if_False snd_conv)
      moreover have "view_new_id q = Some uid" by (simp add: Create_View)
      ultimately show ?thesis using created c by blast
    qed
  qed
next
  case (Update_View vid now b)
  then have st: "view_step fl me q rows = snd (update_saved_view fl me vid now b rows)" by (simp add: view_step_def)
  obtain c b' where cb: "check_body fl b = (c, b')" by (cases "check_body fl b")
  show ?thesis
  proof (cases "c = Body_Ok \<and> require_owned_saved_view vid me rows = None \<and> (b_name b' \<noteq> None \<or> b_filter b' \<noteq> None)
      \<and> \<not> (case b_name b' of None \<Rightarrow> False | Some name \<Rightarrow> list_ex (\<lambda>r. same_name me name r \<and> v_id r \<noteq> vid) rows)")
    case True
    then have "snd (update_saved_view fl me vid now b rows) = sql_update (\<lambda>r. v_id r = vid \<and> v_owner r = me)
        (\<lambda>r. r\<lparr>v_name := (case b_name b' of None \<Rightarrow> v_name r | Some n \<Rightarrow> n),
              v_filter := (case b_filter b' of None \<Rightarrow> v_filter r | Some f \<Rightarrow> f), v_updated := now\<rparr>) rows"
      using cb by (auto simp: update_saved_view_def)
    moreover have "\<forall>n. b_name b' = Some n \<longrightarrow> (\<exists>raw. strip_name raw = Some n) \<and> \<not> list_ex (\<lambda>r. same_name me n r \<and> v_id r \<noteq> vid) rows"
      using check_body_ok(1) [of fl b b'] cb True by auto
    moreover have "\<forall>f. b_filter b' = Some f \<longrightarrow> validate_filter_json fl f = Body_Ok"
      using check_body_ok(2) [of fl b b'] cb True by auto
    ultimately show ?thesis using updated [of vid now "b_filter b'" "b_name b'"] st by simp
  next
    case False
    then have "snd (update_saved_view fl me vid now b rows) = rows"
      using cb by (cases c; cases "require_owned_saved_view vid me rows") (auto simp: update_saved_view_def)
    then show ?thesis using same st by simp
  qed
next
  case (Delete_View vid)
  then have "view_step fl me q rows = rows \<or> view_step fl me q rows = sql_delete (\<lambda>r. v_id r = vid \<and> v_owner r = me) rows"
    by (simp add: view_step_def delete_saved_view_def)
  then show ?thesis using same deleted by blast
qed

text \<open>What the table promises about its rows.\<close>

definition view_row_ok :: "(rat \<Rightarrow> rat) \<Rightarrow> saved_view \<Rightarrow> bool" where
  "view_row_ok fl r \<longleftrightarrow> v_name r \<noteq> [] \<and> length (v_name r) \<le> 60 \<and> validate_filter_json fl (v_filter r) = Body_Ok"

definition name_key :: "saved_view \<Rightarrow> string \<times> string" where
  "name_key r = (v_owner r, py_lower (v_name r))"

definition views_inv :: "(rat \<Rightarrow> rat) \<Rightarrow> saved_view list \<Rightarrow> bool" where
  "views_inv fl rows \<longleftrightarrow> distinct (map v_id rows) \<and> distinct (map name_key rows) \<and> (\<forall>r \<in> set rows. view_row_ok fl r)"

lemma length_py_strip: "length (py_strip s) \<le> length s"
proof -
  have "length (dropWhile is_ws (rev (dropWhile is_ws s))) \<le> length (dropWhile is_ws s)"
    using length_dropWhile_le [of is_ws "rev (dropWhile is_ws s)"] by simp
  also have "\<dots> \<le> length s" by (rule length_dropWhile_le)
  finally show ?thesis by (simp add: py_strip_def strip_by_def lstrip_by_def rstrip_by_def)
qed

lemma strip_name_ok: "strip_name raw = Some n \<Longrightarrow> n \<noteq> [] \<and> length n \<le> 60"
  using length_py_strip [of raw] by (auto simp: strip_name_def split: if_splits)

lemma same_name_key: "same_name me name r \<longleftrightarrow> name_key r = (me, py_lower name)"
  by (auto simp: same_name_def name_key_def)

lemma views_inv_step:
  assumes "views_inv fl rows" and "\<forall>i. view_new_id q = Some i \<longrightarrow> i \<notin> v_id ` set rows"
  shows "views_inv fl (view_step fl me q rows)"
proof (cases rule: view_step_cases [of fl me q rows])
  case (created uid now name flt)
  have "(me, py_lower name) \<notin> name_key ` set rows"
    using created(3) by (auto simp: list_ex_iff same_name_key)
  then show ?thesis
    using assms(1) created(2,4,6) strip_name_ok created(5)
    by (auto simp: views_inv_def view_row_ok_def name_key_def)
next
  case (updated vid now name flt)
  let ?P = "\<lambda>r. v_id r = vid \<and> v_owner r = me"
  let ?f = "\<lambda>r. r\<lparr>v_name := (case name of None \<Rightarrow> v_name r | Some n \<Rightarrow> n),
      v_filter := (case flt of None \<Rightarrow> v_filter r | Some f \<Rightarrow> f), v_updated := now\<rparr>"
  have ids: "map v_id (sql_update ?P ?f rows) = map v_id rows" by (rule map_sql_update) simp
  have rows: "\<forall>r \<in> set (sql_update ?P ?f rows). view_row_ok fl r"
    using assms(1) updated(2,3) strip_name_ok
    by (force simp: sql_update_def views_inv_def view_row_ok_def split: option.splits)
  have "distinct (map name_key (sql_update ?P ?f rows))"
  proof (cases name)
    case None
    then have "map name_key (sql_update ?P ?f rows) = map name_key rows"
      by (intro map_sql_update) (simp add: name_key_def)
    then show ?thesis using assms(1) by (simp add: views_inv_def)
  next
    case (Some n)
    have d: "distinct rows" "inj_on v_id (set rows)" "inj_on name_key (set rows)"
      using assms(1) by (simp_all add: views_inv_def distinct_map)
    have free: "name_key r \<noteq> (me, py_lower n)" if "r \<in> set rows" "v_id r \<noteq> vid" for r
      using updated(2) Some that by (auto simp: list_ex_iff same_name_key)
    let ?g = "\<lambda>r. name_key (if ?P r then ?f r else r)"
    have key: "?g r = (if ?P r then (me, py_lower n) else name_key r)" for r
      by (auto simp: name_key_def Some)
    have "inj_on ?g (set rows)"
    proof (rule inj_onI)
      fix x y assume x: "x \<in> set rows" and y: "y \<in> set rows" and e: "?g x = ?g y"
      note e' = e [unfolded key]
      show "x = y"
      proof (cases "v_id x = vid"; cases "v_id y = vid")
        assume "v_id x = vid" "v_id y = vid" then show ?thesis using x y d(2) by (metis inj_onD)
      next
        assume "v_id x \<noteq> vid" "v_id y \<noteq> vid" then show ?thesis using x y e' d(3) by (simp add: inj_onD)
      next
        assume a: "v_id x = vid" "v_id y \<noteq> vid"
        then show ?thesis using x y e' d(3) free [OF y] by (cases "v_owner x = me") (simp_all add: inj_onD)
      next
        assume a: "v_id x \<noteq> vid" "v_id y = vid"
        then show ?thesis using x y e' d(3) free [OF x] by (cases "v_owner y = me") (simp_all add: inj_onD)
      qed
    qed
    then show ?thesis using d(1) by (simp add: sql_update_def comp_def distinct_map)
  qed
  then show ?thesis using assms(1) rows by (simp add: updated(1) views_inv_def ids del: map_map)
next
  case (deleted vid)
  then show ?thesis using assms(1) by (auto simp: views_inv_def sql_delete_def distinct_map_filter)
qed (use assms in simp)

lemma views_inv_history:
  "fresh_history v_id view_new_id (view_step fl) reqs rows \<Longrightarrow> views_inv fl rows \<Longrightarrow> views_inv fl (run_requests (view_step fl) reqs rows)"
  by (induction reqs arbitrary: rows) (auto simp: run_requests_def views_inv_step)

subsection \<open>Owners do not meet\<close>

lemma owned_view_filter:
  assumes "distinct (map v_id rows)"
  shows "require_owned_saved_view vid me (filter (\<lambda>r. v_owner r = me) rows) = None \<longleftrightarrow> require_owned_saved_view vid me rows = None"
proof (cases "find (\<lambda>r. v_id r = vid) rows")
  case None
  then have "find (\<lambda>r. v_id r = vid) (filter (\<lambda>r. v_owner r = me) rows) = None" by (auto simp: find_None_iff)
  then show ?thesis using None by (simp add: require_owned_saved_view_def)
next
  case (Some r)
  then have r: "r \<in> set rows" "v_id r = vid" by (auto simp: find_Some_iff)
  have only: "q = r" if "q \<in> set rows" "v_id q = vid" for q
    using assms r that by (metis distinct_map inj_onD)
  show ?thesis
  proof (cases "v_owner r = me")
    case True
    then have "find (\<lambda>r. v_id r = vid) (filter (\<lambda>r. v_owner r = me) rows) = find (\<lambda>r. v_id r = vid) rows"
      using only by (intro find_filter) auto
    then show ?thesis using Some by (simp add: require_owned_saved_view_def)
  next
    case False
    then have "find (\<lambda>r. v_id r = vid) (filter (\<lambda>r. v_owner r = me) rows) = None"
      using only by (auto simp: find_None_iff)
    then show ?thesis using Some False by (simp add: require_owned_saved_view_def)
  qed
qed

lemma view_step_own:
  assumes "distinct (map v_id rows)" and "\<forall>i. view_new_id q = Some i \<longrightarrow> i \<notin> v_id ` set rows"
  shows "filter (\<lambda>r. v_owner r = me) (view_step fl me q rows) = view_step fl me q (filter (\<lambda>r. v_owner r = me) rows)"
proof (cases q)
  case (Create_View uid now b)
  have "list_ex (same_name me name) (filter (\<lambda>r. v_owner r = me) rows) = list_ex (same_name me name) rows" for name
    by (rule list_ex_filter) (simp add: same_name_def)
  then have same: "create_check fl me b (filter (\<lambda>r. v_owner r = me) rows) = create_check fl me b rows"
    by (simp only: create_check_def)
  have "list_ex (\<lambda>r. v_id r = uid \<or> v_owner r = me \<and> v_name r = name) (filter (\<lambda>r. v_owner r = me) rows)
      = list_ex (\<lambda>r. v_id r = uid \<or> v_owner r = me \<and> v_name r = name) rows" for name
    using assms(2) Create_View by (auto simp: list_ex_iff)
  then show ?thesis
    by (simp add: Create_View view_step_def create_saved_view_def same create_insert_def split: sum.split prod.split)
next
  case (Update_View vid now b)
  have upd: "filter (\<lambda>r. v_owner r = me) (sql_update (\<lambda>r. v_id r = vid \<and> v_owner r = me) (\<lambda>r. r\<lparr>v_name := n r, v_filter := f r, v_updated := now\<rparr>) rows)
      = sql_update (\<lambda>r. v_id r = vid \<and> v_owner r = me) (\<lambda>r. r\<lparr>v_name := n r, v_filter := f r, v_updated := now\<rparr>) (filter (\<lambda>r. v_owner r = me) rows)" for n f
    by (rule filter_sql_update) simp
  have ex: "list_ex (\<lambda>r. same_name me name r \<and> v_id r \<noteq> vid) (filter (\<lambda>r. v_owner r = me) rows)
      = list_ex (\<lambda>r. same_name me name r \<and> v_id r \<noteq> vid) rows" for name
    by (rule list_ex_filter) (simp add: same_name_def)
  obtain c b' where cb: "check_body fl b = (c, b')" by (cases "check_body fl b")
  show ?thesis
    using owned_view_filter [OF assms(1), of vid me]
    by (cases c; cases "require_owned_saved_view vid me rows";
        cases "require_owned_saved_view vid me (filter (\<lambda>r. v_owner r = me) rows)")
      (auto simp: Update_View view_step_def update_saved_view_def cb ex upd split: option.split)
next
  case (Delete_View vid)
  have find_own: "find (\<lambda>r. v_id r = vid) (filter (\<lambda>r. v_owner r = me) rows) = Some r \<Longrightarrow> v_owner r = me" for r
    using find_set [of "\<lambda>r. v_id r = vid" "filter (\<lambda>r. v_owner r = me) rows" r] by simp
  have gone: "filter (\<lambda>r. v_owner r = me) rows = sql_delete (\<lambda>r. v_id r = vid \<and> v_owner r = me) (filter (\<lambda>r. v_owner r = me) rows)"
    if "find (\<lambda>r. v_id r = vid) rows = Some r" "v_owner r \<noteq> me" for r
  proof -
    have "r \<in> set rows" "v_id r = vid" using that by (auto simp: find_Some_iff)
    then have "v_id q \<noteq> vid" if "q \<in> set rows" "v_owner q = me" for q
      using assms(1) that \<open>v_owner r \<noteq> me\<close> by (metis distinct_map inj_onD)
    then show ?thesis unfolding sql_delete_def filter_filter by (intro filter_cong) auto
  qed
  have fil: "view_step fl me q (filter (\<lambda>r. v_owner r = me) rows)
      = sql_delete (\<lambda>r. v_id r = vid \<and> v_owner r = me) (filter (\<lambda>r. v_owner r = me) rows)"
  proof (cases "find (\<lambda>r. v_id r = vid) (filter (\<lambda>r. v_owner r = me) rows)")
    case None
    then show ?thesis unfolding Delete_View view_step_def view_handler.simps delete_saved_view_def by (simp only: option.case if_False snd_conv)
  next
    case (Some r)
    have "v_owner r = me" by (rule find_own [OF Some])
    then show ?thesis unfolding Delete_View view_step_def view_handler.simps delete_saved_view_def Some by simp
  qed
  show ?thesis
  proof (cases "case find (\<lambda>r. v_id r = vid) rows of None \<Rightarrow> False | Some r \<Rightarrow> v_owner r \<noteq> me")
    case True
    then obtain r where r: "find (\<lambda>r. v_id r = vid) rows = Some r" "v_owner r \<noteq> me" by (auto split: option.splits)
    then have "view_step fl me q rows = rows" by (simp add: Delete_View view_step_def delete_saved_view_def)
    then show ?thesis using fil gone [OF r] by simp
  next
    case False
    then have "view_step fl me q rows = sql_delete (\<lambda>r. v_id r = vid \<and> v_owner r = me) rows"
      by (simp add: Delete_View view_step_def delete_saved_view_def)
    then show ?thesis unfolding fil by (simp add: filter_sql_delete)
  qed
qed (simp add: view_step_def)

interpretation view_table: owned_table "\<lambda>me r. v_owner r = me" v_id view_new_id "view_step fl" for fl
proof
  fix rows :: "saved_view list" and q :: view_request and me you :: string
  assume d: "distinct (map v_id rows)" and f: "\<forall>i. view_new_id q = Some i \<longrightarrow> i \<notin> v_id ` set rows"
  show "filter (\<lambda>r. v_owner r = me) (view_step fl me q rows) = view_step fl me q (filter (\<lambda>r. v_owner r = me) rows)"
    using view_step_own d f .
  show "distinct (map v_id (view_step fl me q rows))"
    by (cases rule: view_step_cases [of fl me q rows])
      (use d in \<open>simp_all add: distinct_sql_delete map_sql_update del: map_map\<close>)
  assume "me \<noteq> you"
  then show "filter (\<lambda>r. v_owner r = you) (view_step fl me q rows) = filter (\<lambda>r. v_owner r = you) rows"
  proof (cases rule: view_step_cases [of fl me q rows])
    case (updated vid now name flt)
    show ?thesis unfolding updated(1) by (rule filter_sql_update_foreign) (use \<open>me \<noteq> you\<close> in auto)
  next
    case (deleted vid)
    show ?thesis unfolding deleted(1) by (rule filter_sql_delete_foreign) (use \<open>me \<noteq> you\<close> in auto)
  qed (use \<open>me \<noteq> you\<close> in simp_all)
qed

subsection \<open>Properties\<close>


definition plain_body :: "string \<Rightarrow> view_body" where
  "plain_body name = \<lparr>b_name = Some name, b_filter = Some ''{}''\<rparr>"

lemma plain_check: "validate_filter_json fl ''{}'' = Body_Ok"
proof -
  have "loads fl ''{}'' = Some (JObj [])" by code_simp
  moreover have "filter_preset_ok []" by code_simp
  ultimately show ?thesis by (simp add: validate_filter_json_def)
qed

lemma plain_create:
  assumes "strip_name name = Some n"
  shows "create_check fl me (plain_body name) rows = (if list_ex (same_name me n) rows then Inl (View_Error 409) else Inr (n, ''{}''))"
  using assms by (simp add: create_check_def check_body_def plain_body_def plain_check)

lemma example_names: "strip_name ''Open'' = Some ''Open''" "strip_name ''open '' = Some ''open''" "py_lower ''Open'' = ''open''" "py_lower ''open'' = ''open''"
  by (code_simp, code_simp, code_simp, code_simp)


text \<open>The check and the insert are two awaits: two creations that run side by side both pass the check, and the
  constraint of the table compares names exactly, so an owner gets two views that differ in case only.\<close>

lemma racing_creates:
  "create_check fl me (plain_body ''Open'') [] = Inr (''Open'', ''{}'') \<and> create_check fl me (plain_body ''open '') [] = Inr (''open'', ''{}'')
   \<and> map v_name (snd (create_insert me ''2'' t ''open'' ''{}'' (snd (create_insert me ''1'' t ''Open'' ''{}'' [])))) = [''Open'', ''open'']"
  by (simp add: plain_create [OF example_names(1)] plain_create [OF example_names(2)] create_insert_def)

text \<open>A filter that is JSON but no mapping raises a \<open>TypeError\<close> in the validator: a server error, not a refusal.\<close>

lemma list_filter_raises: "validate_filter_json fl ''[]'' = Body_Raises"
proof -
  have "loads fl ''[]'' = Some (JList [])" by code_simp
  then show ?thesis by (simp add: validate_filter_json_def)
qed

end
