(* ===== verification/Owner_Resources.thy ===== *)
theory Owner_Resources
  imports Sql_Tables
begin

text \<open>
  The resource routes of \<open>backend/secuscan/routes.py\<close>: target policies, credential profiles, session
  profiles and vault secrets, each with its list, create, patch (or put), get and delete handler. A row
  of the first three tables is a dictionary of its columns, because the handlers build their
  assignments from the payload. A handler is atomic; fresh identifiers and the time text are
  arguments. Answers leave out the counts and echo fields that repeat the request.
\<close>

subsection \<open>What the three tables share\<close>

datatype resource_request =
    List_Resources
  | Create_Resource string string dict \<comment> \<open>fresh identifier, time, payload\<close>
  | Update_Resource string string dict
  | Delete_Resource string

definition owned_resource :: "string \<Rightarrow> string \<Rightarrow> dict \<Rightarrow> bool" where
  "owned_resource rid owner r = (jget r ''id'' = JStr rid \<and> jget r ''owner_id'' = JStr owner)"

definition column_text :: "string \<Rightarrow> dict \<Rightarrow> string" where
  "column_text k r = (case jget r k of JStr s \<Rightarrow> s | _ \<Rightarrow> [])"

text \<open>\<open>ORDER BY updated_at DESC, created_at DESC\<close>\<close>

definition list_resources :: "sql_env \<Rightarrow> string \<Rightarrow> dict list \<Rightarrow> dict list" where
  "list_resources e owner rows =
     map (deserialize_resource_row (loads (float_of e)))
       (rev (sort_key (\<lambda>r. (column_text ''updated_at'' r, column_text ''created_at'' r))
          (filter (\<lambda>r. jget r ''owner_id'' = JStr owner) rows)))"

text \<open>\<open>_validate_lengths\<close>; a field that is not given is \<open>None\<close>.\<close>

definition validate_lengths :: "sql_env \<Rightarrow> json \<Rightarrow> json \<Rightarrow> json \<Rightarrow> string \<Rightarrow> string option" where
  "validate_lengths e name description notes resource_type =
     (let too_long = (\<lambda>v n. v \<noteq> JNull \<and> length (py_strip (show_json (shown e) v)) > n) in
      if too_long name 255 then Some (resource_type @ '' name exceeds maximum length of 255 characters'')
      else if too_long description 2000 then Some (resource_type @ '' description exceeds maximum length of 2000 characters'')
      else if too_long notes 2000 then Some (resource_type @ '' notes exceeds maximum length of 2000 characters'')
      else None)"

text \<open>The three flags are BOOLEAN columns, all others TEXT.\<close>

definition flag_columns :: "string list" where
  "flag_columns = [''allow_public_targets'', ''allow_exploit_validation'', ''allow_authenticated_scan'']"

definition column_value :: "sql_env \<Rightarrow> string \<Rightarrow> json \<Rightarrow> json" where
  "column_value e k v = (if k \<in> set flag_columns then v else text_affinity e v)"

text \<open>\<open>INSERT\<close> and the \<open>SELECT\<close> of the new row; the driver refuses values it cannot bind and a key that exists.\<close>

definition insert_resource :: "sql_env \<Rightarrow> dict \<Rightarrow> dict list \<Rightarrow> table_reply \<times> dict list" where
  "insert_resource e row rows =
     (if \<not> list_all (\<lambda>kv. bindable (snd kv)) row \<or> list_ex (\<lambda>r. jget r ''id'' = jget row ''id'') rows
      then (Server_Error, rows)
      else (let stored = map (\<lambda>(k, v). (k, column_value e k v)) row
            in (Row (deserialize_resource_row (loads (float_of e)) stored), rows @ [stored])))"

text \<open>The lookup, the assignments built from the payload, \<open>UPDATE ... WHERE id = ? AND owner_id = ?\<close>, the \<open>SELECT\<close>.\<close>

definition patch_resource ::
  "sql_env \<Rightarrow> string \<Rightarrow> string list \<Rightarrow> (dict \<Rightarrow> table_reply + dict) \<Rightarrow> string \<Rightarrow> string \<Rightarrow> string \<Rightarrow> dict \<Rightarrow> dict list
     \<Rightarrow> table_reply \<times> dict list" where
  "patch_resource e absent not_null changes owner rid now payload rows =
     (if \<not> list_ex (owned_resource rid owner) rows then (Refused 404 absent, rows)
      else (case changes payload of
          Inl r \<Rightarrow> (r, rows)
        | Inr updates \<Rightarrow>
            if \<not> list_all (\<lambda>kv. bindable (snd kv)) updates \<or> list_ex (\<lambda>kv. fst kv \<in> set not_null \<and> snd kv = JNull) updates
            then (Server_Error, rows)
            else
              (let rows' = sql_update (owned_resource rid owner)
                     (\<lambda>r. aput ''updated_at'' (JStr now) (fold (\<lambda>kv. aput (fst kv) (column_value e (fst kv) (snd kv))) updates r)) rows
               in case find (\<lambda>r. jget r ''id'' = JStr rid) rows' of
                    None \<Rightarrow> (Row [(''id'', JStr rid), (''updated'', JBool True)], rows')
                  | Some r \<Rightarrow> (Row (deserialize_resource_row (loads (float_of e)) r), rows'))))"

definition delete_resource :: "string \<Rightarrow> string \<Rightarrow> dict list \<Rightarrow> table_reply \<times> dict list" where
  "delete_resource owner rid rows = (Deleted rid, sql_delete (owned_resource rid owner) rows)"

text \<open>The assignments \<open>for key in keys: if key in payload\<close>.\<close>

definition given_fields :: "string list \<Rightarrow> (json \<Rightarrow> json) \<Rightarrow> dict \<Rightarrow> dict" where
  "given_fields keys f payload = concat (map (\<lambda>k. case map_of payload k of None \<Rightarrow> [] | Some v \<Rightarrow> [(k, f v)]) keys)"

definition given_json :: "sql_env \<Rightarrow> string \<Rightarrow> json \<Rightarrow> dict \<Rightarrow> dict" where
  "given_json e k fallback payload =
     (case map_of payload k of None \<Rightarrow> [] | Some v \<Rightarrow> [(k @ ''_json'', json_payload e v fallback)])"

definition truth_int :: "json \<Rightarrow> json" where
  "truth_int v = JInt (if truthy v then 1 else 0)"

definition or_null :: "string \<Rightarrow> json" where
  "or_null s = (if s = [] then JNull else JStr s)"

subsection \<open>Target policies\<close>

definition policy_row :: "sql_env \<Rightarrow> string \<Rightarrow> string \<Rightarrow> string \<Rightarrow> dict \<Rightarrow> table_reply + dict" where
  "policy_row e owner uid now payload =
     (let name = py_strip (show_json (shown e) (jget_or payload ''name'' (JStr [])));
          description = py_strip (show_json (shown e) (jget_or payload ''description'' (JStr [])))
      in if name = [] then Inl (Refused 400 ''Target policy name is required'')
         else case validate_lengths e (JStr name) (JStr description) JNull ''Target policy'' of
             Some err \<Rightarrow> Inl (Refused 400 err)
           | None \<Rightarrow>
               if (case jget payload ''allowed_targets'' of JNull \<Rightarrow> False | JList vs \<Rightarrow> False | _ \<Rightarrow> True)
               then Inl (Refused 400 ''allowed_targets must be a list'')
               else Inr [(''id'', JStr uid), (''owner_id'', JStr owner), (''name'', JStr name), (''description'', or_null description),
                 (''allow_public_targets'', truth_int (jget payload ''allow_public_targets'')),
                 (''allow_exploit_validation'', truth_int (jget payload ''allow_exploit_validation'')),
                 (''allow_authenticated_scan'', truth_int (jget payload ''allow_authenticated_scan'')),
                 (''default_validation_mode'', JStr (show_json (shown e) (jor (jget payload ''default_validation_mode'') (JStr ''proof'')))),
                 (''allowed_targets_json'', json_payload e (jget payload ''allowed_targets'') (JList [])),
                 (''metadata_json'', json_payload e (jget payload ''metadata'') (JObj [])),
                 (''created_at'', JStr now), (''updated_at'', JStr now)])"

definition create_target_policy :: "sql_env \<Rightarrow> string \<Rightarrow> string \<Rightarrow> string \<Rightarrow> dict \<Rightarrow> dict list \<Rightarrow> table_reply \<times> dict list" where
  "create_target_policy e owner uid now payload rows =
     (case policy_row e owner uid now payload of Inl r \<Rightarrow> (r, rows) | Inr row \<Rightarrow> insert_resource e row rows)"

definition policy_changes :: "sql_env \<Rightarrow> dict \<Rightarrow> table_reply + dict" where
  "policy_changes e payload =
     (case (if map_of payload ''name'' \<noteq> None \<or> map_of payload ''description'' \<noteq> None
            then validate_lengths e (jget payload ''name'') (jget payload ''description'') JNull ''Target policy'' else None) of
        Some err \<Rightarrow> Inl (Refused 400 err)
      | None \<Rightarrow> Inr
          (given_fields [''name'', ''description'', ''default_validation_mode'']
             (\<lambda>v. if v \<noteq> JNull then JStr (py_strip (show_json (shown e) v)) else JNull) payload
           @ given_fields flag_columns truth_int payload
           @ given_json e ''allowed_targets'' (JList []) payload @ given_json e ''metadata'' (JObj []) payload))"

definition policy_not_null :: "string list" where
  "policy_not_null = [''name'', ''default_validation_mode'']"

definition update_target_policy :: "sql_env \<Rightarrow> string \<Rightarrow> string \<Rightarrow> string \<Rightarrow> dict \<Rightarrow> dict list \<Rightarrow> table_reply \<times> dict list" where
  "update_target_policy e owner rid now payload rows =
     patch_resource e ''Target policy not found'' policy_not_null (policy_changes e) owner rid now payload rows"

subsection \<open>Credential profiles\<close>

definition credential_row :: "sql_env \<Rightarrow> string \<Rightarrow> string \<Rightarrow> string \<Rightarrow> dict \<Rightarrow> table_reply + dict" where
  "credential_row e owner uid now payload =
     (let name = py_strip (show_json (shown e) (jget_or payload ''name'' (JStr [])))
      in if name = [] then Inl (Refused 400 ''Credential profile name is required'')
         else case validate_lengths e (JStr name) JNull JNull ''Credential profile'' of
             Some err \<Rightarrow> Inl (Refused 400 err)
           | None \<Rightarrow> Inr [(''id'', JStr uid), (''owner_id'', JStr owner), (''name'', JStr name),
               (''username_secret_name'', jget payload ''username_secret_name''),
               (''password_secret_name'', jget payload ''password_secret_name''),
               (''extra_headers_json'', json_payload e (jget payload ''extra_headers'') (JObj [])),
               (''login_recipe_json'', json_payload e (jget payload ''login_recipe'') (JObj [])),
               (''created_at'', JStr now), (''updated_at'', JStr now)])"

definition create_credential_profile :: "sql_env \<Rightarrow> string \<Rightarrow> string \<Rightarrow> string \<Rightarrow> dict \<Rightarrow> dict list \<Rightarrow> table_reply \<times> dict list" where
  "create_credential_profile e owner uid now payload rows =
     (case credential_row e owner uid now payload of Inl r \<Rightarrow> (r, rows) | Inr row \<Rightarrow> insert_resource e row rows)"

definition credential_changes :: "sql_env \<Rightarrow> dict \<Rightarrow> table_reply + dict" where
  "credential_changes e payload =
     (case (if map_of payload ''name'' \<noteq> None then validate_lengths e (jget payload ''name'') JNull JNull ''Credential profile'' else None) of
        Some err \<Rightarrow> Inl (Refused 400 err)
      | None \<Rightarrow> Inr (given_fields [''name'', ''username_secret_name'', ''password_secret_name''] (\<lambda>v. v) payload
           @ given_json e ''extra_headers'' (JObj []) payload @ given_json e ''login_recipe'' (JObj []) payload))"

definition update_credential_profile :: "sql_env \<Rightarrow> string \<Rightarrow> string \<Rightarrow> string \<Rightarrow> dict \<Rightarrow> dict list \<Rightarrow> table_reply \<times> dict list" where
  "update_credential_profile e owner rid now payload rows =
     patch_resource e ''Credential profile not found'' [''name''] (credential_changes e) owner rid now payload rows"

subsection \<open>Session profiles\<close>

definition session_row :: "sql_env \<Rightarrow> string \<Rightarrow> string \<Rightarrow> string \<Rightarrow> dict \<Rightarrow> table_reply + dict" where
  "session_row e owner uid now payload =
     (let name = py_strip (show_json (shown e) (jget_or payload ''name'' (JStr [])));
          notes = py_strip (show_json (shown e) (jget_or payload ''notes'' (JStr [])))
      in if name = [] then Inl (Refused 400 ''Session profile name is required'')
         else case validate_lengths e (JStr name) JNull (JStr notes) ''Session profile'' of
             Some err \<Rightarrow> Inl (Refused 400 err)
           | None \<Rightarrow> Inr [(''id'', JStr uid), (''owner_id'', JStr owner), (''name'', JStr name),
               (''cookie_secret_name'', jget payload ''cookie_secret_name''),
               (''extra_headers_json'', json_payload e (jget payload ''extra_headers'') (JObj [])),
               (''notes'', or_null notes), (''created_at'', JStr now), (''updated_at'', JStr now)])"

definition create_session_profile :: "sql_env \<Rightarrow> string \<Rightarrow> string \<Rightarrow> string \<Rightarrow> dict \<Rightarrow> dict list \<Rightarrow> table_reply \<times> dict list" where
  "create_session_profile e owner uid now payload rows =
     (case session_row e owner uid now payload of Inl r \<Rightarrow> (r, rows) | Inr row \<Rightarrow> insert_resource e row rows)"

definition session_changes :: "sql_env \<Rightarrow> dict \<Rightarrow> table_reply + dict" where
  "session_changes e payload =
     (case (if map_of payload ''name'' \<noteq> None \<or> map_of payload ''notes'' \<noteq> None
            then validate_lengths e (jget payload ''name'') JNull (jget payload ''notes'') ''Session profile'' else None) of
        Some err \<Rightarrow> Inl (Refused 400 err)
      | None \<Rightarrow> Inr (given_fields [''name'', ''cookie_secret_name'', ''notes''] (\<lambda>v. v) payload
           @ given_json e ''extra_headers'' (JObj []) payload))"

definition update_session_profile :: "sql_env \<Rightarrow> string \<Rightarrow> string \<Rightarrow> string \<Rightarrow> dict \<Rightarrow> dict list \<Rightarrow> table_reply \<times> dict list" where
  "update_session_profile e owner rid now payload rows =
     patch_resource e ''Session profile not found'' [''name''] (session_changes e) owner rid now payload rows"

subsection \<open>Requests on the three tables\<close>

datatype resource_kind = Target_Policies | Credential_Profiles | Session_Profiles

fun resource_handler :: "sql_env \<Rightarrow> resource_kind \<Rightarrow> string \<Rightarrow> resource_request \<Rightarrow> dict list \<Rightarrow> table_reply \<times> dict list" where
  "resource_handler e t owner List_Resources rows = (Rows (list_resources e owner rows), rows)"
| "resource_handler e t owner (Create_Resource uid now p) rows =
     (case t of Target_Policies \<Rightarrow> create_target_policy e owner uid now p rows
      | Credential_Profiles \<Rightarrow> create_credential_profile e owner uid now p rows
      | Session_Profiles \<Rightarrow> create_session_profile e owner uid now p rows)"
| "resource_handler e t owner (Update_Resource rid now p) rows =
     (case t of Target_Policies \<Rightarrow> update_target_policy e owner rid now p rows
      | Credential_Profiles \<Rightarrow> update_credential_profile e owner rid now p rows
      | Session_Profiles \<Rightarrow> update_session_profile e owner rid now p rows)"
| "resource_handler e t owner (Delete_Resource rid) rows = delete_resource owner rid rows"

fun resource_new_id :: "resource_request \<Rightarrow> json option" where
  "resource_new_id (Create_Resource uid now p) = Some (JStr uid)"
| "resource_new_id q = None"

definition resource_id :: "dict \<Rightarrow> json" where
  "resource_id r = jget r ''id''"

definition resource_step :: "sql_env \<Rightarrow> resource_kind \<Rightarrow> string \<Rightarrow> resource_request \<Rightarrow> dict list \<Rightarrow> dict list" where
  "resource_step e t owner q rows = snd (resource_handler e t owner q rows)"

definition resource_answer :: "sql_env \<Rightarrow> resource_kind \<Rightarrow> string \<Rightarrow> resource_request \<Rightarrow> dict list \<Rightarrow> table_reply" where
  "resource_answer e t owner q rows = fst (resource_handler e t owner q rows)"

subsection \<open>Rows keep their identifier and owner\<close>

fun row_of :: "sql_env \<Rightarrow> resource_kind \<Rightarrow> string \<Rightarrow> string \<Rightarrow> string \<Rightarrow> dict \<Rightarrow> table_reply + dict" where
  "row_of e Target_Policies = policy_row e"
| "row_of e Credential_Profiles = credential_row e"
| "row_of e Session_Profiles = session_row e"

fun changes_of :: "sql_env \<Rightarrow> resource_kind \<Rightarrow> dict \<Rightarrow> table_reply + dict" where
  "changes_of e Target_Policies = policy_changes e"
| "changes_of e Credential_Profiles = credential_changes e"
| "changes_of e Session_Profiles = session_changes e"

lemma handler_create:
  "resource_handler e t owner (Create_Resource uid now p) rows
     = (case row_of e t owner uid now p of Inl r \<Rightarrow> (r, rows) | Inr row \<Rightarrow> insert_resource e row rows)"
  by (cases t) (simp_all add: create_target_policy_def create_credential_profile_def create_session_profile_def)

lemma handler_update:
  "\<exists>absent not_null. \<forall>rows. resource_handler e t owner (Update_Resource rid now p) rows
     = patch_resource e absent not_null (changes_of e t) owner rid now p rows"
  by (cases t) (auto simp: update_target_policy_def update_credential_profile_def update_session_profile_def)

lemma row_heads:
  "policy_row e owner uid now p = Inr row \<Longrightarrow> \<exists>rest. row = (''id'', JStr uid) # (''owner_id'', JStr owner) # rest"
  "credential_row e owner uid now p = Inr row \<Longrightarrow> \<exists>rest. row = (''id'', JStr uid) # (''owner_id'', JStr owner) # rest"
  "session_row e owner uid now p = Inr row \<Longrightarrow> \<exists>rest. row = (''id'', JStr uid) # (''owner_id'', JStr owner) # rest"
  by (auto simp: policy_row_def credential_row_def session_row_def Let_def split: if_splits option.splits)

lemma row_of_owned: "row_of e t owner uid now p = Inr row \<Longrightarrow> jget row ''id'' = JStr uid \<and> jget row ''owner_id'' = JStr owner"
  using row_heads [of e owner uid now p row] by (cases t) auto

lemma given_fields_keys: "fst ` set (given_fields ks f p) \<subseteq> set ks"
  by (induction ks) (auto simp: given_fields_def split: option.splits)

lemma given_json_keys: "fst ` set (given_json e k v p) \<subseteq> {k @ ''_json''}"
  by (auto simp: given_json_def split: option.splits)

definition json_keys :: "string list" where
  "json_keys = [''allowed_targets'', ''metadata'', ''extra_headers'', ''login_recipe'']"

definition plain_keys :: "string list" where
  "plain_keys = [''name'', ''description'', ''default_validation_mode'', ''notes'', ''username_secret_name'', ''password_secret_name'',
     ''cookie_secret_name''] @ flag_columns"

lemma changed_keys:
  assumes "changes_of e t p = Inr ups"
  shows "fst ` set ups \<subseteq> set plain_keys \<union> (\<lambda>k. k @ ''_json'') ` set json_keys"
proof -
  have f: "fst ` set (given_fields ks f p) \<subseteq> set plain_keys \<union> (\<lambda>k. k @ ''_json'') ` set json_keys" if "set ks \<subseteq> set plain_keys" for ks f
    using given_fields_keys that by blast
  have j: "fst ` set (given_json e k v p) \<subseteq> set plain_keys \<union> (\<lambda>k. k @ ''_json'') ` set json_keys" if "k \<in> set json_keys" for k v
    using given_json_keys that by blast
  have ks: "set [''name'', ''description'', ''default_validation_mode''] \<subseteq> set plain_keys" "set flag_columns \<subseteq> set plain_keys"
    "set [''name'', ''username_secret_name'', ''password_secret_name''] \<subseteq> set plain_keys"
    "set [''name'', ''cookie_secret_name'', ''notes''] \<subseteq> set plain_keys"
    "''allowed_targets'' \<in> set json_keys" "''metadata'' \<in> set json_keys" "''extra_headers'' \<in> set json_keys" "''login_recipe'' \<in> set json_keys"
    by (auto simp: plain_keys_def json_keys_def)
  show ?thesis
  proof (cases t)
    case Target_Policies
    then have "ups = given_fields [''name'', ''description'', ''default_validation_mode'']
             (\<lambda>v. if v \<noteq> JNull then JStr (py_strip (show_json (shown e) v)) else JNull) p
           @ given_fields flag_columns truth_int p
           @ given_json e ''allowed_targets'' (JList []) p @ given_json e ''metadata'' (JObj []) p"
      using assms by (simp add: policy_changes_def split: option.splits)
    then show ?thesis by (simp only: set_append image_Un Un_subset_iff) (intro conjI f j ks)
  next
    case Credential_Profiles
    then have "ups = given_fields [''name'', ''username_secret_name'', ''password_secret_name''] (\<lambda>v. v) p
           @ given_json e ''extra_headers'' (JObj []) p @ given_json e ''login_recipe'' (JObj []) p"
      using assms by (simp add: credential_changes_def split: option.splits)
    then show ?thesis by (simp only: set_append image_Un Un_subset_iff) (intro conjI f j ks)
  next
    case Session_Profiles
    then have "ups = given_fields [''name'', ''cookie_secret_name'', ''notes''] (\<lambda>v. v) p @ given_json e ''extra_headers'' (JObj []) p"
      using assms by (simp add: session_changes_def split: option.splits)
    then show ?thesis by (simp only: set_append image_Un Un_subset_iff) (intro conjI f j ks)
  qed
qed

lemma changes_kept:
  assumes "changes_of e t p = Inr ups"
  shows "''id'' \<notin> fst ` set ups" and "''owner_id'' \<notin> fst ` set ups"
proof -
  have "\<forall>k \<in> set plain_keys \<union> (\<lambda>k. k @ ''_json'') ` set json_keys. k \<noteq> ''id'' \<and> k \<noteq> ''owner_id''"
    by code_simp
  then show "''id'' \<notin> fst ` set ups" "''owner_id'' \<notin> fst ` set ups" using changed_keys [OF assms] by blast+
qed

lemma jget_fold_aput: "k \<notin> fst ` set ups \<Longrightarrow> jget (fold (\<lambda>kv. aput (fst kv) (g kv)) ups r) k = jget r k"
proof (induction ups arbitrary: r)
  case (Cons kv ups)
  then have "jget (aput (fst kv) (g kv) r) k = jget r k" by (auto simp: jget_def)
  then show ?case using Cons by simp
qed simp

lemma jget_map_values: "jget (map (\<lambda>(k, v). (k, f k v)) row) k = (case map_of row k of None \<Rightarrow> JNull | Some v \<Rightarrow> f k v)"
proof -
  have "map_of (map (\<lambda>(k, v). (k, f k v)) row) k = map_option (f k) (map_of row k)" by (induction row) auto
  then show ?thesis by (auto simp: jget_def split: option.splits)
qed

lemma stored_keys:
  "jget row k = JStr s \<Longrightarrow> jget (map (\<lambda>(k, v). (k, column_value e k v)) row) k = JStr s"
  unfolding jget_map_values by (cases "map_of row k") (auto simp: jget_def column_value_def text_affinity_def)

subsection \<open>Owners do not meet\<close>

abbreviation owned_by :: "string \<Rightarrow> dict \<Rightarrow> bool" where
  "owned_by me r \<equiv> jget r ''owner_id'' = JStr me"

text \<open>Every request leaves the table, appends an owned row with a new identifier, changes or removes the owned row of an identifier.\<close>

lemma resource_step_cases:
  obtains (same) "resource_step e t me q rows = rows"
  | (created) uid now p row where "q = Create_Resource uid now p" "resource_step e t me q rows = rows @ [row]"
      "resource_id row = JStr uid" "owned_by me row"
  | (updated) rid f where "resource_step e t me q rows = sql_update (owned_resource rid me) f rows"
      "\<And>r. resource_id (f r) = resource_id r" "\<And>r. jget (f r) ''owner_id'' = jget r ''owner_id''"
  | (deleted) rid where "resource_step e t me q rows = sql_delete (owned_resource rid me) rows"
proof (cases q)
  case List_Resources
  then show ?thesis using same by (simp add: resource_step_def)
next
  case (Create_Resource uid now p)
  show ?thesis
  proof (cases "row_of e t me uid now p")
    case (Inl r)
    then show ?thesis using same by (simp add: Create_Resource resource_step_def handler_create del: resource_handler.simps)
  next
    case (Inr row)
    let ?stored = "map (\<lambda>(k, v). (k, column_value e k v)) row"
    have "resource_id ?stored = JStr uid" "owned_by me ?stored"
      using row_of_owned [OF Inr] stored_keys by (auto simp: resource_id_def)
    moreover have "resource_step e t me q rows = rows \<or> resource_step e t me q rows = rows @ [?stored]"
      by (simp add: Create_Resource resource_step_def handler_create Inr insert_resource_def Let_def del: resource_handler.simps)
    ultimately show ?thesis using same created [OF Create_Resource] by blast
  qed
next
  case (Update_Resource rid now p)
  obtain absent not_null where u: "\<And>rows. resource_handler e t me (Update_Resource rid now p) rows
      = patch_resource e absent not_null (changes_of e t) me rid now p rows"
    using handler_update [of e t me rid now p] by blast
  show ?thesis
  proof (cases "changes_of e t p")
    case (Inl r)
    then show ?thesis using same by (simp add: Update_Resource resource_step_def u patch_resource_def del: resource_handler.simps)
  next
    case (Inr ups)
    let ?f = "\<lambda>r. aput ''updated_at'' (JStr now) (fold (\<lambda>kv. aput (fst kv) (column_value e (fst kv) (snd kv))) ups r)"
    have k: "jget (?f r) k = jget r k" if "k \<noteq> ''updated_at''" "k \<notin> fst ` set ups" for r k
    proof -
      have "jget (?f r) k = jget (fold (\<lambda>kv. aput (fst kv) (column_value e (fst kv) (snd kv))) ups r) k"
        using that(1) by (simp add: jget_def)
      then show ?thesis using jget_fold_aput [OF that(2)] by simp
    qed
    have "resource_id (?f r) = resource_id r" "jget (?f r) ''owner_id'' = jget r ''owner_id''" for r
      using k changes_kept [OF Inr] by (simp_all add: resource_id_def)
    moreover have "resource_step e t me q rows = rows \<or> resource_step e t me q rows = sql_update (owned_resource rid me) ?f rows"
      by (simp add: Update_Resource resource_step_def u patch_resource_def Inr Let_def del: resource_handler.simps split: option.split)
    ultimately show ?thesis using same updated by blast
  qed
next
  case (Delete_Resource rid)
  then show ?thesis using deleted by (simp add: resource_step_def delete_resource_def)
qed

lemma owned_resource_filter: "list_ex (owned_resource rid me) (filter (owned_by me) rows) = list_ex (owned_resource rid me) rows"
  by (auto simp: list_ex_iff owned_resource_def)

text \<open>A request sees the same and does the same on the rows of its owner alone.\<close>

lemma handler_filter:
  assumes d: "distinct (map resource_id rows)" and f: "\<forall>i. resource_new_id q = Some i \<longrightarrow> i \<notin> resource_id ` set rows"
  shows "resource_handler e t me q (filter (owned_by me) rows)
    = (fst (resource_handler e t me q rows), filter (owned_by me) (snd (resource_handler e t me q rows)))"
proof (cases q)
  case List_Resources
  then show ?thesis by (simp add: list_resources_def)
next
  case (Create_Resource uid now p)
  show ?thesis
  proof (cases "row_of e t me uid now p")
    case (Inl r)
    then show ?thesis by (simp add: Create_Resource handler_create del: resource_handler.simps)
  next
    case (Inr row)
    have new: "\<not> list_ex (\<lambda>r. jget r ''id'' = jget row ''id'') rows" "\<not> list_ex (\<lambda>r. jget r ''id'' = jget row ''id'') (filter (owned_by me) rows)"
      using f row_of_owned [OF Inr] by (auto simp: list_ex_iff resource_id_def Create_Resource image_iff)
    have "owned_by me (map (\<lambda>(k, v). (k, column_value e k v)) row)"
      using row_of_owned [OF Inr] stored_keys by blast
    then show ?thesis
      by (simp add: Create_Resource handler_create Inr insert_resource_def Let_def new del: resource_handler.simps)
  qed
next
  case (Update_Resource rid now p)
  obtain absent not_null where u: "\<And>rows. resource_handler e t me (Update_Resource rid now p) rows
      = patch_resource e absent not_null (changes_of e t) me rid now p rows"
    using handler_update [of e t me rid now p] by blast
  show ?thesis
  proof (cases "list_ex (owned_resource rid me) rows")
    case False
    then show ?thesis unfolding Update_Resource u patch_resource_def owned_resource_filter by simp
  next
    case True
    then obtain r where r: "r \<in> set rows" "owned_resource rid me r" by (auto simp: list_ex_iff)
    show ?thesis
    proof (cases "changes_of e t p")
      case (Inl r)
      then show ?thesis unfolding Update_Resource u patch_resource_def owned_resource_filter using True by simp
    next
      case (Inr ups)
      let ?f = "\<lambda>r. aput ''updated_at'' (JStr now) (fold (\<lambda>kv. aput (fst kv) (column_value e (fst kv) (snd kv))) ups r)"
      have k: "jget (?f r) k = jget r k" if "k \<noteq> ''updated_at''" "k \<notin> fst ` set ups" for r k
      proof -
        have "jget (?f r) k = jget (fold (\<lambda>kv. aput (fst kv) (column_value e (fst kv) (snd kv))) ups r) k"
          using that(1) by (simp add: jget_def)
        then show ?thesis using jget_fold_aput [OF that(2)] by simp
      qed
      have keep: "jget (?f r) ''id'' = jget r ''id''" "jget (?f r) ''owner_id'' = jget r ''owner_id''" for r
        using k changes_kept [OF Inr] by simp_all
      have upd: "filter (owned_by me) (sql_update (owned_resource rid me) ?f rows) = sql_update (owned_resource rid me) ?f (filter (owned_by me) rows)"
        by (rule filter_sql_update) (simp only: keep)
      have only: "x = r" if "x \<in> set rows" "jget x ''id'' = JStr rid" for x
        using d r that by (metis distinct_map inj_onD owned_resource_def resource_id_def)
      have "find (\<lambda>r. jget r ''id'' = JStr rid) (filter (owned_by me) (sql_update (owned_resource rid me) ?f rows))
          = find (\<lambda>r. jget r ''id'' = JStr rid) (sql_update (owned_resource rid me) ?f rows)"
      proof (rule find_filter)
        fix x assume x: "x \<in> set (sql_update (owned_resource rid me) ?f rows)" "jget x ''id'' = JStr rid"
        then obtain y where y: "y \<in> set rows" "x = (if owned_resource rid me y then ?f y else y)" by (auto simp: sql_update_def)
        then have "jget y ''id'' = JStr rid" using x(2) keep(1) by (auto split: if_splits)
        then have "y = r" using only y(1) by blast
        then show "owned_by me x" using y(2) r(2) keep(2) by (simp add: owned_resource_def)
      qed
      then have fi: "find (\<lambda>r. jget r ''id'' = JStr rid) (sql_update (owned_resource rid me) ?f (filter (owned_by me) rows))
          = find (\<lambda>r. jget r ''id'' = JStr rid) (sql_update (owned_resource rid me) ?f rows)"
        unfolding upd .
      show ?thesis unfolding Update_Resource u patch_resource_def owned_resource_filter Inr Let_def sum.case fi
        by (cases "\<not> list_all (\<lambda>kv. bindable (snd kv)) ups \<or> list_ex (\<lambda>kv. fst kv \<in> set not_null \<and> snd kv = JNull) ups";
            cases "find (\<lambda>r. jget r ''id'' = JStr rid) (sql_update (owned_resource rid me) ?f rows)")
          (simp_all only: True not_True_eq_False if_False if_True option.case fst_conv snd_conv upd prod.inject simp_thms)
    qed
  qed
next
  case (Delete_Resource rid)
  then show ?thesis by (simp add: delete_resource_def filter_sql_delete)
qed

interpretation resource_table: private_table owned_by resource_id resource_new_id "resource_step e t" "resource_answer e t" for e t
proof
  fix rows :: "dict list" and q :: resource_request and me you :: string
  assume d: "distinct (map resource_id rows)" and f: "\<forall>i. resource_new_id q = Some i \<longrightarrow> i \<notin> resource_id ` set rows"
  show "filter (owned_by me) (resource_step e t me q rows) = resource_step e t me q (filter (owned_by me) rows)"
    "resource_answer e t me q rows = resource_answer e t me q (filter (owned_by me) rows)"
    using handler_filter [OF d f] by (simp_all add: resource_step_def resource_answer_def)
  show "distinct (map resource_id (resource_step e t me q rows))"
    by (cases rule: resource_step_cases [of e t me q rows])
      (use d f in \<open>simp_all add: distinct_sql_delete map_sql_update del: map_map\<close>)
  assume "me \<noteq> you"
  then show "filter (owned_by you) (resource_step e t me q rows) = filter (owned_by you) rows"
  proof (cases rule: resource_step_cases [of e t me q rows])
    case (updated rid f)
    show ?thesis unfolding updated(1) by (rule filter_sql_update_foreign) (use \<open>me \<noteq> you\<close> updated(3) in \<open>auto simp: owned_resource_def\<close>)
  next
    case (deleted rid)
    show ?thesis unfolding deleted(1) by (rule filter_sql_delete_foreign) (use \<open>me \<noteq> you\<close> in \<open>auto simp: owned_resource_def\<close>)
  qed (use \<open>me \<noteq> you\<close> in simp_all)
qed

subsection \<open>Vault secrets\<close>

record vault_env =
  ve_cipher :: aead
  ve_sha256 :: "bytes \<Rightarrow> bytes"
  ve_key :: "string option"
  ve_signature_key :: "string option"

record secret_row =
  s_id :: string
  s_owner :: string
  s_name :: string
  s_value :: string
  s_created :: string
  s_updated :: string

text \<open>\<open>VaultCrypto(settings.resolved_vault_key)\<close>\<close>

definition open_vault :: "vault_env \<Rightarrow> vault_error + vault" where
  "open_vault ve =
     (case resolved_vault_key (ve_sha256 ve) (ve_key ve) (ve_signature_key ve) of
        Inl err \<Rightarrow> Inl err
      | Inr key \<Rightarrow> vault_init (ve_sha256 ve) key)"

definition is_secret :: "string \<Rightarrow> string \<Rightarrow> secret_row \<Rightarrow> bool" where
  "is_secret owner name r = (s_owner r = owner \<and> s_name r = name)"

definition list_vault_secrets :: "string \<Rightarrow> secret_row list \<Rightarrow> dict list" where
  "list_vault_secrets owner rows =
     map (\<lambda>r. [(''id'', JStr (s_id r)), (''name'', JStr (s_name r)), (''created_at'', JStr (s_created r)), (''updated_at'', JStr (s_updated r))])
       (sort_key s_name (filter (\<lambda>r. s_owner r = owner) rows))"

definition upsert_vault_secret ::
  "vault_env \<Rightarrow> string \<Rightarrow> string \<Rightarrow> string \<Rightarrow> bytes \<Rightarrow> string \<Rightarrow> string option \<Rightarrow> secret_row list \<Rightarrow> table_reply \<times> secret_row list" where
  "upsert_vault_secret ve owner uid now nonce name value rows =
     (case value of
        None \<Rightarrow> (Refused 400 ''Secret value is required'', rows)
      | Some v \<Rightarrow>
          if v = [] then (Refused 400 ''Secret value is required'', rows)
          else (case open_vault ve of
              Inl err \<Rightarrow> (Server_Error, rows)
            | Inr crypto \<Rightarrow>
                (let encrypted = encrypt (ve_cipher ve) nonce v crypto;
                     stored = Row [(''name'', JStr name), (''stored'', JBool True)]
                 in if list_ex (is_secret owner name) rows
                    then (stored, sql_update (is_secret owner name) (\<lambda>r. r\<lparr>s_value := encrypted, s_updated := now\<rparr>) rows)
                    else if list_ex (\<lambda>r. s_id r = uid) rows then (Server_Error, rows)
                    else (stored, rows @ [\<lparr>s_id = uid, s_owner = owner, s_name = name, s_value = encrypted,
                            s_created = now, s_updated = now\<rparr>]))))"

definition get_vault_secret :: "vault_env \<Rightarrow> string \<Rightarrow> string \<Rightarrow> secret_row list \<Rightarrow> table_reply" where
  "get_vault_secret ve owner name rows =
     (case find (is_secret owner name) rows of
        None \<Rightarrow> Refused 404 ''Secret not found''
      | Some r \<Rightarrow>
          (case open_vault ve of
             Inl err \<Rightarrow> Server_Error
           | Inr crypto \<Rightarrow>
               (case decrypt (ve_cipher ve) (s_value r) crypto of
                  Inl err \<Rightarrow> Server_Error
                | Inr v \<Rightarrow> Row [(''name'', JStr name), (''value'', JStr v)])))"

definition delete_vault_secret :: "string \<Rightarrow> string \<Rightarrow> secret_row list \<Rightarrow> table_reply \<times> secret_row list" where
  "delete_vault_secret owner name rows =
     (if list_ex (is_secret owner name) rows then (Deleted name, sql_delete (is_secret owner name) rows)
      else (Refused 404 ''Secret not found'', rows))"

datatype secret_request =
    List_Secrets
  | Put_Secret string string bytes string "string option" \<comment> \<open>fresh identifier, time, nonce, name, value\<close>
  | Get_Secret string
  | Delete_Secret string

fun secret_handler :: "vault_env \<Rightarrow> string \<Rightarrow> secret_request \<Rightarrow> secret_row list \<Rightarrow> table_reply \<times> secret_row list" where
  "secret_handler ve owner List_Secrets rows = (Rows (list_vault_secrets owner rows), rows)"
| "secret_handler ve owner (Put_Secret uid now nonce name value) rows = upsert_vault_secret ve owner uid now nonce name value rows"
| "secret_handler ve owner (Get_Secret name) rows = (get_vault_secret ve owner name rows, rows)"
| "secret_handler ve owner (Delete_Secret name) rows = delete_vault_secret owner name rows"

fun secret_new_id :: "secret_request \<Rightarrow> string option" where
  "secret_new_id (Put_Secret uid now nonce name value) = Some uid"
| "secret_new_id q = None"

definition secret_step :: "vault_env \<Rightarrow> string \<Rightarrow> secret_request \<Rightarrow> secret_row list \<Rightarrow> secret_row list" where
  "secret_step ve owner q rows = snd (secret_handler ve owner q rows)"

definition secret_answer :: "vault_env \<Rightarrow> string \<Rightarrow> secret_request \<Rightarrow> secret_row list \<Rightarrow> table_reply" where
  "secret_answer ve owner q rows = fst (secret_handler ve owner q rows)"

lemma secret_ex_filter: "list_ex (is_secret me name) (filter (\<lambda>r. s_owner r = me) rows) = list_ex (is_secret me name) rows"
  by (auto simp: list_ex_iff is_secret_def)

lemma secret_find_filter: "find (is_secret me name) (filter (\<lambda>r. s_owner r = me) rows) = find (is_secret me name) rows"
  by (rule find_filter) (simp add: is_secret_def)

text \<open>What a put with a value does when the vault opens and its identifier is new.\<close>

lemma put_effect:
  assumes "open_vault ve = Inr crypto" and "v \<noteq> []" and "uid \<notin> s_id ` set rows"
  shows "upsert_vault_secret ve me uid now nonce name (Some v) rows =
    (Row [(''name'', JStr name), (''stored'', JBool True)],
     if list_ex (is_secret me name) rows
     then sql_update (is_secret me name) (\<lambda>r. r\<lparr>s_value := encrypt (ve_cipher ve) nonce v crypto, s_updated := now\<rparr>) rows
     else rows @ [\<lparr>s_id = uid, s_owner = me, s_name = name, s_value = encrypt (ve_cipher ve) nonce v crypto, s_created = now, s_updated = now\<rparr>])"
proof -
  have "\<not> list_ex (\<lambda>r. s_id r = uid) rows" using assms(3) by (auto simp: list_ex_iff)
  then show ?thesis using assms by (simp add: upsert_vault_secret_def Let_def)
qed

lemma put_nothing:
  "(v = None \<or> v = Some [] \<or> (\<exists>err. open_vault ve = Inl err))
    \<Longrightarrow> \<exists>r. \<forall>rows. upsert_vault_secret ve me uid now nonce name v rows = (r, rows)"
  by (rule exI [where x = "if v = None \<or> v = Some [] then Refused 400 ''Secret value is required'' else Server_Error"])
    (auto simp: upsert_vault_secret_def split: if_splits)

lemma secret_step_cases [consumes 1, case_names same created updated deleted]:
  assumes "\<forall>i. secret_new_id q = Some i \<longrightarrow> i \<notin> s_id ` set rows"
  obtains (same) "secret_step ve me q rows = rows"
  | (created) uid now nonce name v where "q = Put_Secret uid now nonce name v"
      "\<exists>enc. secret_step ve me q rows = rows @ [\<lparr>s_id = uid, s_owner = me, s_name = name, s_value = enc, s_created = now, s_updated = now\<rparr>]"
  | (updated) uid now nonce name v where "q = Put_Secret uid now nonce name v"
      "\<exists>enc. secret_step ve me q rows = sql_update (is_secret me name) (\<lambda>r. r\<lparr>s_value := enc, s_updated := now\<rparr>) rows"
  | (deleted) name where "q = Delete_Secret name" "secret_step ve me q rows = sql_delete (is_secret me name) rows"
proof (cases q)
  case (Put_Secret uid now nonce name v)
  show ?thesis
  proof (cases "v = None \<or> v = Some [] \<or> (\<exists>err. open_vault ve = Inl err)")
    case True
    then show ?thesis using same put_nothing [OF True] by (metis Put_Secret secret_step_def secret_handler.simps(2) snd_conv)
  next
    case False
    then obtain w crypto where w: "v = Some w" "w \<noteq> []" "open_vault ve = Inr crypto" by (cases "open_vault ve") auto
    have "uid \<notin> s_id ` set rows" using assms Put_Secret by simp
    note e = put_effect [OF w(3,2) this]
    show ?thesis
      using created [OF Put_Secret] updated [OF Put_Secret]
      by (cases "list_ex (is_secret me name) rows") (auto simp: Put_Secret secret_step_def w(1) e)
  qed
next
  case (Delete_Secret name)
  then show ?thesis using deleted same
    by (cases "list_ex (is_secret me name) rows") (auto simp: secret_step_def delete_vault_secret_def)
qed (use same in \<open>auto simp: secret_step_def\<close>)

lemma secret_handler_filter:
  assumes "\<forall>i. secret_new_id q = Some i \<longrightarrow> i \<notin> s_id ` set rows"
  shows "secret_handler ve me q (filter (\<lambda>r. s_owner r = me) rows)
    = (fst (secret_handler ve me q rows), filter (\<lambda>r. s_owner r = me) (snd (secret_handler ve me q rows)))"
proof (cases q)
  case (Put_Secret uid now nonce name v)
  show ?thesis
  proof (cases "v = None \<or> v = Some [] \<or> (\<exists>err. open_vault ve = Inl err)")
    case True
    then show ?thesis using put_nothing [OF True, of me uid now nonce name] by (auto simp: Put_Secret)
  next
    case False
    then obtain w crypto where w: "v = Some w" "w \<noteq> []" "open_vault ve = Inr crypto" by (cases "open_vault ve") auto
    have f: "uid \<notin> s_id ` set rows" "uid \<notin> s_id ` set (filter (\<lambda>r. s_owner r = me) rows)" using assms Put_Secret by auto
    have upd: "filter (\<lambda>r. s_owner r = me) (sql_update (is_secret me name) (\<lambda>r. r\<lparr>s_value := enc, s_updated := now\<rparr>) rows)
        = sql_update (is_secret me name) (\<lambda>r. r\<lparr>s_value := enc, s_updated := now\<rparr>) (filter (\<lambda>r. s_owner r = me) rows)" for enc
      by (rule filter_sql_update) simp
    show ?thesis
      by (simp add: Put_Secret w(1) put_effect [OF w(3,2) f(1)] put_effect [OF w(3,2) f(2)] secret_ex_filter upd)
  qed
next
  case (Delete_Secret name)
  then show ?thesis by (simp add: delete_vault_secret_def secret_ex_filter filter_sql_delete)
qed (simp_all add: list_vault_secrets_def get_vault_secret_def secret_find_filter)

interpretation secret_table: private_table "\<lambda>me r. s_owner r = me" s_id secret_new_id "secret_step ve" "secret_answer ve" for ve
proof
  fix rows :: "secret_row list" and q :: secret_request and me you :: string
  assume d: "distinct (map s_id rows)" and f: "\<forall>i. secret_new_id q = Some i \<longrightarrow> i \<notin> s_id ` set rows"
  show "filter (\<lambda>r. s_owner r = me) (secret_step ve me q rows) = secret_step ve me q (filter (\<lambda>r. s_owner r = me) rows)"
    "secret_answer ve me q rows = secret_answer ve me q (filter (\<lambda>r. s_owner r = me) rows)"
    using secret_handler_filter [OF f] by (simp_all add: secret_step_def secret_answer_def)
  show "distinct (map s_id (secret_step ve me q rows))"
    using f
  proof (cases rule: secret_step_cases [where ve = ve and me = me])
    case (updated uid now nonce name v)
    then show ?thesis using d map_sql_update [of "is_secret me name" s_id] by force
  qed (use d f distinct_sql_delete in \<open>auto simp del: map_map\<close>)
  assume n: "me \<noteq> you"
  show "filter (\<lambda>r. s_owner r = you) (secret_step ve me q rows) = filter (\<lambda>r. s_owner r = you) rows"
    using f
  proof (cases rule: secret_step_cases [where ve = ve and me = me])
    case (updated uid now nonce name v)
    then obtain enc where e: "secret_step ve me q rows = sql_update (is_secret me name) (\<lambda>r. r\<lparr>s_value := enc, s_updated := now\<rparr>) rows" by blast
    show ?thesis unfolding e by (rule filter_sql_update_foreign) (use n in \<open>auto simp: is_secret_def\<close>)
  next
    case (deleted name)
    show ?thesis unfolding deleted(2) by (rule filter_sql_delete_foreign) (use n in \<open>auto simp: is_secret_def\<close>)
  qed (use n in auto)
qed

subsection \<open>Properties\<close>

text \<open>C30: On every resource table (target policies, credential and session profiles, vault secrets) the answer an
  owner gets to any request, and the rows he has, are the same as if no other owner had ever made
  a request, whatever the history of all owners was. So no request can read, change, delete or even
  notice a resource of another owner.\<close>

theorem resources_private:
  assumes "fresh_history resource_id resource_new_id (resource_step e t) (reqs @ [(me, q)]) []"
    and "fresh_history s_id secret_new_id (secret_step ve) (sreqs @ [(me, sq)]) []"
  shows "resource_answer e t me q (run_requests (resource_step e t) reqs [])
         = resource_answer e t me q (run_requests (resource_step e t) (requests_of me reqs) [])
     \<and> filter (\<lambda>r. jget r ''owner_id'' = JStr me) (run_requests (resource_step e t) reqs [])
         = run_requests (resource_step e t) (requests_of me reqs) []
     \<and> secret_answer ve me sq (run_requests (secret_step ve) sreqs [])
         = secret_answer ve me sq (run_requests (secret_step ve) (requests_of me sreqs) [])"
proof (intro conjI)
  show "resource_answer e t me q (run_requests (resource_step e t) reqs [])
      = resource_answer e t me q (run_requests (resource_step e t) (requests_of me reqs) [])"
    using resource_table.answers_of_own_requests [OF assms(1)] by simp
  show "filter (\<lambda>r. jget r ''owner_id'' = JStr me) (run_requests (resource_step e t) reqs [])
      = run_requests (resource_step e t) (requests_of me reqs) []"
    using resource_table.rows_of_own_requests [of e t reqs "[]" me] assms(1) by (simp add: fresh_history_snoc)
  show "secret_answer ve me sq (run_requests (secret_step ve) sreqs [])
      = secret_answer ve me sq (run_requests (secret_step ve) (requests_of me sreqs) [])"
    using secret_table.answers_of_own_requests [OF assms(2)] by simp
qed

text \<open>A secret with a value: the owner has a row of the name, and each of them holds the value.\<close>

definition holds_secret :: "string \<Rightarrow> string \<Rightarrow> string \<Rightarrow> secret_row list \<Rightarrow> bool" where
  "holds_secret me name enc rows \<longleftrightarrow> (\<exists>r \<in> set rows. is_secret me name r) \<and> (\<forall>r \<in> set rows. is_secret me name r \<longrightarrow> s_value r = enc)"

definition writes_secret :: "string \<Rightarrow> secret_request \<Rightarrow> bool" where
  "writes_secret name q = (case q of Put_Secret uid now nonce n v \<Rightarrow> n = name | Delete_Secret n \<Rightarrow> n = name | _ \<Rightarrow> False)"

lemma holds_secret_step:
  assumes "holds_secret me name enc rows" and "\<forall>i. secret_new_id q = Some i \<longrightarrow> i \<notin> s_id ` set rows"
    and "you = me \<Longrightarrow> \<not> writes_secret name q"
  shows "holds_secret me name enc (secret_step ve you q rows)"
  using assms(2)
proof (cases rule: secret_step_cases [where ve = ve and me = you])
  case (created uid now nonce n v)
  then obtain x where "secret_step ve you q rows = rows @ [\<lparr>s_id = uid, s_owner = you, s_name = n, s_value = x, s_created = now, s_updated = now\<rparr>]"
    by blast
  moreover have "you = me \<Longrightarrow> n \<noteq> name" using assms(3) created by (auto simp: writes_secret_def)
  ultimately show ?thesis using assms(1) by (auto simp: holds_secret_def is_secret_def)
next
  case (updated uid now nonce n v)
  then obtain x where x: "secret_step ve you q rows = sql_update (is_secret you n) (\<lambda>r. r\<lparr>s_value := x, s_updated := now\<rparr>) rows"
    by blast
  have "\<not> is_secret you n r" if "is_secret me name r" for r
    using that assms(3) updated by (auto simp: writes_secret_def is_secret_def)
  then have k: "is_secret me name (if is_secret you n r then r\<lparr>s_value := x, s_updated := now\<rparr> else r) = is_secret me name r"
      "is_secret me name r \<Longrightarrow> (if is_secret you n r then r\<lparr>s_value := x, s_updated := now\<rparr> else r) = r" for r
    by (auto simp: is_secret_def)
  have "s_value (if is_secret you n r then r\<lparr>s_value := x, s_updated := now\<rparr> else r) = s_value r" if "is_secret me name r" for r
    by (simp only: k(2) [OF that])
  then show ?thesis using assms(1) unfolding x holds_secret_def bex_sql_update ball_sql_update k(1) by blast
next
  case (deleted n)
  have "\<not> is_secret you n r" if "is_secret me name r" for r
    using that assms(3) deleted by (auto simp: writes_secret_def is_secret_def)
  then show ?thesis using assms(1) unfolding deleted(2) holds_secret_def by auto
qed (use assms(1) in simp)

lemma holds_secret_history:
  "fresh_history s_id secret_new_id (secret_step ve) reqs rows \<Longrightarrow> holds_secret me name enc rows
    \<Longrightarrow> (\<And>q. (me, q) \<in> set reqs \<Longrightarrow> \<not> writes_secret name q) \<Longrightarrow> holds_secret me name enc (run_requests (secret_step ve) reqs rows)"
proof (induction reqs arbitrary: rows)
  case (Cons oq reqs)
  obtain you q where oq: "oq = (you, q)" by (cases oq)
  have "holds_secret me name enc (secret_step ve you q rows)"
    using Cons.prems by (intro holds_secret_step) (auto simp: oq)
  then show ?case using Cons.IH [of "secret_step ve you q rows"] Cons.prems by (simp add: oq run_requests_def)
qed (simp add: run_requests_def)

text \<open>C31: A secret that was stored is what the owner reads back, whatever other secrets he or anyone else
  writes or deletes in between, until he writes or deletes that name again: the value goes
  through the derivation of the key, the cipher, base64 and the table.\<close>

theorem stored_secret_returned:
  assumes "opens_sealed (ve_cipher ve)" and "\<forall>m. length (ve_sha256 ve m) = 32"
    and "resolved_vault_key (ve_sha256 ve) (ve_key ve) (ve_signature_key ve) = Inr key"
    and "length nonce = 12" and "\<forall>c \<in> set v. char_nat c < 128" and "v \<noteq> []"
    and "fresh_history s_id secret_new_id (secret_step ve) (before @ (me, Put_Secret uid now nonce name (Some v)) # later) []"
    and "\<And>q. (me, q) \<in> set later \<Longrightarrow> \<not> writes_secret name q"
  shows "secret_answer ve me (Get_Secret name) (run_requests (secret_step ve) (before @ (me, Put_Secret uid now nonce name (Some v)) # later) [])
    = Row [(''name'', JStr name), (''value'', JStr v)]"
proof -
  obtain m where m: "key = b64_encode (ve_sha256 ve m)"
    using assms(3) by (auto simp: resolved_vault_key_def Let_def split: if_splits)
  then obtain crypto where c: "open_vault ve = Inr crypto"
    using assms(2,3) by (simp add: open_vault_def vault_init_def b64_roundtrip)
  let ?put = "Put_Secret uid now nonce name (Some v)" and ?rows = "run_requests (secret_step ve) before []"
  let ?enc = "encrypt (ve_cipher ve) nonce v crypto"
  have f: "uid \<notin> s_id ` set ?rows" "fresh_history s_id secret_new_id (secret_step ve) later (secret_step ve me ?put ?rows)"
    using assms(7) fresh_history_append [of s_id secret_new_id "secret_step ve" before "(me, ?put) # later" "[]"] by simp_all
  have "holds_secret me name ?enc (secret_step ve me ?put ?rows)"
  proof (cases "list_ex (is_secret me name) ?rows")
    case True
    then obtain r where "r \<in> set ?rows" "is_secret me name r" by (auto simp: list_ex_iff)
    then show ?thesis
      unfolding secret_step_def secret_handler.simps put_effect [OF c assms(6) f(1)] snd_conv if_P [OF True] holds_secret_def
        bex_sql_update ball_sql_update
      by (auto simp: is_secret_def)
  next
    case False
    then show ?thesis
      by (auto simp: secret_step_def put_effect [OF c assms(6) f(1)] holds_secret_def is_secret_def list_ex_iff)
  qed
  then have "holds_secret me name ?enc (run_requests (secret_step ve) later (secret_step ve me ?put ?rows))"
    by (rule holds_secret_history [OF f(2) _ assms(8)])
  then have h: "holds_secret me name ?enc (run_requests (secret_step ve) (before @ (me, ?put) # later) [])"
    by (simp add: run_requests_def)
  then obtain r where r: "find (is_secret me name) (run_requests (secret_step ve) (before @ (me, ?put) # later) []) = Some r" "s_value r = ?enc"
    using find_set [of "is_secret me name"] by (cases "find (is_secret me name) (run_requests (secret_step ve) (before @ (me, ?put) # later) [])")
      (auto simp: holds_secret_def find_None_iff)
  have "decrypt (ve_cipher ve) ?enc crypto = Inr v"
    using decrypt_encrypt [OF assms(1)] assms(4,5) by (simp add: NONCE_LEN_def)
  then show ?thesis using r c by (simp add: secret_answer_def get_vault_secret_def)
qed

subsection \<open>Witnesses and small print\<close>

definition example_sql :: sql_env where
  "example_sql = \<lparr>shown = (\<lambda>v. []), float_text = (\<lambda>r. ''0.0''), float_of = (\<lambda>r. r)\<rparr>"

definition example_vault :: vault_env where
  "example_vault = \<lparr>ve_cipher = toy_cipher, ve_sha256 = toy_sha, ve_key = Some ''seed'', ve_signature_key = None\<rparr>"

theorem resources_private_witness:
  "let reqs = [(''user:a'', Create_Resource ''1'' ''t'' [(''name'', JStr ''lab'')]), (''user:b'', Delete_Resource ''1'')];
       sreqs = [(''user:a'', Put_Secret ''2'' ''t'' [] ''db'' (Some ''x'')), (''user:b'', Delete_Secret ''db'')]
   in resource_answer example_sql Target_Policies ''user:a'' List_Resources (run_requests (resource_step example_sql Target_Policies) reqs [])
        = resource_answer example_sql Target_Policies ''user:a'' List_Resources
            (run_requests (resource_step example_sql Target_Policies) [(''user:a'', Create_Resource ''1'' ''t'' [(''name'', JStr ''lab'')])] [])
      \<and> secret_answer example_vault ''user:b'' (Get_Secret ''db'') (run_requests (secret_step example_vault) sreqs [])
        = Refused 404 ''Secret not found''"
proof -
  let ?reqs = "[(''user:a'', Create_Resource ''1'' ''t'' [(''name'', JStr ''lab'')]), (''user:b'', Delete_Resource ''1'')]"
  let ?sreqs = "[(''user:a'', Put_Secret ''2'' ''t'' [] ''db'' (Some ''x'')), (''user:b'', Delete_Secret ''db'')]"
  have f: "fresh_history resource_id resource_new_id (resource_step example_sql Target_Policies) (?reqs @ [(''user:a'', List_Resources)]) []"
    "fresh_history s_id secret_new_id (secret_step example_vault) (?sreqs @ [(''user:b'', Get_Secret ''db'')]) []"
    "fresh_history resource_id resource_new_id (resource_step example_sql Target_Policies) ([] @ [(''user:b'', List_Resources)]) []"
    "fresh_history s_id secret_new_id (secret_step example_vault) ([] @ [(''user:a'', List_Secrets)]) []"
    by simp_all
  have "run_requests (secret_step example_vault) (requests_of ''user:b'' ?sreqs) [] = []"
    by (simp add: run_requests_def requests_of_def secret_step_def delete_vault_secret_def)
  then have "secret_answer example_vault ''user:b'' (Get_Secret ''db'') (run_requests (secret_step example_vault) ?sreqs [])
      = Refused 404 ''Secret not found''"
    using resources_private [OF f(3,2)] by (simp add: secret_answer_def get_vault_secret_def)
  moreover have "requests_of ''user:a'' ?reqs = [(''user:a'', Create_Resource ''1'' ''t'' [(''name'', JStr ''lab'')])]"
    by (simp add: requests_of_def)
  ultimately show ?thesis using resources_private [OF f(1,4)] unfolding Let_def by simp
qed

theorem stored_secret_returned_witness:
  "secret_answer example_vault ''user:a'' (Get_Secret ''db'')
     (run_requests (secret_step example_vault)
        ([(''user:b'', Put_Secret ''1'' ''t'' (replicate 12 3) ''db'' (Some ''other''))]
         @ (''user:a'', Put_Secret ''2'' ''t'' (replicate 12 7) ''db'' (Some ''hunter2''))
         # [(''user:b'', Delete_Secret ''db''), (''user:a'', Delete_Secret ''smtp'')]) [])
   = Row [(''name'', JStr ''db''), (''value'', JStr ''hunter2'')]"
proof -
  have cipher: "opens_sealed (ve_cipher example_vault)"
    by (auto simp: opens_sealed_def toy_cipher_def example_vault_def split: list.splits)
  have sha: "\<forall>m. length (ve_sha256 example_vault m) = 32" by (simp add: example_vault_def toy_sha_def min_def)
  obtain key where key: "resolved_vault_key (ve_sha256 example_vault) (ve_key example_vault) (ve_signature_key example_vault) = Inr key"
    by (simp add: resolved_vault_key_def example_vault_def)
  then obtain crypto where c: "open_vault example_vault = Inr crypto"
    using sha by (auto simp: open_vault_def vault_init_def resolved_vault_key_def Let_def b64_roundtrip split: if_splits)
  have ascii: "\<forall>c \<in> set ''hunter2''. char_nat c < 128" by (simp add: char_nat_def)
  have p: "upsert_vault_secret example_vault ''user:b'' ''1'' ''t'' (replicate 12 3) ''db'' (Some ''other'') []
      = (Row [(''name'', JStr ''db''), (''stored'', JBool True)],
         [\<lparr>s_id = ''1'', s_owner = ''user:b'', s_name = ''db'', s_value = encrypt toy_cipher (replicate 12 3) ''other'' crypto,
           s_created = ''t'', s_updated = ''t''\<rparr>])"
    by (subst put_effect [OF c]) (simp_all add: example_vault_def)
  have "fresh_history s_id secret_new_id (secret_step example_vault)
        ([(''user:b'', Put_Secret ''1'' ''t'' (replicate 12 3) ''db'' (Some ''other''))]
         @ (''user:a'', Put_Secret ''2'' ''t'' (replicate 12 7) ''db'' (Some ''hunter2''))
         # [(''user:b'', Delete_Secret ''db''), (''user:a'', Delete_Secret ''smtp'')]) []"
    by (simp add: secret_step_def p)
  from stored_secret_returned [OF cipher sha key _ ascii _ this] show ?thesis
    by (auto simp: writes_secret_def)
qed

text \<open>Creation refuses a blank name, a patch stores it; and a patch takes any value for \<open>allowed_targets\<close>.\<close>

lemma patch_stores_blank_name:
  "policy_changes e [(''name'', JStr '' ''), (''allowed_targets'', JInt 5)]
     = Inr [(''name'', JStr []), (''allowed_targets_json'', JStr (int_str 5))]
   \<and> (\<exists>why. policy_row e owner uid now [(''name'', JStr '' '')] = Inl (Refused 400 why))"
proof -
  have "py_strip '' '' = []" by code_simp
  then show ?thesis
    by (simp add: policy_changes_def policy_row_def validate_lengths_def given_fields_def given_json_def flag_columns_def
        json_payload_def show_json_def jget_or_def Let_def)
qed

text \<open>A patch that sets the name to \<open>null\<close> breaks the constraint of the column: a server error, nothing is changed.\<close>

lemma null_name_raises:
  assumes "list_ex (owned_resource rid me) rows"
  shows "update_target_policy e me rid now [(''name'', JNull)] rows = (Server_Error, rows)"
  using assms by (simp add: update_target_policy_def patch_resource_def policy_changes_def validate_lengths_def given_fields_def
      given_json_def flag_columns_def policy_not_null_def bindable_def)

end
