(* ===== verification/Task_Queries.thy ===== *)
theory Task_Queries
  imports Sql_Tables Redaction
begin

text \<open>
  The reading routes over tasks, findings and reports in \<open>backend/secuscan/routes.py\<close>: search with its
  LIKE patterns, the pages of the task list with their links, and the JSON fields of rows
  (\<open>routes_json_helpers.py\<close>). Rows are dictionaries of their columns. \<open>sql_like\<close> is the LIKE of
  SQLite with \<open>ESCAPE '\'\<close>: it ignores the case of ASCII letters. Parameters: \<open>to_utc_iso\<close> and the
  rounding of decimals. Among rows with equal times the order is that of insertion, reversed.
\<close>

subsection \<open>LIKE patterns\<close>

definition backslash :: char where
  "backslash = CHR 0x5C"

fun sql_like :: "string \<Rightarrow> string \<Rightarrow> bool" where
  "sql_like [] s = (s = [])"
| "sql_like (p # ps) s =
     (if p = backslash then
        (case ps of [] \<Rightarrow> False
         | c # ps' \<Rightarrow> (case s of [] \<Rightarrow> False | d # s' \<Rightarrow> lower_char c = lower_char d \<and> sql_like ps' s'))
      else if p = CHR ''%'' then sql_like ps s \<or> (case s of [] \<Rightarrow> False | d # s' \<Rightarrow> sql_like (p # ps) s')
      else (case s of [] \<Rightarrow> False | d # s' \<Rightarrow> (p = CHR ''_'' \<or> lower_char p = lower_char d) \<and> sql_like ps s'))"

definition replace_char :: "char \<Rightarrow> string \<Rightarrow> string \<Rightarrow> string" where
  "replace_char c t s = concat (map (\<lambda>x. if x = c then t else [x]) s)"

definition escape_like :: "string \<Rightarrow> string" where
  "escape_like value = replace_char (CHR ''_'') [backslash, CHR ''_'']
     (replace_char (CHR ''%'') [backslash, CHR ''%''] (replace_char backslash [backslash, backslash] value))"

subsection \<open>Search\<close>

definition column_like :: "string \<Rightarrow> string \<Rightarrow> dict \<Rightarrow> bool" where
  "column_like pat k r = (case jget r k of JStr s \<Rightarrow> sql_like pat s | _ \<Rightarrow> False)"

definition owned_row_of :: "string \<Rightarrow> dict \<Rightarrow> bool" where
  "owned_row_of owner r = (jget r ''owner_id'' = JStr owner)"

definition text_column :: "string \<Rightarrow> dict \<Rightarrow> string" where
  "text_column k r = (case jget r k of JStr s \<Rightarrow> s | _ \<Rightarrow> [])"

text \<open>\<open>ORDER BY k DESC LIMIT n\<close>\<close>

definition newest :: "string \<Rightarrow> nat \<Rightarrow> dict list \<Rightarrow> dict list" where
  "newest k n rows = take n (rev (sort_key (text_column k) rows))"

text \<open>The fields of an answer; the time goes through \<open>to_utc_iso\<close> if there is one.\<close>

definition project_hit :: "(json \<Rightarrow> json) \<Rightarrow> string list \<Rightarrow> string \<Rightarrow> dict \<Rightarrow> dict" where
  "project_hit to_iso keys time_key r =
     map (\<lambda>k. (k, jget r k)) keys @ [(time_key, if truthy (jget r time_key) then to_iso (jget r time_key) else jget r time_key)]"

text \<open>Findings, reports and the total; \<open>None\<close> is a request the query parameters refuse.\<close>

definition search ::
  "(json \<Rightarrow> json) \<Rightarrow> string \<Rightarrow> string \<Rightarrow> nat \<Rightarrow> dict list \<Rightarrow> dict list \<Rightarrow> (dict list \<times> dict list \<times> nat) option" where
  "search to_iso owner q limit findings reports =
     (if length q < 1 \<or> length q > 200 \<or> limit < 1 \<or> limit > 100 then None
      else
        let pattern = ''%'' @ escape_like (py_strip q) @ ''%'';
            finding_rows = newest ''discovered_at'' limit
              (filter (\<lambda>r. owned_row_of owner r \<and> (column_like pattern ''title'' r \<or> column_like pattern ''description'' r)) findings);
            report_rows = newest ''generated_at'' limit
              (filter (\<lambda>r. owned_row_of owner r \<and> column_like pattern ''name'' r) reports)
        in Some (map (project_hit to_iso [''id'', ''task_id'', ''title'', ''category'', ''severity'', ''target''] ''discovered_at'') finding_rows,
                 map (project_hit to_iso [''id'', ''task_id'', ''name'', ''type''] ''generated_at'') report_rows,
                 length finding_rows + length report_rows))"

subsection \<open>JSON fields of rows\<close>

definition parse_json_field :: "(rat \<Rightarrow> rat) \<Rightarrow> string \<Rightarrow> dict \<Rightarrow> dict" where
  "parse_json_field fl k item =
     (case jget item k of
        JStr s \<Rightarrow> if s = [] then item else (case loads fl s of None \<Rightarrow> item | Some v \<Rightarrow> aput k v item)
      | _ \<Rightarrow> item)"

definition parse_json_fields :: "(rat \<Rightarrow> rat) \<Rightarrow> dict list \<Rightarrow> string list \<Rightarrow> dict list" where
  "parse_json_fields fl rows ks = map (fold (parse_json_field fl) ks) rows"

text \<open>\<open>if old in item: item[new] = item.pop(old)\<close>\<close>

definition rename_key :: "string \<Rightarrow> string \<Rightarrow> dict \<Rightarrow> dict" where
  "rename_key old new item = (case map_of item old of None \<Rightarrow> item | Some v \<Rightarrow> aput new v (adel old item))"

definition finding_json_fields :: "string list" where
  "finding_json_fields = [''metadata_json'', ''risk_factors_json'', ''evidence_json'', ''asset_refs_json'', ''references_json'',
     ''corroborating_sources_json'']"

definition deserialize_finding_rows :: "(rat \<Rightarrow> rat) \<Rightarrow> (json \<Rightarrow> json) \<Rightarrow> dict list \<Rightarrow> dict list" where
  "deserialize_finding_rows fl to_iso rows =
     map (\<lambda>finding.
       let renamed = fold (\<lambda>k. rename_key k (take (length k - 5) k)) finding_json_fields finding;
           timed = fold (\<lambda>k f. if truthy (jget f k) then aput k (to_iso (jget f k)) f else f)
             [''discovered_at'', ''first_seen_at'', ''last_seen_at''] renamed
       in case jget timed ''metadata'' of
            JObj metadata \<Rightarrow> fold (\<lambda>k. aput k (jget metadata k)) [''safe_to_apply'', ''compatible_range'', ''alternatives''] timed
          | _ \<Rightarrow> fold (\<lambda>k. aput k JNull) [''safe_to_apply'', ''compatible_range'', ''alternatives''] timed)
       (parse_json_fields fl rows finding_json_fields)"

definition deserialize_asset_service_rows :: "(rat \<Rightarrow> rat) \<Rightarrow> dict list \<Rightarrow> dict list" where
  "deserialize_asset_service_rows fl rows =
     map (\<lambda>item. rename_key ''cert_san_json'' ''cert_san'' (rename_key ''metadata_json'' ''metadata'' item))
       (parse_json_fields fl rows [''metadata_json'', ''cert_san_json''])"

subsection \<open>Pages of tasks\<close>

definition task_statuses :: "string list" where
  "task_statuses = [''queued'', ''running'', ''completed'', ''failed'', ''cancelled'']"

definition listed_columns :: "string list" where
  "listed_columns = [''id'', ''plugin_id'', ''tool_name'', ''target'', ''status'', ''created_at'', ''duration_seconds'', ''inputs_json'',
     ''execution_context_json'', ''preset'', ''error_message'', ''exit_code'']"

text \<open>\<open>urlencode\<close> of the text of a value: letters, digits and \<open>_.-~\<close> stay, a blank is a plus sign.\<close>

definition quote_plus :: "string \<Rightarrow> string" where
  "quote_plus s = concat (map (\<lambda>c. if is_alnum c \<or> c \<in> set ''_.-~'' then [c] else if c = CHR '' '' then ''+''
     else ''%'' @ map upper_char (hex_byte (word_of_nat (char_nat c)))) s)"

record task_filter =
  by_plugin :: "string option"
  by_status :: "string option"

definition filled_in :: "string option \<Rightarrow> bool" where
  "filled_in s = (s \<noteq> None \<and> s \<noteq> Some [])"

definition page_url :: "task_filter \<Rightarrow> nat \<Rightarrow> nat \<Rightarrow> string" where
  "page_url flt per_page page_num =
     ''/api/v1/tasks?page='' @ nat_str page_num @ ''&per_page='' @ nat_str per_page
     @ (if filled_in (by_plugin flt) then ''&plugin_id='' @ quote_plus (the (by_plugin flt)) else [])
     @ (if filled_in (by_status flt) then ''&status='' @ quote_plus (the (by_status flt)) else [])"

definition task_matches :: "string \<Rightarrow> task_filter \<Rightarrow> dict \<Rightarrow> bool" where
  "task_matches owner flt r =
     (owned_row_of owner r
      \<and> (filled_in (by_plugin flt) \<longrightarrow> jget r ''plugin_id'' = JStr (the (by_plugin flt)))
      \<and> (filled_in (by_status flt) \<longrightarrow> jget r ''status'' = JStr (the (by_status flt))))"

text \<open>What the list shows of a row. A value of \<open>inputs_json\<close> that is no mapping passes \<open>redact_inputs\<close> as it is.\<close>

definition redact_inputs_value :: "json \<Rightarrow> json" where
  "redact_inputs_value v = (case v of JObj d \<Rightarrow> JObj (redact_inputs d) | _ \<Rightarrow> v)"

definition present_task :: "(rat \<Rightarrow> rat) \<Rightarrow> dict \<Rightarrow> dict" where
  "present_task fl r =
     (let item = fold (parse_json_field fl) [''structured_json'', ''config_json'', ''metadata_json'', ''inputs_json'', ''execution_context_json'']
                   (map (\<lambda>k. (k, jget r k)) listed_columns);
          named = rename_key ''id'' ''task_id'' item;
          with_inputs = aput ''inputs'' (redact_inputs_value (jor (jget named ''inputs_json'') (JObj []))) (adel ''inputs_json'' named)
      in aput ''execution_context'' (jor (jget with_inputs ''execution_context_json'') (JObj [])) (adel ''execution_context_json'' with_inputs))"

record task_page =
  pg_tasks :: "dict list"
  pg_total_pages :: nat
  pg_total_items :: nat
  pg_next :: "string option"
  pg_previous :: "string option"

datatype list_reply = Page task_page | List_Refused nat

definition list_tasks :: "(rat \<Rightarrow> rat) \<Rightarrow> string \<Rightarrow> nat \<Rightarrow> nat \<Rightarrow> task_filter \<Rightarrow> dict list \<Rightarrow> list_reply" where
  "list_tasks fl owner page per_page flt tasks =
     (if page < 1 \<or> per_page < 1 \<or> per_page > 100 then List_Refused 422
      else if filled_in (by_status flt) \<and> the (by_status flt) \<notin> set task_statuses then List_Refused 400
      else
        let matching = rev (sort_key (text_column ''created_at'') (filter (task_matches owner flt) tasks));
            total = length matching;
            total_pages = (total + per_page - 1) div per_page
        in Page \<lparr>pg_tasks = map (present_task fl) (take per_page (drop ((page - 1) * per_page) matching)),
                 pg_total_pages = total_pages, pg_total_items = total,
                 pg_next = (if page < total_pages then Some (page_url flt per_page (page + 1)) else None),
                 pg_previous = (if page > 1 then Some (page_url flt per_page (page - 1)) else None)\<rparr>)"

subsection \<open>Patterns of search terms\<close>

lemma escape_like_char: "escape_like q = concat (map (\<lambda>c. if c \<in> {backslash, CHR ''%'', CHR ''_''} then [backslash, c] else [c]) q)"
proof (induction q)
  case (Cons c cs)
  have "escape_like (c # cs) = escape_like [c] @ escape_like cs" by (simp add: escape_like_def replace_char_def)
  moreover have "escape_like [c] = (if c \<in> {backslash, CHR ''%'', CHR ''_''} then [backslash, c] else [c])"
    by (simp add: escape_like_def replace_char_def backslash_def)
  ultimately show ?case using Cons by simp
qed (simp add: escape_like_def replace_char_def)

lemma like_escaped_prefix:
  "sql_like (escape_like q @ ps) s \<longleftrightarrow> (starts_with (py_lower s) (py_lower q) \<and> sql_like ps (drop (length q) s))"
proof (induction q arbitrary: s)
  case (Cons c q)
  have e: "escape_like (c # q) @ ps = (if c \<in> {backslash, CHR ''%'', CHR ''_''} then [backslash, c] else [c]) @ escape_like q @ ps"
    by (simp add: escape_like_char)
  have "backslash \<noteq> CHR ''%'' \<and> backslash \<noteq> CHR ''_''" by (simp add: backslash_def)
  then show ?case unfolding e using Cons by (cases s) (auto simp: py_lower_def)
qed (simp add: escape_like_char py_lower_def)

lemma sql_like_percent: "sql_like (CHR ''%'' # ps) s \<longleftrightarrow> (\<exists>n \<le> length s. sql_like ps (drop n s))"
proof (induction s)
  case (Cons d s)
  have "CHR ''%'' \<noteq> backslash" by (simp add: backslash_def)
  then have "sql_like (CHR ''%'' # ps) (d # s) \<longleftrightarrow> sql_like ps (d # s) \<or> sql_like (CHR ''%'' # ps) s" by simp
  also have "\<dots> \<longleftrightarrow> (\<exists>n \<le> length (d # s). sql_like ps (drop n (d # s)))"
    unfolding Cons by (metis Suc_le_mono drop0 drop_Suc_Cons length_Cons not0_implies_Suc zero_le)
  finally show ?case .
next
  case Nil
  have "CHR ''%'' \<noteq> backslash" by (simp add: backslash_def)
  then show ?case by simp
qed

lemma like_anything [simp]: "sql_like [CHR ''%''] s"
  unfolding sql_like_percent by (intro exI [of _ "length s"]) simp

lemma contains_sub_drop: "contains_sub s t \<longleftrightarrow> (\<exists>n \<le> length s. starts_with (drop n s) t)"
proof (induction s)
  case (Cons c s)
  have "contains_sub (c # s) t \<longleftrightarrow> starts_with (c # s) t \<or> contains_sub s t" by simp
  also have "\<dots> \<longleftrightarrow> (\<exists>n \<le> length (c # s). starts_with (drop n (c # s)) t)"
    unfolding Cons by (metis Suc_le_mono drop0 drop_Suc_Cons length_Cons not0_implies_Suc zero_le)
  finally show ?case .
qed (cases t; simp)

lemma like_search_pattern:
  "sql_like (''%'' @ escape_like q @ ''%'') s \<longleftrightarrow> contains_sub (py_lower s) (py_lower q)"
proof -
  have "drop n (py_lower s) = py_lower (drop n s)" for n by (simp add: py_lower_def drop_map)
  then show ?thesis
    by (simp only: append.simps contains_sub_drop, subst sql_like_percent)
      (simp only: like_escaped_prefix like_anything simp_thms, simp add: py_lower_def)
qed

subsection \<open>Pages\<close>

lemma concat_pages:
  assumes "0 < n"
  shows "concat (map (\<lambda>p. take n (drop ((p - 1) * n) xs)) [1..<Suc k]) = take (k * n) xs"
proof (induction k)
  case (Suc k)
  have "[1..<Suc (Suc k)] = [1..<Suc k] @ [Suc k]" by simp
  then have "concat (map (\<lambda>p. take n (drop ((p - 1) * n) xs)) [1..<Suc (Suc k)]) = take (k * n) xs @ take n (drop (k * n) xs)"
    using Suc by (simp del: upt_Suc)
  also have "\<dots> = take (Suc k * n) xs" by (simp add: take_add [symmetric] add.commute)
  finally show ?case .
qed simp

lemma enough_pages: "0 < n \<Longrightarrow> length xs \<le> ((length xs + n - 1) div n) * n"
proof -
  assume "0 < n"
  then have "length xs + n - 1 < ((length xs + n - 1) div n + 1) * n"
    by (metis Suc_eq_plus1 dividend_less_div_times mult.commute mult_Suc add.commute)
  then show ?thesis using \<open>0 < n\<close> by (simp add: algebra_simps)
qed

subsection \<open>Properties\<close>

definition shows_text :: "string \<Rightarrow> string \<Rightarrow> dict \<Rightarrow> bool" where
  "shows_text q k r = (case jget r k of JStr s \<Rightarrow> contains_sub (py_lower s) (py_lower q) | _ \<Rightarrow> False)"

lemma column_like_shows: "column_like (''%'' @ escape_like q @ ''%'') k r = shows_text q k r"
  unfolding column_like_def shows_text_def like_search_pattern ..

text \<open>C33: A search returns the newest of the caller's findings whose title or description contains the stripped
  term, and of the caller's reports whose name does, ignoring case: percent signs, underscores and
  backslashes in the term stand for themselves. Nothing of another owner is returned, at most the
  limit of each, and everything that matches when it fits.\<close>

theorem search_finds_text:
  assumes "search to_iso owner q limit findings reports = Some (fs, rs, n)"
    and "found = filter (\<lambda>r. jget r ''owner_id'' = JStr owner
           \<and> (shows_text (py_strip q) ''title'' r \<or> shows_text (py_strip q) ''description'' r)) findings"
    and "named = filter (\<lambda>r. jget r ''owner_id'' = JStr owner \<and> shows_text (py_strip q) ''name'' r) reports"
  shows "fs = map (project_hit to_iso [''id'', ''task_id'', ''title'', ''category'', ''severity'', ''target''] ''discovered_at'')
           (take limit (rev (sort_key (text_column ''discovered_at'') found)))
     \<and> rs = map (project_hit to_iso [''id'', ''task_id'', ''name'', ''type''] ''generated_at'')
           (take limit (rev (sort_key (text_column ''generated_at'') named)))
     \<and> n = min limit (length found) + min limit (length named) \<and> 1 \<le> limit \<and> limit \<le> 100"
proof -
  have "fs = map (project_hit to_iso [''id'', ''task_id'', ''title'', ''category'', ''severity'', ''target''] ''discovered_at'')
        (newest ''discovered_at'' limit found)
      \<and> rs = map (project_hit to_iso [''id'', ''task_id'', ''name'', ''type''] ''generated_at'') (newest ''generated_at'' limit named)
      \<and> n = length (newest ''discovered_at'' limit found) + length (newest ''generated_at'' limit named) \<and> 1 \<le> limit \<and> limit \<le> 100"
    using assms unfolding search_def Let_def column_like_shows owned_row_of_def by (simp split: if_splits)
  then show ?thesis by (simp add: newest_def min.commute)
qed

theorem search_finds_text_witness:
  "\<exists>fs rs n. search (\<lambda>v. v) ''user:a'' ''50%'' 20
       [[(''owner_id'', JStr ''user:a''), (''id'', JStr ''1''), (''title'', JStr ''load at 50%'')],
        [(''owner_id'', JStr ''user:a''), (''id'', JStr ''2''), (''title'', JStr ''port 5000'')]] [] = Some (fs, rs, n) \<and> n = 1"
proof -
  let ?rows = "[[(''owner_id'', JStr ''user:a''), (''id'', JStr ''1''), (''title'', JStr ''load at 50%'')],
        [(''owner_id'', JStr ''user:a''), (''id'', JStr ''2''), (''title'', JStr ''port 5000'')]]"
  have "filter (\<lambda>r. jget r ''owner_id'' = JStr ''user:a'' \<and> (shows_text (py_strip ''50%'') ''title'' r \<or> shows_text (py_strip ''50%'') ''description'' r)) ?rows
      = [hd ?rows]"
    by code_simp
  moreover obtain fs rs n where s: "search (\<lambda>v. v) ''user:a'' ''50%'' 20 ?rows [] = Some (fs, rs, n)"
    by (simp add: search_def Let_def)
  ultimately show ?thesis using search_finds_text [OF s refl refl] by simp
qed

text \<open>C34: The pages of the task list, read one after the other without a change in between, are exactly the
  caller's tasks that match the filter, newest first, none twice and none left out; no page is
  longer than asked, and the links of a page lead to its neighbours and nowhere else.\<close>

theorem task_pages_complete:
  assumes "1 \<le> per_page" and "per_page \<le> 100" and "filled_in (by_status flt) \<longrightarrow> the (by_status flt) \<in> set task_statuses"
    and "matching = rev (sort_key (text_column ''created_at'') (filter (task_matches owner flt) tasks))"
    and "k = (length matching + per_page - 1) div per_page"
  shows "\<exists>pages. (\<forall>p. 1 \<le> p \<longrightarrow> list_tasks fl owner p per_page flt tasks = Page (pages p))
     \<and> concat (map (\<lambda>p. pg_tasks (pages p)) [1..<Suc k]) = map (present_task fl) matching
     \<and> (\<forall>p. 1 \<le> p \<longrightarrow> length (pg_tasks (pages p)) \<le> per_page \<and> pg_total_items (pages p) = length matching
          \<and> pg_next (pages p) = (if p < k then Some (page_url flt per_page (p + 1)) else None)
          \<and> pg_previous (pages p) = (if 1 < p then Some (page_url flt per_page (p - 1)) else None))"
proof (intro exI conjI)
  let ?pages = "\<lambda>p. \<lparr>pg_tasks = map (present_task fl) (take per_page (drop ((p - 1) * per_page) matching)),
                 pg_total_pages = k, pg_total_items = length matching,
                 pg_next = (if p < k then Some (page_url flt per_page (p + 1)) else None),
                 pg_previous = (if p > 1 then Some (page_url flt per_page (p - 1)) else None)\<rparr>"
  show "\<forall>p. 1 \<le> p \<longrightarrow> list_tasks fl owner p per_page flt tasks = Page (?pages p)"
    using assms by (auto simp: list_tasks_def Let_def)
  have "concat (map (\<lambda>p. pg_tasks (?pages p)) [1..<Suc k])
      = map (present_task fl) (concat (map (\<lambda>p. take per_page (drop ((p - 1) * per_page) matching)) [1..<Suc k]))"
    by (simp add: map_concat comp_def del: upt_Suc)
  also have "\<dots> = map (present_task fl) matching"
    using assms(1,5) concat_pages [of per_page matching k] enough_pages [of per_page matching] by simp
  finally show "concat (map (\<lambda>p. pg_tasks (?pages p)) [1..<Suc k]) = map (present_task fl) matching" .
  show "\<forall>p. 1 \<le> p \<longrightarrow> length (pg_tasks (?pages p)) \<le> per_page \<and> pg_total_items (?pages p) = length matching
          \<and> pg_next (?pages p) = (if p < k then Some (page_url flt per_page (p + 1)) else None)
          \<and> pg_previous (?pages p) = (if 1 < p then Some (page_url flt per_page (p - 1)) else None)"
    by simp
qed

theorem task_pages_complete_witness:
  "\<forall>fl. let flt = \<lparr>by_plugin = None, by_status = Some ''queued''\<rparr>;
           tasks = map (\<lambda>i. [(''id'', JStr i), (''owner_id'', JStr ''user:a''), (''status'', JStr ''queued''), (''created_at'', JStr i)]) [''1'', ''2'', ''3'']
       in \<exists>g. list_tasks fl ''user:a'' 2 2 flt tasks = Page g \<and> pg_total_items g = 3 \<and> pg_next g = None
            \<and> pg_previous g = Some ''/api/v1/tasks?page=1&per_page=2&status=queued''"
proof
  fix fl
  let ?flt = "\<lparr>by_plugin = None, by_status = Some ''queued''\<rparr>"
  let ?tasks = "map (\<lambda>i. [(''id'', JStr i), (''owner_id'', JStr ''user:a''), (''status'', JStr ''queued''), (''created_at'', JStr i)]) [''1'', ''2'', ''3'']"
  have s: "filled_in (by_status ?flt) \<longrightarrow> the (by_status ?flt) \<in> set task_statuses" by (simp add: task_statuses_def)
  have three: "length (rev (sort_key (text_column ''created_at'') (filter (task_matches ''user:a'' ?flt) ?tasks))) = 3"
    by (simp add: task_matches_def owned_row_of_def filled_in_def jget_def)
  obtain pages where p: "list_tasks fl ''user:a'' 2 2 ?flt ?tasks = Page (pages 2)" "pg_total_items (pages 2) = 3"
      "pg_next (pages 2) = None" "pg_previous (pages 2) = Some (page_url ?flt 2 1)"
    using task_pages_complete [where flt = ?flt and per_page = 2 and owner = "''user:a''" and tasks = ?tasks and fl = fl, OF _ _ s refl refl]
    unfolding three by auto
  have "page_url ?flt 2 1 = ''/api/v1/tasks?page=1&per_page=2&status=queued''" by code_simp
  then show "let flt = ?flt; tasks = ?tasks in \<exists>g. list_tasks fl ''user:a'' 2 2 flt tasks = Page g \<and> pg_total_items g = 3 \<and> pg_next g = None
            \<and> pg_previous g = Some ''/api/v1/tasks?page=1&per_page=2&status=queued''"
    using p unfolding Let_def by auto
qed

end
