(* ===== verification/Task_Deletion.thy ===== *)
theory Task_Deletion
  imports Task_Queries Db_Transactions Response_Cache
begin

text \<open>
  The deletion of tasks: \<open>delete_task_records\<close>, \<open>delete_task\<close>, \<open>bulk_delete_tasks\<close> and
  \<open>clear_all_tasks\<close> of \<open>backend/secuscan/routes.py\<close>, over the tables that refer to tasks, the
  transaction of \<open>Db_Transactions\<close>, the raw output files, the registry of the executor and the view
  cache. The driver may fail, or the handler be cancelled, before any statement of the transaction;
  the operating system may refuse to remove a file. \<open>PRAGMA foreign_keys\<close> is on, so the
  \<open>ON DELETE\<close> clauses of the schema (\<open>database.py\<close>) are part of the statements.
\<close>

subsection \<open>Tables\<close>

record scan_db =
  d_tasks :: "dict list"
  d_findings :: "dict list"
  d_reports :: "dict list"
  d_audit :: "dict list"
  d_crawls :: "dict list"
  d_services :: "dict list"
  d_history :: "dict list" \<comment> \<open>\<open>notification_history\<close>\<close>

text \<open>\<open>column IN (ids)\<close>\<close>

definition has_key :: "string \<Rightarrow> string list \<Rightarrow> dict \<Rightarrow> bool" where
  "has_key k ids r = (jget r k \<in> JStr ` set ids)"

definition has_value :: "string \<Rightarrow> json set \<Rightarrow> dict \<Rightarrow> bool" where
  "has_value k vs r = (jget r k \<in> vs \<and> jget r k \<noteq> JNull)"

definition ids_where :: "(dict \<Rightarrow> bool) \<Rightarrow> dict list \<Rightarrow> json set" where
  "ids_where P rows = set (map (\<lambda>r. jget r ''id'') (filter P rows))"

text \<open>\<open>DELETE FROM findings\<close> cascades to \<open>notification_history\<close>; \<open>DELETE FROM tasks\<close> sets the reference of
  findings and reports to null and cascades to crawl runs and services.\<close>

definition delete_findings :: "(dict \<Rightarrow> bool) \<Rightarrow> scan_db \<Rightarrow> scan_db" where
  "delete_findings P d =
     d\<lparr>d_findings := sql_delete P (d_findings d),
       d_history := sql_delete (has_value ''finding_id'' (ids_where P (d_findings d))) (d_history d)\<rparr>"

definition unlink_task :: "json set \<Rightarrow> dict list \<Rightarrow> dict list" where
  "unlink_task gone rows = sql_update (has_value ''task_id'' gone) (aput ''task_id'' JNull) rows"

definition delete_tasks :: "(dict \<Rightarrow> bool) \<Rightarrow> scan_db \<Rightarrow> scan_db" where
  "delete_tasks P d =
     (let gone = ids_where P (d_tasks d)
      in d\<lparr>d_tasks := sql_delete P (d_tasks d),
           d_findings := unlink_task gone (d_findings d), d_reports := unlink_task gone (d_reports d),
           d_crawls := sql_delete (has_value ''task_id'' gone) (d_crawls d),
           d_services := sql_delete (has_value ''task_id'' gone) (d_services d)\<rparr>)"

subsection \<open>delete_task_records\<close>

definition SQLITE_CHUNK_SIZE :: nat where
  "SQLITE_CHUNK_SIZE = 500"

text \<open>\<open>for i in range(0, len(ids), SQLITE_CHUNK_SIZE): chunk = ids[i : i + SQLITE_CHUNK_SIZE]\<close>\<close>

definition chunks :: "'a list \<Rightarrow> 'a list list" where
  "chunks ids = map (\<lambda>i. take SQLITE_CHUNK_SIZE (drop (i * SQLITE_CHUNK_SIZE) ids))
     [0..<(length ids + SQLITE_CHUNK_SIZE - 1) div SQLITE_CHUNK_SIZE]"

definition chunk_statements :: "string list \<Rightarrow> (scan_db \<Rightarrow> scan_db) list" where
  "chunk_statements chunk =
     [\<lambda>d. d\<lparr>d_history := sql_delete (has_value ''finding_id'' (ids_where (has_key ''task_id'' chunk) (d_findings d))) (d_history d)\<rparr>,
      delete_findings (has_key ''task_id'' chunk),
      \<lambda>d. d\<lparr>d_reports := sql_delete (has_key ''task_id'' chunk) (d_reports d)\<rparr>,
      \<lambda>d. d\<lparr>d_audit := sql_delete (has_key ''task_id'' chunk) (d_audit d)\<rparr>,
      \<lambda>d. d\<lparr>d_crawls := sql_delete (has_key ''task_id'' chunk) (d_crawls d)\<rparr>,
      \<lambda>d. d\<lparr>d_services := sql_delete (has_key ''task_id'' chunk) (d_services d)\<rparr>,
      delete_tasks (has_key ''id'' chunk)]"

definition running_row :: "dict \<Rightarrow> bool" where
  "running_row r = (jget r ''status'' = JStr ''running'')"

text \<open>What the transaction does on the contents it sees; a fault strikes before its \<open>k\<close>-th statement.\<close>

datatype fault = No_Fault | Fails nat | Cancels nat

definition any_running :: "string list \<Rightarrow> scan_db \<Rightarrow> bool" where
  "any_running ids d = list_ex (\<lambda>chunk. list_ex (\<lambda>r. has_key ''id'' chunk r \<and> running_row r) (d_tasks d)) (chunks ids)"

definition deletion_block :: "fault \<Rightarrow> string list \<Rightarrow> scan_db \<Rightarrow> scan_db stmt list" where
  "deletion_block fault ids d =
     (let writes = concat (map chunk_statements (chunks ids))
      in if any_running ids d then [Throw]
         else (case fault of
             No_Fault \<Rightarrow> map Write writes
           | Fails k \<Rightarrow> if k < length writes then map Write (take k writes) @ [Throw] else map Write writes
           | Cancels k \<Rightarrow> if k < length writes then map Write (take k writes) @ [Interrupt] else map Write writes))"

record deletion_env =
  e_fault :: fault
  e_removable :: "string \<Rightarrow> bool" \<comment> \<open>\<open>unlink\<close> succeeds\<close>

record 'v deletion_world =
  w_conn :: "scan_db conn"
  w_files :: "string list" \<comment> \<open>raw output files on disk\<close>
  w_running :: "string list" \<comment> \<open>\<open>executor.running_tasks\<close>\<close>
  w_cache :: "'v cache option"

definition remove_files :: "(string \<Rightarrow> bool) \<Rightarrow> dict list \<Rightarrow> string list \<Rightarrow> string list" where
  "remove_files removable rows files =
     filter (\<lambda>f. \<not> (f \<noteq> [] \<and> removable f \<and> list_ex (\<lambda>r. jget r ''raw_output_path'' = JStr f) rows)) files"

datatype deletion_outcome = Records_Deleted | Tasks_Running | Deletion_Failed | Deletion_Cancelled

definition delete_task_records :: "deletion_env \<Rightarrow> string list \<Rightarrow> 'v deletion_world \<Rightarrow> deletion_outcome \<times> 'v deletion_world" where
  "delete_task_records e ids w =
     (if ids = [] then (Records_Deleted, w)
      else
        let d = working (w_conn w);
            all_task_rows = concat (map (\<lambda>chunk. filter (has_key ''id'' chunk) (d_tasks d)) (chunks ids))
        in case perform [Block (deletion_block (e_fault e) ids d)] (w_conn w) of
             (Done, c) \<Rightarrow> (Records_Deleted, w\<lparr>w_conn := c, w_files := remove_files (e_removable e) all_task_rows (w_files w)\<rparr>)
           | (Raised, c) \<Rightarrow> (if any_running ids d then Tasks_Running else Deletion_Failed, w\<lparr>w_conn := c\<rparr>)
           | (Cancelled, c) \<Rightarrow> (Deletion_Cancelled, w\<lparr>w_conn := c\<rparr>))"

subsection \<open>The handlers\<close>

datatype deletion_reply = Task_Deleted string | Bulk_Deleted nat | History_Cleared | Deletion_Refused nat | Handler_Failed | Handler_Cancelled

definition after_records ::
  "deletion_reply \<Rightarrow> deletion_outcome \<times> 'v deletion_world \<Rightarrow> deletion_reply \<times> 'v deletion_world" where
  "after_records answer r =
     (case r of
        (Records_Deleted, w) \<Rightarrow> (answer, w\<lparr>w_cache := invalidate_view_cache (w_cache w)\<rparr>)
      | (Tasks_Running, w) \<Rightarrow> (Deletion_Refused 400, w)
      | (Deletion_Failed, w) \<Rightarrow> (Handler_Failed, w)
      | (Deletion_Cancelled, w) \<Rightarrow> (Handler_Cancelled, w))"

definition task_row_of :: "string \<Rightarrow> scan_db \<Rightarrow> dict option" where
  "task_row_of tid d = find (\<lambda>r. jget r ''id'' = JStr tid) (d_tasks d)"

definition delete_one_task :: "deletion_env \<Rightarrow> string \<Rightarrow> string \<Rightarrow> 'v deletion_world \<Rightarrow> deletion_reply \<times> 'v deletion_world" where
  "delete_one_task e owner tid w =
     (let existing = task_row_of tid (working (w_conn w))
      in if (case existing of None \<Rightarrow> False | Some r \<Rightarrow> jget r ''owner_id'' \<noteq> JStr owner) then (Deletion_Refused 403, w)
         else if (case existing of None \<Rightarrow> False | Some r \<Rightarrow> running_row r) then (Deletion_Refused 400, w)
         else if tid \<in> set (w_running w) then (Deletion_Refused 400, w)
         else after_records (Task_Deleted tid) (delete_task_records e [tid] w))"

text \<open>The identifiers of rows; the column is a TEXT primary key.\<close>

definition row_ids :: "dict list \<Rightarrow> string list" where
  "row_ids rows = concat (map (\<lambda>r. case jget r ''id'' of JStr i \<Rightarrow> [i] | _ \<Rightarrow> []) rows)"

definition MAX_BULK_DELETE :: nat where
  "MAX_BULK_DELETE = 500"

definition bulk_delete_tasks ::
  "deletion_env \<Rightarrow> string \<Rightarrow> string list \<Rightarrow> 'v deletion_world \<Rightarrow> deletion_reply \<times> 'v deletion_world" where
  "bulk_delete_tasks e owner task_ids w =
     (if length task_ids > MAX_BULK_DELETE then (Deletion_Refused 422, w)
      else if task_ids = [] then (Bulk_Deleted 0, w)
      else
        let d = working (w_conn w);
            owned_ids = row_ids (filter (\<lambda>r. has_key ''id'' task_ids r \<and> owned_row_of owner r) (d_tasks d))
        in if owned_ids = [] then (Bulk_Deleted 0, w)
           else if list_ex (\<lambda>r. has_key ''id'' owned_ids r \<and> running_row r) (d_tasks d) then (Deletion_Refused 400, w)
           else if list_ex (\<lambda>tid. tid \<in> set (w_running w)) owned_ids then (Deletion_Refused 400, w)
           else after_records (Bulk_Deleted (length owned_ids)) (delete_task_records e owned_ids w))"

definition clear_all_tasks :: "deletion_env \<Rightarrow> string \<Rightarrow> 'v deletion_world \<Rightarrow> deletion_reply \<times> 'v deletion_world" where
  "clear_all_tasks e owner w =
     (let d = working (w_conn w)
      in if list_ex (\<lambda>r. owned_row_of owner r \<and> running_row r) (d_tasks d) then (Deletion_Refused 400, w)
         else
           after_records History_Cleared
             (case delete_task_records e (row_ids (filter (owned_row_of owner) (d_tasks d))) w of
                (Records_Deleted, w') \<Rightarrow>
                  (Records_Deleted, w'\<lparr>w_conn := execute (delete_findings (owned_row_of owner)) (w_conn w')\<rparr>)
              | r \<Rightarrow> r))"

subsection \<open>Deletion in one pass\<close>

definition without_tasks :: "string list \<Rightarrow> scan_db \<Rightarrow> scan_db" where
  "without_tasks ids d =
     d\<lparr>d_tasks := sql_delete (has_key ''id'' ids) (d_tasks d),
       d_findings := sql_delete (has_key ''task_id'' ids) (d_findings d),
       d_reports := sql_delete (has_key ''task_id'' ids) (d_reports d),
       d_audit := sql_delete (has_key ''task_id'' ids) (d_audit d),
       d_crawls := sql_delete (has_key ''task_id'' ids) (d_crawls d),
       d_services := sql_delete (has_key ''task_id'' ids) (d_services d),
       d_history := sql_delete (has_value ''finding_id'' (ids_where (has_key ''task_id'' ids) (d_findings d))) (d_history d)\<rparr>"

lemma sql_delete_twice: "sql_delete P (sql_delete Q rows) = sql_delete (\<lambda>r. Q r \<or> P r) rows"
  by (simp add: sql_delete_def conj_commute)

lemma sql_delete_none: "(\<And>r. r \<in> set rows \<Longrightarrow> \<not> P r) \<Longrightarrow> sql_delete P rows = rows"
  unfolding sql_delete_def by (rule filter_True) blast

lemma sql_update_none: "(\<And>r. r \<in> set rows \<Longrightarrow> \<not> P r) \<Longrightarrow> sql_update P f rows = rows"
  unfolding sql_update_def by (rule map_idI) simp

lemma sql_delete_cong: "(\<And>r. r \<in> set rows \<Longrightarrow> P r = Q r) \<Longrightarrow> sql_delete P rows = sql_delete Q rows"
  unfolding sql_delete_def by (rule filter_cong) simp_all

lemma has_key_append: "has_key k (xs @ ys) r \<longleftrightarrow> has_key k xs r \<or> has_key k ys r"
  by (auto simp: has_key_def)

lemma has_key_Nil [simp]: "\<not> has_key k [] r"
  by (simp add: has_key_def)

lemma gone_key: "has_value ''task_id'' (ids_where (has_key ''id'' ids) tasks) r \<Longrightarrow> has_key ''task_id'' ids r"
  by (auto simp: has_value_def ids_where_def has_key_def)

lemma chunk_statements_effect: "fold (\<lambda>f. f) (chunk_statements c) d = without_tasks c d"
proof -
  have gone: "sql_delete (has_value ''task_id'' (ids_where (has_key ''id'' c) tasks)) (sql_delete (has_key ''task_id'' c) rows)
      = sql_delete (has_key ''task_id'' c) rows" for tasks rows
    by (rule sql_delete_none) (auto dest: gone_key)
  have kept: "unlink_task (ids_where (has_key ''id'' c) tasks) (sql_delete (has_key ''task_id'' c) rows)
      = sql_delete (has_key ''task_id'' c) rows" for tasks rows
    unfolding unlink_task_def by (rule sql_update_none) (auto dest: gone_key)
  have twice: "sql_delete P (sql_delete P rows) = sql_delete P rows" for P and rows :: "dict list"
    by (simp add: sql_delete_twice)
  show ?thesis
    by (cases d) (simp add: chunk_statements_def delete_findings_def delete_tasks_def without_tasks_def Let_def gone kept twice)
qed

lemma without_tasks_append: "without_tasks ys (without_tasks xs d) = without_tasks (xs @ ys) d"
proof -
  have "ids_where (has_key ''task_id'' xs) fs \<union> ids_where (has_key ''task_id'' ys) (sql_delete (has_key ''task_id'' xs) fs)
      = ids_where (has_key ''task_id'' (xs @ ys)) fs" for fs
    by (auto simp: ids_where_def has_key_append)
  then have "has_value ''finding_id'' (ids_where (has_key ''task_id'' xs) fs) r
        \<or> has_value ''finding_id'' (ids_where (has_key ''task_id'' ys) (sql_delete (has_key ''task_id'' xs) fs)) r
      \<longleftrightarrow> has_value ''finding_id'' (ids_where (has_key ''task_id'' (xs @ ys)) fs) r" for fs r
    unfolding has_value_def by blast
  moreover have "(\<lambda>r. has_key k xs r \<or> has_key k ys r) = has_key k (xs @ ys)" for k
    by (simp add: fun_eq_iff has_key_append)
  ultimately show ?thesis by (simp add: without_tasks_def sql_delete_twice)
qed

lemma without_no_tasks: "without_tasks [] d = d"
  by (simp add: without_tasks_def sql_delete_none has_value_def ids_where_def)

lemma fold_without_tasks: "fold without_tasks cs d = without_tasks (concat cs) d"
  by (induction cs arbitrary: d) (simp_all add: without_no_tasks without_tasks_append)

lemma concat_chunks: "concat (chunks ids) = ids"
proof -
  let ?n = "SQLITE_CHUNK_SIZE" and ?k = "(length ids + SQLITE_CHUNK_SIZE - 1) div SQLITE_CHUNK_SIZE"
  have n: "0 < ?n" by (simp add: SQLITE_CHUNK_SIZE_def)
  have "chunks ids = map (\<lambda>p. take ?n (drop ((p - 1) * ?n) ids)) [1..<Suc ?k]"
    unfolding chunks_def One_nat_def map_Suc_upt [symmetric] map_map by (simp add: comp_def)
  then have "concat (chunks ids) = take (?k * ?n) ids" by (simp only: concat_pages [OF n])
  then show ?thesis using enough_pages [OF n, of ids] by simp
qed

lemma deletion_writes: "fold (\<lambda>f. f) (concat (map chunk_statements (chunks ids))) d = without_tasks ids d"
proof -
  have "fold (\<lambda>f. f) (concat (map chunk_statements cs)) d = fold without_tasks cs d" for cs
    by (induction cs arbitrary: d) (simp_all add: chunk_statements_effect)
  then show ?thesis by (simp add: fold_without_tasks concat_chunks)
qed

lemma set_chunks: "(\<exists>c \<in> set (chunks ids). has_key k c r) \<longleftrightarrow> has_key k ids r"
proof -
  have "(\<exists>c \<in> set cs. has_key k c r) \<longleftrightarrow> has_key k (concat cs) r" for cs
    by (induction cs) (simp_all add: has_key_append)
  then show ?thesis by (simp add: concat_chunks)
qed

lemma any_running_iff: "any_running ids d \<longleftrightarrow> (\<exists>r \<in> set (d_tasks d). has_key ''id'' ids r \<and> running_row r)"
  unfolding any_running_def list_ex_iff using set_chunks [of ids "''id''"] by blast

subsection \<open>Outcomes of the transaction\<close>

lemma effect_writes: "effect (map Write fs @ ss) d = effect ss (fold (\<lambda>f. f) fs d)"
  by (induction fs arbitrary: d) simp_all

lemma effect_only_writes: "effect (map Write fs) d = (Done, fold (\<lambda>f. f) fs d)"
  using effect_writes [of fs "[]"] by simp

lemma perform_block:
  assumes "\<not> in_txn c" and "working c = committed c"
  shows "perform [Block b] c = (case effect b (committed c) of
      (Done, d) \<Rightarrow> (Done, \<lparr>committed = d, working = d, in_txn = False\<rparr>)
    | (Raised, d) \<Rightarrow> (Raised, c)
    | (Cancelled, d) \<Rightarrow> (Cancelled, \<lparr>committed = committed c, working = d, in_txn = True\<rparr>))"
proof -
  let ?c = "begin_txn c"
  have c: "in_txn ?c" "working ?c = committed c" "committed ?c = committed c"
    using assms by (simp_all add: begin_txn_def)
  obtain r c' where p: "perform b ?c = (r, c')" by (cases "perform b ?c")
  have "effect b (committed c) = (r, working c')" and c': "committed c' = committed c" "in_txn c'"
    using perform_inside [OF c(1), of b] p c by (auto simp: prod_eq_iff)
  then show ?thesis
    using p assms by (cases r) (simp_all add: end_block_def commit_txn_def rollback_txn_def)
qed

lemma block_effect:
  "effect (deletion_block flt ids d) d =
     (if any_running ids d then (Raised, d)
      else (let writes = concat (map chunk_statements (chunks ids))
            in case flt of
                 No_Fault \<Rightarrow> (Done, without_tasks ids d)
               | Fails k \<Rightarrow> if k < length writes then (Raised, fold (\<lambda>f. f) (take k writes) d) else (Done, without_tasks ids d)
               | Cancels k \<Rightarrow> if k < length writes then (Cancelled, fold (\<lambda>f. f) (take k writes) d) else (Done, without_tasks ids d)))"
  unfolding deletion_block_def Let_def
  by (cases flt) (simp_all only: effect_writes effect_only_writes deletion_writes fault.case if_distrib [of "\<lambda>b. effect b d"]
      effect.simps refl if_cancel cong: if_cong)

text \<open>What \<open>delete_task_records\<close> does on a connection that is in no transaction.\<close>

definition struck :: "fault \<Rightarrow> string list \<Rightarrow> bool" where
  "struck flt ids = (case flt of No_Fault \<Rightarrow> False
     | Fails k \<Rightarrow> k < length (concat (map chunk_statements (chunks ids)))
     | Cancels k \<Rightarrow> k < length (concat (map chunk_statements (chunks ids))))"

lemma delete_task_records_cases [consumes 4, case_names running deleted failed cancelled]:
  assumes "\<not> in_txn (w_conn w)" and "working (w_conn w) = d" and "committed (w_conn w) = d" and "ids \<noteq> []"
  obtains (running) "any_running ids d" "delete_task_records e ids w = (Tasks_Running, w)"
    | (deleted) "\<not> any_running ids d" "delete_task_records e ids w = (Records_Deleted,
        w\<lparr>w_conn := \<lparr>committed = without_tasks ids d, working = without_tasks ids d, in_txn = False\<rparr>,
          w_files := remove_files (e_removable e) (concat (map (\<lambda>chunk. filter (has_key ''id'' chunk) (d_tasks d)) (chunks ids))) (w_files w)\<rparr>)"
    | (failed) "e_fault e \<noteq> No_Fault" "\<not> any_running ids d" "delete_task_records e ids w = (Deletion_Failed, w)"
    | (cancelled) dirty where "e_fault e \<noteq> No_Fault"
        "delete_task_records e ids w = (Deletion_Cancelled, w\<lparr>w_conn := \<lparr>committed = d, working = dirty, in_txn = True\<rparr>\<rparr>)"
proof -
  have w: "w\<lparr>w_conn := w_conn w\<rparr> = w" by simp
  consider "any_running ids d" | "\<not> any_running ids d" "\<not> struck (e_fault e) ids"
    | k where "\<not> any_running ids d" "struck (e_fault e) ids" "e_fault e = Fails k"
    | k where "\<not> any_running ids d" "struck (e_fault e) ids" "e_fault e = Cancels k"
    by (cases "e_fault e") (auto simp: struck_def)
  then show ?thesis
  proof cases
    case 1
    then have "effect (deletion_block (e_fault e) ids d) d = (Raised, d)" by (simp add: block_effect)
    then show ?thesis using running 1 assms perform_block [of "w_conn w"] w by (simp add: delete_task_records_def Let_def)
  next
    case 2
    then have "effect (deletion_block (e_fault e) ids d) d = (Done, without_tasks ids d)"
      by (cases "e_fault e") (simp_all add: block_effect struck_def)
    then show ?thesis using deleted 2 assms perform_block [of "w_conn w"] by (simp add: delete_task_records_def Let_def)
  next
    case (3 k)
    then obtain x where "effect (deletion_block (e_fault e) ids d) d = (Raised, x)" by (simp add: block_effect struck_def)
    then show ?thesis using failed 3 assms perform_block [of "w_conn w"] w by (simp add: delete_task_records_def Let_def)
  next
    case (4 k)
    then obtain x where "effect (deletion_block (e_fault e) ids d) d = (Cancelled, x)" by (simp add: block_effect struck_def)
    then show ?thesis using cancelled [of x] 4 assms perform_block [of "w_conn w"] by (simp add: delete_task_records_def Let_def)
  qed
qed

lemma removed_files:
  "remove_files rm (concat (map (\<lambda>c. filter (has_key ''id'' c) ts) (chunks ids))) fs
     = filter (\<lambda>f. \<not> (f \<noteq> [] \<and> rm f \<and> (\<exists>r \<in> set ts. has_key ''id'' ids r \<and> jget r ''raw_output_path'' = JStr f))) fs"
proof -
  have "r \<in> set (concat (map (\<lambda>c. filter (has_key ''id'' c) ts) (chunks ids))) \<longleftrightarrow> r \<in> set ts \<and> has_key ''id'' ids r" for r
    using set_chunks [of ids "''id''" r] by auto
  then show ?thesis unfolding remove_files_def list_ex_iff by (intro filter_cong [OF refl]) blast
qed

text \<open>C35: Deleting any number of tasks, in as many chunks as it takes, is deleting them at once: on success no row
  of any table refers to one of them, and every other row is as it was; their output files are gone
  as far as the system lets them be removed, and no other. A task that runs, or a statement that fails
  half-way, leaves every table and file as it was, and so does a cancellation as far as the committed
  tables and the files go. Without a fault it succeeds exactly when none of the tasks runs.\<close>

theorem task_deletion_atomic:
  assumes "\<not> in_txn (w_conn w)" and "working (w_conn w) = d" and "committed (w_conn w) = d" and "ids \<noteq> []"
  shows "case delete_task_records e ids w of
      (Records_Deleted, w') \<Rightarrow>
        w_conn w' = \<lparr>committed = without_tasks ids d, working = without_tasks ids d, in_txn = False\<rparr>
        \<and> w_files w' = filter (\<lambda>f. \<not> (f \<noteq> [] \<and> e_removable e f
             \<and> (\<exists>r \<in> set (d_tasks d). has_key ''id'' ids r \<and> jget r ''raw_output_path'' = JStr f))) (w_files w)
        \<and> (\<forall>r \<in> set (d_tasks d). has_key ''id'' ids r \<longrightarrow> \<not> running_row r)
    | (Tasks_Running, w') \<Rightarrow> w' = w \<and> (\<exists>r \<in> set (d_tasks d). has_key ''id'' ids r \<and> running_row r)
    | (Deletion_Failed, w') \<Rightarrow> w' = w \<and> e_fault e \<noteq> No_Fault
    | (Deletion_Cancelled, w') \<Rightarrow> committed (w_conn w') = d \<and> w_files w' = w_files w \<and> e_fault e \<noteq> No_Fault"
proof -
  show ?thesis
    using assms
  proof (cases rule: delete_task_records_cases [where e = e])
    case running
    show ?thesis using running(1) unfolding running(2) by (simp add: any_running_iff)
  next
    case deleted
    show ?thesis using deleted(1) unfolding deleted(2) by (simp add: any_running_iff removed_files)
  next
    case failed
    show ?thesis using failed(1) unfolding failed(3) by simp
  next
    case (cancelled dirty)
    show ?thesis using cancelled(1) unfolding cancelled(2) by simp
  qed
qed

definition example_scan_db :: scan_db where
  "example_scan_db =
     \<lparr>d_tasks = [[(''id'', JStr ''a''), (''owner_id'', JStr ''user:a''), (''status'', JStr ''completed''), (''raw_output_path'', JStr ''a.txt'')],
                     [(''id'', JStr ''b''), (''owner_id'', JStr ''user:b''), (''status'', JStr ''completed''), (''raw_output_path'', JStr ''b.txt'')]],
           d_findings = [[(''id'', JStr ''f''), (''task_id'', JStr ''a''), (''owner_id'', JStr ''user:a'')],
                     [(''id'', JStr ''g''), (''task_id'', JStr ''b''), (''owner_id'', JStr ''user:b'')]],
           d_reports = [], d_audit = [[(''task_id'', JStr ''a'')]], d_crawls = [], d_services = [],
           d_history = [[(''finding_id'', JStr ''f'')], [(''finding_id'', JStr ''g'')]]\<rparr>"

definition example_scans :: "unit deletion_world" where
  "example_scans = \<lparr>w_conn = \<lparr>committed = example_scan_db, working = example_scan_db, in_txn = False\<rparr>,
     w_files = [''a.txt'', ''b.txt''], w_running = [], w_cache = None\<rparr>"

theorem task_deletion_atomic_witness:
  "\<exists>w'. delete_task_records \<lparr>e_fault = No_Fault, e_removable = \<lambda>f. True\<rparr> [''a''] example_scans = (Records_Deleted, w')
     \<and> w_files w' = [''b.txt''] \<and> d_history (committed (w_conn w')) = [[(''finding_id'', JStr ''g'')]]"
proof -
  let ?e = "\<lparr>e_fault = No_Fault, e_removable = \<lambda>f. True\<rparr>" and ?d = example_scan_db
  have "\<not> (\<exists>r \<in> set (d_tasks ?d). has_key ''id'' [''a''] r \<and> running_row r)"
    by (simp add: example_scan_db_def running_row_def jget_def)
  moreover have "filter (\<lambda>f. \<not> (f \<noteq> [] \<and> (\<exists>r \<in> set (d_tasks ?d). has_key ''id'' [''a''] r \<and> jget r ''raw_output_path'' = JStr f))) (w_files example_scans)
      = [''b.txt'']"
    by (simp add: example_scans_def example_scan_db_def has_key_def jget_def)
  moreover have "d_history (without_tasks [''a''] ?d) = [[(''finding_id'', JStr ''g'')]]"
    by (simp add: example_scan_db_def without_tasks_def sql_delete_def has_value_def ids_where_def has_key_def jget_def)
  moreover have "\<not> in_txn (w_conn example_scans)" "working (w_conn example_scans) = ?d" "committed (w_conn example_scans) = ?d"
    by (simp_all add: example_scans_def)
  ultimately show ?thesis
    using task_deletion_atomic [of example_scans ?d "[''a'']" ?e] by (auto split: prod.splits deletion_outcome.splits)
qed

subsection \<open>Whose rows a deletion touches\<close>

text \<open>What belongs to an owner; audit records have a task, history records a finding.\<close>

definition part_of :: "string \<Rightarrow> scan_db \<Rightarrow> scan_db" where
  "part_of you d =
     \<lparr>d_tasks = filter (owned_row_of you) (d_tasks d), d_findings = filter (owned_row_of you) (d_findings d),
      d_reports = filter (owned_row_of you) (d_reports d),
      d_audit = filter (has_value ''task_id'' (ids_where (owned_row_of you) (d_tasks d))) (d_audit d),
      d_crawls = filter (owned_row_of you) (d_crawls d), d_services = filter (owned_row_of you) (d_services d),
      d_history = filter (has_value ''finding_id'' (ids_where (owned_row_of you) (d_findings d))) (d_history d)\<rparr>"

text \<open>The references hold, a row has the owner of its task, and identifiers are keys.\<close>

definition follows_tasks :: "dict list \<Rightarrow> dict list \<Rightarrow> bool" where
  "follows_tasks tasks rows \<longleftrightarrow> (\<forall>r \<in> set rows. jget r ''task_id'' \<noteq> JNull \<longrightarrow>
     (\<exists>t \<in> set tasks. jget t ''id'' = jget r ''task_id'')
     \<and> (\<forall>t \<in> set tasks. jget t ''id'' = jget r ''task_id'' \<longrightarrow> jget r ''owner_id'' = jget t ''owner_id''))"

definition one_owner :: "string \<Rightarrow> dict list \<Rightarrow> bool" where
  "one_owner k rows \<longleftrightarrow> (\<forall>r \<in> set rows. \<forall>s \<in> set rows. jget r k = jget s k \<and> jget r k \<noteq> JNull \<longrightarrow> jget r ''owner_id'' = jget s ''owner_id'')"

definition owners_agree :: "scan_db \<Rightarrow> bool" where
  "owners_agree d \<longleftrightarrow> follows_tasks (d_tasks d) (d_findings d) \<and> follows_tasks (d_tasks d) (d_reports d)
     \<and> follows_tasks (d_tasks d) (d_crawls d) \<and> follows_tasks (d_tasks d) (d_services d)
     \<and> one_owner ''id'' (d_tasks d) \<and> one_owner ''id'' (d_findings d) \<and> one_owner ''raw_output_path'' (d_tasks d)"

text \<open>No task of these identifiers belongs to somebody else.\<close>

definition may_delete :: "string \<Rightarrow> string list \<Rightarrow> scan_db \<Rightarrow> bool" where
  "may_delete me ids d \<longleftrightarrow> (\<forall>t \<in> set (d_tasks d). has_key ''id'' ids t \<longrightarrow> owned_row_of me t)"

lemma follows_subset: "follows_tasks tasks rows \<Longrightarrow> set rows' \<subseteq> set rows \<Longrightarrow> follows_tasks tasks rows'"
  unfolding follows_tasks_def by blast

lemma jget_after_aput: "jget (aput k v r) k' = (if k' = k then v else jget r k')"
  by (simp add: jget_def map_of_aput)

lemma set_unlink_task:
  "s \<in> set (unlink_task gone rows) \<Longrightarrow> jget s ''task_id'' \<noteq> JNull \<Longrightarrow> s \<in> set rows \<and> \<not> has_value ''task_id'' gone s"
  by (auto simp: unlink_task_def sql_update_def jget_after_aput split: if_splits)

lemma follows_kept:
  assumes "follows_tasks tasks rows"
    and "\<And>r. r \<in> set rows' \<Longrightarrow> jget r ''task_id'' \<noteq> JNull \<Longrightarrow> r \<in> set rows \<and> \<not> has_value ''task_id'' (ids_where P tasks) r"
  shows "follows_tasks (sql_delete P tasks) rows'"
  unfolding follows_tasks_def
proof (intro ballI impI)
  fix r assume r: "r \<in> set rows'" "jget r ''task_id'' \<noteq> JNull"
  then have kept: "r \<in> set rows" "jget r ''task_id'' \<notin> ids_where P tasks" using assms(2) by (auto simp: has_value_def)
  then obtain t where t: "t \<in> set tasks" "jget t ''id'' = jget r ''task_id''"
    and all: "\<forall>t \<in> set tasks. jget t ''id'' = jget r ''task_id'' \<longrightarrow> jget r ''owner_id'' = jget t ''owner_id''"
    using assms(1) r(2) unfolding follows_tasks_def by blast
  have "jget t ''id'' \<in> ids_where P tasks" if "P t" using t(1) that by (simp add: ids_where_def)
  then have "\<not> P t" using kept(2) t(2) by auto
  then show "(\<exists>t \<in> set (sql_delete P tasks). jget t ''id'' = jget r ''task_id'')
      \<and> (\<forall>t \<in> set (sql_delete P tasks). jget t ''id'' = jget r ''task_id'' \<longrightarrow> jget r ''owner_id'' = jget t ''owner_id'')"
  proof (intro conjI)
    show "\<exists>t \<in> set (sql_delete P tasks). jget t ''id'' = jget r ''task_id''"
      using t \<open>\<not> P t\<close> by (intro bexI [of _ t]) simp_all
    show "\<forall>t \<in> set (sql_delete P tasks). jget t ''id'' = jget r ''task_id'' \<longrightarrow> jget r ''owner_id'' = jget t ''owner_id''"
      using all by simp
  qed
qed

lemma one_owner_subset: "one_owner k rows \<Longrightarrow> set rows' \<subseteq> set rows \<Longrightarrow> one_owner k rows'"
  unfolding one_owner_def by blast

text \<open>A row that refers to one of the identifiers is not the row of another owner.\<close>

lemma referring_row:
  assumes "follows_tasks (d_tasks d) rows" and "may_delete me ids d" and "me \<noteq> you" and "r \<in> set rows" and "has_key ''task_id'' ids r"
  shows "\<not> owned_row_of you r"
proof -
  have "jget r ''task_id'' \<noteq> JNull" using assms(5) by (auto simp: has_key_def)
  then obtain t where t: "t \<in> set (d_tasks d)" "jget t ''id'' = jget r ''task_id''" "jget r ''owner_id'' = jget t ''owner_id''"
    using assms(1,4) unfolding follows_tasks_def by blast
  then have "owned_row_of me t" using assms(2,5) by (simp add: may_delete_def has_key_def)
  then show ?thesis using t(3) assms(3) by (simp add: owned_row_of_def)
qed

text \<open>A predicate on the contents that every write keeps.\<close>

fun writes_keep :: "(scan_db \<Rightarrow> bool) \<Rightarrow> scan_db stmt list \<Rightarrow> bool" where
  "writes_keep Q [] = True"
| "writes_keep Q (Write f # ss) = ((\<forall>d. Q d \<longrightarrow> Q (f d)) \<and> writes_keep Q ss)"
| "writes_keep Q (Block b # ss) = (writes_keep Q b \<and> writes_keep Q ss)"
| "writes_keep Q (_ # ss) = writes_keep Q ss"

lemma effect_keeps: "writes_keep Q ss \<Longrightarrow> Q d \<Longrightarrow> Q (snd (effect ss d))"
proof (induction ss d rule: effect.induct)
  case (5 b ss d)
  obtain r d' where e: "effect b d = (r, d')" by (cases "effect b d")
  then show ?case using 5 by (cases r) simp_all
qed simp_all

text \<open>The connection keeps \<open>Q\<close> of what it sees and \<open>P\<close> of what is committed, also while a cancelled
  transaction is still open and nothing is committed any more.\<close>

lemma perform_keeps:
  assumes "writes_keep Q b" and "Q (working c)" and "P (committed c)" and "\<And>d. Q d \<Longrightarrow> P d"
    and "\<not> in_txn c \<longrightarrow> working c = committed c" and "perform [Block b] c = (r, c')"
  shows "Q (working c') \<and> P (committed c') \<and> (\<not> in_txn c' \<longrightarrow> working c' = committed c')"
proof (cases "in_txn c")
  case True
  have c': "working c' = snd (effect [Block b] (working c))" "committed c' = committed c" "in_txn c'"
    using perform_inside [OF True, of "[Block b]"] unfolding assms(6) snd_conv by blast+
  have "Q (snd (effect [Block b] (working c)))" using effect_keeps [of Q "[Block b]" "working c"] assms(1,2) by simp
  then show ?thesis using c' assms(3) by simp
next
  case False
  then have c: "working c = committed c" using assms(5) by simp
  obtain o1 d where e: "effect b (committed c) = (o1, d)" by (cases "effect b (committed c)")
  then have d: "Q d" "P d" using effect_keeps [OF assms(1,2)] c assms(4) [of d] by simp_all
  have "(r, c') = (case (o1, d) of
      (Done, d) \<Rightarrow> (Done, \<lparr>committed = d, working = d, in_txn = False\<rparr>)
    | (Raised, d) \<Rightarrow> (Raised, c)
    | (Cancelled, d) \<Rightarrow> (Cancelled, \<lparr>committed = committed c, working = d, in_txn = True\<rparr>))"
    using perform_block [OF False c, of b] unfolding assms(6) e .
  then show ?thesis using d c assms(2,3) by (cases o1) simp_all
qed

lemma writes_keep_map: "(\<And>f d. f \<in> set fs \<Longrightarrow> Q d \<Longrightarrow> Q (f d)) \<Longrightarrow> writes_keep Q (map Write fs)"
  by (induction fs) simp_all

lemma writes_keep_append: "writes_keep Q (xs @ ys) \<longleftrightarrow> writes_keep Q xs \<and> writes_keep Q ys"
  by (induction Q xs rule: writes_keep.induct) auto

lemma block_keeps:
  assumes "\<And>c f d. c \<in> set (chunks ids) \<Longrightarrow> f \<in> set (chunk_statements c) \<Longrightarrow> Q d \<Longrightarrow> Q (f d)"
  shows "writes_keep Q (deletion_block flt ids d)"
proof -
  have all: "Q (f d)" if "f \<in> set (concat (map chunk_statements (chunks ids)))" "Q d" for f d
    using that assms by auto
  have "writes_keep Q (map Write (concat (map chunk_statements (chunks ids))))"
    by (rule writes_keep_map) (rule all)
  moreover have "writes_keep Q (map Write (take k (concat (map chunk_statements (chunks ids)))))" for k
    by (rule writes_keep_map) (auto dest!: in_set_takeD intro: all)
  ultimately show ?thesis
    unfolding deletion_block_def Let_def by (simp only: writes_keep_append writes_keep.simps split: fault.split if_split) simp
qed

text \<open>Between requests, what the connection sees is committed, or a cancelled transaction is open.\<close>

definition settled :: "'v deletion_world \<Rightarrow> bool" where
  "settled w \<longleftrightarrow> (\<not> in_txn (w_conn w) \<longrightarrow> working (w_conn w) = committed (w_conn w))"

lemma delete_task_records_keeps:
  assumes "\<And>c f d. c \<in> set (chunks ids) \<Longrightarrow> f \<in> set (chunk_statements c) \<Longrightarrow> Q d \<Longrightarrow> Q (f d)" and "\<And>d. Q d \<Longrightarrow> P d"
    and "Q (working (w_conn w))" and "P (committed (w_conn w))" and "settled w" and "delete_task_records e ids w = (out, w')"
  shows "Q (working (w_conn w')) \<and> P (committed (w_conn w')) \<and> settled w'"
proof -
  have "writes_keep Q (deletion_block (e_fault e) ids (working (w_conn w)))"
    using block_keeps [of ids Q] assms(1) by simp
  note keeps = perform_keeps [of Q _ "w_conn w" P, OF this assms(3,4)]
  show ?thesis
  proof (cases "ids = []")
    case True
    then show ?thesis using assms(3-6) by (simp add: delete_task_records_def)
  next
    case False
    obtain r c where r: "perform [Block (deletion_block (e_fault e) ids (working (w_conn w)))] (w_conn w) = (r, c)" by fastforce
    have "w_conn w' = c" using assms(6) False r by (cases r) (auto simp: delete_task_records_def Let_def)
    moreover have "Q (working c) \<and> P (committed c) \<and> (\<not> in_txn c \<longrightarrow> working c = committed c)"
      using keeps [OF _ _ r] assms(2,5) by (simp add: settled_def)
    ultimately show ?thesis by (simp add: settled_def)
  qed
qed

definition undisturbed :: "string \<Rightarrow> string \<Rightarrow> string list \<Rightarrow> scan_db \<Rightarrow> scan_db \<Rightarrow> bool" where
  "undisturbed you me ids p d \<longleftrightarrow> owners_agree d \<and> may_delete me ids d \<and> part_of you d = p"

lemma foreign_rows_kept:
  assumes "follows_tasks (d_tasks d) rows" and "may_delete me ids d" and "me \<noteq> you"
  shows "filter (owned_row_of you) (sql_delete (has_key ''task_id'' ids) rows) = filter (owned_row_of you) rows"
    and "filter (has_value k (ids_where (owned_row_of you) (sql_delete (has_key ''task_id'' ids) rows))) xs
       = filter (has_value k (ids_where (owned_row_of you) rows)) xs"
proof -
  have *: "\<not> owned_row_of you r" if "r \<in> set rows" "has_key ''task_id'' ids r" for r
    using referring_row [OF assms that] .
  then show "filter (owned_row_of you) (sql_delete (has_key ''task_id'' ids) rows) = filter (owned_row_of you) rows"
    unfolding sql_delete_def filter_filter by (intro filter_cong) auto
  then show "filter (has_value k (ids_where (owned_row_of you) (sql_delete (has_key ''task_id'' ids) rows))) xs
       = filter (has_value k (ids_where (owned_row_of you) rows)) xs"
    by (simp add: ids_where_def)
qed

text \<open>The history of another owner's findings has none of the removed findings.\<close>

lemma foreign_history_kept:
  assumes "one_owner ''id'' fs" and "\<And>f. f \<in> set fs \<Longrightarrow> P f \<Longrightarrow> \<not> owned_row_of you f"
  shows "filter (has_value k (ids_where (owned_row_of you) fs)) (sql_delete (has_value k (ids_where P fs)) xs)
       = filter (has_value k (ids_where (owned_row_of you) fs)) xs"
proof (rule filter_sql_delete_foreign)
  fix r assume r: "has_value k (ids_where P fs) r"
  show "\<not> has_value k (ids_where (owned_row_of you) fs) r"
  proof
    assume "has_value k (ids_where (owned_row_of you) fs) r"
    with r obtain f g where fg: "f \<in> set fs" "g \<in> set fs" "P f" "owned_row_of you g" "jget f ''id'' = jget g ''id''" "jget f ''id'' \<noteq> JNull"
      by (auto simp: has_value_def ids_where_def)
    then have "jget f ''owner_id'' = jget g ''owner_id''" using assms(1) unfolding one_owner_def by blast
    then show False using assms(2) fg by (simp add: owned_row_of_def)
  qed
qed

text \<open>Nor do the audit records of another owner's tasks refer to a deletable task.\<close>

lemma foreign_audit_kept:
  assumes "may_delete me ids d" and "me \<noteq> you"
  shows "filter (has_value ''task_id'' (ids_where (owned_row_of you) (d_tasks d))) (sql_delete (has_key ''task_id'' ids) xs)
       = filter (has_value ''task_id'' (ids_where (owned_row_of you) (d_tasks d))) xs"
  using assms
  by (intro filter_sql_delete_foreign) (auto simp: has_value_def ids_where_def has_key_def may_delete_def owned_row_of_def)

lemma foreign_tasks_kept:
  assumes "may_delete me ids d" and "me \<noteq> you"
  shows "filter (owned_row_of you) (sql_delete (has_key ''id'' ids) (d_tasks d)) = filter (owned_row_of you) (d_tasks d)"
  using assms unfolding sql_delete_def filter_filter by (intro filter_cong) (auto simp: may_delete_def owned_row_of_def)

lemma unlink_foreign:
  assumes "follows_tasks (d_tasks d) rows" and "may_delete me ids d" and "me \<noteq> you"
  shows "filter (owned_row_of you) (unlink_task (ids_where (has_key ''id'' ids) (d_tasks d)) rows) = filter (owned_row_of you) rows"
proof -
  have "\<not> owned_row_of you r" if "r \<in> set rows" "has_value ''task_id'' (ids_where (has_key ''id'' ids) (d_tasks d)) r" for r
    using referring_row [OF assms that(1)] gone_key [OF that(2)] by blast
  then have "filter (owned_row_of you) (sql_update (has_value ''task_id'' gone) (aput ''task_id'' JNull) rs) = filter (owned_row_of you) rs"
    if "set rs \<subseteq> set rows" "gone = ids_where (has_key ''id'' ids) (d_tasks d)" for rs gone
    using that by (induction rs) (auto simp: sql_update_def owned_row_of_def jget_after_aput)
  then show ?thesis by (simp add: unlink_task_def)
qed

lemma cascade_foreign:
  assumes "follows_tasks (d_tasks d) rows" and "may_delete me ids d" and "me \<noteq> you"
  shows "filter (owned_row_of you) (sql_delete (has_value ''task_id'' (ids_where (has_key ''id'' ids) (d_tasks d))) rows)
       = filter (owned_row_of you) rows"
proof -
  have "\<not> owned_row_of you r" if "r \<in> set rows" "has_value ''task_id'' (ids_where (has_key ''id'' ids) (d_tasks d)) r" for r
    using referring_row [OF assms that(1)] gone_key [OF that(2)] by blast
  then show ?thesis unfolding sql_delete_def filter_filter by (intro filter_cong) auto
qed

lemma ids_where_cong: "filter P xs = filter P ys \<Longrightarrow> ids_where P xs = ids_where P ys"
  by (simp add: ids_where_def)

lemma undisturbed_history:
  assumes "undisturbed you me ids p d" and "me \<noteq> you"
  shows "undisturbed you me ids p
    (d\<lparr>d_history := sql_delete (has_value ''finding_id'' (ids_where (has_key ''task_id'' ids) (d_findings d))) (d_history d)\<rparr>)"
proof -
  have d: "owners_agree d" "may_delete me ids d" "part_of you d = p" using assms(1) by (simp_all add: undisturbed_def)
  have "filter (has_value k (ids_where (owned_row_of you) (d_findings d)))
        (sql_delete (has_value k (ids_where (has_key ''task_id'' ids) (d_findings d))) xs)
      = filter (has_value k (ids_where (owned_row_of you) (d_findings d))) xs" for k xs
    using d by (intro foreign_history_kept) (auto simp: owners_agree_def dest: referring_row [OF _ d(2) assms(2)])
  then show ?thesis using d by (simp add: undisturbed_def owners_agree_def may_delete_def part_of_def)
qed

lemma undisturbed_findings:
  assumes "undisturbed you me ids p d" and "\<And>f. f \<in> set (d_findings d) \<Longrightarrow> P f \<Longrightarrow> \<not> owned_row_of you f"
  shows "undisturbed you me ids p (delete_findings P d)"
proof -
  have d: "owners_agree d" "may_delete me ids d" "part_of you d = p" using assms(1) by (simp_all add: undisturbed_def)
  have fs: "filter (owned_row_of you) (sql_delete P (d_findings d)) = filter (owned_row_of you) (d_findings d)"
    using assms(2) unfolding sql_delete_def filter_filter by (intro filter_cong) auto
  have "part_of you (delete_findings P d) = part_of you d"
    using foreign_history_kept [OF _ assms(2)] d(1)
    by (simp add: part_of_def delete_findings_def fs ids_where_cong [OF fs] owners_agree_def)
  moreover have "owners_agree (delete_findings P d)"
    using d(1) by (auto simp: owners_agree_def delete_findings_def elim: follows_subset one_owner_subset)
  ultimately show ?thesis using d by (simp add: undisturbed_def may_delete_def delete_findings_def)
qed

lemma undisturbed_tasks:
  assumes "undisturbed you me ids p d" and "me \<noteq> you"
  shows "undisturbed you me ids p (delete_tasks (has_key ''id'' ids) d)"
proof -
  have d: "owners_agree d" "may_delete me ids d" "part_of you d = p" using assms(1) by (simp_all add: undisturbed_def)
  note ts = foreign_tasks_kept [OF d(2) assms(2)]
  have rows: "follows_tasks (d_tasks d) (d_findings d)" "follows_tasks (d_tasks d) (d_reports d)"
      "follows_tasks (d_tasks d) (d_crawls d)" "follows_tasks (d_tasks d) (d_services d)"
    using d(1) by (simp_all add: owners_agree_def)
  note fs = unlink_foreign [OF rows(1) d(2) assms(2)]
  have part: "part_of you (delete_tasks (has_key ''id'' ids) d) = part_of you d"
    by (simp add: part_of_def delete_tasks_def Let_def ts ids_where_cong [OF ts] fs ids_where_cong [OF fs]
        unlink_foreign [OF rows(2) d(2) assms(2)] cascade_foreign [OF rows(3) d(2) assms(2)] cascade_foreign [OF rows(4) d(2) assms(2)])
  have same: "jget (if P then aput ''task_id'' JNull r else r) k = jget r k" if "k \<noteq> ''task_id''" for P r k
    using that by (simp add: jget_after_aput)
  have "one_owner ''id'' (d_findings d)" using d(1) by (simp add: owners_agree_def)
  then have keys: "one_owner ''id'' (unlink_task gone (d_findings d))" for gone
    unfolding one_owner_def unlink_task_def sql_update_def set_map ball_simps by (simp add: same)
  have tasks: "one_owner k (sql_delete P (d_tasks d))" if "one_owner k (d_tasks d)" for k P
    using that by (rule one_owner_subset) auto
  let ?gone = "ids_where (has_key ''id'' ids) (d_tasks d)"
  have linked: "follows_tasks (sql_delete (has_key ''id'' ids) (d_tasks d)) (unlink_task ?gone rs)"
      "follows_tasks (sql_delete (has_key ''id'' ids) (d_tasks d)) (sql_delete (has_value ''task_id'' ?gone) rs)"
    if "follows_tasks (d_tasks d) rs" for rs
    by (rule follows_kept [OF that], blast dest: set_unlink_task) (rule follows_kept [OF that], simp)
  have "owners_agree (delete_tasks (has_key ''id'' ids) d)"
    using d(1) unfolding owners_agree_def delete_tasks_def Let_def by (simp add: linked keys tasks)
  moreover have "may_delete me ids (delete_tasks (has_key ''id'' ids) d)"
    using d(2) by (auto simp: may_delete_def delete_tasks_def Let_def)
  ultimately show ?thesis using d part by (simp add: undisturbed_def)
qed

lemma undisturbed_statement:
  assumes "f \<in> set (chunk_statements ids)" and "undisturbed you me ids p d" and "me \<noteq> you"
  shows "undisturbed you me ids p (f d) \<and> set (d_tasks (f d)) \<subseteq> set (d_tasks d)"
proof -
  have d: "owners_agree d" "may_delete me ids d" "part_of you d = p" using assms(2) by (simp_all add: undisturbed_def)
  have rows: "follows_tasks (d_tasks d) (d_findings d)" "follows_tasks (d_tasks d) (d_reports d)"
      "follows_tasks (d_tasks d) (d_crawls d)" "follows_tasks (d_tasks d) (d_services d)"
    using d(1) by (simp_all add: owners_agree_def)
  have less: "follows_tasks (d_tasks d) (sql_delete P rs)" if "follows_tasks (d_tasks d) rs" for rs P
    using that by (rule follows_subset) auto
  note keep = foreign_rows_kept(1) [OF _ d(2) assms(3)] and audit = foreign_audit_kept [OF d(2) assms(3)]
  note defs = undisturbed_def owners_agree_def may_delete_def part_of_def
  from assms(1) consider
      (history) "f = (\<lambda>d. d\<lparr>d_history := sql_delete (has_value ''finding_id'' (ids_where (has_key ''task_id'' ids) (d_findings d))) (d_history d)\<rparr>)"
    | (findings) "f = delete_findings (has_key ''task_id'' ids)"
    | (reports) "f = (\<lambda>d. d\<lparr>d_reports := sql_delete (has_key ''task_id'' ids) (d_reports d)\<rparr>)"
    | (audit) "f = (\<lambda>d. d\<lparr>d_audit := sql_delete (has_key ''task_id'' ids) (d_audit d)\<rparr>)"
    | (crawls) "f = (\<lambda>d. d\<lparr>d_crawls := sql_delete (has_key ''task_id'' ids) (d_crawls d)\<rparr>)"
    | (services) "f = (\<lambda>d. d\<lparr>d_services := sql_delete (has_key ''task_id'' ids) (d_services d)\<rparr>)"
    | (tasks) "f = delete_tasks (has_key ''id'' ids)"
    by (auto simp: chunk_statements_def)
  then show ?thesis
  proof cases
    case history
    then show ?thesis using undisturbed_history [OF assms(2,3)] by simp
  next
    case findings
    then show ?thesis
      using undisturbed_findings [OF assms(2)] referring_row [OF rows(1) d(2) assms(3)] by (simp add: delete_findings_def)
  next
    case reports
    then show ?thesis using d keep [OF rows(2)] less [OF rows(2)] by (simp add: defs)
  next
    case audit
    then show ?thesis using d foreign_audit_kept [OF d(2) assms(3)] by (simp add: defs)
  next
    case crawls
    then show ?thesis using d keep [OF rows(3)] less [OF rows(3)] by (simp add: defs)
  next
    case services
    then show ?thesis using d keep [OF rows(4)] less [OF rows(4)] by (simp add: defs)
  next
    case tasks
    then show ?thesis using undisturbed_tasks [OF assms(2,3)] by (simp add: delete_tasks_def Let_def)
  qed
qed

definition safe_for :: "string \<Rightarrow> scan_db \<Rightarrow> scan_db \<Rightarrow> bool" where
  "safe_for you p d \<longleftrightarrow> owners_agree d \<and> part_of you d = p"

lemma undisturbed_records:
  assumes "undisturbed you me ids p (working (w_conn w))" and "safe_for you p (committed (w_conn w))" and "settled w"
    and "me \<noteq> you" and "delete_task_records e ids w = (out, w')"
  shows "undisturbed you me ids p (working (w_conn w')) \<and> safe_for you p (committed (w_conn w')) \<and> settled w'"
proof (rule delete_task_records_keeps [where Q = "undisturbed you me ids p" and P = "safe_for you p", OF _ _ assms(1,2,3,5)])
  fix c f d assume c: "c \<in> set (chunks ids)" "f \<in> set (chunk_statements c)" and d: "undisturbed you me ids p d"
  have "set c \<subseteq> set ids" using c(1) concat_chunks [of ids] by (metis UN_upper set_concat)
  then have "undisturbed you me c p d" using d by (auto simp: undisturbed_def may_delete_def has_key_def)
  from undisturbed_statement [OF c(2) this assms(4)] show "undisturbed you me ids p (f d)"
    using d by (auto simp: undisturbed_def may_delete_def)
qed (simp add: undisturbed_def safe_for_def)

subsection \<open>Histories of deletions\<close>

datatype deletion_request = Delete_Task string | Delete_Bulk "string list" | Clear_All

fun handle_deletion :: "deletion_env \<Rightarrow> string \<Rightarrow> deletion_request \<Rightarrow> 'v deletion_world \<Rightarrow> deletion_reply \<times> 'v deletion_world" where
  "handle_deletion e owner (Delete_Task tid) w = delete_one_task e owner tid w"
| "handle_deletion e owner (Delete_Bulk ids) w = bulk_delete_tasks e owner ids w"
| "handle_deletion e owner Clear_All w = clear_all_tasks e owner w"

definition run_deletions :: "(deletion_env \<times> string \<times> deletion_request) list \<Rightarrow> 'v deletion_world \<Rightarrow> 'v deletion_world" where
  "run_deletions reqs w = fold (\<lambda>(e, owner, q) w. snd (handle_deletion e owner q w)) reqs w"

text \<open>The tables of an owner are \<open>p\<close>, seen and committed, and the files of his tasks among \<open>fs\<close> are there.\<close>

definition kept_part :: "string \<Rightarrow> scan_db \<Rightarrow> string list \<Rightarrow> 'v deletion_world \<Rightarrow> bool" where
  "kept_part you p fs w \<longleftrightarrow> safe_for you p (working (w_conn w)) \<and> safe_for you p (committed (w_conn w)) \<and> settled w
     \<and> (\<forall>f \<in> set fs. (\<exists>t \<in> set (d_tasks p). jget t ''raw_output_path'' = JStr f) \<longrightarrow> f \<in> set (w_files w))"

lemma records_keep_part:
  assumes "kept_part you p fs w" and "may_delete me ids (working (w_conn w))" and "me \<noteq> you"
    and "delete_task_records e ids w = (out, w')"
  shows "kept_part you p fs w'"
proof -
  let ?d = "working (w_conn w)"
  have w: "safe_for you p ?d" "safe_for you p (committed (w_conn w))" "settled w" using assms(1) by (simp_all add: kept_part_def)
  have d: "undisturbed you me ids p ?d" using w(1) assms(2) by (simp add: undisturbed_def safe_for_def)
  from undisturbed_records [OF d w(2,3) assms(3,4)]
  have conn: "safe_for you p (working (w_conn w'))" "safe_for you p (committed (w_conn w'))" "settled w'"
    by (simp_all add: undisturbed_def safe_for_def)
  have "f \<in> set (w_files w')" if f: "f \<in> set (w_files w)" and t: "t \<in> set (d_tasks p)" "jget t ''raw_output_path'' = JStr f" for f t
  proof -
    have own: "t \<in> set (d_tasks ?d)" "owned_row_of you t" using t(1) w(1) by (auto simp: safe_for_def part_of_def)
    have "jget r ''raw_output_path'' \<noteq> JStr f" if r: "r \<in> set (d_tasks ?d)" "has_key ''id'' ids r" for r
    proof
      assume path: "jget r ''raw_output_path'' = JStr f"
      have "one_owner ''raw_output_path'' (d_tasks ?d)" using w(1) by (simp add: safe_for_def owners_agree_def)
      from this [unfolded one_owner_def, rule_format, OF r(1) own(1)]
      have "jget r ''owner_id'' = jget t ''owner_id''" by (simp add: path t(2))
      then show False using own(2) assms(2,3) r by (simp add: may_delete_def owned_row_of_def)
    qed
    then have "f \<in> set (remove_files rm (concat (map (\<lambda>c. filter (has_key ''id'' c) (d_tasks ?d)) (chunks ids))) (w_files w))" for rm
      using f unfolding removed_files by simp
    then show ?thesis
      using assms(4) f by (auto simp: delete_task_records_def Let_def split: if_splits prod.splits outcome.splits)
  qed
  then show ?thesis using conn assms(1) by (auto simp: kept_part_def)
qed

lemma kept_part_cache: "kept_part you p fs (w\<lparr>w_cache := c\<rparr>) \<longleftrightarrow> kept_part you p fs w"
  by (simp add: kept_part_def settled_def)

lemma after_records_keep: "kept_part you p fs (snd r) \<Longrightarrow> kept_part you p fs (snd (after_records a r))"
  by (cases r; cases "fst r") (auto simp: after_records_def kept_part_cache)

lemma in_row_ids: "i \<in> set (row_ids rows) \<longleftrightarrow> (\<exists>r \<in> set rows. jget r ''id'' = JStr i)"
  by (force simp: row_ids_def split: json.splits)

lemma may_delete_own:
  assumes "one_owner ''id'' (d_tasks d)" and "\<And>r. P r \<Longrightarrow> owned_row_of me r"
  shows "may_delete me (row_ids (filter P (d_tasks d))) d"
  unfolding may_delete_def
proof (intro ballI impI)
  fix t assume t: "t \<in> set (d_tasks d)" "has_key ''id'' (row_ids (filter P (d_tasks d))) t"
  then obtain r where r: "r \<in> set (d_tasks d)" "P r" "jget r ''id'' = jget t ''id''" "jget t ''id'' \<noteq> JNull"
    by (auto simp: has_key_def in_row_ids)
  then have "jget t ''owner_id'' = jget r ''owner_id''" using assms(1) t(1) unfolding one_owner_def by metis
  then show "owned_row_of me t" using assms(2) [OF r(2)] by (simp add: owned_row_of_def)
qed

lemma delete_one_keeps:
  assumes "kept_part you p fs w" and "me \<noteq> you"
  shows "kept_part you p fs (snd (delete_one_task e me tid w))"
proof -
  let ?d = "working (w_conn w)"
  have one: "one_owner ''id'' (d_tasks ?d)" using assms(1) by (simp add: kept_part_def safe_for_def owners_agree_def)
  have "may_delete me [tid] ?d" if mine: "case task_row_of tid ?d of None \<Rightarrow> True | Some r \<Rightarrow> jget r ''owner_id'' = JStr me"
  proof (cases "task_row_of tid ?d")
    case None
    then show ?thesis by (auto simp: task_row_of_def find_None_iff may_delete_def has_key_def)
  next
    case (Some r)
    then have own: "r \<in> set (d_tasks ?d)" "jget r ''id'' = JStr tid" "jget r ''owner_id'' = JStr me" using mine find_set [of _ "d_tasks ?d" r] by (auto simp: task_row_of_def)
    then have "jget t ''owner_id'' = JStr me" if "t \<in> set (d_tasks ?d)" "jget t ''id'' = JStr tid" for t
      using one [unfolded one_owner_def, rule_format, OF that(1) own(1)] that(2) own by simp
    then show ?thesis by (simp add: may_delete_def has_key_def owned_row_of_def)
  qed
  then have "kept_part you p fs (snd (delete_task_records e [tid] w))"
    if "case task_row_of tid ?d of None \<Rightarrow> True | Some r \<Rightarrow> jget r ''owner_id'' = JStr me"
    using records_keep_part [OF assms(1) _ assms(2), of "[tid]" e] that by (metis prod.collapse)
  then show ?thesis
    using assms(1) by (auto simp: delete_one_task_def Let_def intro!: after_records_keep split: option.splits)
qed

lemma bulk_delete_keeps:
  assumes "kept_part you p fs w" and "me \<noteq> you"
  shows "kept_part you p fs (snd (bulk_delete_tasks e me ids w))"
proof -
  let ?d = "working (w_conn w)"
  let ?own = "row_ids (filter (\<lambda>r. has_key ''id'' ids r \<and> owned_row_of me r) (d_tasks ?d))"
  have "may_delete me ?own ?d"
    using assms(1) by (intro may_delete_own) (simp_all add: kept_part_def safe_for_def owners_agree_def)
  then have "kept_part you p fs (snd (delete_task_records e ?own w))"
    using records_keep_part [OF assms(1) _ assms(2)] by (metis prod.collapse)
  then show ?thesis
    using assms(1) by (auto simp: bulk_delete_tasks_def Let_def intro!: after_records_keep)
qed

lemma clear_keeps:
  assumes "kept_part you p fs w" and "me \<noteq> you"
  shows "kept_part you p fs (snd (clear_all_tasks e me w))"
proof -
  let ?d = "working (w_conn w)"
  let ?own = "row_ids (filter (owned_row_of me) (d_tasks ?d))"
  have "may_delete me ?own ?d"
    using assms(1) by (intro may_delete_own) (simp_all add: kept_part_def safe_for_def owners_agree_def)
  then have records: "kept_part you p fs w'" if "delete_task_records e ?own w = (out, w')" for out w'
    using records_keep_part [OF assms(1) _ assms(2) that] by blast
  have sweep: "kept_part you p fs (w'\<lparr>w_conn := execute (delete_findings (owned_row_of me)) (w_conn w')\<rparr>)" if "kept_part you p fs w'" for w'
  proof -
    have "safe_for you p (delete_findings (owned_row_of me) d)" if "safe_for you p d" for d
      using undisturbed_findings [of you me "[]" p d "owned_row_of me"] that assms(2)
      by (auto simp: undisturbed_def safe_for_def may_delete_def owned_row_of_def)
    then show ?thesis using that by (auto simp: kept_part_def settled_def execute_def Let_def)
  qed
  show ?thesis
  proof (cases "delete_task_records e ?own w")
    case (Pair out w')
    note w' = records [OF Pair]
    have "kept_part you p fs (snd (case (out, w') of
        (Records_Deleted, w') \<Rightarrow> (Records_Deleted, w'\<lparr>w_conn := execute (delete_findings (owned_row_of me)) (w_conn w')\<rparr>) | r \<Rightarrow> r))"
      using w' sweep [OF w'] by (cases out) simp_all
    then show ?thesis
      unfolding clear_all_tasks_def Let_def Pair using assms(1) by (auto intro!: after_records_keep simp del: prod.case)
  qed
qed

lemma request_keeps:
  assumes "kept_part you p fs w" and "me \<noteq> you"
  shows "kept_part you p fs (snd (handle_deletion e me q w))"
  using assms by (cases q) (simp_all add: delete_one_keeps bulk_delete_keeps clear_keeps)

lemma run_deletions_keep:
  "kept_part you p fs w \<Longrightarrow> (\<And>e me q. (e, me, q) \<in> set reqs \<Longrightarrow> me \<noteq> you) \<Longrightarrow> kept_part you p fs (run_deletions reqs w)"
proof (induction reqs arbitrary: w)
  case (Cons r reqs)
  obtain e me q where r: "r = (e, me, q)" by (cases r)
  then have "kept_part you p fs (snd (handle_deletion e me q w))" using Cons.prems by (intro request_keeps) auto
  then have "kept_part you p fs (run_deletions reqs (snd (handle_deletion e me q w)))"
    by (rule Cons.IH) (use Cons.prems(2) in auto)
  then show ?case by (simp add: run_deletions_def r)
qed (simp add: run_deletions_def)

text \<open>C36: Whatever other owners delete, one task, many, or all they have, with any failure or cancellation on
  the way, also while a cancelled transaction is still open: what the tables hold of an owner (his
  tasks, findings, reports, crawl runs and services, the audit records of his tasks and the
  notification history of his findings) stays as it was, seen and committed, and so do the
  output files of his tasks.\<close>

theorem deletions_stay_with_owner:
  assumes "owners_agree (committed (w_conn w))" and "working (w_conn w) = committed (w_conn w)"
    and "\<And>e me q. (e, me, q) \<in> set reqs \<Longrightarrow> me \<noteq> you"
  shows "part_of you (working (w_conn (run_deletions reqs w))) = part_of you (committed (w_conn w))
     \<and> part_of you (committed (w_conn (run_deletions reqs w))) = part_of you (committed (w_conn w))
     \<and> (\<forall>f \<in> set (w_files w). (\<exists>t \<in> set (d_tasks (committed (w_conn w))). jget t ''owner_id'' = JStr you \<and> jget t ''raw_output_path'' = JStr f)
          \<longrightarrow> f \<in> set (w_files (run_deletions reqs w)))"
proof -
  let ?p = "part_of you (committed (w_conn w))"
  have "kept_part you ?p (w_files w) w" using assms(1,2) by (simp add: kept_part_def safe_for_def settled_def)
  then have "kept_part you ?p (w_files w) (run_deletions reqs w)" by (rule run_deletions_keep) (rule assms(3))
  then show ?thesis by (simp add: kept_part_def safe_for_def part_of_def owned_row_of_def) blast
qed

theorem deletions_stay_with_owner_witness:
  "part_of ''user:b'' (committed (w_conn (run_deletions
      [(\<lparr>e_fault = Fails 3, e_removable = \<lambda>f. True\<rparr>, ''user:a'', Delete_Bulk [''a'', ''b'']),
       (\<lparr>e_fault = No_Fault, e_removable = \<lambda>f. True\<rparr>, ''user:a'', Clear_All)] example_scans))) = part_of ''user:b'' example_scan_db
   \<and> d_tasks (part_of ''user:b'' example_scan_db) \<noteq> []"
proof -
  let ?reqs = "[(\<lparr>e_fault = Fails 3, e_removable = \<lambda>f. True\<rparr>, ''user:a'', Delete_Bulk [''a'', ''b'']),
       (\<lparr>e_fault = No_Fault, e_removable = \<lambda>f. True\<rparr>, ''user:a'', Clear_All)]"
  have "owners_agree example_scan_db"
    by (simp add: example_scan_db_def owners_agree_def follows_tasks_def one_owner_def jget_def)
  then have "owners_agree (committed (w_conn example_scans))" by (simp add: example_scans_def)
  moreover have "working (w_conn example_scans) = committed (w_conn example_scans)" by (simp add: example_scans_def)
  moreover have "me \<noteq> ''user:b''" if "(e, me, q) \<in> set ?reqs" for e me q using that by auto
  ultimately have "part_of ''user:b'' (committed (w_conn (run_deletions ?reqs example_scans)))
      = part_of ''user:b'' (committed (w_conn example_scans))"
    using deletions_stay_with_owner [of example_scans ?reqs "''user:b''"] by blast
  moreover have "d_tasks (part_of ''user:b'' example_scan_db) \<noteq> []"
    by (simp add: part_of_def example_scan_db_def owned_row_of_def jget_def)
  ultimately show ?thesis by (simp add: example_scans_def)
qed

text \<open>\<open>clear_all_tasks\<close> does not ask the executor: a task that it has taken up but whose row is still
  queued is deleted under it, while the other two handlers refuse.\<close>

lemma clear_ignores_executor:
  assumes "w = example_scans\<lparr>w_running := [''a'']\<rparr>" and "e = \<lparr>e_fault = No_Fault, e_removable = \<lambda>f. True\<rparr>"
  shows "fst (delete_one_task e ''user:a'' ''a'' w) = Deletion_Refused 400"
    and "fst (bulk_delete_tasks e ''user:a'' [''a''] w) = Deletion_Refused 400"
    and "fst (clear_all_tasks e ''user:a'' w) = History_Cleared"
proof -
  show "fst (delete_one_task e ''user:a'' ''a'' w) = Deletion_Refused 400"
    by (simp add: assms example_scans_def example_scan_db_def delete_one_task_def task_row_of_def running_row_def jget_def)
  have conn: "working (w_conn w) = example_scan_db" "w_running w = [''a'']" by (simp_all add: assms example_scans_def)
  have own: "row_ids (filter (\<lambda>r. has_key ''id'' [''a''] r \<and> owned_row_of ''user:a'' r) (d_tasks example_scan_db)) = [''a'']"
    by (simp add: example_scan_db_def row_ids_def has_key_def owned_row_of_def jget_def)
  have "\<not> list_ex (\<lambda>r. has_key ''id'' [''a''] r \<and> running_row r) (d_tasks example_scan_db)"
    by (simp add: example_scan_db_def running_row_def jget_def)
  then show "fst (bulk_delete_tasks e ''user:a'' [''a''] w) = Deletion_Refused 400"
    by (simp add: bulk_delete_tasks_def MAX_BULK_DELETE_def conn own)
  have run: "\<not> any_running [''a''] example_scan_db" by (simp add: any_running_iff example_scan_db_def running_row_def jget_def)
  have "\<not> in_txn (w_conn w)" "working (w_conn w) = example_scan_db" "committed (w_conn w) = example_scan_db" "[''a''] \<noteq> []"
    by (simp_all add: assms example_scans_def)
  then have "fst (delete_task_records e [''a''] w) = Records_Deleted"
    by (cases rule: delete_task_records_cases [where e = e]) (simp_all add: run assms(2))
  moreover have "row_ids (filter (owned_row_of ''user:a'') (d_tasks example_scan_db)) = [''a'']"
    by (simp add: example_scan_db_def row_ids_def owned_row_of_def jget_def)
  moreover have "\<not> list_ex (\<lambda>r. owned_row_of ''user:a'' r \<and> running_row r) (d_tasks example_scan_db)"
    by (simp add: example_scan_db_def running_row_def jget_def)
  ultimately show "fst (clear_all_tasks e ''user:a'' w) = History_Cleared"
    by (auto simp: clear_all_tasks_def Let_def after_records_def conn split: prod.splits)
qed

end
