(* ===== verification/Reporting.thy ===== *)
theory Reporting
  imports Task_Queries Result_Contract Task_Admission
begin

text \<open>
  The reports of \<open>backend/secuscan/reporting.py\<close>: cleaning and normalising of findings, the payload every
  format is made from, the CSV and the SARIF export, and the download routes with the file name
  (\<open>routes.py\<close>, \<open>routes_report_helpers.py\<close>). The HTML and PDF renderings of the payload are parameters
  of the routes. Parameters are the texts of floats and containers, \<open>to_utc_iso\<close> and the clock.
  \<open>None\<close> is a \<open>TypeError\<close> of findings that cannot be iterated.
\<close>

record report_env =
  re_repr :: "json \<Rightarrow> string"
  re_utc :: "json \<Rightarrow> string"
  re_now :: string
  re_float :: "rat \<Rightarrow> rat"

subsection \<open>Texts\<close>

definition esc :: char where
  "esc = CHR 0x1B"

definition between :: "char \<Rightarrow> char \<Rightarrow> char \<Rightarrow> bool" where
  "between a b c \<longleftrightarrow> char_nat a \<le> char_nat c \<and> char_nat c \<le> char_nat b"

definition ANSI_ESCAPE_RE :: regex where
  "ANSI_ESCAPE_RE = Seq (Cls (\<lambda>c. c = esc)) (Seq (lit ''['') (Seq (many (between (CHR ''0'') (CHR ''?'')))
     (Seq (many (between (CHR '' '') (CHR ''/''))) (Cls (between (CHR ''@'') (CHR 0x7E))))))"

definition control_char :: "char \<Rightarrow> bool" where
  "control_char c = (let n = char_nat c in n \<le> 8 \<or> (11 \<le> n \<and> n \<le> 31) \<or> n = 127)"

definition CONTROL_CHARS_RE :: regex where
  "CONTROL_CHARS_RE = Cls control_char"

definition clean_text :: "report_env \<Rightarrow> json \<Rightarrow> string" where
  "clean_text e value =
     (if value = JNull then []
      else py_strip (re_sub CONTROL_CHARS_RE (\<lambda>m. []) (re_sub ANSI_ESCAPE_RE (\<lambda>m. []) (show_json (re_repr e) value))))"

definition or_text :: "string \<Rightarrow> string \<Rightarrow> string" where
  "or_text s t = (if s = [] then t else s)"

subsection \<open>Findings\<close>

definition SEVERITY_ORDER :: "string list" where
  "SEVERITY_ORDER = [''CRITICAL'', ''HIGH'', ''MEDIUM'', ''LOW'', ''INFO'']"

definition clean_metadata :: "report_env \<Rightarrow> dict \<Rightarrow> dict" where
  "clean_metadata e metadata =
     redact_dict (dict_of_pairs (map (\<lambda>(k, v). (clean_text e (JStr k), JStr (clean_text e v))) metadata))"

definition normalize_report_finding :: "report_env \<Rightarrow> json \<Rightarrow> dict" where
  "normalize_report_finding e item =
     (let finding = (case item of JObj d \<Rightarrow> d | _ \<Rightarrow> [(''description'', JStr (clean_text e item))]);
          metadata = (case jget finding ''metadata'' of JObj d \<Rightarrow> d | _ \<Rightarrow> []);
          cleaned = (\<lambda>k. clean_text e (jget finding k));
          severity = py_upper (clean_text e (jor (jget finding ''severity'') (JStr ''info'')))
      in [(''id'', JStr (cleaned ''id'')),
          (''title'', JStr (or_text (cleaned ''title'') ''Untitled finding'')),
          (''category'', JStr (or_text (cleaned ''category'') ''General'')),
          (''severity'', JStr (if severity \<in> set SEVERITY_ORDER then severity else ''INFO'')),
          (''target'', JStr (redact (cleaned ''target''))),
          (''description'', JStr (redact (or_text (cleaned ''description'') ''No description was provided.''))),
          (''remediation'', JStr (redact (cleaned ''remediation''))),
          (''proof'', JStr (redact (cleaned ''proof''))),
          (''cve'', JStr (cleaned ''cve'')),
          (''cwe'', JStr (cleaned ''cwe'')),
          (''cvss'', jget finding ''cvss''),
          (''validated'', JBool (truthy (jget finding ''validated''))),
          (''validation_method'', JStr (cleaned ''validation_method'')),
          (''confidence_reason'', JStr (redact (cleaned ''confidence_reason''))),
          (''service_fingerprint'', JStr (cleaned ''service_fingerprint'')),
          (''cpe'', JStr (cleaned ''cpe'')),
          (''discovered_at'', JStr (if truthy (jget finding ''discovered_at'') then re_utc e (jget finding ''discovered_at'') else [])),
          (''evidence'', case jget finding ''evidence'' of JList vs \<Rightarrow> redact_value (JList vs) | _ \<Rightarrow> JList []),
          (''asset_refs'', list_or_empty finding ''asset_refs''),
          (''references'', list_or_empty finding ''references''),
          (''metadata'', JObj (clean_metadata e metadata))])"

subsection \<open>Scan parameters and summary\<close>

text \<open>\<open>sort_keys\<close> of \<open>json.dumps\<close>.\<close>

fun sorted_keys :: "json \<Rightarrow> json" where
  "sorted_keys (JObj d) = JObj (sort_key fst (map (\<lambda>kv. (fst kv, sorted_keys (snd kv))) d))"
| "sorted_keys (JList vs) = JList (map sorted_keys vs)"
| "sorted_keys v = v"

definition normalize_task_inputs :: "report_env \<Rightarrow> dict \<Rightarrow> dict" where
  "normalize_task_inputs e task =
     (let given = jget task ''inputs'';
          stored = (if truthy given then given else jget task ''inputs_json'');
          raw_inputs = (case stored of JStr s \<Rightarrow> (case loads (re_float e) s of None \<Rightarrow> JObj [] | Some v \<Rightarrow> v) | v \<Rightarrow> v)
      in case raw_inputs of
           JObj d \<Rightarrow> foldl (\<lambda>normalized kv. if snd kv \<in> {JStr [], JNull, JList [], JObj []} then normalized
                              else aput (clean_text e (JStr (fst kv))) (snd kv) normalized) [] d
         | _ \<Rightarrow> [])"

definition format_input_value :: "report_env \<Rightarrow> json \<Rightarrow> string" where
  "format_input_value e value =
     (case value of
        JBool True \<Rightarrow> ''ON''
      | JBool False \<Rightarrow> ''OFF''
      | JList items \<Rightarrow> join_with '', '' (filter (\<lambda>s. s \<noteq> []) (map (clean_text e) items))
      | JObj d \<Rightarrow> dumps (\<lambda>r. re_repr e (JFloat r)) default_seps (sorted_keys value)
      | _ \<Rightarrow> clean_text e value)"

definition label_of :: "string \<Rightarrow> string" where
  "label_of key = py_title (replace_char (CHR ''_'') '' '' key)"

definition build_scan_parameters :: "report_env \<Rightarrow> dict \<Rightarrow> (string \<times> string) list" where
  "build_scan_parameters e task =
     (let preset = clean_text e (jget task ''preset'');
          given = jget task ''execution_context'';
          execution_context = (if truthy given then given
             else (case jget task ''execution_context_json'' of
                     JStr s \<Rightarrow> (case loads (re_float e) s of None \<Rightarrow> JObj [] | Some v \<Rightarrow> v)
                   | _ \<Rightarrow> given));
          command_used = clean_text e (jget task ''command_used'')
      in [(''Target'', or_text (clean_text e (jget task ''target'')) ''Unknown''),
          (''Plugin'', or_text (clean_text e (jget task ''plugin_id'')) ''Unknown'')]
         @ (if preset = [] then [] else [(''Preset'', preset)])
         @ (case execution_context of
              JObj ctx \<Rightarrow> concat (map (\<lambda>key. let v = clean_text e (jget ctx key) in if v = [] then [] else [(label_of key, v)])
                 [''target_policy_id'', ''scan_profile'', ''credential_profile_id'', ''session_profile_id'', ''validation_mode'', ''evidence_level''])
            | _ \<Rightarrow> [])
         @ concat (map (\<lambda>(key, v). let formatted = format_input_value e v in if formatted = [] then [] else [(label_of key, formatted)])
             (normalize_task_inputs e task))
         @ (if command_used = [] then [] else [(''Command'', command_used)]))"

definition count_line :: "dict \<Rightarrow> string \<Rightarrow> string \<Rightarrow> string \<Rightarrow> string list" where
  "count_line structured k before after =
     (case jget structured k of JList vs \<Rightarrow> if vs = [] then [] else [before @ nat_str (length vs) @ after] | _ \<Rightarrow> [])"

definition build_summary_lines :: "report_env \<Rightarrow> dict list \<Rightarrow> (string \<times> nat) list \<Rightarrow> dict \<Rightarrow> dict \<Rightarrow> string list" where
  "build_summary_lines e findings counts structured task =
     (let total_findings = length findings;
          count = (\<lambda>s. case map_of counts s of None \<Rightarrow> 0 | Some n \<Rightarrow> n);
          critical_high = count ''CRITICAL'' + count ''HIGH'';
          tool_name = or_text (or_text (clean_text e (jget task ''tool_name'')) (clean_text e (jget task ''plugin_id''))) ''scan engine''
      in [if total_findings = 0 then ''No structured findings were recorded for this assessment run.''
          else if critical_high > 0
          then ''The assessment identified '' @ nat_str total_findings @ '' findings, including '' @ nat_str critical_high
               @ '' high-priority items that should be reviewed first.''
          else ''The assessment identified '' @ nat_str total_findings @ '' findings with no critical or high severity items.'',
          ''Scan execution was performed with '' @ tool_name @ ''.'']
         @ count_line structured ''open_ports'' ''Observed '' '' exposed network ports during this run.''
         @ count_line structured ''technologies'' ''Detected '' '' technology fingerprints in the target surface.''
         @ count_line structured ''rows'' ''Structured output included '' '' tabular result rows for analyst review.'')"

subsection \<open>The payload of a report\<close>

record report_payload =
  rpt_task_id :: string
  rpt_tool_name :: string
  rpt_target :: string
  rpt_status :: string
  rpt_created_at :: string
  rpt_generated_at :: string
  rpt_preset :: string
  rpt_findings :: "dict list"
  rpt_summary :: "string list"
  rpt_counts :: "(string \<times> nat) list"
  rpt_structured :: dict
  rpt_rows :: "json list"
  rpt_errors :: "json list"
  rpt_parameters :: "(string \<times> string) list"
  rpt_command :: string

text \<open>What \<open>for item in value\<close> goes through.\<close>

definition iterated :: "json \<Rightarrow> json list option" where
  "iterated v = (case v of
       JList vs \<Rightarrow> Some vs
     | JObj d \<Rightarrow> Some (map (\<lambda>kv. JStr (fst kv)) d)
     | JStr s \<Rightarrow> Some (map (\<lambda>c. JStr [c]) s)
     | _ \<Rightarrow> None)"

definition tally :: "(string \<times> nat) list \<Rightarrow> dict \<Rightarrow> (string \<times> nat) list" where
  "tally counts f = (case jget f ''severity'' of
       JStr s \<Rightarrow> aput s ((case map_of counts s of None \<Rightarrow> 0 | Some n \<Rightarrow> n) + 1) counts
     | _ \<Rightarrow> counts)"

definition count_severities :: "dict list \<Rightarrow> (string \<times> nat) list" where
  "count_severities findings = foldl tally (map (\<lambda>s. (s, 0)) SEVERITY_ORDER) findings"

definition list_under :: "dict \<Rightarrow> string \<Rightarrow> json list" where
  "list_under d k = (case jget d k of JList vs \<Rightarrow> vs | _ \<Rightarrow> [])"

definition build_report_payload :: "report_env \<Rightarrow> dict \<Rightarrow> dict \<Rightarrow> report_payload option" where
  "build_report_payload e task result =
     (let structured = (case jget result ''structured'' of JObj d \<Rightarrow> d | _ \<Rightarrow> result);
          raw_findings = (case jget result ''findings'' of JList vs \<Rightarrow> JList vs | _ \<Rightarrow> jget_or structured ''findings'' (JList []))
      in case iterated raw_findings of
           None \<Rightarrow> None
         | Some items \<Rightarrow>
             (let findings = map (normalize_report_finding e) items;
                  counts = count_severities findings;
                  raw_summary = list_under result ''summary''
              in Some
                \<lparr>rpt_task_id = clean_text e (jget task ''id''),
                 rpt_tool_name = or_text (or_text (clean_text e (jget task ''tool_name'')) (clean_text e (jget task ''plugin_id''))) ''Unknown tool'',
                 rpt_target = or_text (clean_text e (jget task ''target'')) ''Unknown target'',
                 rpt_status = or_text (clean_text e (jget task ''status'')) ''unknown'',
                 rpt_created_at = (if truthy (jget task ''created_at'') then re_utc e (jget task ''created_at'') else []),
                 rpt_generated_at = re_now e,
                 rpt_preset = clean_text e (jget task ''preset''),
                 rpt_findings = findings,
                 rpt_summary = (if raw_summary \<noteq> [] then filter (\<lambda>s. s \<noteq> []) (map (clean_text e) raw_summary)
                    else build_summary_lines e findings counts structured task),
                 rpt_counts = counts,
                 rpt_structured = structured,
                 rpt_rows = list_under structured ''rows'',
                 rpt_errors = list_under result ''errors'',
                 rpt_parameters = build_scan_parameters e task,
                 rpt_command = clean_text e (jget task ''command_used'')\<rparr>))"

subsection \<open>CSV\<close>

text \<open>\<open>csv.writer\<close> with its default dialect: a field with a separator, a quote or a line break is quoted.\<close>

definition CR :: char where "CR = CHR 0x0D"
definition LF :: char where "LF = CHR 0x0A"
definition DQ :: char where "DQ = CHR 0x22"

definition csv_special :: "char \<Rightarrow> bool" where
  "csv_special c \<longleftrightarrow> c = CHR '','' \<or> c = DQ \<or> c = CR \<or> c = LF"

definition csv_field :: "string \<Rightarrow> string" where
  "csv_field s = (if list_ex csv_special s then DQ # concat (map (\<lambda>c. if c = DQ then [DQ, DQ] else [c]) s) @ [DQ] else s)"

definition writerow :: "string list \<Rightarrow> string" where
  "writerow row = join_with '','' (map csv_field row) @ [CR, LF]"

definition csv_header :: "string list" where
  "csv_header = [''Severity'', ''Title'', ''Category'', ''Target'', ''CVSS'', ''CVE'', ''CPE'', ''Validated'', ''Validation Method'',
     ''Confidence Reason'', ''Description'', ''Evidence'', ''Remediation'']"

definition cell :: "report_env \<Rightarrow> json \<Rightarrow> string" where
  "cell e v = (if v = JNull then [] else show_json (re_repr e) v)"

definition csv_row :: "report_env \<Rightarrow> report_payload \<Rightarrow> dict \<Rightarrow> string list" where
  "csv_row e payload finding =
     [cell e (jget finding ''severity''), cell e (jget finding ''title''), cell e (jget finding ''category''),
      cell e (jor (jget finding ''target'') (JStr (rpt_target payload))),
      cell e (jget finding ''cvss''), cell e (jget finding ''cve''), cell e (jget finding ''cpe''),
      (if truthy (jget finding ''validated'') then ''yes'' else ''no''),
      cell e (jget finding ''validation_method''), cell e (jget finding ''confidence_reason''), cell e (jget finding ''description''),
      cell e (jget finding ''proof''), cell e (jget finding ''remediation'')]"

definition generate_csv_report :: "report_env \<Rightarrow> dict \<Rightarrow> dict \<Rightarrow> string option" where
  "generate_csv_report e task result =
     (case build_report_payload e task result of
        None \<Rightarrow> None
      | Some payload \<Rightarrow> Some (writerow csv_header @ concat (map (\<lambda>f. writerow (csv_row e payload f)) (rpt_findings payload))))"

text \<open>The reader of that dialect. The mode says whether a row, or a field, has begun.\<close>

datatype csv_mode = Row_Start | Field_Start | Plain_Field | Quoted_Field | Quote_Seen

fun csv_scan :: "csv_mode \<Rightarrow> string \<Rightarrow> string list \<Rightarrow> string \<Rightarrow> string list list" where
  "csv_scan m fld row [] = (if m = Row_Start then [] else [row @ [fld]])"
| "csv_scan m fld row (c # cs) =
     (if m = Quoted_Field then (if c = DQ then csv_scan Quote_Seen fld row cs else csv_scan Quoted_Field (fld @ [c]) row cs)
      else if c = DQ \<and> m = Quote_Seen then csv_scan Quoted_Field (fld @ [c]) row cs
      else if c = DQ \<and> m \<noteq> Plain_Field then csv_scan Quoted_Field fld row cs
      else if c = CHR '','' then csv_scan Field_Start [] (row @ [fld]) cs
      else if c = CR \<or> c = LF then (if m = Row_Start then csv_scan Row_Start [] [] cs else (row @ [fld]) # csv_scan Row_Start [] [] cs)
      else csv_scan Plain_Field (fld @ [c]) row cs)"

definition read_csv :: "string \<Rightarrow> string list list" where
  "read_csv s = csv_scan Row_Start [] [] s"

lemma csv_chars [simp]: "DQ \<noteq> CHR '',''" "CR \<noteq> CHR '',''" "LF \<noteq> CHR '',''" "DQ \<noteq> CR" "DQ \<noteq> LF" "CR \<noteq> DQ" "LF \<noteq> DQ" "CR \<noteq> LF"
    "CHR '','' \<noteq> DQ" "CHR '','' \<noteq> CR" "CHR '','' \<noteq> LF"
  by (simp_all add: DQ_def CR_def LF_def)

lemma scan_plain:
  "\<not> list_ex csv_special s \<Longrightarrow> csv_scan Plain_Field fld row (s @ r) = csv_scan Plain_Field (fld @ s) row r"
  by (induction s arbitrary: fld) (auto simp: csv_special_def)

lemma scan_quoted:
  "csv_scan Quoted_Field fld row (concat (map (\<lambda>c. if c = DQ then [DQ, DQ] else [c]) s) @ DQ # r) = csv_scan Quote_Seen (fld @ s) row r"
  by (induction s arbitrary: fld) simp_all

text \<open>A written field followed by a separator or the end of the row is read as it was.\<close>

lemma scan_field:
  assumes "m = Row_Start \<and> (s \<noteq> [] \<or> d = CHR '','') \<or> m = Field_Start" and "d = CHR '','' \<or> d = CR"
  shows "csv_scan m [] row (csv_field s @ d # r) =
     (if d = CHR '','' then csv_scan Field_Start [] (row @ [s]) r else (row @ [s]) # csv_scan Row_Start [] [] r)"
proof (cases "list_ex csv_special s")
  case True
  then show ?thesis using assms scan_quoted [of "[]" row s "d # r"] by (auto simp: csv_field_def)
next
  case False
  then show ?thesis
  proof (cases s)
    case Nil
    then show ?thesis using assms by (auto simp: csv_field_def)
  next
    case (Cons c cs)
    with False have c: "\<not> csv_special c" "\<not> list_ex csv_special cs" by simp_all
    then have "csv_scan m [] row (s @ d # r) = csv_scan Plain_Field s row (d # r)"
      using assms scan_plain [of cs "[c]" row "d # r"] Cons by (auto simp: csv_special_def)
    then show ?thesis using assms False by (auto simp: csv_field_def)
  qed
qed

lemma scan_row:
  "fs \<noteq> [] \<Longrightarrow> m = Row_Start \<and> tl fs \<noteq> [] \<or> m = Field_Start
    \<Longrightarrow> csv_scan m [] row (join_with '','' (map csv_field fs) @ CR # r) = (row @ fs) # csv_scan Row_Start [] [] r"
proof (induction fs arbitrary: m row)
  case (Cons f fs)
  show ?case
  proof (cases fs)
    case Nil
    then show ?thesis using Cons.prems scan_field [of m f CR row r] by simp
  next
    case (Cons g gs)
    have "csv_scan m [] row (csv_field f @ CHR '','' # join_with '','' (map csv_field fs) @ CR # r)
        = csv_scan Field_Start [] (row @ [f]) (join_with '','' (map csv_field fs) @ CR # r)"
      using Cons.prems by (subst scan_field) auto
    also have "\<dots> = ((row @ [f]) @ fs) # csv_scan Row_Start [] [] r" using Cons by (intro Cons.IH) simp_all
    finally show ?thesis using Cons by simp
  qed
qed simp

lemma read_rows: "\<forall>r \<in> set rows. 2 \<le> length r \<Longrightarrow> read_csv (concat (map writerow rows)) = rows"
proof (induction rows)
  case (Cons row rows)
  have "row \<noteq> []" "tl row \<noteq> []" using Cons.prems by (cases row; auto)+
  then have "csv_scan Row_Start [] [] (join_with '','' (map csv_field row) @ CR # LF # concat (map writerow rows))
      = row # csv_scan Row_Start [] [] (LF # concat (map writerow rows))"
    using scan_row [of row Row_Start "[]"] by simp
  then have "csv_scan Row_Start [] [] (writerow row @ concat (map writerow rows)) = row # read_csv (concat (map writerow rows))"
    by (simp add: read_csv_def writerow_def [of row])
  then show ?case using Cons by (simp add: read_csv_def)
qed (simp add: read_csv_def)

subsection \<open>SARIF\<close>

definition sarif_level :: "string \<Rightarrow> string" where
  "sarif_level severity =
     (if severity \<in> {''CRITICAL'', ''HIGH''} then ''error'' else if severity = ''MEDIUM'' then ''warning'' else ''note'')"

text \<open>\<open>v and isinstance(v, str) and v.strip()\<close>\<close>

definition stripped_text :: "json \<Rightarrow> string" where
  "stripped_text v = (case v of JStr s \<Rightarrow> py_strip s | _ \<Rightarrow> [])"

definition metadata_of :: "dict \<Rightarrow> dict" where
  "metadata_of finding = (case jget finding ''metadata'' of JObj d \<Rightarrow> d | _ \<Rightarrow> [])"

definition first_text :: "string list \<Rightarrow> string" where
  "first_text xs = (case filter (\<lambda>x. x \<noteq> []) xs of [] \<Rightarrow> [] | x # ys \<Rightarrow> x)"

definition raw_rule_id :: "dict \<Rightarrow> string" where
  "raw_rule_id finding =
     (let also = (\<lambda>key. stripped_text (jor (jget finding key) (jget (metadata_of finding) key)));
          found = first_text (stripped_text (jget finding ''cve'') # map also [''cwe'', ''check_id'', ''plugin_rule_id'', ''rule_id'', ''id''])
      in if found \<noteq> [] then found
         else (case jor (jget finding ''title'') (JStr ''security-finding'') of JStr s \<Rightarrow> s | _ \<Rightarrow> []))"

text \<open>\<open>re.sub(r"-+", "-", s)\<close>\<close>

fun one_hyphen :: "string \<Rightarrow> string" where
  "one_hyphen (a # b # s) = (if a = CHR ''-'' \<and> b = CHR ''-'' then one_hyphen (b # s) else a # one_hyphen (b # s))"
| "one_hyphen s = s"

definition sanitize_rule_id :: "string \<Rightarrow> string" where
  "sanitize_rule_id raw =
     (let dashed = py_lower (map (\<lambda>c. if is_alnum c \<or> c = CHR ''-'' then c else CHR ''-'') raw)
      in or_text (strip_by (\<lambda>c. c = CHR ''-'') (one_hyphen dashed)) ''security-finding'')"

definition rule_id_of :: "dict \<Rightarrow> string" where
  "rule_id_of finding = sanitize_rule_id (raw_rule_id finding)"

definition sarif_rule :: "dict \<Rightarrow> json" where
  "sarif_rule finding =
     (let text = (\<lambda>k. JObj [(''text'', jget finding k)])
      in JObj [(''id'', JStr (rule_id_of finding)), (''name'', jget finding ''title''),
               (''shortDescription'', text ''title''), (''fullDescription'', text ''description''), (''help'', text ''remediation''),
               (''properties'', JObj [(''precision'', JStr ''high''), (''cpe'', jget finding ''cpe''),
                  (''validated'', jget finding ''validated''), (''validation_method'', jget finding ''validation_method'')])])"

definition sarif_location :: "string \<Rightarrow> json" where
  "sarif_location target =
     (let is_url = contains_sub target ''://'';
          parts = split_on (CHR '':'') target;
          place = (\<lambda>uri region. JObj [(''physicalLocation'', JObj ((''artifactLocation'', JObj [(''uri'', JStr uri)]) # region))])
      in if \<not> is_url \<and> CHR '':'' \<in> set target \<and> py_isdigit (last parts)
         then place (join_with '':'' (butlast parts)) [(''region'', JObj [(''startLine'', JInt (int (digits_val (last parts))))])]
         else place target [])"

definition target_text :: "report_payload \<Rightarrow> dict \<Rightarrow> string" where
  "target_text payload finding = (case jget finding ''target'' of JStr s \<Rightarrow> or_text s (rpt_target payload) | _ \<Rightarrow> rpt_target payload)"

definition sarif_result :: "report_payload \<Rightarrow> nat \<Rightarrow> dict \<Rightarrow> json" where
  "sarif_result payload index finding =
     (let target = target_text payload finding
      in JObj [(''ruleId'', JStr (rule_id_of finding)), (''ruleIndex'', JInt (int index)),
               (''message'', JObj [(''text'', jget finding ''description'')]),
               (''level'', JStr (case jget finding ''severity'' of JStr s \<Rightarrow> sarif_level s | _ \<Rightarrow> ''note'')),
               (''locations'', JList (if target = [] then [] else [sarif_location target])),
               (''properties'', JObj [(''confidenceReason'', jget finding ''confidence_reason''), (''cpe'', jget finding ''cpe''),
                  (''validated'', jget finding ''validated''), (''assetRefs'', jget_or finding ''asset_refs'' (JList []))])])"

text \<open>The loop: rules, their indices, results.\<close>

definition sarif_step :: "report_payload \<Rightarrow> dict \<Rightarrow> json list \<times> (string \<times> nat) list \<times> json list \<Rightarrow> json list \<times> (string \<times> nat) list \<times> json list" where
  "sarif_step payload finding = (\<lambda>(rules, rule_indices, results).
     let rule_id = rule_id_of finding;
         (rules', indices') = (case map_of rule_indices rule_id of
              None \<Rightarrow> (rules @ [sarif_rule finding], rule_indices @ [(rule_id, length rules)])
            | Some i \<Rightarrow> (rules, rule_indices));
         index = (case map_of indices' rule_id of Some i \<Rightarrow> i | None \<Rightarrow> 0)
     in (rules', indices', results @ [sarif_result payload index finding]))"

definition sarif_run :: "report_payload \<Rightarrow> json list \<times> (string \<times> nat) list \<times> json list" where
  "sarif_run payload = fold (sarif_step payload) (rpt_findings payload) ([], [], [])"

text \<open>The document that \<open>json.dumps(..., indent=2)\<close> writes.\<close>

definition generate_sarif_report :: "report_env \<Rightarrow> string \<Rightarrow> dict \<Rightarrow> dict \<Rightarrow> json option" where
  "generate_sarif_report e version task result =
     (case build_report_payload e task result of
        None \<Rightarrow> None
      | Some payload \<Rightarrow>
          (case sarif_run payload of (rules, rule_indices, results) \<Rightarrow>
             Some (JObj
               [(''$schema'', JStr ''https://schemastore.azurewebsites.net/schemas/json/sarif-2.1.0-rtm.5.json''),
                (''version'', JStr ''2.1.0''),
                (''runs'', JList [JObj
                  [(''tool'', JObj [(''driver'', JObj
                     [(''name'', JStr (rpt_tool_name payload)), (''version'', JStr ''1.0.0''),
                      (''informationUri'', JStr ''https://github.com/utksh1/SecuScan''), (''rules'', JList rules),
                      (''properties'', JObj [(''generatorVersion'', JStr version)])])]),
                   (''properties'', JObj [(''pluginId'', jget task ''plugin_id''), (''exportTimestamp'', JStr (re_now e))]),
                   (''results'', JList results)]])])))"

subsection \<open>Downloads\<close>

definition slugify_filename_part :: "string \<Rightarrow> string \<Rightarrow> string" where
  "slugify_filename_part value fallback =
     or_text (strip_by (\<lambda>c. c = CHR ''-'') (one_hyphen (map (\<lambda>c. if is_lower c \<or> is_digit c then c else CHR ''-'') (py_lower value)))) fallback"

text \<open>The first text of the form dddd-dd-dd.\<close>

definition is_date :: "string \<Rightarrow> bool" where
  "is_date s \<longleftrightarrow> length s = 10
     \<and> list_all (\<lambda>i. if i \<in> {4, 7} then s ! i = CHR ''-'' else is_digit (s ! i)) [0..<10]"

fun first_date :: "string \<Rightarrow> string option" where
  "first_date [] = None"
| "first_date (c # cs) = (if is_date (take 10 (c # cs)) then Some (take 10 (c # cs)) else first_date cs)"

text \<open>\<open>str(a or b)\<close> of row values\<close>

definition shown_or :: "report_env \<Rightarrow> json \<Rightarrow> string \<Rightarrow> string" where
  "shown_or e v s = (if truthy v then show_json (re_repr e) v else s)"

text \<open>\<open>None\<close> is the \<open>ValueError\<close> of \<open>urlparse\<close>.\<close>

definition build_report_filename :: "report_env \<Rightarrow> dict \<Rightarrow> string \<Rightarrow> string option" where
  "build_report_filename e task extension =
     (let tool = slugify_filename_part (shown_or e (jor (jget task ''tool_name'') (jget task ''plugin_id'')) ''scan'') ''scan'';
          raw_target = shown_or e (jget task ''target'') [];
          date_part = (case first_date (shown_or e (jget task ''created_at'') []) of Some d \<Rightarrow> d | None \<Rightarrow> ''report'')
      in map_option (\<lambda>(scheme, netloc, path).
           ''secuscan_'' @ tool @ ''_'' @ slugify_filename_part (or_text (or_text netloc path) raw_target) ''target'' @ ''_'' @ date_part @ ''.'' @ extension)
         (urlparse (if contains_sub raw_target ''://'' then raw_target else ''//'' @ raw_target)))"

definition text_value :: "json \<Rightarrow> string option" where
  "text_value v = (case v of JStr s \<Rightarrow> Some s | _ \<Rightarrow> None)"

datatype download = Report string string | Report_Error nat | Report_Raises

definition report_columns :: "string list" where
  "report_columns = [''id'', ''owner_id'', ''plugin_id'', ''tool_name'', ''target'', ''status'', ''created_at'', ''preset'', ''inputs_json'',
     ''command_used'', ''structured_json'']"

text \<open>The four download routes; \<open>generate\<close> makes the format, \<open>None\<close> is an exception. The audit record is
  written before the file name is built.\<close>

definition download_report ::
  "report_env \<Rightarrow> (dict \<Rightarrow> dict \<Rightarrow> string option) \<Rightarrow> string \<Rightarrow> string \<Rightarrow> string \<Rightarrow> dict list \<Rightarrow> audit_event list
     \<Rightarrow> download \<times> audit_event list" where
  "download_report e generate extension owner task_id tasks audit =
     (case find (\<lambda>r. jget r ''id'' = JStr task_id) tasks of
        None \<Rightarrow> (Report_Error 404, audit)
      | Some row \<Rightarrow>
         (if jget row ''owner_id'' \<noteq> JStr owner then (Report_Error 403, audit)
          else if jget row ''status'' \<notin> {JStr ''completed'', JStr ''failed''} then (Report_Error 400, audit)
          else
            let task_row = map (\<lambda>k. (k, jget row k)) report_columns;
                structured_data = (case jget row ''structured_json'' of
                    JStr s \<Rightarrow> (if s = [] then Some (JObj []) else loads (re_float e) s)
                  | v \<Rightarrow> (if truthy v then None else Some (JObj [])))
            in case Option.bind structured_data (\<lambda>v. generate task_row [(''structured'', v)]) of
                 None \<Rightarrow> (Report_Error 500, audit)
               | Some content \<Rightarrow>
                   (let audit' = audit @ [\<lparr>ev_type = ''report_downloaded'', ev_severity = ''info'', ev_task = Some task_id,
                          ev_plugin = text_value (jget row ''plugin_id'')\<rparr>]
                    in case build_report_filename e task_row extension of
                         None \<Rightarrow> (Report_Raises, audit')
                       | Some name \<Rightarrow> (Report content name, audit'))))"

subsection \<open>Lemmas\<close>

lemma sub_class: "sub_from (Cls p) (\<lambda>m. []) b 0 s = filter (\<lambda>c. \<not> p c) s"
  by (induction s arbitrary: b) (simp_all add: match_here_def)

lemma clean_text_clean: "list_all (\<lambda>c. \<not> control_char c) (clean_text e v)"
proof -
  have "set (py_strip (re_sub CONTROL_CHARS_RE (\<lambda>m. []) s)) \<subseteq> {c. \<not> control_char c}" for s
    using set_strip_by [of is_ws "re_sub CONTROL_CHARS_RE (\<lambda>m. []) s"]
    by (auto simp: py_strip_def re_sub_def CONTROL_CHARS_RE_def sub_class)
  then show ?thesis by (auto simp: clean_text_def list_all_iff)
qed

lemma or_text_simps: "or_text s t = [] \<longleftrightarrow> s = [] \<and> t = []" "list_all P s \<Longrightarrow> list_all P t \<Longrightarrow> list_all P (or_text s t)"
  by (auto simp: or_text_def)

lemma normalized_severity: "\<exists>s \<in> set SEVERITY_ORDER. jget (normalize_report_finding e item) ''severity'' = JStr s"
  by (simp add: normalize_report_finding_def Let_def jget_def SEVERITY_ORDER_def)

lemma payload_findings:
  assumes "build_report_payload e task result = Some p"
  obtains items where "rpt_findings p = map (normalize_report_finding e) items" "rpt_counts p = count_severities (rpt_findings p)"
  using assms by (auto simp: build_report_payload_def Let_def split: option.splits)

lemma count_fold:
  assumes "\<forall>f \<in> set fs. \<exists>s \<in> set (map fst counts). jget f ''severity'' = JStr s" and "distinct (map fst counts)"
  shows "map fst (foldl tally counts fs) = map fst counts
     \<and> map_of (foldl tally counts fs) s = map_option (\<lambda>n. n + length (filter (\<lambda>f. jget f ''severity'' = JStr s) fs)) (map_of counts s)"
  using assms
proof (induction fs arbitrary: counts)
  case (Cons f fs)
  then obtain t where t: "jget f ''severity'' = JStr t" "t \<in> set (map fst counts)" by auto
  define c where "c = aput t ((case map_of counts t of None \<Rightarrow> 0 | Some n \<Rightarrow> n) + 1) counts"
  have step: "tally counts f = c" using t(1) by (simp add: tally_def c_def)
  have keys: "map fst c = map fst counts" using t(2) akeys_aput [of t _ counts] by (auto simp: c_def akeys_def)
  have c: "\<forall>f \<in> set fs. \<exists>s \<in> set (map fst c). jget f ''severity'' = JStr s" "distinct (map fst c)"
    unfolding keys using Cons.prems by auto
  obtain n where n: "map_of counts t = Some n" using t(2) by (cases "map_of counts t") (auto simp: map_of_eq_None_iff)
  show ?case using Cons.IH [OF c] keys t(1) n by (auto simp: step c_def map_of_aput)
qed (simp add: option.map_ident)

text \<open>The loop over the findings: one rule per rule identifier, one result per finding.\<close>

definition sarif_inv :: "report_payload \<Rightarrow> dict list \<Rightarrow> json list \<times> (string \<times> nat) list \<times> json list \<Rightarrow> bool" where
  "sarif_inv payload fs st \<longleftrightarrow> (case st of (rules, indices, results) \<Rightarrow>
     \<exists>reps. rules = map sarif_rule reps \<and> indices = zip (map rule_id_of reps) [0..<length reps] \<and> distinct (map rule_id_of reps)
       \<and> set reps \<subseteq> set fs \<and> length results = length fs
       \<and> (\<forall>i < length fs. \<exists>j < length reps. results ! i = sarif_result payload j (fs ! i) \<and> rule_id_of (reps ! j) = rule_id_of (fs ! i)))"

lemma map_of_zip_upt:
  "distinct ks \<Longrightarrow> map_of (zip ks [0..<length ks]) k = Some j \<longleftrightarrow> j < length ks \<and> ks ! j = k"
  by (auto simp: map_of_zip_nth in_set_zip dest: map_of_SomeD intro!: map_of_is_SomeI)

lemma sarif_inv_step:
  assumes "sarif_inv payload fs st"
  shows "sarif_inv payload (fs @ [f]) (sarif_step payload f st)"
proof -
  obtain rules indices results where st: "st = (rules, indices, results)" by (cases st)
  obtain reps where r: "rules = map sarif_rule reps" "indices = zip (map rule_id_of reps) [0..<length reps]" "distinct (map rule_id_of reps)"
      "set reps \<subseteq> set fs" "length results = length fs"
      "\<forall>i < length fs. \<exists>j < length reps. results ! i = sarif_result payload j (fs ! i) \<and> rule_id_of (reps ! j) = rule_id_of (fs ! i)"
    using assms unfolding sarif_inv_def st by auto
  have at: "map_of indices k = Some j \<longleftrightarrow> j < length reps \<and> rule_id_of (reps ! j) = k" for k j
    using map_of_zip_upt [OF r(3), of k j] r(2) by auto
  show ?thesis
  proof (cases "map_of indices (rule_id_of f)")
    case None
    have new: "rule_id_of f \<notin> set (map rule_id_of reps)"
      using None at [of "rule_id_of f"] by (metis in_set_conv_nth length_map nth_map option.distinct(1))
    have "sarif_step payload f st = (rules @ [sarif_rule f], indices @ [(rule_id_of f, length reps)], results @ [sarif_result payload (length reps) f])"
      using None r(1) by (simp add: sarif_step_def st Let_def map_add_def)
    moreover have "zip (map rule_id_of reps @ [rule_id_of f]) ([0..<length reps] @ [length reps]) = indices @ [(rule_id_of f, length reps)]"
      using r(2) by simp
    ultimately show ?thesis
      unfolding sarif_inv_def using r new
      by (auto intro!: exI [of _ "reps @ [f]"] simp: nth_append less_Suc_eq)
         (metis less_SucI nth_append)+
  next
    case (Some j)
    then have j: "j < length reps" "rule_id_of (reps ! j) = rule_id_of f" using at by simp_all
    have "sarif_step payload f st = (rules, indices, results @ [sarif_result payload j f])"
      using Some by (simp add: sarif_step_def st Let_def)
    then show ?thesis
      unfolding sarif_inv_def using r j by (auto intro!: exI [of _ reps] simp: nth_append less_Suc_eq)
  qed
qed

lemma sarif_inv_run: "sarif_inv payload (rpt_findings payload) (sarif_run payload)"
proof -
  have "sarif_inv payload fs (fold (sarif_step payload) fs ([], [], []))" for fs
    by (induction fs rule: rev_induct) (simp_all add: sarif_inv_step, simp add: sarif_inv_def)
  then show ?thesis by (simp add: sarif_run_def)
qed

text \<open>Rule identifiers are lower-case words joined by single hyphens.\<close>

definition rule_word :: "string \<Rightarrow> bool" where
  "rule_word s \<longleftrightarrow> s \<noteq> [] \<and> list_all (\<lambda>c. is_lower c \<or> is_digit c \<or> c = CHR ''-'') s \<and> hd s \<noteq> CHR ''-'' \<and> last s \<noteq> CHR ''-''
     \<and> successively (\<lambda>a b. \<not> (a = CHR ''-'' \<and> b = CHR ''-'')) s"

lemma one_hyphen_set: "set (one_hyphen s) = set s"
  by (induction s rule: one_hyphen.induct) auto

lemma one_hyphen_hd: "s \<noteq> [] \<Longrightarrow> one_hyphen s \<noteq> [] \<and> hd (one_hyphen s) = hd s"
  by (induction s rule: one_hyphen.induct) auto

lemma one_hyphen_single: "successively (\<lambda>a b. \<not> (a = CHR ''-'' \<and> b = CHR ''-'')) (one_hyphen s)"
proof (induction s rule: one_hyphen.induct)
  case (1 a b s)
  then show ?case using one_hyphen_hd [of "b # s"] by (auto simp: successively_Cons)
qed simp_all

lemma successively_strip: "successively P s \<Longrightarrow> successively P (strip_by q s)"
proof -
  have drop: "successively P (dropWhile q s)" if "successively P s" for P and s :: string
    by (metis that successively_append_iff takeWhile_dropWhile_id)
  assume "successively P s"
  then have "successively (\<lambda>x y. P y x) (rev (dropWhile q s))" using drop by (simp add: successively_rev)
  from drop [OF this] show ?thesis by (simp add: strip_by_def rstrip_by_def lstrip_by_def successively_rev)
qed

lemma slug_word:
  assumes "list_all (\<lambda>c. is_lower c \<or> is_digit c \<or> c = CHR ''-'') s" and "rule_word fallback"
  shows "rule_word (or_text (strip_by (\<lambda>c. c = CHR ''-'') (one_hyphen s)) fallback)"
proof (cases "strip_by (\<lambda>c. c = CHR ''-'') (one_hyphen s) = []")
  case True
  then show ?thesis using assms(2) by (simp add: or_text_def)
next
  case False
  let ?t = "strip_by (\<lambda>c. c = CHR ''-'') (one_hyphen s)"
  have "set ?t \<subseteq> set s" using set_strip_by [of "\<lambda>c. c = CHR ''-''" "one_hyphen s"] by (simp add: one_hyphen_set)
  then have "rule_word ?t"
    using assms(1) False strip_by_hd [of "\<lambda>c. c = CHR ''-''" "one_hyphen s"] strip_by_last [of "\<lambda>c. c = CHR ''-''" "one_hyphen s"]
      successively_strip [OF one_hyphen_single] by (auto simp: rule_word_def list_all_iff)
  then show ?thesis using False by (simp add: or_text_def)
qed

lemma lower_or_digit: "is_alnum c \<Longrightarrow> is_lower (lower_char c) \<or> is_digit (lower_char c)"
  by (auto simp: is_alnum_def lower_char_def is_lower_def is_digit_def is_upper_def char_nat_def Let_def take_bit_eq_mod)

lemma rule_id_word: "rule_word (rule_id_of finding)"
proof -
  have "rule_word ''security-finding''"
    by (simp add: rule_word_def is_lower_def is_digit_def char_nat_def)
  moreover have "list_all (\<lambda>c. is_lower c \<or> is_digit c \<or> c = CHR ''-'')
      (py_lower (map (\<lambda>c. if is_alnum c \<or> c = CHR ''-'' then c else CHR ''-'') s))" for s
  proof -
    have "lower_char (CHR ''-'') = CHR ''-''" by (simp add: lower_char_def is_upper_def char_nat_def)
    then show ?thesis using lower_or_digit by (auto simp: list_all_iff py_lower_def)
  qed
  ultimately show ?thesis unfolding rule_id_of_def sanitize_rule_id_def Let_def by (intro slug_word)
qed

subsection \<open>Properties\<close>

text \<open>Every finding of every report has one of the five severities, a title and a category, and no control
  character or terminal escape in its title, category and identifiers, whatever the parser stored;
  and the counts of a report are, level by level, those of its findings.\<close>

theorem report_findings_typed:
  assumes "build_report_payload e task result = Some p"
  shows "(\<forall>f \<in> set (rpt_findings p).
       (\<exists>s \<in> set SEVERITY_ORDER. jget f ''severity'' = JStr s)
     \<and> (\<forall>k \<in> {''id'', ''title'', ''category'', ''cve'', ''cwe'', ''cpe'', ''validation_method'', ''service_fingerprint''}.
          \<exists>t. jget f k = JStr t \<and> list_all (\<lambda>c. \<not> control_char c) t)
     \<and> jget f ''title'' \<noteq> JStr [] \<and> jget f ''category'' \<noteq> JStr [])
   \<and> map fst (rpt_counts p) = SEVERITY_ORDER
   \<and> (\<forall>s \<in> set SEVERITY_ORDER. map_of (rpt_counts p) s = Some (length (filter (\<lambda>f. jget f ''severity'' = JStr s) (rpt_findings p))))"
proof -
  obtain items where items: "rpt_findings p = map (normalize_report_finding e) items" "rpt_counts p = count_severities (rpt_findings p)"
    using payload_findings [OF assms] .
  have "list_all (\<lambda>c. \<not> control_char c) ''Untitled finding''" "list_all (\<lambda>c. \<not> control_char c) ''General''"
    by (simp_all add: control_char_def char_nat_def)
  note clean = clean_text_clean or_text_simps(2) [OF clean_text_clean this(1)] or_text_simps(2) [OF clean_text_clean this(2)]
  have "\<forall>k \<in> {''id'', ''title'', ''category'', ''cve'', ''cwe'', ''cpe'', ''validation_method'', ''service_fingerprint''}.
          \<exists>t. jget (normalize_report_finding e item) k = JStr t \<and> list_all (\<lambda>c. \<not> control_char c) t" for item
    by (simp add: normalize_report_finding_def Let_def jget_def clean)
  moreover have "jget (normalize_report_finding e item) ''title'' \<noteq> JStr []" "jget (normalize_report_finding e item) ''category'' \<noteq> JStr []" for item
    by (simp_all add: normalize_report_finding_def Let_def jget_def or_text_simps)
  moreover have start: "map fst (map (\<lambda>s. (s, 0 :: nat)) SEVERITY_ORDER) = SEVERITY_ORDER" "distinct SEVERITY_ORDER"
    by (simp_all add: comp_def SEVERITY_ORDER_def)
  moreover have "map_of (map (\<lambda>s. (s, 0 :: nat)) SEVERITY_ORDER) s = Some 0" if "s \<in> set SEVERITY_ORDER" for s
    using that by (auto simp: SEVERITY_ORDER_def)
  moreover have "\<forall>f \<in> set (rpt_findings p). \<exists>s \<in> set SEVERITY_ORDER. jget f ''severity'' = JStr s"
    using normalized_severity by (auto simp: items(1))
  moreover note count_fold [of "rpt_findings p" "map (\<lambda>s. (s, 0)) SEVERITY_ORDER", unfolded start(1)]
  ultimately show ?thesis unfolding items(2) count_severities_def by (auto simp: items(1))
qed

text \<open>C37: Reading a CSV report back gives the header and one row of thirteen fields per finding, with the
  texts of the finding, whatever separators, quotes and line breaks are in them.\<close>

theorem csv_report_reads_back:
  assumes "generate_csv_report e task result = Some out"
  shows "\<exists>p. build_report_payload e task result = Some p
     \<and> read_csv out = csv_header # map (csv_row e p) (rpt_findings p)
     \<and> (\<forall>f \<in> set (rpt_findings p). length (csv_row e p f) = length csv_header
          \<and> csv_row e p f ! 0 = cell e (jget f ''severity'') \<and> csv_row e p f ! 1 = cell e (jget f ''title'')
          \<and> csv_row e p f ! 10 = cell e (jget f ''description''))"
proof -
  obtain p where p: "build_report_payload e task result = Some p"
      and out: "out = concat (map writerow (csv_header # map (csv_row e p) (rpt_findings p)))"
    using assms by (auto simp: generate_csv_report_def comp_def split: option.splits)
  have "read_csv out = csv_header # map (csv_row e p) (rpt_findings p)"
    unfolding out by (rule read_rows) (simp add: csv_header_def csv_row_def)
  then show ?thesis using p by (auto simp: csv_row_def csv_header_def)
qed

text \<open>The rules and the results of a SARIF document.\<close>

definition run_of :: "json \<Rightarrow> dict" where
  "run_of doc = (case doc of JObj d \<Rightarrow> (case jget d ''runs'' of JList (JObj r # rest) \<Rightarrow> r | _ \<Rightarrow> []) | _ \<Rightarrow> [])"

definition dict_at :: "dict \<Rightarrow> string \<Rightarrow> dict" where
  "dict_at d k = (case jget d k of JObj x \<Rightarrow> x | _ \<Rightarrow> [])"

definition doc_rules :: "json \<Rightarrow> json list" where
  "doc_rules doc = list_under (dict_at (dict_at (run_of doc) ''tool'') ''driver'') ''rules''"

definition doc_results :: "json \<Rightarrow> json list" where
  "doc_results doc = list_under (run_of doc) ''results''"

definition key_of :: "string \<Rightarrow> json \<Rightarrow> json" where
  "key_of k v = (case v of JObj d \<Rightarrow> jget d k | _ \<Rightarrow> JNull)"

text \<open>C38: A SARIF report has one result per finding, in order, and one rule per rule identifier: the index of
  a result leads to the rule with its identifier, no identifier is used by two rules, and every
  identifier is made of lower-case letters, digits and single inner hyphens. The level is an error
  exactly for critical and high findings, a warning for medium ones and a note for the rest.\<close>

theorem sarif_report_linked:
  assumes "generate_sarif_report e version task result = Some doc"
  shows "\<exists>p. build_report_payload e task result = Some p \<and> length (doc_results doc) = length (rpt_findings p)
     \<and> distinct (map (key_of ''id'') (doc_rules doc))
     \<and> (\<forall>r \<in> set (doc_rules doc). \<exists>w. key_of ''id'' r = JStr w \<and> rule_word w)
     \<and> (\<forall>i < length (rpt_findings p). \<exists>j < length (doc_rules doc).
          key_of ''ruleIndex'' (doc_results doc ! i) = JInt (int j)
        \<and> key_of ''ruleId'' (doc_results doc ! i) = key_of ''id'' (doc_rules doc ! j)
        \<and> key_of ''level'' (doc_results doc ! i) = JStr
            (if jget (rpt_findings p ! i) ''severity'' \<in> {JStr ''CRITICAL'', JStr ''HIGH''} then ''error''
             else if jget (rpt_findings p ! i) ''severity'' = JStr ''MEDIUM'' then ''warning'' else ''note''))"
proof -
  obtain p rules indices results where p: "build_report_payload e task result = Some p" "sarif_run p = (rules, indices, results)"
      and doc: "doc_rules doc = rules" "doc_results doc = results"
    using assms by (auto simp: generate_sarif_report_def doc_rules_def doc_results_def run_of_def dict_at_def list_under_def jget_def
        split: option.splits prod.splits)
  obtain reps where r: "rules = map sarif_rule reps" "distinct (map rule_id_of reps)" "length results = length (rpt_findings p)"
      "\<forall>i < length (rpt_findings p). \<exists>j < length reps. results ! i = sarif_result p j (rpt_findings p ! i)
         \<and> rule_id_of (reps ! j) = rule_id_of (rpt_findings p ! i)"
    using sarif_inv_run [of p] unfolding p(2) sarif_inv_def by auto
  have rule: "key_of ''id'' (sarif_rule f) = JStr (rule_id_of f)" for f by (simp add: key_of_def sarif_rule_def Let_def jget_def)
  have res: "key_of ''ruleIndex'' (sarif_result p j f) = JInt (int j)" "key_of ''ruleId'' (sarif_result p j f) = JStr (rule_id_of f)"
      "key_of ''level'' (sarif_result p j f) = JStr (case jget f ''severity'' of JStr s \<Rightarrow> sarif_level s | _ \<Rightarrow> ''note'')" for j f
    by (simp_all add: key_of_def sarif_result_def Let_def jget_def)
  have level: "(case v of JStr s \<Rightarrow> sarif_level s | _ \<Rightarrow> ''note'')
      = (if v \<in> {JStr ''CRITICAL'', JStr ''HIGH''} then ''error'' else if v = JStr ''MEDIUM'' then ''warning'' else ''note'')" for v
    by (cases v) (simp_all add: sarif_level_def)
  have "map (key_of ''id'') rules = map JStr (map rule_id_of reps)" by (simp add: r(1) rule comp_def)
  then have "distinct (map (key_of ''id'') rules)" using r(2) by (simp add: distinct_map inj_on_def)
  moreover have "\<forall>x \<in> set rules. \<exists>w. key_of ''id'' x = JStr w \<and> rule_word w" using rule_id_word by (auto simp: r(1) rule)
  moreover have "\<exists>j < length rules. key_of ''ruleIndex'' (results ! i) = JInt (int j) \<and> key_of ''ruleId'' (results ! i) = key_of ''id'' (rules ! j)
        \<and> key_of ''level'' (results ! i) = JStr
            (if jget (rpt_findings p ! i) ''severity'' \<in> {JStr ''CRITICAL'', JStr ''HIGH''} then ''error''
             else if jget (rpt_findings p ! i) ''severity'' = JStr ''MEDIUM'' then ''warning'' else ''note'')"
    if i: "i < length (rpt_findings p)" for i
  proof -
    obtain j where "j < length reps" "results ! i = sarif_result p j (rpt_findings p ! i)" "rule_id_of (reps ! j) = rule_id_of (rpt_findings p ! i)"
      using r(4) i by blast
    then show ?thesis by (intro exI [of _ j]) (simp add: r(1) res rule level)
  qed
  ultimately show ?thesis unfolding doc using p(1) r(3) by blast
qed

definition name_char :: "char \<Rightarrow> bool" where
  "name_char c \<longleftrightarrow> is_lower c \<or> is_digit c \<or> c \<in> set ''_-.''"

lemma slug_chars: "rule_word fallback \<Longrightarrow> list_all name_char (slugify_filename_part value fallback)"
proof -
  assume "rule_word fallback"
  then have "rule_word (slugify_filename_part value fallback)"
    unfolding slugify_filename_part_def by (intro slug_word) (auto simp: list_all_iff)
  then show ?thesis by (auto simp: rule_word_def list_all_iff name_char_def)
qed

lemma date_chars: "first_date s = Some d \<Longrightarrow> list_all name_char d"
proof (induction s)
  case (Cons c cs)
  have "list_all name_char t" if "is_date t" for t
    unfolding list_all_length using that by (auto simp: is_date_def list_all_iff name_char_def split: if_splits)
  then show ?case using Cons by (auto split: if_splits)
qed simp

text \<open>C39: A report is downloaded only by the owner of the task and only when the task is finished; its contents
  are generated from that row, and the download is recorded. The file name in the
  \<open>Content-Disposition\<close> header has letters, digits, underscores, hyphens and dots only, so neither the
  target nor the tool name can end the quoted name or the header. A refused request records nothing.\<close>

theorem report_download_safe:
  assumes "download_report e generate extension owner task_id tasks audit = (out, audit')"
    and "list_all name_char extension"
  shows "case out of
      Report content name \<Rightarrow>
        (\<exists>row \<in> set tasks. jget row ''id'' = JStr task_id \<and> jget row ''owner_id'' = JStr owner
           \<and> jget row ''status'' \<in> {JStr ''completed'', JStr ''failed''}
           \<and> (\<exists>v. generate (map (\<lambda>k. (k, jget row k)) report_columns) [(''structured'', v)] = Some content))
        \<and> list_all name_char name \<and> (\<exists>ev. audit' = audit @ [ev] \<and> ev_task ev = Some task_id)
    | Report_Error code \<Rightarrow> code \<in> {400, 403, 404, 500} \<and> audit' = audit
    | Report_Raises \<Rightarrow> \<exists>ev. audit' = audit @ [ev]"
proof -
  have words: "rule_word ''scan''" "rule_word ''target''" "list_all name_char ''report''" "list_all name_char ''secuscan_''"
    by (simp_all add: rule_word_def name_char_def is_lower_def char_nat_def)
  have name: "list_all name_char name" if "build_report_filename e row extension = Some name" for row name
  proof -
    have "list_all name_char (case first_date s of Some d \<Rightarrow> d | None \<Rightarrow> ''report'')" for s
      using date_chars words(3) by (simp split: option.split)
    then show ?thesis
      using that assms(2) words(4) slug_chars [OF words(1)] slug_chars [OF words(2)]
      by (auto simp: build_report_filename_def Let_def) (simp_all add: name_char_def)
  qed
  show ?thesis
    using assms(1) name
    by (auto simp: download_report_def Let_def bind_eq_Some_conv dest!: find_set split: option.splits if_splits) blast+
qed

definition example_report_env :: report_env where
  "example_report_env = \<lparr>re_repr = \<lambda>v. ''?'', re_utc = \<lambda>v. ''2024-01-02T03:04:05+00:00'', re_now = ''2024-01-02T03:04:05+00:00'', re_float = \<lambda>r. r\<rparr>"

definition example_scan_result :: dict where
  "example_scan_result = [(''findings'', JList
     [JObj [(''title'', JStr ''Open, redirect''), (''severity'', JStr ''high'')], JStr ''a note'', JObj [(''title'', JStr ''open redirect'')]])]"

lemma example_payload: "\<exists>p. build_report_payload example_report_env [] example_scan_result = Some p \<and> length (rpt_findings p) = 3"
  by (simp add: build_report_payload_def example_scan_result_def iterated_def jget_def Let_def)

theorem report_findings_typed_witness:
  "\<exists>p. build_report_payload example_report_env [] example_scan_result = Some p \<and> length (rpt_findings p) = 3
     \<and> map fst (rpt_counts p) = SEVERITY_ORDER"
proof -
  obtain p where p: "build_report_payload example_report_env [] example_scan_result = Some p" "length (rpt_findings p) = 3"
    using example_payload by blast
  then show ?thesis using report_findings_typed [OF p(1)] by blast
qed

theorem csv_report_reads_back_witness:
  "\<exists>out. generate_csv_report example_report_env [] example_scan_result = Some out \<and> length (read_csv out) = 4"
proof -
  obtain p where p: "build_report_payload example_report_env [] example_scan_result = Some p" "length (rpt_findings p) = 3"
    using example_payload by blast
  then obtain out where out: "generate_csv_report example_report_env [] example_scan_result = Some out"
    by (auto simp: generate_csv_report_def)
  then show ?thesis using csv_report_reads_back [OF out] p by auto
qed

theorem sarif_report_linked_witness:
  "\<exists>doc. generate_sarif_report example_report_env ''0.1.0'' [] example_scan_result = Some doc \<and> length (doc_results doc) = 3"
proof -
  obtain p where p: "build_report_payload example_report_env [] example_scan_result = Some p" "length (rpt_findings p) = 3"
    using example_payload by blast
  then obtain doc where doc: "generate_sarif_report example_report_env ''0.1.0'' [] example_scan_result = Some doc"
    by (cases "sarif_run p") (auto simp: generate_sarif_report_def)
  then show ?thesis using sarif_report_linked [OF doc] p by auto
qed

theorem report_download_safe_witness:
  "\<exists>audit'. download_report example_report_env (\<lambda>task result. Some ''body'') ''csv'' ''user:a'' ''1''
      [[(''id'', JStr ''1''), (''owner_id'', JStr ''user:a''), (''status'', JStr ''completed''), (''tool_name'', JStr ''Nmap''),
        (''target'', JStr ''10.0.0.5''), (''created_at'', JStr ''2024-01-02 03:04:05'')]] []
      = (Report ''body'' ''secuscan_nmap_10-0-0-5_2024-01-02.csv'', audit') \<and> length audit' = 1"
proof -
  have d: "download_report example_report_env (\<lambda>task result. Some ''body'') ''csv'' ''user:a'' ''1''
      [[(''id'', JStr ''1''), (''owner_id'', JStr ''user:a''), (''status'', JStr ''completed''), (''tool_name'', JStr ''Nmap''),
        (''target'', JStr ''10.0.0.5''), (''created_at'', JStr ''2024-01-02 03:04:05'')]] []
      = (Report ''body'' ''secuscan_nmap_10-0-0-5_2024-01-02.csv'',
         [\<lparr>ev_type = ''report_downloaded'', ev_severity = ''info'', ev_task = Some ''1'', ev_plugin = None\<rparr>])"
    by code_simp
  have "list_all name_char ''csv''" by (simp add: name_char_def is_lower_def char_nat_def)
  from report_download_safe [OF d this] show ?thesis unfolding d by auto
qed

text \<open>A host with a port is taken for a file with a line number.\<close>

lemma host_port_as_line:
  "sarif_location ''10.0.0.5:443'' = JObj [(''physicalLocation'', JObj
     [(''artifactLocation'', JObj [(''uri'', JStr ''10.0.0.5'')]), (''region'', JObj [(''startLine'', JInt 443)])])]"
  by code_simp

text \<open>A cell that a spreadsheet takes for a formula is written as it is.\<close>

lemma formula_cell_unchanged: "csv_field ''=HYPERLINK(A1)'' = ''=HYPERLINK(A1)''"
  by code_simp

text \<open>The title is shown as stored where the description is redacted.\<close>

lemma title_not_redacted:
  assumes "clean_text e (JStr t) = t" and "t \<noteq> []"
  shows "jget (normalize_report_finding e (JObj [(''title'', JStr t), (''description'', JStr t)])) ''title'' = JStr t"
    and "jget (normalize_report_finding e (JObj [(''title'', JStr t), (''description'', JStr t)])) ''description'' = JStr (redact t)"
  using assms by (simp_all add: normalize_report_finding_def Let_def jget_def or_text_def)

end
