(* ===== verification/Manifest_Validator.thy ===== *)
theory Manifest_Validator
  imports Plugin_Commands Json_Text
begin

text \<open>
  The validator of plugin manifests, \<open>backend/secuscan/plugin_validator.py\<close>, used by the contributor
  scripts. A check gives the paths of its errors (the message texts are left out), \<open>None\<close> is an
  exception that leaves the validator: a missing attribute, an iteration over a number or null, a
  container looked up in a set. Identifiers are compared as JSON values.
\<close>

subsection \<open>Constants\<close>

definition VALID_ENGINE_TYPES :: "string list" where
  "VALID_ENGINE_TYPES = [''cli'', ''python'', ''docker'']"

definition VALID_SAFETY_LEVELS :: "string list" where
  "VALID_SAFETY_LEVELS = [''safe'', ''intrusive'', ''exploit'']"

definition VALID_FIELD_TYPES :: "string list" where
  "VALID_FIELD_TYPES = [''string'', ''integer'', ''text'', ''number'', ''boolean'', ''select'', ''multiselect'', ''textarea'']"

definition VALID_PARSER_TYPES :: "string list" where
  "VALID_PARSER_TYPES = [''json'', ''text'', ''custom'', ''none'']"

definition VALID_CATEGORIES :: "string list" where
  "VALID_CATEGORIES = [''recon'', ''vulnerability'', ''web'', ''exploit'', ''network'', ''expert'', ''code'', ''forensics'', ''utils'',
     ''execution'', ''security'', ''robots'']"

definition REQUIRED_TOP_LEVEL_FIELDS :: "string list" where
  "REQUIRED_TOP_LEVEL_FIELDS = [''id'', ''name'', ''description'', ''version'', ''category'', ''icon'', ''engine'', ''command_template'',
     ''fields'', ''output'', ''safety'', ''checksum'']"

subsection \<open>Values\<close>

text \<open>A set member: lists and mappings have no hash.\<close>

definition hashable :: "json \<Rightarrow> bool" where
  "hashable v = (case v of JList vs \<Rightarrow> False | JObj d \<Rightarrow> False | _ \<Rightarrow> True)"

definition member_of :: "string list \<Rightarrow> json \<Rightarrow> bool option" where
  "member_of names v = (if hashable v then Some (v \<in> JStr ` set names) else None)"

text \<open>What iterating over \<open>data.get("fields", [])\<close> gives.\<close>

definition field_items :: "dict \<Rightarrow> json list option" where
  "field_items data = (case jget_or data ''fields'' (JList []) of
       JList vs \<Rightarrow> Some vs
     | JObj d \<Rightarrow> Some (map (\<lambda>kv. JStr (fst kv)) d)
     | JStr s \<Rightarrow> Some (map (\<lambda>c. JStr [c]) s)
     | _ \<Rightarrow> None)"

definition index_path :: "string \<Rightarrow> nat \<Rightarrow> string" where
  "index_path name i = name @ ''['' @ nat_str i @ '']''"

definition err_if :: "bool \<Rightarrow> string \<Rightarrow> string list" where
  "err_if b path = (if b then [path] else [])"

subsection \<open>The checks\<close>

definition check_required_fields :: "dict \<Rightarrow> string list" where
  "check_required_fields data =
     filter (\<lambda>key. map_of data key = None \<or> jget data key \<in> {JNull, JStr [], JList [], JObj []}) REQUIRED_TOP_LEVEL_FIELDS"

definition check_category :: "dict \<Rightarrow> string list option" where
  "check_category data =
     (let cat = jget data ''category''
      in if \<not> truthy cat then Some []
         else map_option (\<lambda>known. err_if (\<not> known) ''category'') (member_of VALID_CATEGORIES cat))"

definition check_engine :: "dict \<Rightarrow> string list option" where
  "check_engine data =
     (case jget data ''engine'' of
        JObj engine \<Rightarrow>
          (let engine_type = jget engine ''type''
           in map_option (\<lambda>known. err_if (\<not> known) ''engine.type''
                 @ err_if (engine_type = JStr ''cli'' \<and> \<not> truthy (jget engine ''binary'')) ''engine.binary''
                 @ err_if (engine_type = JStr ''docker'' \<and> \<not> truthy (jget engine ''image'')) ''engine.image'')
               (member_of VALID_ENGINE_TYPES engine_type))
      | _ \<Rightarrow> Some [''engine''])"

text \<open>The names that \<open>\{(\w+)(?::[^}]*)?\}\<close> finds; the rest after a match, or the text after the brace.\<close>

definition match_placeholder :: "string \<Rightarrow> (string \<times> string) option" where
  "match_placeholder cs =
     (let name = takeWhile is_word cs; r = dropWhile is_word cs
      in if name = [] then None
         else if starts_with r ''}'' then Some (name, tl r)
         else if starts_with r '':''
         then (let r' = dropWhile (\<lambda>c. c \<noteq> CHR ''}'') (tl r) in if r' \<noteq> [] then Some (name, tl r') else None)
         else None)"

lemma match_placeholder_shorter: "match_placeholder cs = Some (name, rest) \<Longrightarrow> length rest \<le> length cs"
  using length_dropWhile_le [of is_word cs]
    length_dropWhile_le [of "\<lambda>c. c \<noteq> CHR ''}''" "tl (dropWhile is_word cs)"]
  by (auto simp: match_placeholder_def Let_def split: if_splits)

function placeholders :: "string \<Rightarrow> string list" where
  "placeholders [] = []"
| "placeholders (c # cs) =
     (if c = CHR ''{''
      then (case match_placeholder cs of
              Some (name, rest) \<Rightarrow> name # placeholders rest
            | None \<Rightarrow> placeholders cs)
      else placeholders cs)"
  by pat_completeness auto
termination
  by (relation "measure length") (auto dest!: match_placeholder_shorter)

text \<open>The declared identifiers: \<open>f["id"]\<close> of the mappings that have a true one.\<close>

definition known_field_ids :: "dict \<Rightarrow> json list option" where
  "known_field_ids data = Option.bind (field_items data) (\<lambda>items.
     let ids = concat (map (\<lambda>f. case f of JObj d \<Rightarrow> if truthy (jget d ''id'') then [jget d ''id''] else [] | _ \<Rightarrow> []) items)
     in if list_all hashable ids then Some ids else None)"

definition token_errors :: "json list \<Rightarrow> nat \<Rightarrow> json \<Rightarrow> string list" where
  "token_errors known i token =
     (case token of
        JStr t \<Rightarrow> if starts_with t ''--if:'' then []
                 else concat (map (\<lambda>name. err_if (known \<noteq> [] \<and> JStr name \<notin> set known) (index_path ''command_template'' i)) (placeholders t))
      | _ \<Rightarrow> [index_path ''command_template'' i])"

definition check_command_template :: "dict \<Rightarrow> string list option" where
  "check_command_template data =
     (case jget data ''command_template'' of
        JList template \<Rightarrow> map_option (\<lambda>known. concat (map (\<lambda>(i, t). token_errors known i t) (enumerate 0 template))) (known_field_ids data)
      | _ \<Rightarrow> Some [''command_template''])"

definition field_id_errors :: "string \<Rightarrow> json \<Rightarrow> json list \<Rightarrow> (string list \<times> json list) option" where
  "field_id_errors prefix fid seen_ids =
     (if \<not> truthy fid then Some ([prefix @ ''.id''], seen_ids)
      else if \<not> hashable fid then None
      else if fid \<in> set seen_ids then Some ([prefix @ ''.id''], seen_ids)
      else Some ([], fid # seen_ids))"

definition check_manifest_field :: "nat \<Rightarrow> json \<Rightarrow> json list \<Rightarrow> (string list \<times> string list \<times> json list) option" where
  "check_manifest_field i f seen_ids =
     (let prefix = index_path ''fields'' i
      in case f of
           JObj d \<Rightarrow>
             Option.bind (field_id_errors prefix (jget d ''id'') seen_ids) (\<lambda>(id_errors, seen').
               map_option (\<lambda>known.
                   (id_errors @ err_if (\<not> truthy (jget d ''label'')) (prefix @ ''.label'')
                      @ err_if (\<not> known) (prefix @ ''.type'')
                      @ err_if (jget d ''type'' \<in> {JStr ''select'', JStr ''multiselect''}
                              \<and> (case jget d ''options'' of JList (x # xs) \<Rightarrow> False | _ \<Rightarrow> True)) (prefix @ ''.options''),
                    err_if (\<not> truthy (jget d ''help'')) (prefix @ ''.help''), seen'))
                 (member_of VALID_FIELD_TYPES (jget d ''type'')))
         | _ \<Rightarrow> Some ([prefix], [], seen_ids))"

fun check_field_list :: "nat \<Rightarrow> json list \<Rightarrow> json list \<Rightarrow> (string list \<times> string list) option" where
  "check_field_list i [] seen_ids = Some ([], [])"
| "check_field_list i (f # fs) seen_ids =
     Option.bind (check_manifest_field i f seen_ids) (\<lambda>(errs, warns, seen').
       map_option (\<lambda>(errs', warns'). (errs @ errs', warns @ warns')) (check_field_list (Suc i) fs seen'))"

definition check_fields :: "dict \<Rightarrow> (string list \<times> string list) option" where
  "check_fields data =
     (case jget data ''fields'' of
        JList items \<Rightarrow> check_field_list 0 items []
      | _ \<Rightarrow> Some ([''fields''], []))"

definition check_output :: "dict \<Rightarrow> string list option" where
  "check_output data =
     (case jget data ''output'' of
        JObj out \<Rightarrow> map_option (\<lambda>known. err_if (\<not> known) ''output.parser'') (member_of VALID_PARSER_TYPES (jget out ''parser''))
      | _ \<Rightarrow> Some [''output''])"

definition check_safety :: "dict \<Rightarrow> string list option" where
  "check_safety data =
     (case jget data ''safety'' of
        JObj safety \<Rightarrow>
          map_option (\<lambda>known. err_if (\<not> known) ''safety.level''
              @ err_if (truthy (jget safety ''requires_consent'') \<and> \<not> truthy (jget safety ''consent_message'')) ''safety.consent_message'')
            (member_of VALID_SAFETY_LEVELS (jget safety ''level''))
      | _ \<Rightarrow> Some [''safety''])"

text \<open>The set of \<open>field.get("id")\<close>, \<open>None\<close> included.\<close>

definition declared_ids :: "dict \<Rightarrow> json list option" where
  "declared_ids data = Option.bind (field_items data) (\<lambda>items.
     let ids = concat (map (\<lambda>f. case f of JObj d \<Rightarrow> [jget d ''id''] | _ \<Rightarrow> []) items)
     in if list_all hashable ids then Some ids else None)"

definition check_rule :: "json list \<Rightarrow> string \<times> json \<Rightarrow> string list option" where
  "check_rule field_ids kv =
     (let prefix = ''validation.'' @ fst kv
      in case snd kv of
           JObj rule \<Rightarrow>
             (let required = err_if (map_of rule ''required'' \<noteq> None \<and> (case jget rule ''required'' of JBool b \<Rightarrow> False | _ \<Rightarrow> True)) (prefix @ ''.required'')
              in case jget rule ''mutually_exclusive'' of
                   JNull \<Rightarrow> Some required
                 | JList members \<Rightarrow>
                     if list_all hashable members
                     then Some (required @ err_if (length members < 2) (prefix @ ''.mutually_exclusive'')
                        @ concat (map (\<lambda>fid. err_if (fid \<notin> set field_ids) (prefix @ ''.mutually_exclusive'')) members))
                     else None
                 | _ \<Rightarrow> Some (required @ [prefix @ ''.mutually_exclusive'']))
         | _ \<Rightarrow> Some [prefix])"

fun all_of :: "'a list option list \<Rightarrow> 'a list option" where
  "all_of [] = Some []"
| "all_of (x # xs) = Option.bind x (\<lambda>a. map_option (\<lambda>b. a @ b) (all_of xs))"

definition check_validation_block :: "dict \<Rightarrow> string list option" where
  "check_validation_block data =
     (case jget data ''validation'' of
        JNull \<Rightarrow> Some []
      | JObj rules \<Rightarrow> Option.bind (declared_ids data) (\<lambda>ids. all_of (map (check_rule ids) rules))
      | _ \<Rightarrow> Some [''validation''])"

definition check_checksum :: "dict \<Rightarrow> string list" where
  "check_checksum data =
     (let checksum = jget data ''checksum''
      in if \<not> truthy checksum then [''checksum'']
         else err_if (case checksum of JStr s \<Rightarrow> length s \<noteq> 64 | _ \<Rightarrow> True) ''checksum'')"

definition check_dependencies :: "dict \<Rightarrow> string list" where
  "check_dependencies data =
     (case jget data ''dependencies'' of
        JNull \<Rightarrow> []
      | JObj deps \<Rightarrow>
          (case jget deps ''binaries'' of
             JNull \<Rightarrow> []
           | JList bs \<Rightarrow> concat (map (\<lambda>(i, b). err_if (case b of JStr s \<Rightarrow> py_strip s = [] | _ \<Rightarrow> True) (index_path ''dependencies.binaries'' i)) (enumerate 0 bs))
           | _ \<Rightarrow> [''dependencies.binaries''])
          @ err_if (case jget deps ''python_packages'' of JNull \<Rightarrow> False | JList ps \<Rightarrow> False | _ \<Rightarrow> True) ''dependencies.python_packages''
      | _ \<Rightarrow> [''dependencies''])"

definition check_custom_parser :: "bool \<Rightarrow> dict \<Rightarrow> string list" where
  "check_custom_parser parser_exists data =
     (case jget data ''output'' of
        JObj out \<Rightarrow> err_if (jget out ''parser'' = JStr ''custom'' \<and> \<not> parser_exists) ''output.parser''
      | _ \<Rightarrow> [])"

subsection \<open>The validator\<close>

text \<open>A plugin directory: its name, the text of \<open>metadata.json\<close> if it exists, and whether \<open>parser.py\<close> does.\<close>

record plugin_dir =
  dir_name :: string
  metadata_text :: "string option"
  has_parser :: bool

record validation_result =
  vr_plugin :: json
  vr_errors :: "string list"
  vr_warnings :: "string list"

definition valid_result :: "validation_result \<Rightarrow> bool" where
  "valid_result r = (length (vr_errors r) = 0)"

definition validate_manifest :: "(rat \<Rightarrow> rat) \<Rightarrow> plugin_dir \<Rightarrow> validation_result option" where
  "validate_manifest fl dir =
     (let early = Some \<lparr>vr_plugin = JStr (dir_name dir), vr_errors = [''metadata.json''], vr_warnings = []\<rparr>
      in case metadata_text dir of
           None \<Rightarrow> early
         | Some raw \<Rightarrow>
             (case loads fl raw of
                None \<Rightarrow> early
              | Some (JObj data) \<Rightarrow>
                  Option.bind (all_of [Some (check_required_fields data), check_category data, check_engine data, check_command_template data])
                    (\<lambda>first_errors. Option.bind (check_fields data) (\<lambda>(field_errors, warnings).
                       map_option (\<lambda>later_errors.
                           \<lparr>vr_plugin = jor (jget data ''id'') (JStr (dir_name dir)), vr_errors = first_errors @ field_errors @ later_errors,
                            vr_warnings = warnings\<rparr>)
                         (all_of [check_output data, check_safety data, check_validation_block data, Some (check_checksum data),
                                  Some (check_dependencies data), Some (check_custom_parser (has_parser dir) data)])))
              | Some v \<Rightarrow> None))"

subsection \<open>Lemmas\<close>

lemma err_if_Nil [simp]: "err_if b p = [] \<longleftrightarrow> \<not> b"
  by (simp add: err_if_def)

lemma all_of_Cons_Nil: "all_of (x # xs) = Some [] \<longleftrightarrow> x = Some [] \<and> all_of xs = Some []"
  by (cases x; cases "all_of xs") auto

lemma all_of_map: "all_of (map f xs) = Some [] \<longleftrightarrow> (\<forall>x \<in> set xs. f x = Some [])"
proof (induction xs)
  case (Cons x xs)
  then show ?case using all_of_Cons_Nil [of "f x" "map f xs"] by simp
qed simp

lemma member_of_Some: "member_of names v = Some True \<longleftrightarrow> v \<in> JStr ` set names"
  by (auto simp: member_of_def hashable_def)

text \<open>The checks that pass, in the order of the code.\<close>

lemma valid_manifest_checks:
  assumes "validate_manifest fl dir = Some r" and "valid_result r"
  obtains raw data where "metadata_text dir = Some raw" "loads fl raw = Some (JObj data)" "check_required_fields data = []"
    "check_category data = Some []" "check_engine data = Some []" "check_command_template data = Some []"
    "check_fields data = Some ([], vr_warnings r)" "check_output data = Some []" "check_safety data = Some []"
    "check_validation_block data = Some []" "check_checksum data = []" "check_dependencies data = []"
    "check_custom_parser (has_parser dir) data = []"
proof -
  have "\<exists>raw data. metadata_text dir = Some raw \<and> loads fl raw = Some (JObj data)"
  proof (cases "metadata_text dir")
    case None
    then show ?thesis using assms by (auto simp: validate_manifest_def valid_result_def Let_def)
  next
    case (Some raw)
    show ?thesis
    proof (cases "loads fl raw")
      case None
      then show ?thesis using assms Some by (auto simp: validate_manifest_def valid_result_def Let_def)
    next
      case (Some v)
      then show ?thesis using assms \<open>metadata_text dir = Some raw\<close> by (cases v) (simp_all add: validate_manifest_def Let_def)
    qed
  qed
  then obtain raw data where raw: "metadata_text dir = Some raw" "loads fl raw = Some (JObj data)" by blast
  from assms raw obtain first_errors later_errors where
      "all_of [Some (check_required_fields data), check_category data, check_engine data, check_command_template data] = Some first_errors"
      "all_of [check_output data, check_safety data, check_validation_block data, Some (check_checksum data),
         Some (check_dependencies data), Some (check_custom_parser (has_parser dir) data)] = Some later_errors"
      "check_fields data = Some ([], vr_warnings r)" "first_errors = []" "later_errors = []"
    unfolding validate_manifest_def valid_result_def Let_def raw option.case json.case bind_eq_Some_conv map_option_eq_Some
    by (auto simp del: all_of.simps)
  then show ?thesis using that [OF raw] by (simp only: all_of_Cons_Nil option.inject)
qed

lemma check_field_list_ids:
  assumes "check_field_list i fs seen = Some ([], warns)" and "distinct seen"
  shows "\<exists>ds. fs = map JObj ds \<and> distinct (map (\<lambda>d. jget d ''id'') ds @ seen)
     \<and> (\<forall>d \<in> set ds. truthy (jget d ''id'') \<and> hashable (jget d ''id'') \<and> truthy (jget d ''label'')
          \<and> jget d ''type'' \<in> JStr ` set VALID_FIELD_TYPES
          \<and> (jget d ''type'' \<in> {JStr ''select'', JStr ''multiselect''} \<longrightarrow> (\<exists>x xs. jget d ''options'' = JList (x # xs))))"
  using assms
proof (induction fs arbitrary: i seen warns)
  case (Cons f fs)
  obtain w seen' w' where f: "check_manifest_field i f seen = Some ([], w, seen')" and fs: "check_field_list (Suc i) fs seen' = Some ([], w')"
    using Cons.prems(1) by (auto simp: bind_eq_Some_conv)
  obtain d where d: "f = JObj d" using f by (cases f) (simp_all add: check_manifest_field_def index_path_def)
  obtain known where k: "field_id_errors (index_path ''fields'' i) (jget d ''id'') seen = Some ([], seen')"
      "member_of VALID_FIELD_TYPES (jget d ''type'') = Some known" "known" "truthy (jget d ''label'')"
      "\<not> (jget d ''type'' \<in> {JStr ''select'', JStr ''multiselect''} \<and> (case jget d ''options'' of JList (x # xs) \<Rightarrow> False | _ \<Rightarrow> True))"
    using f unfolding d check_manifest_field_def Let_def json.case bind_eq_Some_conv
    by (auto simp del: member_of_def simp: map_option_eq_Some)
  have fid: "truthy (jget d ''id'')" "hashable (jget d ''id'')" "jget d ''id'' \<notin> set seen" "seen' = jget d ''id'' # seen"
    using k(1) by (auto simp: field_id_errors_def split: if_splits)
  have opts: "jget d ''type'' \<in> {JStr ''select'', JStr ''multiselect''} \<longrightarrow> (\<exists>x xs. jget d ''options'' = JList (x # xs))"
    using k(5) by (auto split: json.splits list.splits)
  have ty: "jget d ''type'' \<in> JStr ` set VALID_FIELD_TYPES" using k(2,3) member_of_Some by simp
  from Cons.IH [OF fs] obtain ds where ds: "fs = map JObj ds" "distinct (map (\<lambda>d. jget d ''id'') ds @ seen')"
      "\<forall>d \<in> set ds. truthy (jget d ''id'') \<and> hashable (jget d ''id'') \<and> truthy (jget d ''label'')
          \<and> jget d ''type'' \<in> JStr ` set VALID_FIELD_TYPES
          \<and> (jget d ''type'' \<in> {JStr ''select'', JStr ''multiselect''} \<longrightarrow> (\<exists>x xs. jget d ''options'' = JList (x # xs)))"
    using fid Cons.prems(2) by auto
  have "distinct (map (\<lambda>d. jget d ''id'') (d # ds) @ seen)" using ds(2) fid(4) by auto
  then show ?case using ds fid opts ty k(4) d by (intro exI [of _ "d # ds"]) simp
qed simp

text \<open>Every placeholder the renderer fills is one the validator looks up; the two expressions differ in empty defaults only.\<close>

lemma parse_token_plain: "CHR ''{'' \<notin> set u \<Longrightarrow> parse_token (u @ r) = map Text u @ parse_token r"
  by (induction u) auto

lemma parse_hole_match: "parse_hole cs = Some (Hole n d, rest) \<Longrightarrow> match_placeholder cs = Some (n, rest)"
  by (auto simp: parse_hole_def match_placeholder_def Let_def split: if_splits)

lemma match_without_hole:
  assumes "match_placeholder cs = Some (n, rest)" and "parse_hole cs = None"
  shows "\<exists>u. cs = u @ rest \<and> CHR ''{'' \<notin> set u"
proof -
  let ?r = "dropWhile is_word cs"
  have n: "n = takeWhile is_word cs" "n \<noteq> []" using assms(1) by (auto simp: match_placeholder_def Let_def split: if_splits)
  have "\<not> starts_with ?r ''}''" using assms(2) n by (auto simp: parse_hole_def Let_def)
  then have r: "starts_with ?r '':''" "dropWhile (\<lambda>c. c \<noteq> CHR ''}'') (tl ?r) \<noteq> []" "rest = tl (dropWhile (\<lambda>c. c \<noteq> CHR ''}'') (tl ?r))"
    using assms(1) by (auto simp: match_placeholder_def Let_def split: if_splits)
  obtain s where s: "?r = CHR '':'' # s" using r(1) by (cases ?r) auto
  have "takeWhile (\<lambda>c. c \<noteq> CHR ''}'') s = []"
  proof (rule ccontr)
    assume "takeWhile (\<lambda>c. c \<noteq> CHR ''}'') s \<noteq> []"
    then show False using assms(2) n r s by (auto simp: parse_hole_def Let_def split: if_splits)
  qed
  then have whole: "dropWhile (\<lambda>c. c \<noteq> CHR ''}'') s = s" by (metis append_Nil takeWhile_dropWhile_id)
  have "s \<noteq> []" "hd s = CHR ''}''" using r(2) s whole hd_dropWhile [of "\<lambda>c. c \<noteq> CHR ''}''" s] by simp_all
  moreover have "rest = tl s" using r(3) s whole by simp
  ultimately have "s = CHR ''}'' # rest" by (cases s) simp_all
  then have "cs = (n @ '':}'') @ rest" using n(1) s by (metis append.assoc append_Cons append_Nil takeWhile_dropWhile_id)
  moreover have "CHR ''{'' \<notin> set n" using n(1) by (auto dest: set_takeWhileD simp: is_word_def is_alnum_def is_digit_def is_upper_def is_lower_def char_nat_def)
  ultimately show ?thesis by (intro exI [of _ "n @ '':}''"]) auto
qed

lemma hole_is_placeholder: "Hole n d \<in> set (parse_token t) \<Longrightarrow> n \<in> set (placeholders t)"
proof (induction t rule: placeholders.induct)
  case (2 c cs)
  show ?case
  proof (cases "c = CHR ''{''")
    case False
    then show ?thesis using 2 by simp
  next
    case True
    show ?thesis
    proof (cases "match_placeholder cs")
      case None
      then have "parse_hole cs = None" using parse_hole_match by (cases "parse_hole cs") (auto simp: parse_hole_def Let_def split: if_splits)
      then show ?thesis using 2 True None by simp
    next
      case (Some m)
      obtain name rest where m: "m = (name, rest)" by (cases m)
      have IH: "Hole n d \<in> set (parse_token rest) \<Longrightarrow> n \<in> set (placeholders rest)" using "2.IH"(2) [OF True Some m [symmetric]] .
      show ?thesis
      proof (cases "parse_hole cs")
        case None
        then obtain u where u: "cs = u @ rest" "CHR ''{'' \<notin> set u" using match_without_hole Some m by blast
        have "parse_token cs = map Text u @ parse_token rest" using parse_token_plain u by simp
        then have "Hole n d \<in> set (parse_token rest)" using "2.prems" True None by auto
        then show ?thesis using IH True Some m by simp
      next
        case (Some h)
        obtain seg rest' where h: "h = (seg, rest')" by (cases h)
        then obtain n' d' where s: "seg = Hole n' d'" using Some by (auto simp: parse_hole_def Let_def split: if_splits)
        then have "name = n'" "rest = rest'" using parse_hole_match [of cs n' d' rest'] Some h \<open>match_placeholder cs = Some m\<close> m by auto
        then show ?thesis using "2.prems" IH True Some h s \<open>match_placeholder cs = Some m\<close> m by auto
      qed
    qed
  qed
qed simp

text \<open>What an accepted template depends on.\<close>

lemma accepted_template:
  assumes "check_command_template data = Some []" and "map_of data ''fields'' = Some (JList (map JObj fs))" and "fs \<noteq> []"
    and "\<forall>f \<in> set fs. truthy (jget f ''id'') \<and> hashable (jget f ''id'')"
  obtains template where "jget data ''command_template'' = JList (map JStr template)"
    and "\<And>t repr i1 i2. t \<in> set template \<Longrightarrow> \<not> starts_with t ''--if:'' \<Longrightarrow> \<forall>n. JStr n \<in> (\<lambda>f. jget f ''id'') ` set fs \<longrightarrow> map_of i1 n = map_of i2 n
       \<Longrightarrow> interpolate repr i1 t = interpolate repr i2 t"
proof -
  let ?ids = "map (\<lambda>f. jget f ''id'') fs"
  have "concat (map (\<lambda>f. case f of JObj d \<Rightarrow> if truthy (jget d ''id'') then [jget d ''id''] else [] | _ \<Rightarrow> []) (map JObj fs'))
      = map (\<lambda>f. jget f ''id'') fs'" if "set fs' \<subseteq> set fs" for fs'
    using that assms(4) by (induction fs') auto
  then have known: "known_field_ids data = Some ?ids"
    using assms(2,4) by (auto simp: known_field_ids_def field_items_def jget_or_def list_all_iff Let_def)
  obtain toks where toks: "jget data ''command_template'' = JList toks"
      "concat (map (\<lambda>(i, t). token_errors ?ids i t) (enumerate 0 toks)) = []"
    using assms(1) known by (auto simp: check_command_template_def split: json.splits)
  then have tok: "\<forall>t \<in> set toks. \<exists>i. token_errors ?ids i t = []"
  proof (intro ballI)
    fix t assume "t \<in> set toks"
    then obtain k where "k < length toks" "t = toks ! k" by (auto simp: in_set_conv_nth)
    then have "(k, t) \<in> set (enumerate 0 toks)" by (simp add: in_set_enumerate_eq)
    then show "\<exists>i. token_errors ?ids i t = []" using toks(2) by (auto simp: concat_eq_Nil_conv)
  qed
  have "\<exists>s. t = JStr s" if "t \<in> set toks" for t
    using tok that by (cases t) (auto simp: token_errors_def index_path_def)
  then obtain strings where strings: "toks = map JStr strings" by (metis ex_map_conv)
  show thesis
  proof (rule that)
    fix t :: string and repr and i1 i2 :: dict
    assume t: "t \<in> set strings" "\<not> starts_with t ''--if:''" and same: "\<forall>n. JStr n \<in> (\<lambda>f. jget f ''id'') ` set fs \<longrightarrow> map_of i1 n = map_of i2 n"
    show "interpolate repr i1 t = interpolate repr i2 t"
    proof (rule interpolate_local)
      fix n dflt assume "Hole n dflt \<in> set (parse_token t)"
      then have "n \<in> set (placeholders t)" by (rule hole_is_placeholder)
      moreover obtain i where "token_errors ?ids i (JStr t) = []" using tok t(1) strings by auto
      ultimately have "JStr n \<in> set ?ids" using t(2) assms(3) by (auto simp: token_errors_def)
      then show "map_of i1 n = map_of i2 n" using same by simp
    qed
  qed (use toks strings in simp)
qed

subsection \<open>Properties\<close>

text \<open>C40: A manifest the validator accepts is an object with at least one field, all with their own true
  identifier, a label and a known type, and with options where the user chooses; its engine is known
  and names its binary or image, a required consent has a text, the checksum has 64 characters and a
  custom parser exists. Every token of its command template is a string, and what the renderer makes of
  an unconditional one depends on the declared fields only: no placeholder is left that no field fills.\<close>

theorem valid_manifest_sound:
  assumes "validate_manifest fl dir = Some r" and "valid_result r"
  shows "\<exists>raw data fs template. metadata_text dir = Some raw \<and> loads fl raw = Some (JObj data)
     \<and> jget data ''fields'' = JList (map JObj fs) \<and> fs \<noteq> [] \<and> distinct (map (\<lambda>f. jget f ''id'') fs)
     \<and> (\<forall>f \<in> set fs. truthy (jget f ''id'') \<and> truthy (jget f ''label'') \<and> jget f ''type'' \<in> JStr ` set VALID_FIELD_TYPES
          \<and> (jget f ''type'' \<in> {JStr ''select'', JStr ''multiselect''} \<longrightarrow> (\<exists>x xs. jget f ''options'' = JList (x # xs))))
     \<and> (\<exists>engine. jget data ''engine'' = JObj engine \<and> jget engine ''type'' \<in> {JStr ''cli'', JStr ''python'', JStr ''docker''}
          \<and> (jget engine ''type'' = JStr ''cli'' \<longrightarrow> truthy (jget engine ''binary''))
          \<and> (jget engine ''type'' = JStr ''docker'' \<longrightarrow> truthy (jget engine ''image'')))
     \<and> (\<exists>safety. jget data ''safety'' = JObj safety \<and> (truthy (jget safety ''requires_consent'') \<longrightarrow> truthy (jget safety ''consent_message'')))
     \<and> (\<exists>s. jget data ''checksum'' = JStr s \<and> length s = 64)
     \<and> (\<exists>out. jget data ''output'' = JObj out \<and> (jget out ''parser'' = JStr ''custom'' \<longrightarrow> has_parser dir))
     \<and> jget data ''command_template'' = JList (map JStr template)
     \<and> (\<forall>t \<in> set template. \<not> starts_with t ''--if:'' \<longrightarrow>
          (\<forall>repr i1 i2. (\<forall>n. JStr n \<in> (\<lambda>f. jget f ''id'') ` set fs \<longrightarrow> map_of i1 n = map_of i2 n)
             \<longrightarrow> interpolate repr i1 t = interpolate repr i2 t))"
proof -
  obtain raw data where d: "metadata_text dir = Some raw" "loads fl raw = Some (JObj data)" and
      required: "check_required_fields data = []" and engine: "check_engine data = Some []" and
      template: "check_command_template data = Some []" and flds: "check_fields data = Some ([], vr_warnings r)" and
      out: "check_output data = Some []" and safety: "check_safety data = Some []" and checksum: "check_checksum data = []" and
      parser: "check_custom_parser (has_parser dir) data = []"
    using valid_manifest_checks [OF assms] by metis
  obtain items where items: "jget data ''fields'' = JList items" "check_field_list 0 items [] = Some ([], vr_warnings r)"
    using flds by (auto simp: check_fields_def split: json.splits)
  obtain fs where fs: "items = map JObj fs" "distinct (map (\<lambda>f. jget f ''id'') fs)"
      "\<forall>f \<in> set fs. truthy (jget f ''id'') \<and> hashable (jget f ''id'') \<and> truthy (jget f ''label'') \<and> jget f ''type'' \<in> JStr ` set VALID_FIELD_TYPES
          \<and> (jget f ''type'' \<in> {JStr ''select'', JStr ''multiselect''} \<longrightarrow> (\<exists>x xs. jget f ''options'' = JList (x # xs)))"
    using check_field_list_ids [OF items(2)] by auto
  have "items \<noteq> []" using required items(1) unfolding check_required_fields_def filter_empty_conv by (auto simp: REQUIRED_TOP_LEVEL_FIELDS_def)
  then have ne: "fs \<noteq> []" using fs(1) by simp
  have "map_of data ''fields'' = Some (JList (map JObj fs))" using items(1) fs(1) by (cases "map_of data ''fields''") (simp_all add: jget_def)
  then obtain template where tmpl: "jget data ''command_template'' = JList (map JStr template)"
    and local: "\<And>t repr i1 i2. t \<in> set template \<Longrightarrow> \<not> starts_with t ''--if:'' \<Longrightarrow> \<forall>n. JStr n \<in> (\<lambda>f. jget f ''id'') ` set fs \<longrightarrow> map_of i1 n = map_of i2 n
       \<Longrightarrow> interpolate repr i1 t = interpolate repr i2 t"
    using accepted_template [OF template _ ne] fs(3) by blast
  have "\<exists>engine. jget data ''engine'' = JObj engine \<and> jget engine ''type'' \<in> {JStr ''cli'', JStr ''python'', JStr ''docker''}
          \<and> (jget engine ''type'' = JStr ''cli'' \<longrightarrow> truthy (jget engine ''binary''))
          \<and> (jget engine ''type'' = JStr ''docker'' \<longrightarrow> truthy (jget engine ''image''))"
  proof (cases "jget data ''engine''")
    case (JObj eng)
    then have "member_of VALID_ENGINE_TYPES (jget eng ''type'') = Some True"
        "jget eng ''type'' = JStr ''cli'' \<longrightarrow> truthy (jget eng ''binary'')" "jget eng ''type'' = JStr ''docker'' \<longrightarrow> truthy (jget eng ''image'')"
      using engine by (auto simp: check_engine_def Let_def simp del: member_of_def)
    then show ?thesis using JObj unfolding member_of_Some VALID_ENGINE_TYPES_def by simp
  qed (use engine in \<open>simp_all add: check_engine_def\<close>)
  moreover have "\<exists>s. jget data ''safety'' = JObj s \<and> (truthy (jget s ''requires_consent'') \<longrightarrow> truthy (jget s ''consent_message''))"
    using safety by (cases "jget data ''safety''") (auto simp: check_safety_def)
  moreover have "\<exists>s. jget data ''checksum'' = JStr s \<and> length s = 64"
    using checksum by (cases "jget data ''checksum''") (auto simp: check_checksum_def Let_def split: if_splits)
  moreover have "\<exists>o'. jget data ''output'' = JObj o' \<and> (jget o' ''parser'' = JStr ''custom'' \<longrightarrow> has_parser dir)"
    using out parser by (cases "jget data ''output''") (auto simp: check_output_def check_custom_parser_def)
  moreover have "\<forall>f \<in> set fs. truthy (jget f ''id'') \<and> truthy (jget f ''label'') \<and> jget f ''type'' \<in> JStr ` set VALID_FIELD_TYPES
          \<and> (jget f ''type'' \<in> {JStr ''select'', JStr ''multiselect''} \<longrightarrow> (\<exists>x xs. jget f ''options'' = JList (x # xs)))"
    using fs(3) by blast
  moreover have "jget data ''fields'' = JList (map JObj fs)" using items(1) fs(1) by simp
  moreover have "\<forall>t \<in> set template. \<not> starts_with t ''--if:'' \<longrightarrow>
          (\<forall>repr i1 i2. (\<forall>n. JStr n \<in> (\<lambda>f. jget f ''id'') ` set fs \<longrightarrow> map_of i1 n = map_of i2 n)
             \<longrightarrow> interpolate repr i1 t = interpolate repr i2 t)"
    using local by blast
  ultimately show ?thesis using d ne fs(2) tmpl
    apply -
    apply (rule exI [of _ raw], rule exI [of _ data], rule exI [of _ fs], rule exI [of _ template])
    apply (intro conjI; assumption)
    done
qed

definition example_manifest :: dict where
  "example_manifest =
     [(''id'', JStr ''ping''), (''name'', JStr ''Ping''), (''description'', JStr ''d''), (''version'', JStr ''1''), (''category'', JStr ''network''),
      (''icon'', JStr ''i''), (''engine'', JObj [(''type'', JStr ''cli''), (''binary'', JStr ''ping'')]),
      (''command_template'', JList [JStr ''ping'', JStr ''{target}'']),
      (''fields'', JList [JObj [(''id'', JStr ''target''), (''label'', JStr ''Target''), (''type'', JStr ''string'')]]),
      (''output'', JObj [(''parser'', JStr ''text'')]), (''safety'', JObj [(''level'', JStr ''safe'')]),
      (''checksum'', JStr (replicate 64 (CHR ''a'')))]"

definition example_manifest_text :: string where
  "example_manifest_text = dumps (\<lambda>r. ''0.0'') default_seps (JObj example_manifest)"

definition example_dir :: plugin_dir where
  "example_dir = \<lparr>dir_name = ''ping'', metadata_text = Some example_manifest_text, has_parser = False\<rparr>"

lemma example_manifest_read: "loads fl example_manifest_text = Some (JObj example_manifest)"
  unfolding example_manifest_text_def by (rule loads_dumps) (simp_all add: example_manifest_def)

lemma example_validated:
  "validate_manifest fl example_dir = Some \<lparr>vr_plugin = JStr ''ping'', vr_errors = [], vr_warnings = [''fields[0].help'']\<rparr>"
proof -
  have c: "check_required_fields example_manifest = []" "check_category example_manifest = Some []" "check_engine example_manifest = Some []"
    "check_command_template example_manifest = Some []" "check_fields example_manifest = Some ([], [''fields[0].help''])"
    "check_output example_manifest = Some []" "check_safety example_manifest = Some []" "check_validation_block example_manifest = Some []"
    "check_checksum example_manifest = []" "check_dependencies example_manifest = []" "check_custom_parser False example_manifest = []"
    "jor (jget example_manifest ''id'') (JStr ''ping'') = JStr ''ping''"
    by code_simp+
  show ?thesis unfolding validate_manifest_def example_dir_def by (simp add: example_manifest_read c)
qed

theorem valid_manifest_sound_witness:
  "\<exists>r fs. validate_manifest (\<lambda>r. r) example_dir = Some r \<and> valid_result r \<and> jget example_manifest ''fields'' = JList (map JObj fs)
     \<and> distinct (map (\<lambda>f. jget f ''id'') fs)"
proof -
  let ?r = "\<lparr>vr_plugin = JStr ''ping'', vr_errors = [], vr_warnings = [''fields[0].help'']\<rparr>"
  have v: "valid_result ?r" by (simp add: valid_result_def)
  obtain raw data fs where d: "metadata_text example_dir = Some raw" "loads (\<lambda>r. r) raw = Some (JObj data)"
      "jget data ''fields'' = JList (map JObj fs)" "distinct (map (\<lambda>f. jget f ''id'') fs)"
    using valid_manifest_sound [OF example_validated v] by blast
  have "data = example_manifest"
    using d(1,2) example_manifest_read [of "\<lambda>r. r"] by (simp add: example_dir_def)
  then show ?thesis using d example_validated v by blast
qed

text \<open>A null in place of the fields is not reported: the iteration for the template raises.\<close>

lemma null_fields_raise:
  "check_command_template [(''command_template'', JList []), (''fields'', JNull)] = None"
  by (simp add: check_command_template_def known_field_ids_def field_items_def jget_def jget_or_def)

text \<open>The placeholders of a conditional token are not looked up.\<close>

lemma conditional_unchecked: "token_errors known i (JStr ''--if:verbose:then:{undeclared}'') = []"
  by (simp add: token_errors_def)

end
