(* ===== verification/Spec2Isabelle.thy ===== *)
theory Spec2Isabelle
  imports Rate_Limit_Properties Scan_Limiter Response_Cache Network_Policy Plugin_Commands
    Finding_Intelligence Task_Events Task_Lifecycle Result_Contract Db_Transactions Workflows Parser_Sandbox Auth Notifications
    Saved_Views Owner_Resources Task_Queries Task_Deletion Reporting Manifest_Validator
begin

text \<open>
  Verification of the SecuScan backend (\<open>backend/secuscan\<close>, Python): a FastAPI service that runs
  external security scanners on behalf of several owners and stores, scores and reports what they find.

  \<^bold>\<open>The parts and how they interact.\<close> A request reaches a route of \<open>routes.py\<close> behind the checks of
  \<open>auth.py\<close>. \<open>start_task\<close> checks it (payload limits, consent, policies of the owner, target
  validation, quota), inserts a row, takes a slot and schedules \<open>TaskExecutor.execute_task\<close>. The
  executor claims the row, checks the plugin, its capabilities and the target again, renders the
  command of the plugin, runs the scanner, gives its output to a parser in a sandbox, normalises and
  scores the findings against the earlier ones, stores them in one transaction and publishes events. The
  findings are then sent to notification rules. A scheduler starts the tasks of workflows on its own.

  \<^bold>\<open>Theories.\<close> Each holds the state, the operations and the lemmas of one component, with the names of
  the source where Isabelle allows it; names in brackets are files under \<open>backend/secuscan\<close>.

  \<^item> \<open>Prelude\<close>: Python strings and arithmetic over ASCII. \<open>Json_Value\<close>: the values of \<open>json\<close>, their
    truth and dictionary access. \<open>Json_Text\<close>: \<open>json.dumps\<close>, \<open>json.loads\<close> and their round trip.
    \<open>Regex_Match\<close>: a backtracking matcher for the patterns of \<open>re\<close>. \<open>Ip_Address\<close>: \<open>ipaddress\<close> and
    \<open>urllib.parse\<close>. These five model the standard library.
  \<^item> \<open>Sliding_Window\<close>: the contract of the per-client limiters, a locale. \<open>Rate_Limits\<close> and
    \<open>Rate_Limit_Properties\<close> [ratelimit.py]: quotas, slots, endpoint windows, workflow intervals, as
    interpretations of it. \<open>Scan_Limiter\<close> [rate_limiter.py]: fixed windows with and without Redis.
  \<^item> \<open>Response_Cache\<close> [cache.py]: expiry, eviction and prefix invalidation.
  \<^item> \<open>Network_Policy\<close> [network_policy.py]: rules, decisions, pinning and the audit trail; the locale
    \<open>egress_gate\<close> is what its callers rely on.
  \<^item> \<open>Target_Validation\<close> [validation.py]: targets, ports, URLs, webhooks, payload limits, the egress
    check of a command.
  \<^item> \<open>Capabilities\<close> [capabilities.py] and \<open>Plugin_Commands\<close> [plugins.py]: what a plugin may do, its
    integrity, its inputs and its command line.
  \<^item> \<open>Vault\<close> [vault.py, config.py]: sealing of credentials, base64 and the key derivation.
  \<^item> \<open>Task_Admission\<close>, \<open>Task_Lifecycle\<close>, \<open>Task_Launch\<close>, \<open>Task_Events\<close> [routes.py, executor.py,
    execution_context.py, executor_target_helpers.py, platform_resources.py]: the handlers as functions of
    the shared state, the interleaving of handlers and executions as a step relation, the decisions
    between claim and launch, the listener queues.
  \<^item> \<open>Parser_Sandbox\<close> [parser_sandbox.py]: the child process of a parser and the judgement of its output.
    \<open>Result_Contract\<close> [executor.py]: parsers, normalisation and persistence. \<open>Risk_Scoring\<close>
    [risk_scoring.py] and \<open>Finding_Intelligence\<close> [finding_intelligence.py]: scores, correlation, groups,
    assets and differences of scans.
  \<^item> \<open>Db_Transactions\<close> [database.py]: the shared connection and its transactions.
  \<^item> \<open>Workflows\<close> [workflows.py, routes.py, database.py]: scheduler, versions, roll-back and runs; the
    locale \<open>step_runner\<close> is the contract of manual and scheduled runs.
  \<^item> \<open>Auth\<close> [auth.py]: the deployment key, signed sessions, owners.
  \<^item> \<open>Redaction\<close> [redaction.py], \<open>Webhook_Delivery\<close> and \<open>Notifications\<close> [notification_service.py,
    routes.py]: secret patterns, payloads, the checks of outgoing connections, rules and their history.
  \<^item> \<open>Sql_Tables\<close>: rows, selection, update and deletion of a table, and \<open>LIKE\<close>. \<open>Saved_Views\<close>
    [saved_views.py], \<open>Owner_Resources\<close> and \<open>Task_Queries\<close> [routes.py, routes_json_helpers.py]: the
    presets of an owner, his policies, profiles and secrets, the search and the pages of the task list.
  \<^item> \<open>Task_Deletion\<close> [routes.py, database.py]: the deletion of one, many and all tasks with what hangs
    on them, in one transaction over seven tables and the output files.
  \<^item> \<open>Reporting\<close> [reporting.py, routes_report_helpers.py, routes.py]: the payload of a report, its CSV and
    SARIF forms, the download routes. \<open>Manifest_Validator\<close> [plugin_validator.py]: the checks of a
    contributed plugin.

  \<^bold>\<open>State and operations.\<close> What the code keeps in an object is a record (the executor with its slots and
  registrations, the connection with committed and seen contents, the cache, the limiter windows); a
  table is a list of rows, a row a record or a dictionary of \<open>json\<close> values; a handler is a function from
  the state and the request to the answer and the new state, with the answer of every early return and
  exception. Where the order of concurrent steps matters (task executions, the scheduler, creation of
  views, deletions during an open transaction) the handler is split at its await points and the
  interleavings are a step relation or a list of requests of any owners.

  \<^bold>\<open>What the lemmas show.\<close> Of the admission, launch and command theories: nothing runs that was not
  admitted, is not allowed to the plugin or carries a character its template did not ask for. Of the
  lifecycle: slots, rows and registrations agree, and every execution ends. Of the result theories: what
  is stored is typed, correlated within its owner's group, and stored as a whole or not at all. Of the
  owner theories: what an owner sees and keeps depends on his own requests only. Of the encoders (JSON
  text, base64 and the vault, session tokens, versions, CSV): reading gives back what was written. Of
  limiters, cache, queues and pages: their bounds, and their agreement with the simpler definitions.
  Some lemmas state where the code does less than its comments say, each with a concrete input.

  \<^bold>\<open>Interfaces.\<close> A locale states what one component relies on of another, and is interpreted on the
  model of the provider: the sliding windows and the slot pool of the limiters, the prefix store of the
  cache, the egress gate of the network policy, the step runner of the workflows, and the tables whose
  operations keep an owner's rows to himself, on which saved views, resources and secrets rest.

  \<^bold>\<open>Parameters.\<close> Libraries and services outside the repository are arguments: AES-GCM, SHA-256 and HMAC
  with the laws the code relies on, name resolution, Redis, the clock and fresh identifiers, the
  scanner process and its output, the parser of a plugin, the texts of floats and containers, whether
  an HTTP delivery succeeds. Each property with a law about one of them has a witness with a function
  that satisfies it.

  \<^bold>\<open>Bounds and fuel.\<close> \<open>loads\<close> runs with fuel twice the length of its text plus two, enough since each
  nesting level takes two steps and at least one character. A repetition in \<open>Regex_Match\<close> has the length of the
  text ahead plus its lower bound plus one as fuel, and an iteration that matches nothing stops it. A workflow run
  is polled at most 720 times, as in the code. Deletion goes in chunks of 500 identifiers. Identifiers,
  times and scores are unbounded integers and rationals as in Python; scores of floats are rationals, so
  their rounding is that of exact arithmetic.

  \<^bold>\<open>Not modelled.\<close> The HTML and PDF layouts (templates around the modelled payload); the crawler, the
  modular scanners and the sandbox executor (network and process calls, whose results enter as
  parameters); the parsers of single plugins (text matching of one tool each, behind the modelled contract); the suggestions
  of triage, remediation and knowledge base (a parameter of the stored results); the SQL schema beyond
  its keys, and migrations; SMTP and the scan-completion messages of the notification service; the
  routes that only read and assemble answers; start-up, command line, logging, scripts and front end.
\<close>

end
